(* ===== verification/Opftp_Prelude.thy ===== *)
theory Opftp_Prelude
  imports Main "HOL-Library.Word" "HOL-Library.Sublist"
begin

text \<open>
  Shared vocabulary of the development: the error numbers of the C code, C strings and the
  part of the C library the sources use (\<open>toupper\<close>, \<open>isdigit\<close>, \<open>strcasecmp\<close>,
  \<open>snprintf\<close>, \<open>strtoull\<close>, \<open>strtol\<close>, \<open>atoi\<close>, decimal output), and the
  generic lemmas on lists that several components need.

  A C string is a \<^typ>\<open>string\<close> without its terminating NUL, so \<open>strlen\<close> is
  \<^const>\<open>length\<close>; a pointer into a string is the suffix it points to.
\<close>

section \<open>Rule collections\<close>

named_theorems cstr_simps \<open>evaluation of the C string helpers\<close>
named_theorems opftp_defs \<open>definitions of the modelled operations, for unfolding\<close>

section \<open>Error numbers\<close>

text \<open>
  The \<open>errno\<close> values the sources mention; any other value a system call may report is
  \<open>EOTHER\<close>. \<open>EWOULDBLOCK\<close> is \<open>EAGAIN\<close> on the modelled hosts. A C result
  \<open>0\<close> or \<open>-errno\<close> is an \<^typ>\<open>'a option\<close> with \<^const>\<open>None\<close> for \<open>0\<close>.
\<close>

datatype errno =
    EPERM | ENOENT | EIO | EBADF | EAGAIN | ENOMEM | EACCES | EFAULT | EBUSY | EEXIST
  | ENOTDIR | EISDIR | EINVAL | EMFILE | EFBIG | ENOSPC | ESPIPE | EROFS | EPIPE | ERANGE
  | ENAMETOOLONG | ENOSYS | ENOTEMPTY | ELOOP | ENOTSUP | ECONNRESET | ENOTCONN | ETIMEDOUT
  | EALREADY | EINPROGRESS | ECANCELED | EINTR | EOTHER nat

type_synonym rc = "errno option"

section \<open>Characters and C strings\<close>

abbreviation slash :: char where "slash \<equiv> CHR ''/''"
abbreviation space :: char where "space \<equiv> CHR '' ''"
abbreviation CR :: char where "CR \<equiv> CHR 0x0D"
abbreviation LF :: char where "LF \<equiv> CHR 0x0A"
abbreviation crlf :: string where "crlf \<equiv> [CR, LF]"

definition c_code :: "char \<Rightarrow> nat" where
  "c_code c = of_char c"

definition c_isdigit :: "char \<Rightarrow> bool" where
  "c_isdigit c \<longleftrightarrow> 48 \<le> c_code c \<and> c_code c \<le> 57"

definition c_isspace :: "char \<Rightarrow> bool" where
  "c_isspace c \<longleftrightarrow> c_code c = 32 \<or> (9 \<le> c_code c \<and> c_code c \<le> 13)"

definition c_toupper :: "char \<Rightarrow> char" where
  "c_toupper c = (if 97 \<le> c_code c \<and> c_code c \<le> 122 then char_of (c_code c - 32) else c)"

text \<open>\<open>strcasecmp (a, b) == 0\<close> and \<open>strncasecmp (a, b, n) == 0\<close>.\<close>

definition c_strcaseeq :: "string \<Rightarrow> string \<Rightarrow> bool" where
  "c_strcaseeq a b \<longleftrightarrow> map c_toupper a = map c_toupper b"

definition c_strncaseeq :: "nat \<Rightarrow> string \<Rightarrow> string \<Rightarrow> bool" where
  "c_strncaseeq n a b \<longleftrightarrow> map c_toupper (take n a) = map c_toupper (take n b)"

text \<open>\<open>while (*p == ' ') p++\<close>.\<close>

definition skip_spaces :: "string \<Rightarrow> string" where
  "skip_spaces s = dropWhile (\<lambda>c. c = space) s"

text \<open>What \<open>snprintf (buf, n, ...)\<close> leaves in \<open>buf\<close> for \<open>n > 0\<close>.\<close>

definition c_snprintf :: "nat \<Rightarrow> string \<Rightarrow> string" where
  "c_snprintf n s = take (n - 1) s"

text \<open>\<open>strrchr (p, '/') + 1\<close>, or \<open>p\<close> itself when there is no slash.\<close>

definition base_name :: "string \<Rightarrow> string" where
  "base_name p = rev (takeWhile (\<lambda>c. c \<noteq> slash) (rev p))"

subsection \<open>Decimal output\<close>

fun dec :: "nat \<Rightarrow> string" where
  "dec n = (if n < 10 then [char_of (48 + n)] else dec (n div 10) @ [char_of (48 + n mod 10)])"

declare dec.simps [simp del]

definition zero_pad :: "nat \<Rightarrow> string \<Rightarrow> string" where
  "zero_pad w s = replicate (w - length s) (CHR ''0'') @ s"

definition space_pad :: "nat \<Rightarrow> string \<Rightarrow> string" where
  "space_pad w s = replicate (w - length s) space @ s"

text \<open>\<open>%0wd\<close> for a signed argument: the sign counts towards the width.\<close>

definition dec_int :: "nat \<Rightarrow> int \<Rightarrow> string" where
  "dec_int w i =
     (if i < 0 then CHR ''-'' # zero_pad (w - 1) (dec (nat (- i)))
      else zero_pad w (dec (nat i)))"

subsection \<open>Number input\<close>

text \<open>The digits' value in a base, most significant first.\<close>

definition digits_val :: "nat \<Rightarrow> string \<Rightarrow> nat" where
  "digits_val b ds = foldl (\<lambda>v c. v * b + (c_code c - 48)) 0 ds"

definition c_isbase :: "nat \<Rightarrow> char \<Rightarrow> bool" where
  "c_isbase b c \<longleftrightarrow> 48 \<le> c_code c \<and> c_code c < 48 + b"

text \<open>
  The subject sequence of \<open>strtol\<close> and \<open>strtoull\<close> for a base up to ten: white space,
  an optional sign, digits. \<^const>\<open>None\<close> is "no conversion", where the C functions set
  \<open>end\<close> to the start of the string.
\<close>

definition strto_scan :: "nat \<Rightarrow> string \<Rightarrow> (bool \<times> nat \<times> string) option" where
  "strto_scan b s =
     (let s1 = dropWhile c_isspace s;
          neg = (s1 \<noteq> [] \<and> hd s1 = CHR ''-'');
          s2 = (if s1 \<noteq> [] \<and> (hd s1 = CHR ''-'' \<or> hd s1 = CHR ''+'') then tl s1 else s1);
          ds = takeWhile (c_isbase b) s2
      in if ds = [] then None else Some (neg, digits_val b ds, dropWhile (c_isbase b) s2))"

text \<open>\<open>strtoull (s, &end, 10)\<close> on a 64-bit \<open>unsigned long long\<close>: the value saturates,
  a minus sign negates modulo \<open>2 ^ 64\<close>.\<close>

definition c_strtoull :: "string \<Rightarrow> (64 word \<times> string) option" where
  "c_strtoull s =
     (case strto_scan 10 s of
        None \<Rightarrow> None
      | Some (neg, v, rest) \<Rightarrow>
          Some (if v \<ge> 2 ^ 64 then - 1 else if neg then - of_nat v else of_nat v, rest))"

text \<open>\<open>strtol (s, &end, b)\<close> on a 64-bit \<open>long\<close>: saturates at both ends.\<close>

definition c_strtol :: "nat \<Rightarrow> string \<Rightarrow> (int \<times> string) option" where
  "c_strtol b s =
     (case strto_scan b s of
        None \<Rightarrow> None
      | Some (neg, v, rest) \<Rightarrow>
          Some (if neg then max (- (2 ^ 63)) (- int v) else min (2 ^ 63 - 1) (int v), rest))"

text \<open>\<open>atoi\<close>: \<open>strtol\<close> in base ten, converted to a 32-bit \<open>int\<close>.\<close>

definition c_atoi :: "string \<Rightarrow> int" where
  "c_atoi s =
     (case c_strtol 10 s of
        None \<Rightarrow> 0
      | Some (v, _) \<Rightarrow> sint (word_of_int v :: 32 word))"

section \<open>Lemmas\<close>

lemmas cstr_defs = c_code_def c_isdigit_def c_isspace_def c_toupper_def c_strcaseeq_def
  c_strncaseeq_def skip_spaces_def c_snprintf_def base_name_def zero_pad_def space_pad_def
  dec_int_def digits_val_def c_isbase_def strto_scan_def

declare cstr_defs [cstr_simps] dec.simps [cstr_simps]

lemma length_c_snprintf: "length (c_snprintf n s) \<le> n - 1"
  by (simp add: c_snprintf_def)

lemma c_snprintf_id: "length s < n \<Longrightarrow> c_snprintf n s = s"
  by (simp add: c_snprintf_def)

lemma set_c_snprintf: "set (c_snprintf n s) \<subseteq> set s"
  by (simp add: c_snprintf_def set_take_subset)

lemma skip_spaces_hd: "skip_spaces s = c # cs \<Longrightarrow> c \<noteq> space"
  by (auto simp: skip_spaces_def dropWhile_eq_Cons_conv)

lemma skip_spaces_idem [simp]: "skip_spaces (skip_spaces s) = skip_spaces s"
  by (simp add: skip_spaces_def)

text \<open>Cutting a string at a separator.\<close>

lemma takeWhile_until: "c \<notin> set xs \<Longrightarrow> takeWhile (\<lambda>x. x \<noteq> c) (xs @ c # ys) = xs"
  by (induction xs) auto

lemma dropWhile_until: "c \<notin> set xs \<Longrightarrow> dropWhile (\<lambda>x. x \<noteq> c) (xs @ c # ys) = c # ys"
  by (induction xs) auto

lemma c_code_less: "c_code c < 256"
  by (simp add: c_code_def)

lemma c_code_eq_iff: "c_code c = c_code d \<longleftrightarrow> c = d"
  by (simp add: c_code_def)

lemma c_code_char_of: "n < 256 \<Longrightarrow> c_code (char_of n) = n"
  by (simp add: c_code_def)

lemma c_toupper_idem [simp]: "c_toupper (c_toupper c) = c_toupper c"
  by (auto simp: c_toupper_def c_code_def)

lemma c_toupper_slash: "c_toupper c = slash \<longleftrightarrow> c = slash"
proof -
  have "c_code (c_toupper c) = c_code slash \<longleftrightarrow> c_code c = c_code slash"
    by (auto simp: c_toupper_def c_code_def)
  then show ?thesis by (simp add: c_code_eq_iff)
qed

subsection \<open>Decimal digits\<close>

lemma dec_not_Nil [simp]: "dec n \<noteq> []"
  by (subst dec.simps) simp

lemma dec_digits: "list_all c_isdigit (dec n)"
proof (induction n rule: dec.induct)
  case (1 n)
  have "c_isdigit (char_of (48 + m))" if "m < 10" for m :: nat
    using that by (simp add: c_isdigit_def c_code_char_of)
  with 1 show ?case
    by (subst dec.simps) simp
qed

lemma digits_val_append: "digits_val b (xs @ [c]) = digits_val b xs * b + (c_code c - 48)"
  by (simp add: digits_val_def)

lemma digits_val_dec [simp]: "digits_val 10 (dec n) = n"
proof (induction n rule: dec.induct)
  case (1 n)
  show ?case
  proof (cases "n < 10")
    case True
    then show ?thesis
      by (subst dec.simps) (simp add: digits_val_def c_code_def)
  next
    case False
    with 1 show ?thesis
      by (subst dec.simps) (simp add: digits_val_append c_code_def)
  qed
qed

lemma length_dec_le: "n < 10 ^ k \<Longrightarrow> 0 < k \<Longrightarrow> length (dec n) \<le> k"
proof (induction n arbitrary: k rule: dec.induct)
  case (1 n)
  show ?case
  proof (cases "n < 10")
    case True
    with 1 show ?thesis by (subst dec.simps) simp
  next
    case False
    with 1 obtain k' where k: "k = Suc k'" and "0 < k'"
      by (cases k; cases "k - 1") auto
    with "1.prems" have "n div 10 < 10 ^ k'" by auto
    with 1 False k \<open>0 < k'\<close> show ?thesis by (subst dec.simps) auto
  qed
qed

subsection \<open>Words\<close>

text \<open>A 64-bit value that is not negative as \<open>int64_t\<close> is itself.\<close>

lemma sint_nonneg: "0 \<le> sint (x :: 64 word) \<Longrightarrow> nat (sint x) = unat x"
proof -
  assume "0 \<le> sint x"
  then have b: "\<not> bit (uint x) 63" by (simp add: sint_uint)
  have "take_bit (Suc 63) (uint x) = take_bit 63 (uint x)" using b by (simp only: take_bit_Suc_from_most) simp
  moreover have "uint x < 2 ^ 64" using unsigned_less [of x] by simp
  then have "take_bit (Suc 63) (uint x) = uint x" by (simp add: take_bit_int_eq_self)
  ultimately have "sint x = uint x" using b by (simp add: sint_uint signed_take_bit_eq_if_positive)
  then show ?thesis by simp
qed

subsection \<open>Lists\<close>

lemma base_name_append: "slash \<notin> set n \<Longrightarrow> base_name (p @ slash # n) = n"
  by (simp add: base_name_def takeWhile_append)

end
