(* ===== verification/Job_Queue.thy ===== *)
theory Job_Queue
  imports Opftp_Prelude
begin

text \<open>
  The bounded queue between the reactor and the transfer workers: the ring buffer fields
  \<open>queue\<close>, \<open>queue_head\<close>, \<open>queue_tail\<close>, \<open>queue_count\<close>, \<open>queue_cap\<close> of
  \<^verbatim>\<open>struct opftp_server\<close> and the operations on them in \<^verbatim>\<open>src/src/datachan.c\<close>:
  \<open>opftp_datachan_init\<close>, \<open>opftp_job_dispatch\<close>, the dequeue of \<open>opftp_transfer_worker\<close> and the
  walk over the queued jobs in \<open>opftp_datachan_shutdown\<close>. Every operation runs under
  \<open>queue_mutex\<close>, so each is one atomic step.

  The contract is a bounded first-in first-out queue, the locale \<open>bounded_queue\<close>; the ring is
  shown to refine it. Slots hold the job pointers, which are job identifiers in the model.
\<close>

section \<open>Definitions\<close>

record 'j ring =
  queue :: "'j option list"
  queue_head :: nat
  queue_tail :: nat
  queue_count :: nat
  queue_cap :: nat
  pool_running :: bool
  workers_alive :: nat

text \<open>The queue part of \<open>opftp_datachan_init\<close>: room for two jobs per requested worker.\<close>

definition queue_init :: "nat \<Rightarrow> 'j ring" where
  "queue_init workers_req =
     \<lparr> queue = replicate (workers_req * 2) None, queue_head = 0, queue_tail = 0, queue_count = 0,
       queue_cap = workers_req * 2, pool_running = True, workers_alive = 0 \<rparr>"

definition opftp_job_dispatch :: "'j \<Rightarrow> 'j ring \<Rightarrow> rc \<times> 'j ring" where
  "opftp_job_dispatch j s =
     (if queue_count s \<ge> queue_cap s then (Some EAGAIN, s)
      else (None, s\<lparr> queue := (queue s)[queue_tail s := Some j],
                     queue_tail := (queue_tail s + 1) mod queue_cap s,
                     queue_count := queue_count s + 1 \<rparr>))"

text \<open>One pass of the worker loop under the lock.  A worker sleeps on the condition variable
  while the queue is empty and the pool runs, exits when it is empty and the pool was stopped,
  and takes the job at the head otherwise.\<close>

datatype 'j dequeue = Sleep | Exit | Take "'j option"

definition worker_dequeue :: "'j ring \<Rightarrow> 'j dequeue \<times> 'j ring" where
  "worker_dequeue s =
     (if queue_count s = 0 \<and> pool_running s then (Sleep, s)
      else if queue_count s = 0 \<and> \<not> pool_running s then (Exit, s)
      else (Take (queue s ! queue_head s),
            s\<lparr> queue_head := (queue_head s + 1) mod queue_cap s,
               queue_count := queue_count s - 1 \<rparr>))"

definition worker_enter :: "'j ring \<Rightarrow> 'j ring" where
  "worker_enter s = s\<lparr> workers_alive := workers_alive s + 1 \<rparr>"

definition worker_leave :: "'j ring \<Rightarrow> 'j ring" where
  "worker_leave s = s\<lparr> workers_alive := workers_alive s - 1 \<rparr>"

text \<open>The jobs in the order the \<open>for\<close> loops of \<open>opftp_datachan_shutdown\<close> visit them.\<close>

definition queued_jobs :: "'j ring \<Rightarrow> 'j option list" where
  "queued_jobs s = map (\<lambda>i. queue s ! ((queue_head s + i) mod queue_cap s)) [0..<queue_count s]"

text \<open>The first part of the shutdown: the pool is stopped and the queued jobs, which are to be
  cancelled, are returned.\<close>

definition shutdown_begin :: "'j ring \<Rightarrow> 'j option list \<times> 'j ring" where
  "shutdown_begin s = (queued_jobs s, s\<lparr> pool_running := False \<rparr>)"

definition ring_ok :: "'j ring \<Rightarrow> bool" where
  "ring_ok s \<longleftrightarrow> length (queue s) = queue_cap s \<and> 0 < queue_cap s \<and> queue_count s \<le> queue_cap s \<and>
     queue_head s < queue_cap s \<and> queue_tail s = (queue_head s + queue_count s) mod queue_cap s \<and>
     None \<notin> set (queued_jobs s)"

text \<open>The abstraction: the jobs waiting, oldest first.\<close>

definition ring_list :: "'j ring \<Rightarrow> 'j list" where
  "ring_list s = map the (queued_jobs s)"

section \<open>The contract of a bounded queue\<close>

locale bounded_queue =
  fixes enq :: "'j \<Rightarrow> 'q \<Rightarrow> rc \<times> 'q"
    and deq :: "'q \<Rightarrow> 'j option \<times> 'q"
    and content :: "'q \<Rightarrow> 'j list"
    and cap :: "'q \<Rightarrow> nat"
    and invar :: "'q \<Rightarrow> bool"
  assumes enq_full: "invar q \<Longrightarrow> cap q \<le> length (content q) \<Longrightarrow> enq j q = (Some EAGAIN, q)"
    and enq_ok: "invar q \<Longrightarrow> length (content q) < cap q \<Longrightarrow>
      fst (enq j q) = None \<and> content (snd (enq j q)) = content q @ [j]"
    and enq_invar: "invar q \<Longrightarrow> invar (snd (enq j q)) \<and> cap (snd (enq j q)) = cap q"
    and deq_empty: "invar q \<Longrightarrow> content q = [] \<Longrightarrow> deq q = (None, q)"
    and deq_ok: "invar q \<Longrightarrow> content q = j # js \<Longrightarrow> fst (deq q) = Some j \<and> content (snd (deq q)) = js"
    and deq_invar: "invar q \<Longrightarrow> invar (snd (deq q)) \<and> cap (snd (deq q)) = cap q"
    and content_bound: "invar q \<Longrightarrow> length (content q) \<le> cap q"
begin

text \<open>A run of enqueue (\<open>Inl\<close>) and dequeue (\<open>Inr\<close>) steps, with the jobs accepted and the jobs
  handed out.\<close>

fun run :: "('j + unit) list \<Rightarrow> 'q \<Rightarrow> 'j list \<times> 'j list \<times> 'q" where
  "run [] q = ([], [], q)"
| "run (Inl j # es) q =
     (case enq j q of (r, q') \<Rightarrow> case run es q' of (ins, outs, q'') \<Rightarrow>
        (if r = None then j # ins else ins, outs, q''))"
| "run (Inr u # es) q =
     (case deq q of (r, q') \<Rightarrow> case run es q' of (ins, outs, q'') \<Rightarrow>
        (ins, (case r of None \<Rightarrow> outs | Some j \<Rightarrow> j # outs), q''))"

text \<open>No accepted job is lost, duplicated or reordered.\<close>

lemma run_fifo:
  "invar q \<Longrightarrow> run es q = (ins, outs, q') \<Longrightarrow>
   invar q' \<and> cap q' = cap q \<and> content q @ ins = outs @ content q'"
proof (induction es q arbitrary: ins outs q' rule: run.induct)
  case (2 j es q)
  obtain r q1 where e: "enq j q = (r, q1)" by (cases "enq j q")
  obtain ins1 where r: "run es q1 = (ins1, outs, q')" "ins = (if r = None then j # ins1 else ins1)"
    using 2(3) e by (auto split: prod.splits)
  have i: "invar q1" "cap q1 = cap q" using enq_invar [OF 2(2), of j] e by auto
  from 2(1) [OF e [symmetric] i(1) r(1)]
  have IH: "invar q'" "cap q' = cap q1" "content q1 @ ins1 = outs @ content q'" by auto
  show ?case
  proof (cases "length (content q) < cap q")
    case True
    with enq_ok [OF 2(2), of j] e have "r = None" "content q1 = content q @ [j]" by auto
    with IH i r(2) show ?thesis by simp
  next
    case False
    with enq_full [OF 2(2), of j] e have "r = Some EAGAIN" "q1 = q" by auto
    with IH i r(2) show ?thesis by simp
  qed
next
  case (3 u es q)
  obtain r q1 where e: "deq q = (r, q1)" by (cases "deq q")
  obtain outs1 where r: "run es q1 = (ins, outs1, q')"
    "outs = (case r of None \<Rightarrow> outs1 | Some j \<Rightarrow> j # outs1)"
    using 3(3) e by (auto split: prod.splits)
  have i: "invar q1" "cap q1 = cap q" using deq_invar [OF 3(2)] e by auto
  from 3(1) [OF e [symmetric] i(1) r(1)]
  have IH: "invar q'" "cap q' = cap q1" "content q1 @ ins = outs1 @ content q'" by auto
  show ?case
  proof (cases "content q")
    case Nil
    with deq_empty [OF 3(2)] e have "r = None" "q1 = q" by auto
    with IH i r(2) show ?thesis by simp
  next
    case (Cons j js)
    with deq_ok [OF 3(2) Cons] e have "r = Some j" "content q1 = js" by auto
    with IH i r(2) Cons show ?thesis by simp
  qed
qed simp

end

section \<open>The ring buffer is a bounded queue\<close>

lemma length_queued_jobs [simp]: "length (queued_jobs s) = queue_count s"
  by (simp add: queued_jobs_def)

lemma length_ring_list [simp]: "length (ring_list s) = queue_count s"
  by (simp add: ring_list_def)

lemma queued_jobs_nth:
  "i < queue_count s \<Longrightarrow> queued_jobs s ! i = queue s ! ((queue_head s + i) mod queue_cap s)"
  by (simp add: queued_jobs_def)

lemma ring_list_Some: "ring_ok s \<Longrightarrow> map Some (ring_list s) = queued_jobs s"
  unfolding ring_list_def ring_ok_def by (auto intro!: map_idI simp: comp_def) (metis option.exhaust_sel)

text \<open>Enqueueing writes the slot behind the last job, which no queued job occupies.\<close>

lemma mod_add_inj:
  assumes "(h::nat) < c" "i < c" "k < c" "(h + i) mod c = (h + k) mod c"
  shows "i = k"
proof -
  have "(h + x) mod c = (if h + x < c then h + x else h + x - c)" if "x < c" for x
    using that assms(1) by (simp add: le_mod_geq)
  from this [OF assms(2)] this [OF assms(3)] show ?thesis
    using assms by (auto split: if_splits)
qed

lemma enqueue_jobs:
  assumes ok: "ring_ok s" and room: "queue_count s < queue_cap s"
  shows "queued_jobs (snd (opftp_job_dispatch j s)) = queued_jobs s @ [Some j]"
proof (rule nth_equalityI)
  let ?s = "snd (opftp_job_dispatch j s)"
  have d: "?s = s\<lparr> queue := (queue s)[queue_tail s := Some j],
      queue_tail := (queue_tail s + 1) mod queue_cap s, queue_count := queue_count s + 1 \<rparr>"
    using room by (simp add: opftp_job_dispatch_def)
  show "length (queued_jobs ?s) = length (queued_jobs s @ [Some j])" by (simp add: d)
  fix i assume "i < length (queued_jobs ?s)"
  then have i: "i \<le> queue_count s" by (simp add: d)
  show "queued_jobs ?s ! i = (queued_jobs s @ [Some j]) ! i"
  proof (cases "i = queue_count s")
    case True
    then show ?thesis
      using ok by (simp add: d queued_jobs_nth nth_append ring_ok_def)
  next
    case False
    with i have "i < queue_count s" by simp
    moreover have "queue_tail s \<noteq> (queue_head s + i) mod queue_cap s"
      using mod_add_inj [of "queue_head s" "queue_cap s" i "queue_count s"] ok room \<open>i < queue_count s\<close>
      by (auto simp: ring_ok_def)
    ultimately show ?thesis
      by (simp add: d queued_jobs_nth nth_append)
  qed
qed

lemma enqueue_ring_ok:
  assumes ok: "ring_ok s"
  shows "ring_ok (snd (opftp_job_dispatch j s))"
proof (cases "queue_count s < queue_cap s")
  case True
  then show ?thesis
    using ok enqueue_jobs [OF ok True]
    by (simp add: ring_ok_def opftp_job_dispatch_def mod_Suc_eq)
qed (use ok in \<open>simp add: opftp_job_dispatch_def\<close>)

text \<open>Dequeueing removes the oldest job.\<close>

lemma dequeue_jobs:
  assumes ok: "ring_ok s" and ne: "queue_count s \<noteq> 0"
  shows "fst (worker_dequeue s) = Take (hd (queued_jobs s))"
    and "queued_jobs (snd (worker_dequeue s)) = tl (queued_jobs s)"
proof -
  have c: "queue_cap s > 0" "queue_head s < queue_cap s" using ok by (auto simp: ring_ok_def)
  have "queued_jobs s \<noteq> []" using ne by (metis length_queued_jobs list.size(3))
  then show "fst (worker_dequeue s) = Take (hd (queued_jobs s))"
    using ne c queued_jobs_nth [of 0 s] by (simp add: worker_dequeue_def hd_conv_nth)
  show "queued_jobs (snd (worker_dequeue s)) = tl (queued_jobs s)"
  proof (rule nth_equalityI)
    show "length (queued_jobs (snd (worker_dequeue s))) = length (tl (queued_jobs s))"
      using ne by (simp add: worker_dequeue_def)
    fix i assume "i < length (queued_jobs (snd (worker_dequeue s)))"
    then have "i < queue_count s - 1" using ne by (simp add: worker_dequeue_def)
    then show "queued_jobs (snd (worker_dequeue s)) ! i = tl (queued_jobs s) ! i"
      using ne by (simp add: worker_dequeue_def queued_jobs_nth nth_tl mod_Suc_eq mod_add_left_eq)
  qed
qed

lemma dequeue_ring_ok:
  assumes ok: "ring_ok s"
  shows "ring_ok (snd (worker_dequeue s))"
proof (cases "queue_count s = 0")
  case False
  have "None \<notin> set (tl (queued_jobs s))"
    using ok unfolding ring_ok_def by (metis list.sel(2) list.set_sel(2))
  moreover obtain m where "queue_count s = Suc m" using False by (cases "queue_count s") auto
  ultimately show ?thesis
    using ok dequeue_jobs(2) [OF ok False]
    by (simp add: ring_ok_def worker_dequeue_def mod_Suc_eq mod_add_left_eq)
qed (use ok in \<open>simp add: worker_dequeue_def\<close>)

text \<open>The view of the worker step as a dequeue: nothing is handed out when it sleeps or exits.\<close>

definition ring_deq :: "'j ring \<Rightarrow> 'j option \<times> 'j ring" where
  "ring_deq s = (case worker_dequeue s of (Take j, s') \<Rightarrow> (j, s') | (_, s') \<Rightarrow> (None, s'))"

interpretation rq: bounded_queue opftp_job_dispatch ring_deq ring_list queue_cap ring_ok
proof unfold_locales
  fix s :: "'a ring" and j
  assume ok: "ring_ok s"
  show "queue_cap s \<le> length (ring_list s) \<Longrightarrow> opftp_job_dispatch j s = (Some EAGAIN, s)"
    by (simp add: opftp_job_dispatch_def)
  show "length (ring_list s) < queue_cap s \<Longrightarrow> fst (opftp_job_dispatch j s) = None \<and>
      ring_list (snd (opftp_job_dispatch j s)) = ring_list s @ [j]"
    using enqueue_jobs [OF ok] by (simp add: ring_list_def) (simp add: opftp_job_dispatch_def)
  show "ring_ok (snd (opftp_job_dispatch j s)) \<and>
      queue_cap (snd (opftp_job_dispatch j s)) = queue_cap s"
    using enqueue_ring_ok [OF ok] by (simp add: opftp_job_dispatch_def)
  show "ring_list s = [] \<Longrightarrow> ring_deq s = (None, s)"
    using length_ring_list [of s] by (simp add: ring_deq_def worker_dequeue_def)
  show "length (ring_list s) \<le> queue_cap s"
    using ok by (simp add: ring_ok_def)
  show "ring_ok (snd (ring_deq s)) \<and> queue_cap (snd (ring_deq s)) = queue_cap s"
    using dequeue_ring_ok [OF ok] ok
    by (auto simp: ring_deq_def worker_dequeue_def split: if_splits)
next
  fix s :: "'a ring" and j js
  assume ok: "ring_ok s" and l: "ring_list s = j # js"
  from l have ne: "queue_count s \<noteq> 0" using length_ring_list [of s] by auto
  have q: "queued_jobs s = Some j # map Some js"
    using ring_list_Some [OF ok] l by simp
  then show "fst (ring_deq s) = Some j \<and> ring_list (snd (ring_deq s)) = js"
    using dequeue_jobs [OF ok ne]
    by (auto simp: ring_deq_def ring_list_def split: prod.splits dequeue.splits)
qed

lemma queue_init_ok: "0 < n \<Longrightarrow> ring_ok (queue_init n) \<and> ring_list (queue_init n) = []"
  by (simp add: ring_ok_def queue_init_def ring_list_def queued_jobs_def)

text \<open>A history of the queue: dispatches by the reactor and wake-ups of workers, in any order,
  with the jobs accepted, the jobs handed to workers and the final queue.\<close>

datatype 'j queue_event = Dispatch_Job 'j | Worker_Step

fun queue_run :: "'j queue_event list \<Rightarrow> 'j ring \<Rightarrow> 'j list \<times> 'j list \<times> 'j ring" where
  "queue_run [] s = ([], [], s)"
| "queue_run (Dispatch_Job j # es) s =
     (case opftp_job_dispatch j s of (r, s') \<Rightarrow>
        case queue_run es s' of (ins, outs, s'') \<Rightarrow> (if r = None then j # ins else ins, outs, s''))"
| "queue_run (Worker_Step # es) s =
     (case ring_deq s of (r, s') \<Rightarrow>
        case queue_run es s' of (ins, outs, s'') \<Rightarrow>
          (ins, (case r of None \<Rightarrow> outs | Some j \<Rightarrow> j # outs), s''))"

lemma queue_run_eq:
  "queue_run es s = rq.run (map (\<lambda>e. case e of Dispatch_Job j \<Rightarrow> Inl j | Worker_Step \<Rightarrow> Inr ()) es) s"
  by (induction es s rule: queue_run.induct) (simp_all split: prod.split)

section \<open>Properties\<close>

text \<open>
  C13: The ring buffer refines a bounded first-in first-out queue. From the empty queue, along any
  interleaving of dispatches and worker dequeues, the accepted jobs are exactly the jobs handed
  to workers followed by the jobs still queued, in order: nothing is lost, duplicated or
  reordered, and the queue never holds more than two jobs per worker.
\<close>

theorem job_queue_fifo:
  assumes "0 < workers_req" "queue_run es (queue_init workers_req) = (accepted, handed, s)"
  shows "ring_ok s \<and> accepted = handed @ ring_list s \<and> length (ring_list s) \<le> 2 * workers_req"
proof -
  have i: "ring_ok (queue_init workers_req :: 'a ring)" "ring_list (queue_init workers_req :: 'a ring) = []"
    using queue_init_ok [OF assms(1)] by auto
  have c: "queue_cap (queue_init workers_req :: 'a ring) = workers_req * 2"
    by (simp add: queue_init_def)
  from rq.run_fifo [OF i(1) assms(2) [unfolded queue_run_eq]] show ?thesis
    using i c rq.content_bound [of s] by simp
qed

theorem job_queue_fifo_witness:
  "case queue_run [Dispatch_Job (1::nat), Dispatch_Job 2, Dispatch_Job 3, Worker_Step, Dispatch_Job 4]
       (queue_init 1) of
     (accepted, handed, s) \<Rightarrow> accepted = [1, 2, 4] \<and> handed = [1] \<and> ring_list s = [2, 4]"
proof -
  let ?r = "queue_run [Dispatch_Job (1::nat), Dispatch_Job 2, Dispatch_Job 3, Worker_Step, Dispatch_Job 4]
       (queue_init 1)"
  have r: "?r = ([1, 2, 4], [1], snd (snd ?r))"
    by code_simp
  from job_queue_fifo [OF _ r] show ?thesis by (subst r) simp
qed

end
