(* ===== verification/Dispatch.thy ===== *)
theory Dispatch
  imports Opftp_Prelude "HOL-Library.Multiset"
begin

text \<open>
  The command registry: \<^verbatim>\<open>src/src/dispatch.c\<close>. The table is the array
  \<open>dispatch_entries\<close> of 64 slots of the server, \<^const>\<open>None\<close> standing for the NULL pointer before
  \<open>opftp_dispatch_init\<close> and after \<open>opftp_dispatch_free\<close>. A slot is \<^const>\<open>None\<close> while its
  \<open>used\<close> flag is clear, and otherwise holds the upper-cased name and the handler, which stands for
  the pair of the function pointer and its context.

  The contract of a registry is the locale \<open>command_registry\<close>: a finite map from names to
  handlers with bounded room. What the server relies on (all built-in commands are registered,
  a later registration overrides an earlier one) is proved in the locale, which is interpreted
  on the table.
\<close>

section \<open>Definitions\<close>

type_synonym 'h cmd_slot = "(string \<times> 'h) option"

type_synonym 'h cmd_table = "'h cmd_slot list"

definition DISPATCH_CAP :: nat where
  "DISPATCH_CAP = 64"

text \<open>The first argument tells whether \<open>calloc\<close> succeeds.\<close>

definition opftp_dispatch_init :: "bool \<Rightarrow> 'h cmd_table option \<Rightarrow> 'h cmd_table option" where
  "opftp_dispatch_init calloc_ok t =
     (case t of
        Some es \<Rightarrow> Some es
      | None \<Rightarrow> if calloc_ok then Some (replicate DISPATCH_CAP None) else None)"

definition opftp_dispatch_free :: "'h cmd_table option \<Rightarrow> 'h cmd_table option" where
  "opftp_dispatch_free t = None"

text \<open>The search loop of a registration: the index of the slot holding the name, if any, and
  the first unused slot seen before it.\<close>

fun register_scan :: "nat \<Rightarrow> nat option \<Rightarrow> string \<Rightarrow> 'h cmd_table \<Rightarrow> nat option \<times> nat option" where
  "register_scan i first_unused up [] = (None, first_unused)"
| "register_scan i first_unused up (None # es) =
     register_scan (Suc i) (case first_unused of None \<Rightarrow> Some i | Some k \<Rightarrow> Some k) up es"
| "register_scan i first_unused up (Some (n, h) # es) =
     (if n = up then (Some i, first_unused) else register_scan (Suc i) first_unused up es)"

definition opftp_dispatch_register ::
  "string option \<Rightarrow> 'h option \<Rightarrow> 'h cmd_table option \<Rightarrow> rc \<times> 'h cmd_table option" where
  "opftp_dispatch_register name fn t =
     (case (t, name, fn) of
        (Some es, Some name, Some fn) \<Rightarrow>
          (if length name = 0 \<or> length name \<ge> 8 then (Some EINVAL, t)
           else
             let up = map c_toupper name in
             (case register_scan 0 None up es of
                (Some i, _) \<Rightarrow> (None, Some (es[i := Some (up, fn)]))
              | (None, None) \<Rightarrow> (Some ENOSPC, t)
              | (None, Some i) \<Rightarrow> (None, Some (es[i := Some (up, fn)]))))
      | _ \<Rightarrow> (Some EINVAL, t))"

fun dispatch_find :: "'h cmd_table \<Rightarrow> string \<Rightarrow> 'h option" where
  "dispatch_find [] name = None"
| "dispatch_find (None # es) name = dispatch_find es name"
| "dispatch_find (Some (n, h) # es) name = (if n = name then Some h else dispatch_find es name)"

text \<open>The handler that a call runs; \<^const>\<open>None\<close> is the return value 1, an unknown command.\<close>

definition opftp_dispatch_call :: "'h cmd_table option \<Rightarrow> string option \<Rightarrow> 'h option" where
  "opftp_dispatch_call t name =
     (case (t, name) of (Some es, Some name) \<Rightarrow> dispatch_find es name | _ \<Rightarrow> None)"

text \<open>A sequence of registrations, as in \<open>opftp_commands_init\<close>, whose return codes are ignored.\<close>

fun register_all :: "(string \<times> 'h) list \<Rightarrow> 'h cmd_table option \<Rightarrow> 'h cmd_table option" where
  "register_all [] t = t"
| "register_all ((n, h) # cs) t =
     register_all cs (snd (opftp_dispatch_register (Some n) (Some h) t))"

text \<open>The names in the used slots, which are pairwise distinct.\<close>

definition used_names :: "'h cmd_table \<Rightarrow> string list" where
  "used_names es = [n. Some (n, h) \<leftarrow> es]"

definition table_ok :: "'h cmd_table option \<Rightarrow> bool" where
  "table_ok t =
     (case t of None \<Rightarrow> False
      | Some es \<Rightarrow> length es = DISPATCH_CAP \<and> distinct (used_names es) \<and>
          list_all (\<lambda>n. 0 < length n \<and> length n < 8 \<and> map c_toupper n = n) (used_names es))"

section \<open>The registry contract\<close>

locale command_registry =
  fixes register :: "string \<Rightarrow> 'h \<Rightarrow> 'r \<Rightarrow> rc \<times> 'r"
    and lookup :: "'r \<Rightarrow> string \<Rightarrow> 'h option"
    and invar :: "'r \<Rightarrow> bool"
    and room :: nat
    and fresh :: 'r
  assumes fresh_invar: "invar fresh"
    and fresh_lookup: "lookup fresh = Map.empty"
    and finite_lookup: "invar r \<Longrightarrow> finite (dom (lookup r))"
    and register_invar: "invar r \<Longrightarrow> invar (snd (register n h r))"
    and register_lookup:
      "invar r \<Longrightarrow> fst (register n h r) = None \<Longrightarrow>
       lookup (snd (register n h r)) = (lookup r)(map c_toupper n \<mapsto> h)"
    and register_reject: "fst (register n h r) \<noteq> None \<Longrightarrow> snd (register n h r) = r"
    and register_accepts:
      "invar r \<Longrightarrow> 0 < length n \<Longrightarrow> length n < 8 \<Longrightarrow>
       map c_toupper n \<in> dom (lookup r) \<or> card (dom (lookup r)) < room \<Longrightarrow>
       fst (register n h r) = None"
begin

fun install :: "(string \<times> 'h) list \<Rightarrow> 'r \<Rightarrow> 'r" where
  "install [] r = r"
| "install ((n, h) # cs) r = install cs (snd (register n h r))"

definition well_named :: "(string \<times> 'h) list \<Rightarrow> bool" where
  "well_named cs \<longleftrightarrow> list_all (\<lambda>(n, h). 0 < length n \<and> length n < 8 \<and> map c_toupper n = n) cs"

lemma install_invar: "invar r \<Longrightarrow> invar (install cs r)"
  by (induction cs r rule: install.induct) (auto intro: register_invar)

text \<open>As long as the names fit, every registration of the sequence takes effect, the later
  one winning where a name repeats.\<close>

lemma install_lookup:
  "invar r \<Longrightarrow> well_named cs \<Longrightarrow> card (dom (lookup r) \<union> fst ` set cs) \<le> room \<Longrightarrow>
   lookup (install cs r) = lookup r ++ map_of (rev cs)"
proof (induction cs r rule: install.induct)
  case (2 n h cs r)
  let ?r = "snd (register n h r)"
  from 2(3) have n: "0 < length n" "length n < 8" "map c_toupper n = n" and cs: "well_named cs"
    by (auto simp: well_named_def)
  have fin: "finite (dom (lookup r) \<union> fst ` set ((n, h) # cs))"
    using finite_lookup [OF 2(2)] by simp
  have ok: "fst (register n h r) = None"
  proof (cases "n \<in> dom (lookup r)")
    case True
    then show ?thesis using register_accepts [OF 2(2) n(1,2)] n(3) by simp
  next
    case False
    then have "dom (lookup r) \<subset> dom (lookup r) \<union> fst ` set ((n, h) # cs)" by auto
    from psubset_card_mono [OF fin this] have "card (dom (lookup r)) < room"
      using 2(4) by simp
    then show ?thesis using register_accepts [OF 2(2) n(1,2)] by simp
  qed
  have l: "lookup ?r = (lookup r)(n \<mapsto> h)"
    using register_lookup [OF 2(2) ok] n(3) by simp
  then have "dom (lookup ?r) \<union> fst ` set cs = dom (lookup r) \<union> fst ` set ((n, h) # cs)" by auto
  with 2(4) have "card (dom (lookup ?r) \<union> fst ` set cs) \<le> room" by simp
  from 2(1) [OF register_invar [OF 2(2)] cs this] show ?case
    unfolding l by (simp add: fun_upd_def map_add_def fun_eq_iff split: option.splits)
qed simp

text \<open>A rejected registration leaves every command as it was.\<close>

lemma register_other:
  "invar r \<Longrightarrow> m \<noteq> map c_toupper n \<Longrightarrow> lookup (snd (register n h r)) m = lookup r m"
  using register_lookup [of r n h] register_reject [of n h r] by (cases "fst (register n h r)") auto

end

section \<open>The table is a registry\<close>

lemma used_names_simps [simp]:
  "used_names [] = []"
  "used_names (None # es) = used_names es"
  "used_names (Some (n, h) # es) = n # used_names es"
  by (simp_all add: used_names_def)

lemma used_names_replicate [simp]: "used_names (replicate k None) = []"
  by (induction k) simp_all

lemma dispatch_find_replicate [simp]: "dispatch_find (replicate k None) n = None"
  by (induction k) simp_all

lemma dispatch_find_None: "dispatch_find es n = None \<longleftrightarrow> n \<notin> set (used_names es)"
  by (induction es n rule: dispatch_find.induct) auto

lemma dom_dispatch_find: "dom (dispatch_find es) = set (used_names es)"
  by (simp add: set_eq_iff domIff dispatch_find_None del: not_None_eq)

lemma nth_used_names: "es ! i = Some (n, h) \<Longrightarrow> i < length es \<Longrightarrow> n \<in> set (used_names es)"
proof (induction es arbitrary: i)
  case (Cons e es)
  then show ?case by (cases i; cases e) auto
qed simp

lemma length_used_names: "length (used_names es) \<le> length es"
proof (induction es)
  case (Cons e es)
  then show ?case by (cases e) auto
qed simp

lemma used_names_full:
  "length (used_names es) = length es \<longleftrightarrow> None \<notin> set es"
proof (induction es)
  case (Cons e es)
  then show ?case using length_used_names [of es] by (cases e) auto
qed simp

text \<open>What the scan computes.\<close>

lemma register_scan_found:
  "fst (register_scan i fu up es) = Some k \<Longrightarrow>
   \<exists>h. i \<le> k \<and> k < i + length es \<and> es ! (k - i) = Some (up, h)"
proof (induction i fu up es rule: register_scan.induct)
  case (2 i fu up es)
  then obtain h where "Suc i \<le> k" "k < Suc i + length es" "es ! (k - Suc i) = Some (up, h)" by auto
  then show ?case by (intro exI [of _ h]) (auto simp: nth_Cons')
next
  case (3 i fu up n h es)
  show ?case
  proof (cases "n = up")
    case True
    with 3 show ?thesis by auto
  next
    case False
    with 3 obtain g where "Suc i \<le> k" "k < Suc i + length es" "es ! (k - Suc i) = Some (up, g)" by auto
    then show ?thesis by (intro exI [of _ g]) (auto simp: nth_Cons')
  qed
qed simp

lemma register_scan_absent:
  "fst (register_scan i fu up es) = None \<longleftrightarrow> up \<notin> set (used_names es)"
  by (induction i fu up es rule: register_scan.induct) auto

lemma register_scan_free:
  "fst (register_scan i fu up es) = None \<Longrightarrow> snd (register_scan i fu up es) = Some k \<Longrightarrow>
   fu = Some k \<or> fu = None \<and> i \<le> k \<and> k < i + length es \<and> es ! (k - i) = None"
proof (induction i fu up es rule: register_scan.induct)
  case (2 i fu up es)
  show ?case
  proof (cases fu)
    case None
    with 2 consider "k = i" | "Suc i \<le> k \<and> k < Suc i + length es \<and> es ! (k - Suc i) = None"
      by auto
    then show ?thesis by cases (auto simp: None nth_Cons')
  qed (use 2 in auto)
next
  case (3 i fu up n h es)
  then have "n \<noteq> up" by (auto split: if_splits)
  with 3 show ?case by (auto simp: nth_Cons')
qed simp

lemma register_scan_full:
  "register_scan i fu up es = (None, None) \<longleftrightarrow> fu = None \<and> None \<notin> set es \<and> up \<notin> set (used_names es)"
  by (induction i fu up es rule: register_scan.induct) (auto split: option.splits)

lemma used_names_replace:
  "i < length es \<Longrightarrow> es ! i = Some (n, h) \<Longrightarrow> used_names (es[i := Some (n, g)]) = used_names es"
proof (induction es arbitrary: i)
  case (Cons e es)
  then show ?case by (cases i; cases e) auto
qed simp

lemma used_names_fill:
  "i < length es \<Longrightarrow> es ! i = None \<Longrightarrow>
   mset (used_names (es[i := Some (n, g)])) = add_mset n (mset (used_names es))"
proof (induction es arbitrary: i)
  case (Cons e es)
  then show ?case by (cases i; cases e) auto
qed simp

lemma dispatch_find_replace:
  "i < length es \<Longrightarrow> es ! i = Some (n, h) \<Longrightarrow> distinct (used_names es) \<Longrightarrow>
   dispatch_find (es[i := Some (n, g)]) m = (if m = n then Some g else dispatch_find es m)"
proof (induction es arbitrary: i)
  case (Cons e es)
  show ?case
  proof (cases i)
    case (Suc k)
    with Cons.prems have "n \<in> set (used_names es)"
      by (intro nth_used_names [of es k]) auto
    with Suc Cons show ?thesis by (cases e) auto
  qed (use Cons in auto)
qed simp

lemma dispatch_find_fill:
  "i < length es \<Longrightarrow> es ! i = None \<Longrightarrow> n \<notin> set (used_names es) \<Longrightarrow>
   dispatch_find (es[i := Some (n, g)]) m = (if m = n then Some g else dispatch_find es m)"
proof (induction es arbitrary: i)
  case (Cons e es)
  then show ?case by (cases i; cases e) auto
qed simp

text \<open>The interface of the locale, on tables that exist.\<close>

definition reg_register :: "string \<Rightarrow> 'h \<Rightarrow> 'h cmd_table option \<Rightarrow> rc \<times> 'h cmd_table option" where
  "reg_register n h = opftp_dispatch_register (Some n) (Some h)"

definition reg_lookup :: "'h cmd_table option \<Rightarrow> string \<Rightarrow> 'h option" where
  "reg_lookup t n = opftp_dispatch_call t (Some n)"

lemma reg_lookup_simps [simp]: "reg_lookup (Some es) = dispatch_find es"
  by (simp add: reg_lookup_def opftp_dispatch_call_def fun_eq_iff)

text \<open>The three outcomes of a registration.\<close>

lemma register_cases:
  assumes "table_ok (Some es)"
  obtains (bad) "length n = 0 \<or> length n \<ge> 8" "reg_register n h (Some es) = (Some EINVAL, Some es)"
  | (full) "0 < length n" "length n < 8" "map c_toupper n \<notin> dom (dispatch_find es)"
      "card (dom (dispatch_find es)) = DISPATCH_CAP"
      "reg_register n h (Some es) = (Some ENOSPC, Some es)"
  | (stored) es' where "0 < length n" "length n < 8" "reg_register n h (Some es) = (None, Some es')"
      "table_ok (Some es')" "dispatch_find es' = (dispatch_find es)(map c_toupper n \<mapsto> h)"
proof -
  let ?up = "map c_toupper n"
  let ?sc = "register_scan 0 None ?up es"
  have len: "length es = DISPATCH_CAP" and dis: "distinct (used_names es)"
    and nm: "list_all (\<lambda>n. 0 < length n \<and> length n < 8 \<and> map c_toupper n = n) (used_names es)"
    using assms by (auto simp: table_ok_def)
  show thesis
  proof (cases "length n = 0 \<or> length n \<ge> 8")
    case True
    then show thesis by (intro bad) (auto simp: reg_register_def opftp_dispatch_register_def)
  next
    case False
    then have n: "0 < length n" "length n < 8" by auto
    have up: "0 < length ?up \<and> length ?up < 8 \<and> map c_toupper ?up = ?up"
      using n by (simp add: c_toupper_idem)
    consider i fu where "?sc = (Some i, fu)" | "?sc = (None, None)" | i where "?sc = (None, Some i)"
      by (cases ?sc; cases "fst ?sc"; cases "snd ?sc") auto
    then show thesis
    proof cases
      case 1
      then obtain h0 where i: "i < length es" "es ! i = Some (?up, h0)"
        using register_scan_found [of 0 None ?up es i] by auto
      show thesis
        using False 1 n i len dis nm
        by (intro stored [of "es[i := Some (?up, h)]"])
          (auto simp: reg_register_def opftp_dispatch_register_def table_ok_def
            used_names_replace dispatch_find_replace)
    next
      case 2
      then have "None \<notin> set es" "?up \<notin> set (used_names es)"
        by (simp_all add: register_scan_full)
      then show thesis
        using False 2 n len dis used_names_full [of es] distinct_card [OF dis]
        by (intro full) (auto simp: reg_register_def opftp_dispatch_register_def dom_dispatch_find)
    next
      case 3
      then have i: "i < length es" "es ! i = None" "?up \<notin> set (used_names es)"
        using register_scan_free [of 0 None ?up es i] register_scan_absent [of 0 None ?up es] by auto
      let ?es = "es[i := Some (?up, h)]"
      have ms: "mset (used_names ?es) = mset (?up # used_names es)"
        using used_names_fill [OF i(1,2)] by simp
      have "distinct (used_names ?es)" "set (used_names ?es) = insert ?up (set (used_names es))"
        using mset_eq_imp_distinct_iff [OF ms] mset_eq_setD [OF ms] i(3) dis by simp_all
      then show thesis
        using False 3 n i len nm up
        by (intro stored [of ?es])
          (auto simp: reg_register_def opftp_dispatch_register_def table_ok_def dispatch_find_fill
            list_all_iff)
    qed
  qed
qed

definition empty_table :: "'h cmd_table option" where
  "empty_table = opftp_dispatch_init True None"

lemma empty_table_simps: "empty_table = Some (replicate DISPATCH_CAP None)"
  by (simp add: empty_table_def opftp_dispatch_init_def)

lemma table_ok_Some: "table_ok t \<Longrightarrow> \<exists>es. t = Some es"
  by (auto simp: table_ok_def split: option.splits)

interpretation disp: command_registry reg_register reg_lookup table_ok DISPATCH_CAP empty_table
proof unfold_locales
  show "table_ok empty_table"
    by (simp add: empty_table_simps table_ok_def)
  show "reg_lookup empty_table = Map.empty"
    by (simp add: empty_table_simps fun_eq_iff)
next
  fix t :: "'a cmd_table option"
  assume "table_ok t"
  then show "finite (dom (reg_lookup t))"
    by (auto dest!: table_ok_Some simp: dom_dispatch_find)
next
  fix t :: "'a cmd_table option" and n h
  assume t: "table_ok t"
  then obtain es where es: "t = Some es" using table_ok_Some by blast
  note c = register_cases [OF t [unfolded es], of n h]
  show "table_ok (snd (reg_register n h t))"
    using t unfolding es by (rule_tac c) auto
  show "reg_lookup (snd (reg_register n h t)) = (reg_lookup t)(map c_toupper n \<mapsto> h)"
    if "fst (reg_register n h t) = None"
    using that unfolding es by (rule_tac c) auto
  show "fst (reg_register n h t) = None"
    if "0 < length n" "length n < 8"
      "map c_toupper n \<in> dom (reg_lookup t) \<or> card (dom (reg_lookup t)) < DISPATCH_CAP"
    using that unfolding es by (rule_tac c) auto
next
  fix t :: "'a cmd_table option" and n h
  assume "fst (reg_register n h t) \<noteq> None"
  then show "snd (reg_register n h t) = t"
    by (auto simp: reg_register_def opftp_dispatch_register_def Let_def
        split: option.splits if_splits prod.splits)
qed

lemma register_all_install: "register_all cs t = disp.install cs t"
  by (induction cs t rule: register_all.induct) (simp_all add: reg_register_def [symmetric])

section \<open>Properties\<close>

text \<open>
  Registration is a bounded map update. On a well-formed table a registration either fails
  with \<open>EINVAL\<close> on an empty or over-long name, or with \<open>ENOSPC\<close> when the name is new and all
  slots are taken, and then changes nothing; or it succeeds, and then the command, upper-cased,
  runs the new handler and every other command runs what it ran before. The table stays
  well-formed.
\<close>

theorem dispatch_register_correct:
  assumes "table_ok t" "opftp_dispatch_register (Some n) (Some h) t = (r, t')"
  shows "table_ok t' \<and>
    (case r of
       None \<Rightarrow> 0 < length n \<and> length n < 8 \<and>
         (\<forall>m. opftp_dispatch_call t' (Some m) =
            (if m = map c_toupper n then Some h else opftp_dispatch_call t (Some m)))
     | Some e \<Rightarrow> t' = t \<and>
         (e = EINVAL \<and> (length n = 0 \<or> 8 \<le> length n) \<or>
          e = ENOSPC \<and> opftp_dispatch_call t (Some (map c_toupper n)) = None \<and>
            card {m. opftp_dispatch_call t (Some m) \<noteq> None} = DISPATCH_CAP))"
proof -
  obtain es where t: "t = Some es" using assms(1) table_ok_Some by blast
  have r: "reg_register n h (Some es) = (r, t')"
    using assms(2) by (simp add: t reg_register_def)
  have call: "opftp_dispatch_call (Some es) (Some m) = dispatch_find es m" for m es
    by (simp add: opftp_dispatch_call_def)
  have d: "{m. dispatch_find es m \<noteq> None} = dom (dispatch_find es)" by (simp add: dom_def)
  show ?thesis
    unfolding t call d using r assms(1) [unfolded t]
    by (rule_tac register_cases [OF assms(1) [unfolded t], of n h]) (auto simp: call domIff)
qed

theorem dispatch_register_correct_witness:
  "case opftp_dispatch_register (Some ''noop'') (Some (7 :: nat)) empty_table of
     (r, t') \<Rightarrow> r = None \<and> table_ok t' \<and> opftp_dispatch_call t' (Some ''NOOP'') = Some 7"
proof -
  have r: "opftp_dispatch_register (Some ''noop'') (Some (7 :: nat)) empty_table =
    (None, snd (opftp_dispatch_register (Some ''noop'') (Some (7 :: nat)) empty_table))"
    by code_simp
  have u: "map c_toupper ''noop'' = ''NOOP''" by code_simp
  show ?thesis
    using dispatch_register_correct [OF disp.fresh_invar r] u by (subst r) simp
qed

end
