(* ===== verification/Pollset.thy ===== *)
theory Pollset
  imports Opftp_Prelude
begin

text \<open>
  The reactor's poll multiplexer: \<^verbatim>\<open>src/src/pollset.c\<close>, host build. The arrays \<open>fds\<close> and
  \<open>users\<close> are lists of the \<open>count\<close> slots in use; slot 0 is the wake pipe, a slot with a negative
  descriptor is free. \<open>realloc\<close>, \<open>poll\<close> and the pipe are outside the program: the outcomes of the
  two reallocations and the result of \<open>poll\<close> with the reported \<open>revents\<close> are arguments of the
  operations that depend on them. When only one of the two reallocations succeeds, the code frees
  the block it got and keeps using the old pointers: \<open>ps_dangling\<close> records that.

  What the reactor relies on is the locale \<open>handle_map\<close>: handles name entries, an entry is never
  moved, and a new handle is never one that is live.
\<close>

unbundle bit_operations_syntax

section \<open>Definitions\<close>

type_synonym poll_events = "16 word"

abbreviation POLLIN :: poll_events where "POLLIN \<equiv> 0x01"
abbreviation POLLPRI :: poll_events where "POLLPRI \<equiv> 0x02"
abbreviation POLLOUT :: poll_events where "POLLOUT \<equiv> 0x04"
abbreviation POLLERR :: poll_events where "POLLERR \<equiv> 0x08"
abbreviation POLLHUP :: poll_events where "POLLHUP \<equiv> 0x10"
abbreviation POLLNVAL :: poll_events where "POLLNVAL \<equiv> 0x20"

record pollfd =
  pf_fd :: int
  pf_events :: poll_events
  pf_revents :: poll_events

record 'u pollset =
  ps_fds :: "pollfd list"
  ps_users :: "'u option list"
  ps_cap :: nat
  ps_wake :: nat  \<comment> \<open>bytes waiting in the wake pipe\<close>
  ps_dangling :: bool  \<comment> \<open>\<open>fds\<close> or \<open>users\<close> points to freed memory\<close>

abbreviation ps_count :: "'u pollset \<Rightarrow> nat" where
  "ps_count p \<equiv> length (ps_fds p)"

definition opftp_pollset_create :: "int \<Rightarrow> 'u pollset" where
  "opftp_pollset_create wake_r =
     \<lparr> ps_fds = [\<lparr> pf_fd = wake_r, pf_events = POLLIN, pf_revents = 0 \<rparr>], ps_users = [None],
       ps_cap = 8, ps_wake = 0, ps_dangling = False \<rparr>"

text \<open>The capacity for \<open>need\<close> slots; the first argument says which of the two reallocations, of \<open>fds\<close>
  and of \<open>users\<close>, succeed.\<close>

definition ensure_cap :: "bool \<times> bool \<Rightarrow> nat \<Rightarrow> 'u pollset \<Rightarrow> bool \<times> 'u pollset" where
  "ensure_cap realloc_ok need p =
     (if need \<le> ps_cap p then (True, p)
      else (case realloc_ok of
              (True, True) \<Rightarrow> (True, p\<lparr> ps_cap := ps_cap p * 2 \<rparr>)
            | (False, False) \<Rightarrow> (False, p)
            | _ \<Rightarrow> (False, p\<lparr> ps_dangling := True \<rparr>)))"

text \<open>The loop of \<open>opftp_pollset_add\<close>: the first free slot from \<open>i\<close> on.\<close>

fun free_slot :: "nat \<Rightarrow> pollfd list \<Rightarrow> nat option" where
  "free_slot i [] = None"
| "free_slot i (f # fs) = (if pf_fd f < 0 then Some i else free_slot (Suc i) fs)"

definition opftp_pollset_add ::
  "bool \<times> bool \<Rightarrow> int \<Rightarrow> poll_events \<Rightarrow> 'u option \<Rightarrow> 'u pollset \<Rightarrow> nat option \<times> 'u pollset" where
  "opftp_pollset_add realloc_ok fd events user p =
     (let entry = \<lparr> pf_fd = fd, pf_events = events, pf_revents = 0 \<rparr> in
      if fd < 0 then (None, p)
      else case free_slot 1 (drop 1 (ps_fds p)) of
        Some i \<Rightarrow> (Some i, p\<lparr> ps_fds := (ps_fds p)[i := entry], ps_users := (ps_users p)[i := user] \<rparr>)
      | None \<Rightarrow>
          (case ensure_cap realloc_ok (ps_count p + 1) p of
             (False, p) \<Rightarrow> (None, p)
           | (True, p) \<Rightarrow> (Some (ps_count p),
               p\<lparr> ps_fds := ps_fds p @ [entry], ps_users := ps_users p @ [user] \<rparr>)))"

definition opftp_pollset_mod :: "int \<Rightarrow> poll_events \<Rightarrow> 'u pollset \<Rightarrow> 'u pollset" where
  "opftp_pollset_mod handle events p =
     (if handle < 0 \<or> handle \<ge> int (ps_count p) then p
      else if handle = 0 then p
      else let h = nat handle in
        p\<lparr> ps_fds := (ps_fds p)[h := (ps_fds p ! h)\<lparr> pf_events := events \<rparr>] \<rparr>)"

definition opftp_pollset_remove :: "int \<Rightarrow> 'u pollset \<Rightarrow> 'u pollset" where
  "opftp_pollset_remove handle p =
     (if handle < 0 \<or> handle \<ge> int (ps_count p) then p
      else if handle = 0 then p
      else let h = nat handle in
        p\<lparr> ps_fds := (ps_fds p)[h := (ps_fds p ! h)\<lparr> pf_fd := -1, pf_revents := 0 \<rparr>],
           ps_users := (ps_users p)[h := None] \<rparr>)"

text \<open>\<open>poll\<close> returned \<open>r\<close> and, unless it failed, filled in \<open>revents\<close>.\<close>

definition set_revents :: "poll_events list \<Rightarrow> pollfd list \<Rightarrow> pollfd list" where
  "set_revents rs fs = map2 (\<lambda>f r. f\<lparr> pf_revents := r \<rparr>) fs rs"

definition slot_ready :: "pollfd \<Rightarrow> bool" where
  "slot_ready f \<longleftrightarrow> pf_fd f \<ge> 0 \<and> pf_revents f \<noteq> 0"

definition opftp_pollset_wait ::
  "int \<Rightarrow> poll_events list \<Rightarrow> 'u pollset \<Rightarrow> int \<times> 'u pollset" where
  "opftp_pollset_wait r revents p =
     (if r < 0 then (r, p)
      else
        let fs = set_revents revents (ps_fds p) in
        if r = 0 then (0, p\<lparr> ps_fds := fs \<rparr>)
        else if pf_revents (fs ! 0) AND (POLLIN OR POLLERR) \<noteq> 0 then
          let fs = fs[0 := (fs ! 0)\<lparr> pf_revents := 0 \<rparr>] in
          (int (length (filter slot_ready (drop 1 fs))), p\<lparr> ps_fds := fs, ps_wake := 0 \<rparr>)
        else (int (length (filter slot_ready fs)), p\<lparr> ps_fds := fs \<rparr>))"

definition opftp_pollset_wake :: "bool \<Rightarrow> 'u pollset \<Rightarrow> 'u pollset" where
  "opftp_pollset_wake write_ok p = (if write_ok then p\<lparr> ps_wake := ps_wake p + 1 \<rparr> else p)"

fun collect_loop :: "nat \<Rightarrow> (pollfd \<times> 'u option) list \<Rightarrow> ('u option \<times> poll_events) list" where
  "collect_loop room [] = []"
| "collect_loop 0 (s # ss) = []"
| "collect_loop (Suc room) ((f, u) # ss) =
     (if slot_ready f then (u, pf_revents f) # collect_loop room ss
      else collect_loop (Suc room) ss)"

definition opftp_pollset_collect :: "nat \<Rightarrow> 'u pollset \<Rightarrow> ('u option \<times> poll_events) list" where
  "opftp_pollset_collect maxn p = collect_loop maxn (drop 1 (zip (ps_fds p) (ps_users p)))"

text \<open>What a handle names.\<close>

definition poll_view :: "'u pollset \<Rightarrow> nat \<Rightarrow> (int \<times> poll_events \<times> 'u option) option" where
  "poll_view p h =
     (if 0 < h \<and> h < ps_count p \<and> pf_fd (ps_fds p ! h) \<ge> 0
      then Some (pf_fd (ps_fds p ! h), pf_events (ps_fds p ! h), ps_users p ! h) else None)"

definition pollset_ok :: "'u pollset \<Rightarrow> bool" where
  "pollset_ok p \<longleftrightarrow> ps_fds p \<noteq> [] \<and> length (ps_users p) = ps_count p \<and> ps_count p \<le> ps_cap p \<and>
     pf_fd (ps_fds p ! 0) \<ge> 0 \<and> ps_users p ! 0 = None \<and> \<not> ps_dangling p"

text \<open>The two reallocations of a growing poll set succeed together or fail together.\<close>

definition realloc_even :: "bool \<times> bool \<Rightarrow> bool" where
  "realloc_even ra \<longleftrightarrow> fst ra = snd ra"

section \<open>Stable handles\<close>

datatype ('a, 'm) handle_op = Add_Entry 'a | Modify_Entry nat 'm | Remove_Entry nat

fun op_handle :: "('a, 'm) handle_op \<Rightarrow> nat option" where
  "op_handle (Add_Entry a) = None"
| "op_handle (Modify_Entry h m) = Some h"
| "op_handle (Remove_Entry h) = Some h"

locale handle_map =
  fixes add :: "'a \<Rightarrow> 'p \<Rightarrow> nat option \<times> 'p"
    and entry :: "'a \<Rightarrow> 'e"
    and modify :: "nat \<Rightarrow> 'm \<Rightarrow> 'p \<Rightarrow> 'p"
    and change :: "'m \<Rightarrow> 'e \<Rightarrow> 'e"
    and remove :: "nat \<Rightarrow> 'p \<Rightarrow> 'p"
    and view :: "'p \<Rightarrow> nat \<Rightarrow> 'e option"
    and invar :: "'p \<Rightarrow> bool"
    and sound :: "'a \<Rightarrow> bool"
  assumes add_view: "invar p \<Longrightarrow> add a p = (Some h, p') \<Longrightarrow>
      invar p' \<and> view p h = None \<and> view p' = (view p)(h \<mapsto> entry a)"
    and add_fail: "sound a \<Longrightarrow> add a p = (None, p') \<Longrightarrow> p' = p"
    and modify_view: "invar p \<Longrightarrow> invar (modify h m p) \<and>
      view (modify h m p) = (view p)(h := map_option (change m) (view p h))"
    and remove_view: "invar p \<Longrightarrow> invar (remove h p) \<and> view (remove h p) = (view p)(h := None)"
begin

fun history :: "('a, 'm) handle_op list \<Rightarrow> 'p \<Rightarrow> 'p" where
  "history [] p = p"
| "history (Add_Entry a # os) p = history os (snd (add a p))"
| "history (Modify_Entry h m # os) p = history os (modify h m p)"
| "history (Remove_Entry h # os) p = history os (remove h p)"

lemma history_stable:
  "invar p \<Longrightarrow> Some h \<notin> op_handle ` set os \<Longrightarrow> (\<And>a. Add_Entry a \<in> set os \<Longrightarrow> sound a) \<Longrightarrow> view p h = Some e \<Longrightarrow>
   invar (history os p) \<and> view (history os p) h = Some e"
proof (induction os p rule: history.induct)
  case (2 a os p)
  obtain r p' where a: "add a p = (r, p')" by (cases "add a p")
  have "invar p' \<and> view p' h = Some e"
  proof (cases r)
    case None
    with a add_fail [of a p p'] 2 show ?thesis by auto
  next
    case (Some k)
    with add_view [OF 2(2)] a 2 show ?thesis by auto
  qed
  with 2 a show ?case by auto
next
  case (3 k m os p)
  with modify_view [OF 3(2), of k m] show ?case by auto
next
  case (4 k os p)
  with remove_view [OF 4(2), of k] show ?case by auto
qed simp

end

section \<open>The poll set has stable handles\<close>

lemma free_slot_Some:
  "free_slot i fs = Some k \<Longrightarrow> i \<le> k \<and> k < i + length fs \<and> pf_fd (fs ! (k - i)) < 0"
  by (induction i fs rule: free_slot.induct) (auto split: if_splits simp: nth_Cons')

lemma free_slot_None: "free_slot i fs = None \<longleftrightarrow> list_all (\<lambda>f. pf_fd f \<ge> 0) fs"
  by (induction i fs rule: free_slot.induct) auto

lemma pollset_create_ok: "wake_r \<ge> 0 \<Longrightarrow> pollset_ok (opftp_pollset_create wake_r)"
  by (simp add: pollset_ok_def opftp_pollset_create_def)

lemma poll_view_create: "poll_view (opftp_pollset_create wake_r) = Map.empty"
  by (auto simp: poll_view_def opftp_pollset_create_def fun_eq_iff)

lemma add_cases:
  assumes ok: "pollset_ok p" and r: "opftp_pollset_add realloc_ok fd ev u p = (Some h, p')"
  shows "pollset_ok p' \<and> poll_view p h = None \<and> poll_view p' = (poll_view p)(h \<mapsto> (fd, ev, u))"
proof (cases "free_slot 1 (drop 1 (ps_fds p))")
  case (Some i)
  have fd: "fd \<ge> 0" using r by (auto simp: opftp_pollset_add_def Let_def split: if_splits)
  from free_slot_Some [OF Some] have i: "1 \<le> i" "i < ps_count p" "pf_fd (ps_fds p ! i) < 0" by auto
  have "h = i" "p' = p\<lparr> ps_fds := (ps_fds p)[i := \<lparr> pf_fd = fd, pf_events = ev, pf_revents = 0 \<rparr>],
      ps_users := (ps_users p)[i := u] \<rparr>"
    using r Some fd by (auto simp: opftp_pollset_add_def Let_def)
  with ok i fd show ?thesis
    by (auto simp: pollset_ok_def poll_view_def fun_eq_iff)
next
  case None
  have fd: "fd \<ge> 0" using r by (auto simp: opftp_pollset_add_def Let_def split: if_splits)
  obtain q where q: "ensure_cap realloc_ok (ps_count p + 1) p = (True, q)"
    and h: "h = ps_count q" and p': "p' = q\<lparr> ps_fds := ps_fds q @
        [\<lparr> pf_fd = fd, pf_events = ev, pf_revents = 0 \<rparr>], ps_users := ps_users q @ [u] \<rparr>"
    using r None fd by (auto simp: opftp_pollset_add_def Let_def split: prod.splits bool.splits)
  have "1 \<le> ps_count p" "ps_count p \<le> ps_cap p"
    using ok by (simp_all add: pollset_ok_def Suc_le_eq)
  then have "ps_count p + 1 \<le> ps_cap p * 2" by linarith
  then have "ps_fds q = ps_fds p" "ps_users q = ps_users p" "ps_count p + 1 \<le> ps_cap q"
    "ps_dangling q = ps_dangling p"
    using q by (auto simp: ensure_cap_def split: if_splits prod.splits bool.splits)
  with ok fd h p' show ?thesis
    by (auto simp: pollset_ok_def poll_view_def fun_eq_iff nth_append)
qed

lemma add_failed:
  "realloc_even ra \<or> ps_count p < ps_cap p \<Longrightarrow> opftp_pollset_add ra fd ev u p = (None, p') \<Longrightarrow> p' = p"
  by (auto simp: opftp_pollset_add_def Let_def ensure_cap_def realloc_even_def
      split: if_splits option.splits prod.splits bool.splits)

lemma pollset_remove_view:
  "pollset_ok p \<Longrightarrow> pollset_ok (opftp_pollset_remove (int h) p) \<and>
   poll_view (opftp_pollset_remove (int h) p) = (poll_view p)(h := None)"
  by (auto simp: pollset_ok_def poll_view_def opftp_pollset_remove_def Let_def fun_eq_iff nth_list_update)

lemma pollset_mod_view:
  "pollset_ok p \<Longrightarrow> pollset_ok (opftp_pollset_mod (int h) ev p) \<and>
   poll_view (opftp_pollset_mod (int h) ev p) =
     (poll_view p)(h := map_option (\<lambda>(fd, _, u). (fd, ev, u)) (poll_view p h))"
  by (auto simp: pollset_ok_def poll_view_def opftp_pollset_mod_def Let_def fun_eq_iff nth_list_update)

text \<open>The operations with their arguments packed, the reallocation outcome included.\<close>

type_synonym 'u poll_add_args = "(bool \<times> bool) \<times> int \<times> poll_events \<times> 'u option"

definition poll_add :: "'u poll_add_args \<Rightarrow> 'u pollset \<Rightarrow> nat option \<times> 'u pollset" where
  "poll_add a p = (case a of (realloc_ok, fd, ev, u) \<Rightarrow> opftp_pollset_add realloc_ok fd ev u p)"

definition poll_mod :: "nat \<Rightarrow> poll_events \<Rightarrow> 'u pollset \<Rightarrow> 'u pollset" where
  "poll_mod h ev p = opftp_pollset_mod (int h) ev p"

definition poll_remove :: "nat \<Rightarrow> 'u pollset \<Rightarrow> 'u pollset" where
  "poll_remove h p = opftp_pollset_remove (int h) p"

fun poll_run :: "('u poll_add_args, poll_events) handle_op list \<Rightarrow> 'u pollset \<Rightarrow> 'u pollset" where
  "poll_run [] p = p"
| "poll_run (Add_Entry a # os) p = poll_run os (snd (poll_add a p))"
| "poll_run (Modify_Entry h ev # os) p = poll_run os (poll_mod h ev p)"
| "poll_run (Remove_Entry h # os) p = poll_run os (poll_remove h p)"

interpretation ph: handle_map poll_add "\<lambda>(_, fd, ev, u). (fd, ev, u)"
  poll_mod "\<lambda>ev (fd, _, u). (fd, ev, u)" poll_remove poll_view pollset_ok "realloc_even \<circ> fst"
  by unfold_locales
    (auto simp: poll_add_def poll_mod_def poll_remove_def pollset_remove_view pollset_mod_view
      dest: add_cases add_failed [OF disjI1] split: prod.splits)

lemma poll_run_history: "poll_run os p = ph.history os p"
  by (induction os p rule: poll_run.induct) simp_all

section \<open>Collecting the ready slots\<close>

lemma collect_loop_eq:
  "collect_loop n ss = take n (map (\<lambda>(f, u). (u, pf_revents f)) (filter (slot_ready \<circ> fst) ss))"
  by (induction n ss rule: collect_loop.induct) auto

lemma length_set_revents: "length rs = length fs \<Longrightarrow> length (set_revents rs fs) = length fs"
  by (simp add: set_revents_def)

lemma nth_set_revents:
  "i < length fs \<Longrightarrow> length rs = length fs \<Longrightarrow> set_revents rs fs ! i = (fs ! i)\<lparr> pf_revents := rs ! i \<rparr>"
  by (simp add: set_revents_def)

lemma wait_view:
  assumes "pollset_ok p" "length rs = ps_count p"
  shows "pollset_ok (snd (opftp_pollset_wait r rs p)) \<and>
    poll_view (snd (opftp_pollset_wait r rs p)) = poll_view p"
proof -
  have l: "length (set_revents rs (ps_fds p)) = ps_count p" using assms by (simp add: length_set_revents)
  have n: "pf_fd (set_revents rs (ps_fds p) ! i) = pf_fd (ps_fds p ! i)"
    "pf_events (set_revents rs (ps_fds p) ! i) = pf_events (ps_fds p ! i)" if "i < ps_count p" for i
    using that assms by (simp_all add: nth_set_revents)
  have ne: "set_revents rs (ps_fds p) \<noteq> []" using assms l by (auto simp: pollset_ok_def)
  show ?thesis
    using assms l ne n [of 0] n
    by (auto simp: opftp_pollset_wait_def Let_def pollset_ok_def poll_view_def fun_eq_iff nth_list_update)
qed

text \<open>The slots, other than the wake slot, that \<open>poll\<close> reported.\<close>

definition ready_handles :: "poll_events list \<Rightarrow> 'u pollset \<Rightarrow> nat list" where
  "ready_handles rs p = filter (\<lambda>h. poll_view p h \<noteq> None \<and> rs ! h \<noteq> 0) [1..<ps_count p]"

lemma collect_ready:
  assumes "pollset_ok p" "length rs = ps_count p" "0 < r"
  shows "opftp_pollset_collect n (snd (opftp_pollset_wait r rs p)) =
    take n (map (\<lambda>h. (ps_users p ! h, rs ! h)) (ready_handles rs p))"
proof -
  define fs where "fs = set_revents rs (ps_fds p)"
  let ?q = "snd (opftp_pollset_wait r rs p)"
  have l: "length fs = ps_count p" using assms by (simp add: fs_def length_set_revents)
  have u: "ps_users ?q = ps_users p" using assms(3) by (simp add: opftp_pollset_wait_def Let_def)
  have f: "drop 1 (ps_fds ?q) = drop 1 fs"
    using assms(3) by (simp add: opftp_pollset_wait_def Let_def fs_def)
  have z: "drop 1 (zip (ps_fds ?q) (ps_users ?q)) = map (\<lambda>h. (fs ! h, ps_users p ! h)) [1..<ps_count p]"
    using assms(1) l unfolding drop_zip f u
    by (intro nth_equalityI) (auto simp: pollset_ok_def)
  have "(slot_ready \<circ> fst \<circ> (\<lambda>h. (fs ! h, ps_users p ! h))) h \<longleftrightarrow> poll_view p h \<noteq> None \<and> rs ! h \<noteq> 0"
    if "h \<in> set [1..<ps_count p]" for h
    using that assms by (auto simp: slot_ready_def fs_def nth_set_revents poll_view_def)
  then have fl: "filter (slot_ready \<circ> fst \<circ> (\<lambda>h. (fs ! h, ps_users p ! h))) [1..<ps_count p] = ready_handles rs p"
    unfolding ready_handles_def by (rule filter_cong [OF refl])
  have "map ((\<lambda>(f, u). (u, pf_revents f)) \<circ> (\<lambda>h. (fs ! h, ps_users p ! h))) (ready_handles rs p) =
      map (\<lambda>h. (ps_users p ! h, rs ! h)) (ready_handles rs p)"
    using assms by (auto simp: ready_handles_def fs_def nth_set_revents)
  then show ?thesis
    unfolding opftp_pollset_collect_def z collect_loop_eq filter_map fl map_map by (simp only:)
qed

section \<open>Properties\<close>

text \<open>
  C31: Handles are stable. Whatever entries are added, modified or removed under other handles, and
  however often the arrays grow or fail to, a live handle keeps naming its descriptor, events and
  user, the arrays stay allocated, and the handle an addition returns was not live before, so it
  cannot alias another client. Growing is two reallocations: that they succeed together or fail
  together is a hypothesis, since the code frees a live array when only one of them fails.
\<close>

theorem pollset_handles_stable:
  assumes "pollset_ok p" "poll_view p h = Some e" "Some h \<notin> op_handle ` set os"
    and "\<And>ra fd ev u. Add_Entry (ra, fd, ev, u) \<in> set os \<Longrightarrow> realloc_even ra"
  shows "pollset_ok (poll_run os p) \<and> poll_view (poll_run os p) h = Some e \<and>
    fst (poll_add a (poll_run os p)) \<noteq> Some h"
proof -
  have s: "pollset_ok (poll_run os p)" "poll_view (poll_run os p) h = Some e"
    using ph.history_stable [OF assms(1,3) _ assms(2)] assms(4) by (auto simp: poll_run_history)
  have "fst (poll_add a (poll_run os p)) \<noteq> Some h"
  proof
    assume "fst (poll_add a (poll_run os p)) = Some h"
    then have "poll_add a (poll_run os p) = (Some h, snd (poll_add a (poll_run os p)))"
      by (metis prod.collapse)
    from ph.add_view [OF s(1) this] s(2) show False by simp
  qed
  with s show ?thesis by simp
qed

theorem pollset_handles_stable_witness:
  "poll_view (poll_run [Add_Entry ((False, False), 8, POLLIN, Some 3), Remove_Entry 2, Add_Entry ((True, True), 9, POLLIN, None)]
       (poll_run [Add_Entry ((True, True), 7, POLLIN, Some (2::nat))] (opftp_pollset_create 5))) 1
     = Some (7, POLLIN, Some 2)"
proof -
  let ?p = "poll_run [Add_Entry ((True, True), 7, POLLIN, Some (2::nat))] (opftp_pollset_create 5)"
  have ok: "pollset_ok ?p" and v: "poll_view ?p 1 = Some (7, POLLIN, Some 2)"
    by (simp_all add: pollset_ok_def poll_view_def poll_add_def opftp_pollset_add_def
        opftp_pollset_create_def ensure_cap_def Let_def)
  let ?os = "[Add_Entry ((False, False), 8, POLLIN, Some 3), Remove_Entry 2, Add_Entry ((True, True), 9, POLLIN, None)]
    :: (nat poll_add_args, poll_events) handle_op list"
  show ?thesis
    by (rule pollset_handles_stable [where os = ?os, OF ok v, THEN conjunct2, THEN conjunct1])
      (auto simp: realloc_even_def)
qed

text \<open>
  C38: After a successful wait, collecting yields exactly the users and reported events of the live
  handles with something to report, each once, in slot order, cut to the caller's bound; the
  wake pipe never shows up as a user.
\<close>

theorem pollset_collect_correct:
  assumes "pollset_ok p" "length rs = ps_count p" "0 < r"
  shows "opftp_pollset_collect n (snd (opftp_pollset_wait r rs p)) =
      take n (map (\<lambda>h. (ps_users p ! h, rs ! h)) (ready_handles rs p)) \<and>
    distinct (ready_handles rs p) \<and>
    set (ready_handles rs p) = {h. poll_view p h \<noteq> None \<and> rs ! h \<noteq> 0}"
proof -
  have "distinct (ready_handles rs p)" by (simp add: ready_handles_def)
  moreover have "set (ready_handles rs p) = {h. poll_view p h \<noteq> None \<and> rs ! h \<noteq> 0}"
    by (auto simp: ready_handles_def poll_view_def split: if_splits)
  ultimately show ?thesis using collect_ready [OF assms] by simp
qed

theorem pollset_collect_correct_witness:
  "let p = poll_run [Add_Entry ((True, True), 7, POLLIN, Some (2::nat)), Add_Entry ((True, True), 8, POLLIN, Some 3)]
         (opftp_pollset_create 5) in
   opftp_pollset_collect 4 (snd (opftp_pollset_wait 2 [POLLIN, 0, POLLHUP] p)) = [(Some 3, POLLHUP)]"
proof -
  let ?p = "poll_run [Add_Entry ((True, True), 7, POLLIN, Some (2::nat)), Add_Entry ((True, True), 8, POLLIN, Some 3)]
         (opftp_pollset_create 5)"
  have p: "?p = \<lparr> ps_fds = [\<lparr> pf_fd = 5, pf_events = POLLIN, pf_revents = 0 \<rparr>,
      \<lparr> pf_fd = 7, pf_events = POLLIN, pf_revents = 0 \<rparr>, \<lparr> pf_fd = 8, pf_events = POLLIN, pf_revents = 0 \<rparr>],
      ps_users = [None, Some 2, Some 3], ps_cap = 8, ps_wake = 0, ps_dangling = False \<rparr>"
    by (simp add: poll_add_def opftp_pollset_add_def opftp_pollset_create_def ensure_cap_def Let_def)
  have "ready_handles [POLLIN, 0, POLLHUP] ?p = [2]"
    unfolding p by (simp add: ready_handles_def poll_view_def upt_rec)
  then show ?thesis
    using pollset_collect_correct [of ?p "[POLLIN, 0, POLLHUP]" 2 4]
    unfolding Let_def p by (simp add: pollset_ok_def)
qed

end
