(* ===== verification/Fs_Vtable.thy ===== *)
theory Fs_Vtable
  imports Opftp_Prelude
begin

text \<open>
  The file system interface \<^verbatim>\<open>opftp_fs_t\<close> of
  \<^verbatim>\<open>src/include/openps3ftp/openps3ftp.h\<close>. A backend is a record of operations on a state
  \<open>'x\<close> that lies outside the server (the disk, the operating system, the memory backend's
  nodes), together with the thread's \<open>errno\<close>. An operation returns \<^const>\<open>None\<close> for the C return
  value -1; by the contract of the interface it has then set \<open>errno\<close>.
\<close>

section \<open>Operations on the outside state\<close>

record 'x sys =
  sys_errno :: errno
  sys_state :: 'x

type_synonym ('x, 'r) fs_op = "'x sys \<Rightarrow> 'r option \<times> 'x sys"

definition set_errno :: "errno \<Rightarrow> 'x sys \<Rightarrow> 'x sys" where
  "set_errno e s = s\<lparr> sys_errno := e \<rparr>"

definition op_fail :: "errno \<Rightarrow> ('x, 'r) fs_op" where
  "op_fail e s = (None, set_errno e s)"

lemma set_errno_simps [simp]:
  "sys_errno (set_errno e s) = e" "sys_state (set_errno e s) = sys_state s"
  "set_errno e (set_errno e' s) = set_errno e s"
  by (simp_all add: set_errno_def)

section \<open>Data\<close>

record opftp_stat =
  st_mode :: "16 word"
  st_size :: "64 word"
  st_mtime :: int
  st_uid :: "32 word"
  st_gid :: "32 word"

record opftp_dirent =
  de_name :: string
  de_mode :: "16 word"
  de_size :: "64 word"
  de_mtime :: int
  de_uid :: "32 word"
  de_gid :: "32 word"

unbundle bit_operations_syntax

abbreviation S_IFMT :: "16 word" where "S_IFMT \<equiv> 0xF000"
abbreviation S_IFDIR :: "16 word" where "S_IFDIR \<equiv> 0x4000"
abbreviation S_IFREG :: "16 word" where "S_IFREG \<equiv> 0x8000"

definition mode_is_dir :: "16 word \<Rightarrow> bool" where
  "mode_is_dir m \<longleftrightarrow> m AND S_IFMT = S_IFDIR"

definition mode_is_reg :: "16 word \<Rightarrow> bool" where
  "mode_is_reg m \<longleftrightarrow> m AND S_IFMT = S_IFREG"

text \<open>Backend-neutral open flags.\<close>

abbreviation OPFTP_O_RDONLY :: "32 word" where "OPFTP_O_RDONLY \<equiv> 1"
abbreviation OPFTP_O_WRONLY :: "32 word" where "OPFTP_O_WRONLY \<equiv> 2"
abbreviation OPFTP_O_RDWR :: "32 word" where "OPFTP_O_RDWR \<equiv> 3"
abbreviation OPFTP_O_CREAT :: "32 word" where "OPFTP_O_CREAT \<equiv> 0x40"
abbreviation OPFTP_O_TRUNC :: "32 word" where "OPFTP_O_TRUNC \<equiv> 0x200"
abbreviation OPFTP_O_APPEND :: "32 word" where "OPFTP_O_APPEND \<equiv> 0x400"

datatype seek_whence = SEEK_SET | SEEK_CUR | SEEK_END

section \<open>The vtable\<close>

text \<open>\<open>read\<close> returns the bytes read, none at the end of the file; \<open>readdir\<close> returns the next
  entry, or \<^const>\<open>None\<close> inside \<^const>\<open>Some\<close> at the end of the directory. Directory handles are
  numbers.\<close>

record 'x opftp_fs =
  fs_open :: "string \<Rightarrow> 32 word \<Rightarrow> 16 word \<Rightarrow> ('x, int) fs_op"
  fs_close :: "int \<Rightarrow> ('x, unit) fs_op"
  fs_read :: "int \<Rightarrow> nat \<Rightarrow> ('x, string) fs_op"
  fs_write :: "int \<Rightarrow> string \<Rightarrow> ('x, nat) fs_op"
  fs_seek :: "int \<Rightarrow> int \<Rightarrow> seek_whence \<Rightarrow> ('x, int) fs_op"
  fs_fstat :: "int \<Rightarrow> ('x, opftp_stat) fs_op"
  fs_stat :: "string \<Rightarrow> ('x, opftp_stat) fs_op"
  fs_opendir :: "string \<Rightarrow> ('x, nat) fs_op"
  fs_readdir :: "nat \<Rightarrow> ('x, opftp_dirent option) fs_op"
  fs_closedir :: "nat \<Rightarrow> ('x, unit) fs_op"
  fs_mkdir :: "string \<Rightarrow> 16 word \<Rightarrow> ('x, unit) fs_op"
  fs_rmdir :: "string \<Rightarrow> ('x, unit) fs_op"
  fs_unlink :: "string \<Rightarrow> ('x, unit) fs_op"
  fs_rename :: "string \<Rightarrow> string \<Rightarrow> ('x, unit) fs_op"
  fs_chmod :: "string \<Rightarrow> 16 word \<Rightarrow> ('x, unit) fs_op"
  fs_utimes :: "string \<Rightarrow> int \<Rightarrow> ('x, unit) fs_op"

text \<open>A backend with nothing in it, to instantiate statements that hold for every backend.\<close>

definition void_fs :: "'x opftp_fs" where
  "void_fs =
     \<lparr> fs_open = (\<lambda>_ _ _. op_fail ENOENT), fs_close = (\<lambda>_. op_fail EBADF),
       fs_read = (\<lambda>_ _. op_fail EBADF), fs_write = (\<lambda>_ _. op_fail EBADF),
       fs_seek = (\<lambda>_ _ _. op_fail EBADF), fs_fstat = (\<lambda>_. op_fail EBADF),
       fs_stat = (\<lambda>_. op_fail ENOENT), fs_opendir = (\<lambda>_. op_fail ENOENT),
       fs_readdir = (\<lambda>_. op_fail EBADF), fs_closedir = (\<lambda>_. op_fail EBADF),
       fs_mkdir = (\<lambda>_ _. op_fail ENOENT), fs_rmdir = (\<lambda>_. op_fail ENOENT),
       fs_unlink = (\<lambda>_. op_fail ENOENT), fs_rename = (\<lambda>_ _. op_fail ENOENT),
       fs_chmod = (\<lambda>_ _. op_fail ENOENT), fs_utimes = (\<lambda>_ _. op_fail ENOENT) \<rparr>"

end
