(* ===== verification/Path_Resolve.thy ===== *)
theory Path_Resolve
  imports Opftp_Prelude
begin

text \<open>
  Lexical path resolution: \<^verbatim>\<open>src/src/resolve.c\<close>. The definitions follow the C code
  with its buffer sizes (1024-byte path buffers, 512- and 64-entry component stacks, the
  2048-byte result buffer); \<^const>\<open>None\<close> is the \<open>-1\<close> return.

  The lemmas relate the code to paths as lists of components: what \<open>split_components\<close>
  and the rebuild loop compute, that every resolved path stays below the root, and what
  \<open>opftp_path_parent\<close> returns on canonical paths.
\<close>

section \<open>Definitions\<close>

abbreviation OPFTP_MAX_PATH :: nat where "OPFTP_MAX_PATH \<equiv> 1024"

subsection \<open>The code\<close>

text \<open>The tokenizer loop of \<open>split_components\<close>, without the stack limit.\<close>

function split_loop :: "string \<Rightarrow> string list" where
  "split_loop p =
     (let q = dropWhile (\<lambda>c. c = slash) p in
      if q = [] then []
      else takeWhile (\<lambda>c. c \<noteq> slash) q #
           split_loop (drop 1 (dropWhile (\<lambda>c. c \<noteq> slash) q)))"
  by pat_completeness auto
termination
proof (relation "measure length")
  fix p q :: string
  assume q: "q = dropWhile (\<lambda>c. c = slash) p" and "q \<noteq> []"
  then have "drop 1 (dropWhile (\<lambda>c. c \<noteq> slash) q) \<noteq> q"
    and "length (drop 1 (dropWhile (\<lambda>c. c \<noteq> slash) q)) < length q"
    using length_dropWhile_le [of "\<lambda>c. c \<noteq> slash" q]
    by (cases q; cases "dropWhile (\<lambda>c. c \<noteq> slash) q"; force)+
  moreover have "length q \<le> length p"
    by (simp add: q length_dropWhile_le)
  ultimately show "(drop 1 (dropWhile (\<lambda>c. c \<noteq> slash) q), p) \<in> measure length"
    by simp
qed simp

declare split_loop.simps [simp del]

definition split_components :: "string \<Rightarrow> nat \<Rightarrow> nat \<Rightarrow> string list" where
  "split_components path bufsz stackcap =
     (if length path + 1 > bufsz then [] else take stackcap (split_loop path))"

text \<open>The loop that applies the argument's components to the stack.\<close>

fun resolve_components :: "string list \<Rightarrow> string list \<Rightarrow> string list" where
  "resolve_components stack [] = stack"
| "resolve_components stack (c # cs) =
     resolve_components
       (if c = ''.'' then stack
        else if c = ''..'' then (if stack \<noteq> [] then butlast stack else stack)
        else if length stack < 512 then stack @ [c] else stack) cs"

text \<open>The loop that appends the stack to the root prefix in \<open>result\<close>.\<close>

fun rebuild :: "string \<Rightarrow> string list \<Rightarrow> string option" where
  "rebuild result [] = Some result"
| "rebuild result (c # cs) =
     (let sep = (if length result = 1 \<and> hd result = slash then Some result
                 else if result \<noteq> [] \<and> last result \<noteq> slash
                 then (if length result + 1 \<ge> 2 * OPFTP_MAX_PATH then None
                       else Some (result @ [slash]))
                 else Some result)
      in case sep of
           None \<Rightarrow> None
         | Some r \<Rightarrow> (if length r + length c + 1 > 2 * OPFTP_MAX_PATH then None
                      else rebuild (r @ c) cs))"

definition opftp_path_resolve ::
  "string \<Rightarrow> string \<Rightarrow> string \<Rightarrow> nat \<Rightarrow> (string \<times> bool) option" where
  "opftp_path_resolve root cwd arg outsz =
     (let base = (if arg \<noteq> [] \<and> hd arg = slash then [slash] else cwd) in
      if length base \<ge> OPFTP_MAX_PATH then None
      else
        let tsl = (arg \<noteq> [] \<and> last arg = slash);
            stack0 = split_components base OPFTP_MAX_PATH 512;
            rn = length (split_components root OPFTP_MAX_PATH 64);
            stack1 = (if base \<noteq> [] \<and> hd base = slash \<and> rn \<le> length stack0
                      then drop rn stack0 else stack0);
            stack = resolve_components stack1 (split_components arg OPFTP_MAX_PATH 512)
        in if length root > 1 \<and> length root + 1 > 2 * OPFTP_MAX_PATH then None
           else case rebuild (if length root > 1 then root else [slash]) stack of
                  None \<Rightarrow> None
                | Some result \<Rightarrow>
                    (if length result + 1 > outsz then None else Some (result, tsl)))"

text \<open>\<open>opftp_path_parent\<close>: strip trailing slashes, cut at the last slash.\<close>

function strip_trailing :: "string \<Rightarrow> string" where
  "strip_trailing p = (if length p > 1 \<and> last p = slash then strip_trailing (butlast p) else p)"
  by pat_completeness auto
termination by (relation "measure length") auto

declare strip_trailing.simps [simp del]

definition opftp_path_parent :: "string \<Rightarrow> nat \<Rightarrow> string option" where
  "opftp_path_parent path outsz =
     (if length path \<le> 1 then (if outsz < 1 then None else Some [])
      else
        let p = strip_trailing path in
        if slash \<notin> set p then (if outsz < 1 then None else Some [])
        else
          let plen0 = length p - length (base_name p) - 1;
              plen = (if plen0 = 0 then 1 else plen0)
          in if plen + 1 > outsz then None else Some (take plen p))"

subsection \<open>Paths as component lists\<close>

definition valid_comp :: "string \<Rightarrow> bool" where
  "valid_comp c \<longleftrightarrow> c \<noteq> [] \<and> slash \<notin> set c"

definition plain_comp :: "string \<Rightarrow> bool" where
  "plain_comp c \<longleftrightarrow> valid_comp c \<and> c \<noteq> ''.'' \<and> c \<noteq> ''..''"

fun join_path :: "string \<Rightarrow> string list \<Rightarrow> string" where
  "join_path r [] = r"
| "join_path r (c # cs) = join_path ((if last r = slash then r else r @ [slash]) @ c) cs"

text \<open>The components of a path, read off its text from the right: the pieces between slashes, the
  empty ones left out.\<close>

primrec pieces :: "string \<Rightarrow> string list" where
  "pieces [] = [[]]"
| "pieces (c # cs) = (if c = slash then [] # pieces cs else (c # hd (pieces cs)) # tl (pieces cs))"

definition components :: "string \<Rightarrow> string list" where
  "components p = filter (\<lambda>c. c \<noteq> []) (pieces p)"

text \<open>A canonical path: absolute, single slashes, no dot components, no trailing slash
  (but for the root itself).\<close>

definition canonical :: "string \<Rightarrow> bool" where
  "canonical p \<longleftrightarrow> p = join_path [slash] (split_loop p) \<and> list_all plain_comp (split_loop p)"

text \<open>The abstract meaning of resolving components against a directory, with no bounds.\<close>

fun norm_comps :: "string list \<Rightarrow> string list \<Rightarrow> string list" where
  "norm_comps st [] = st"
| "norm_comps st (c # cs) =
     norm_comps (if c = ''.'' then st else if c = ''..'' then butlast st else st @ [c]) cs"

section \<open>Splitting and joining\<close>

lemma split_loop_Nil [simp]: "split_loop [] = []"
  by (subst split_loop.simps) simp

lemma split_loop_slash [simp]: "split_loop (slash # p) = split_loop p"
  by (subst (1 2) split_loop.simps) simp

lemma split_loop_word:
  assumes "valid_comp w"
  shows "split_loop (w @ slash # r) = w # split_loop r" and "split_loop w = [w]"
proof -
  from assms have nos: "\<forall>x\<in>set w. x \<noteq> slash" and "w \<noteq> []"
    by (auto simp: valid_comp_def)
  then have skip: "dropWhile (\<lambda>c. c = slash) (w @ t) = w @ t" for t
    by (cases w) auto
  have take: "takeWhile (\<lambda>c. c \<noteq> slash) (w @ slash # r) = w"
      "dropWhile (\<lambda>c. c \<noteq> slash) (w @ slash # r) = slash # r"
    and take': "takeWhile (\<lambda>c. c \<noteq> slash) w = w" "dropWhile (\<lambda>c. c \<noteq> slash) w = []"
    using nos by (simp_all add: takeWhile_tail dropWhile_append3)
  show "split_loop (w @ slash # r) = w # split_loop r"
    by (subst split_loop.simps) (simp add: Let_def skip take)
  show "split_loop w = [w]"
    using skip [of "[]"] \<open>w \<noteq> []\<close> by (subst split_loop.simps) (simp add: Let_def take')
qed

lemma split_loop_append: "split_loop (p @ slash # q) = split_loop p @ split_loop q"
proof (induction p rule: length_induct)
  case (1 p)
  show ?case
  proof (cases "slash \<in> set p")
    case True
    then obtain w p2 where p: "p = w @ slash # p2" and w: "slash \<notin> set w"
      by (meson split_list_first)
    then have IH: "split_loop (p2 @ slash # q) = split_loop p2 @ split_loop q"
      using 1 by simp
    show ?thesis
    proof (cases "w = []")
      case True
      with p IH show ?thesis by simp
    next
      case False
      with w have "valid_comp w" by (simp add: valid_comp_def)
      with p IH show ?thesis by (simp add: split_loop_word)
    qed
  next
    case False
    then show ?thesis
      by (cases "p = []") (simp_all add: split_loop_word valid_comp_def)
  qed
qed

lemma split_loop_valid: "list_all valid_comp (split_loop p)"
proof (induction p rule: split_loop.induct)
  case (1 p)
  let ?q = "dropWhile (\<lambda>c. c = slash) p"
  have "valid_comp (takeWhile (\<lambda>c. c \<noteq> slash) ?q)" if "?q \<noteq> []"
    using that hd_dropWhile [OF that]
    by (cases ?q) (auto simp: valid_comp_def dest: set_takeWhileD)
  with 1 show ?case
    by (subst split_loop.simps) (simp add: Let_def)
qed

lemma join_path_not_Nil [simp]: "r \<noteq> [] \<Longrightarrow> join_path r cs \<noteq> []"
  by (induction cs arbitrary: r) auto

lemma join_path_append: "join_path r (xs @ ys) = join_path (join_path r xs) ys"
  by (induction xs arbitrary: r) auto

lemma prefix_join_path: "prefix r (join_path r cs)"
proof (induction cs arbitrary: r)
  case (Cons c cs)
  let ?r = "(if last r = slash then r else r @ [slash]) @ c"
  have "prefix r ?r" by simp
  from this Cons [of ?r] have "prefix r (join_path ?r cs)"
    by (rule prefix_order.trans)
  then show ?case by simp
qed simp

lemma split_loop_sep:
  assumes "r \<noteq> []" and "valid_comp c"
  shows "split_loop ((if last r = slash then r else r @ [slash]) @ c) = split_loop r @ [c]"
proof (cases "last r = slash")
  case True
  with assms(1) obtain r' where r: "r = r' @ [slash]" by (metis append_butlast_last_id)
  then have "split_loop r = split_loop r'" using split_loop_append [of r' "[]"] by simp
  with r assms(2) show ?thesis by (simp add: split_loop_append split_loop_word)
next
  case False
  with assms(2) show ?thesis by (simp add: split_loop_append split_loop_word)
qed

lemma split_loop_join:
  "r \<noteq> [] \<Longrightarrow> list_all valid_comp cs \<Longrightarrow> split_loop (join_path r cs) = split_loop r @ cs"
  by (induction cs arbitrary: r) (simp_all add: split_loop_sep)

lemma plain_valid: "list_all plain_comp cs \<Longrightarrow> list_all valid_comp cs"
  by (auto simp: list_all_iff plain_comp_def)

lemma canonical_join: "list_all plain_comp cs \<Longrightarrow> canonical (join_path [slash] cs)"
  by (simp add: canonical_def split_loop_join plain_valid)

lemma canonicalE:
  assumes "canonical p"
  obtains cs where "list_all plain_comp cs" and "p = join_path [slash] cs"
  using assms by (auto simp: canonical_def)

lemma pieces_not_Nil [simp]: "pieces p \<noteq> []"
  by (cases p) simp_all

lemma pieces_word: "slash \<notin> set w \<Longrightarrow> pieces w = [w]"
  by (induction w) auto

lemma pieces_append: "pieces (p @ slash # q) = pieces p @ pieces q"
  by (induction p) simp_all

text \<open>The tokenizer finds the components.\<close>

lemma split_loop_components: "split_loop p = components p"
proof (induction "length p" arbitrary: p rule: less_induct)
  case less
  show ?case
  proof (cases "slash \<in> set p")
    case True
    then obtain w q where p: "p = w @ slash # q" and w: "slash \<notin> set w" by (meson split_list_first)
    then have "split_loop q = components q" by (intro less) simp
    moreover have "split_loop w = components w"
      using w split_loop_word(2) [of w] by (cases "w = []") (simp_all add: components_def pieces_word valid_comp_def)
    ultimately show ?thesis by (simp add: p split_loop_append components_def pieces_append)
  next
    case False
    then show ?thesis
      using split_loop_word(2) [of p] by (cases "p = []") (simp_all add: components_def pieces_word valid_comp_def)
  qed
qed

section \<open>The loops of the resolver\<close>

lemma length_resolve_components:
  "length st \<le> 512 \<Longrightarrow> length (resolve_components st cs) \<le> 512"
  by (induction cs arbitrary: st) auto

lemma resolve_components_plain:
  "list_all plain_comp st \<Longrightarrow> list_all valid_comp cs \<Longrightarrow>
   list_all plain_comp (resolve_components st cs)"
proof (induction cs arbitrary: st)
  case (Cons c cs)
  let ?st = "if c = ''.'' then st else if c = ''..'' then (if st \<noteq> [] then butlast st else st)
      else if length st < 512 then st @ [c] else st"
  have "list_all plain_comp (butlast st)"
    using Cons.prems(1) by (auto simp: list_all_iff dest: in_set_butlastD)
  moreover have "plain_comp c" if "c \<noteq> ''.''" "c \<noteq> ''..''"
    using that Cons.prems(2) by (simp add: plain_comp_def)
  ultimately have "list_all plain_comp ?st" using Cons.prems(1) by simp
  with Cons show ?case by simp
qed simp

text \<open>With room on the stack the loop computes the abstract normalisation.\<close>

lemma resolve_components_norm:
  "length st + length cs \<le> 512 \<Longrightarrow> resolve_components st cs = norm_comps st cs"
proof (induction cs arbitrary: st)
  case (Cons c cs)
  have "length (butlast st) + length cs \<le> 512" using Cons.prems by simp
  with Cons show ?case by simp
qed simp

lemma norm_comps_append: "norm_comps st (xs @ ys) = norm_comps (norm_comps st xs) ys"
  by (induction xs arbitrary: st) auto

lemma norm_comps_plain: "list_all plain_comp cs \<Longrightarrow> norm_comps st cs = st @ cs"
  by (induction cs arbitrary: st) (auto simp: plain_comp_def)

lemma join_path_length_mono: "length r \<le> length (join_path r cs)"
  using prefix_join_path [of r cs] by (rule prefix_length_le)

lemma rebuild_eq:
  assumes "r \<noteq> []" and "list_all valid_comp cs" and "length r + 1 \<le> 2 * OPFTP_MAX_PATH"
  shows "rebuild r cs =
    (if length (join_path r cs) + 1 \<le> 2 * OPFTP_MAX_PATH then Some (join_path r cs) else None)"
  using assms
proof (induction cs arbitrary: r)
  case (Cons c cs)
  let ?s = "if last r = slash then r else r @ [slash]"
  have c: "1 \<le> length c" using Cons.prems(2) by (cases c) (auto simp: valid_comp_def)
  have one: "length r = 1 \<and> hd r = slash \<Longrightarrow> last r = slash" by (cases r) auto
  have step: "rebuild r (c # cs) =
      (if length (?s @ c) + 1 \<le> 2 * OPFTP_MAX_PATH then rebuild (?s @ c) cs else None)"
    using Cons.prems(1) c one by (auto simp: Let_def)
  show ?case
  proof (cases "length (?s @ c) + 1 \<le> 2 * OPFTP_MAX_PATH")
    case True
    with Cons step show ?thesis by simp
  next
    case False
    with join_path_length_mono [of "?s @ c" cs] step show ?thesis by simp
  qed
qed simp

section \<open>Canonical paths\<close>

lemma hd_join_path: "r \<noteq> [] \<Longrightarrow> hd (join_path r cs) = hd r"
  by (induction cs arbitrary: r) auto

lemma canonical_hd: "canonical p \<Longrightarrow> p \<noteq> [] \<and> hd p = slash"
  by (erule canonicalE) (simp add: hd_join_path)

lemma join_path_singleton:
  "length (join_path r cs) \<le> length r \<Longrightarrow> list_all valid_comp cs \<Longrightarrow> cs = []"
proof (cases cs)
  case (Cons c cs')
  assume "length (join_path r cs) \<le> length r" and "list_all valid_comp cs"
  with Cons join_path_length_mono [of "(if last r = slash then r else r @ [slash]) @ c" cs']
  show ?thesis by (cases c) (auto simp: valid_comp_def split: if_splits)
qed

lemma canonical_short: "canonical p \<Longrightarrow> length p \<le> 1 \<Longrightarrow> p = [slash]"
proof (erule canonicalE)
  fix cs assume "list_all plain_comp cs" "p = join_path [slash] cs" "length p \<le> 1"
  then show "p = [slash]" using join_path_singleton [of "[slash]" cs] plain_valid by force
qed

lemma canonical_last: "canonical p \<Longrightarrow> last p = slash \<longleftrightarrow> p = [slash]"
proof (erule canonicalE)
  fix cs assume cs: "list_all plain_comp cs" "p = join_path [slash] cs"
  show "last p = slash \<longleftrightarrow> p = [slash]"
  proof (cases cs rule: rev_cases)
    case Nil
    with cs show ?thesis by simp
  next
    case (snoc ds d)
    with cs have d: "d \<noteq> []" "slash \<notin> set d" by (simp_all add: plain_comp_def valid_comp_def)
    with snoc cs have "last p = last d" by (simp add: join_path_append)
    with d have "last p \<noteq> slash" by (metis last_in_set)
    then show ?thesis by auto
  qed
qed

lemma canonical_root_prefix:
  "canonical root \<Longrightarrow> (if length root > 1 then root else [slash]) = root"
  using canonical_short by fastforce

lemma canonical_slash [simp]: "canonical [slash]"
  using canonical_join [of "[]"] by simp

lemma split_loop_single_slash [simp]: "split_loop [slash] = []"
  by simp

lemma canonical_plain: "canonical p \<Longrightarrow> list_all plain_comp (split_loop p)"
  by (simp add: canonical_def)

lemma join_path_canonical:
  assumes "canonical root" and "list_all plain_comp cs"
  shows "canonical (join_path root cs)" and "split_loop (join_path root cs) = split_loop root @ cs"
proof -
  from assms(1) obtain rs where r: "list_all plain_comp rs" "root = join_path [slash] rs"
    by (rule canonicalE)
  then have "join_path root cs = join_path [slash] (rs @ cs)"
    by (simp add: join_path_append)
  moreover have "list_all plain_comp (rs @ cs)" using r assms(2) by simp
  ultimately show "canonical (join_path root cs)"
    by (metis canonical_join)
  show "split_loop (join_path root cs) = split_loop root @ cs"
    using assms canonical_hd [OF assms(1)] by (simp add: split_loop_join plain_valid)
qed

lemma split_components_plain:
  "list_all plain_comp (split_loop p) \<Longrightarrow> list_all plain_comp (split_components p b n)"
  by (auto simp: split_components_def list_all_iff dest: in_set_takeD)

lemma split_components_valid: "list_all valid_comp (split_components p b n)"
  using split_loop_valid [of p] by (auto simp: split_components_def list_all_iff dest: in_set_takeD)

lemma split_components_id:
  "length p < b \<Longrightarrow> length (split_loop p) \<le> n \<Longrightarrow> split_components p b n = split_loop p"
  by (simp add: split_components_def)

text \<open>A path of \<open>n\<close> bytes has at most \<open>(n + 1) div 2\<close> components.\<close>

lemma length_split_loop: "2 * length (split_loop p) \<le> length p + 1"
proof (induction p rule: split_loop.induct)
  case (1 p)
  define q where "q = dropWhile (\<lambda>c. c = slash) p"
  define w where "w = takeWhile (\<lambda>c. c \<noteq> slash) q"
  define r where "r = dropWhile (\<lambda>c. c \<noteq> slash) q"
  have q: "length q \<le> length p" by (simp add: q_def length_dropWhile_le)
  have wr: "length w + length r = length q"
    unfolding w_def r_def by (metis length_append takeWhile_dropWhile_id)
  have unfold: "split_loop p = (if q = [] then [] else w # split_loop (drop 1 r))"
    by (subst split_loop.simps) (simp only: Let_def q_def w_def r_def)
  show ?case
  proof (cases "q = []")
    case True
    with unfold show ?thesis by simp
  next
    case False
    then have w: "w \<noteq> []"
      using hd_dropWhile [of "\<lambda>c. c = slash" p] by (cases q) (auto simp: q_def w_def)
    have IH: "2 * length (split_loop (drop 1 r)) \<le> length (drop 1 r) + 1"
      using 1 [OF q_def] False by (simp only: r_def simp_thms)
    show ?thesis
    proof (cases r)
      case Nil
      with unfold False w q wr show ?thesis by (cases w) auto
    next
      case (Cons x r')
      with unfold False w q wr IH show ?thesis by (cases w) auto
    qed
  qed
qed

section \<open>What the resolver computes\<close>

text \<open>The stack the code applies the argument to: the components of the base with as many leading
  components dropped as the root has, whether or not they are the root's.\<close>

definition resolve_base :: "string \<Rightarrow> string \<Rightarrow> string \<Rightarrow> string list" where
  "resolve_base root cwd arg =
     (let cs = (if arg \<noteq> [] \<and> hd arg = slash then [] else split_loop cwd);
          rn = length (split_loop root)
      in if rn \<le> length cs then drop rn cs else cs)"

lemma opftp_path_resolve_eq:
  assumes "canonical root" "canonical cwd"
    and "length root < OPFTP_MAX_PATH" "length cwd < OPFTP_MAX_PATH" "length arg < OPFTP_MAX_PATH"
    and "length (split_loop root) \<le> 64"
    and "length (resolve_base root cwd arg) + length (split_loop arg) \<le> 512"
    and "outsz \<le> 2 * OPFTP_MAX_PATH"
  shows "opftp_path_resolve root cwd arg outsz =
    (let p = join_path root (norm_comps (resolve_base root cwd arg) (split_loop arg))
     in if length p < outsz then Some (p, arg \<noteq> [] \<and> last arg = slash) else None)"
proof -
  let ?base = "if arg \<noteq> [] \<and> hd arg = slash then [slash] else cwd"
  have base: "?base \<noteq> [] \<and> hd ?base = slash" "length ?base < OPFTP_MAX_PATH"
    using canonical_hd [OF assms(2)] assms(4) by auto
  have comps: "split_components ?base OPFTP_MAX_PATH 512 = split_loop ?base"
      "split_components root OPFTP_MAX_PATH 64 = split_loop root"
      "split_components arg OPFTP_MAX_PATH 512 = split_loop arg"
    using base assms length_split_loop [of cwd] length_split_loop [of arg]
    by (auto simp: split_components_def)
  have stack: "(if length (split_loop root) \<le> length (split_loop ?base)
      then drop (length (split_loop root)) (split_loop ?base) else split_loop ?base) =
      resolve_base root cwd arg"
    by (auto simp: resolve_base_def Let_def)
  have norm: "resolve_components (resolve_base root cwd arg) (split_loop arg) =
      norm_comps (resolve_base root cwd arg) (split_loop arg)"
    using assms(7) by (rule resolve_components_norm)
  have "list_all valid_comp (resolve_base root cwd arg)"
    using split_loop_valid [of cwd]
    by (auto simp: resolve_base_def Let_def list_all_iff dest: in_set_dropD)
  moreover have "list_all plain_comp (resolve_base root cwd arg)"
    using canonical_plain [OF assms(2)]
    by (auto simp: resolve_base_def Let_def list_all_iff dest: in_set_dropD)
  ultimately have "list_all valid_comp (norm_comps (resolve_base root cwd arg) (split_loop arg))"
    using resolve_components_plain [of _ "split_loop arg"] split_loop_valid norm plain_valid
    by metis
  then have "rebuild root (norm_comps (resolve_base root cwd arg) (split_loop arg)) =
      (let p = join_path root (norm_comps (resolve_base root cwd arg) (split_loop arg))
       in if length p + 1 \<le> 2 * OPFTP_MAX_PATH then Some p else None)"
    using canonical_hd [OF assms(1)] assms(3) by (simp add: rebuild_eq)
  then show ?thesis
    using base assms(3,8) canonical_root_prefix [OF assms(1)]
    by (auto simp: opftp_path_resolve_def Let_def comps stack norm)
qed

lemma opftp_path_resolve_comps:
  assumes "canonical root" "canonical cwd"
    and "length root < OPFTP_MAX_PATH" "length cwd < OPFTP_MAX_PATH" "length arg < OPFTP_MAX_PATH"
    and "length (split_loop root) \<le> 64"
    and "length (split_loop cwd) + length (split_loop arg) \<le> 512"
  shows "opftp_path_resolve root cwd arg OPFTP_MAX_PATH =
    (let p = join_path root (norm_comps (resolve_base root cwd arg) (split_loop arg))
     in if length p < OPFTP_MAX_PATH then Some (p, arg \<noteq> [] \<and> last arg = slash) else None)"
proof -
  have "length (resolve_base root cwd arg) \<le> length (split_loop cwd)"
    by (simp add: resolve_base_def Let_def)
  with assms(7) have "length (resolve_base root cwd arg) + length (split_loop arg) \<le> 512"
    by simp
  with assms show ?thesis by (intro opftp_path_resolve_eq) auto
qed

text \<open>Whatever the argument, a resolved path is the root followed by plain components.\<close>

lemma resolve_join:
  assumes "canonical root" and "canonical cwd"
    and "opftp_path_resolve root cwd arg outsz = Some (p, ts)"
  obtains st where "list_all plain_comp st" "p = join_path root st" "length p < outsz"
proof -
  let ?base = "if arg \<noteq> [] \<and> hd arg = slash then [slash] else cwd"
  let ?st0 = "split_components ?base OPFTP_MAX_PATH 512"
  define rn where "rn = length (split_components root OPFTP_MAX_PATH 64)"
  define st where "st = resolve_components
      (if ?base \<noteq> [] \<and> hd ?base = slash \<and> rn \<le> length ?st0 then drop rn ?st0 else ?st0)
      (split_components arg OPFTP_MAX_PATH 512)"
  have "list_all plain_comp ?st0"
    using canonical_plain [OF assms(2)] by (auto intro: split_components_plain)
  then have plain: "list_all plain_comp st"
    unfolding st_def
    by (intro resolve_components_plain split_components_valid)
      (auto simp: list_all_iff dest: in_set_dropD)
  have root: "(if length root > 1 then root else [slash]) = root"
    by (rule canonical_root_prefix [OF assms(1)])
  from assms(3) have len: "length root + 1 \<le> 2 * OPFTP_MAX_PATH"
    and reb: "rebuild root st = Some p" and out: "length p < outsz"
    using root
    by (auto simp: opftp_path_resolve_def Let_def rn_def st_def split: if_splits option.splits)
  from reb plain len canonical_hd [OF assms(1)] have "p = join_path root st"
    by (simp add: rebuild_eq plain_valid split: if_splits)
  with plain out show thesis by (intro that)
qed

text \<open>
  C1: Path traversal is impossible at the resolver. Whatever the client sends as an argument,
  a path the resolver returns is canonical, lies at or below the configured root component by
  component, and fits the output buffer with its terminating NUL. The root and the stored
  working directory are assumed canonical; no length assumption is needed.
\<close>

theorem resolve_contained:
  assumes "canonical root" and "canonical cwd"
    and "opftp_path_resolve root cwd arg outsz = Some (p, ts)"
  shows "canonical p \<and> prefix (split_loop root) (split_loop p) \<and> length p < outsz"
  by (rule resolve_join [OF assms]) (simp add: join_path_canonical [OF assms(1)])

text \<open>
  C24: Functional correctness against paths as component lists. For a working directory
  \<open>dir\<close> below the root, given with the root's prefix as the resolver expects it, and within the
  buffer and stack limits, the resolver succeeds exactly when the result fits, and returns the
  root extended by the argument's components normalised against \<open>dir\<close>, or against the root for
  an absolute argument (\<open>.\<close> skipped, \<open>..\<close> popping and clamping at the root, repeated slashes
  collapsed), with the trailing-slash flag of the argument. With the root \<open>/\<close> every canonical
  working directory is of this form.
\<close>

theorem resolve_correct:
  assumes "canonical root" "list_all plain_comp dir"
    and "length (join_path root dir) < OPFTP_MAX_PATH" "length arg < OPFTP_MAX_PATH"
    and "length (components root) \<le> 64"
    and "length dir + length (components arg) \<le> 512"
  shows "opftp_path_resolve root (join_path root dir) arg OPFTP_MAX_PATH =
    (let p = join_path root (norm_comps (if arg \<noteq> [] \<and> hd arg = slash then [] else dir) (components arg))
     in if length p < OPFTP_MAX_PATH then Some (p, arg \<noteq> [] \<and> last arg = slash) else None)"
proof -
  let ?cwd = "join_path root dir"
  note cwd = join_path_canonical [OF assms(1,2)]
  have base: "resolve_base root ?cwd arg = (if arg \<noteq> [] \<and> hd arg = slash then [] else dir)"
    by (simp add: resolve_base_def cwd(2))
  have "length root < OPFTP_MAX_PATH" using join_path_length_mono [of root dir] assms(3) by simp
  with assms cwd(1) base show ?thesis
    using opftp_path_resolve_eq [of root ?cwd arg OPFTP_MAX_PATH] by (simp add: split_loop_components)
qed

lemma norm_comps_base:
  "canonical cwd \<Longrightarrow> norm_comps [] (split_loop cwd @ cs) = norm_comps (split_loop cwd) cs"
  by (simp add: norm_comps_append norm_comps_plain canonical_plain)

lemma split_loop_cwd_arg: "split_loop (cwd @ slash # arg) = split_loop cwd @ split_loop arg"
  by (rule split_loop_append)

text \<open>
  With the default root \<open>/\<close>, a relative argument means the same as the absolute path
  made by joining it to the working directory.
\<close>

theorem resolve_relative:
  assumes "canonical cwd" and "arg \<noteq> []" and "hd arg \<noteq> slash"
    and "length cwd + length arg + 1 < OPFTP_MAX_PATH"
  shows "opftp_path_resolve [slash] cwd arg OPFTP_MAX_PATH =
         opftp_path_resolve [slash] [slash] (cwd @ slash # arg) OPFTP_MAX_PATH"
proof -
  have n: "length (split_loop cwd) + length (split_loop arg) \<le> 512"
    using assms(4) length_split_loop [of cwd] length_split_loop [of arg] by linarith
  have abs: "hd (cwd @ slash # arg) = slash" "last (cwd @ slash # arg) = last arg"
    using canonical_hd [OF assms(1)] assms(2) by auto
  have base: "resolve_base [slash] cwd arg = split_loop cwd"
      "resolve_base [slash] [slash] (cwd @ slash # arg) = []"
    using assms(3) abs by (simp_all add: resolve_base_def)
  show ?thesis
    using assms n abs base
    by (simp add: opftp_path_resolve_comps split_loop_cwd_arg norm_comps_base Let_def
        del: last_append)
qed

text \<open>
  An absolute canonical argument names that path below the root, whatever the working
  directory is. With the root \<open>/\<close> the resolver returns canonical paths unchanged.
\<close>

theorem resolve_absolute:
  assumes "canonical root" "canonical cwd" "canonical p"
    and "length cwd < OPFTP_MAX_PATH" "length (split_loop root) \<le> 64"
    and "length (join_path root (split_loop p)) < OPFTP_MAX_PATH"
    and "length p < OPFTP_MAX_PATH"
  shows "opftp_path_resolve root cwd p OPFTP_MAX_PATH =
         Some (join_path root (split_loop p), p = [slash])"
proof -
  have root: "length root < OPFTP_MAX_PATH"
    using assms(6) join_path_length_mono [of root "split_loop p"] by simp
  have base: "resolve_base root cwd p = []"
    using canonical_hd [OF assms(3)] by (simp add: resolve_base_def Let_def)
  have "last p = slash \<longleftrightarrow> p = [slash]" using assms(3) by (rule canonical_last)
  moreover have "length (split_loop p) \<le> 512"
    using length_split_loop [of p] assms(7) by simp
  ultimately show ?thesis
    using assms root base canonical_hd [OF assms(3)]
    by (subst opftp_path_resolve_eq)
      (simp_all add: norm_comps_plain canonical_plain Let_def)
qed

section \<open>Parents\<close>

lemma strip_trailing_id: "last p \<noteq> slash \<Longrightarrow> strip_trailing p = p"
  by (subst strip_trailing.simps) simp

lemma prefix_strip_trailing: "prefix (strip_trailing p) p"
proof (induction p rule: strip_trailing.induct)
  case (1 p)
  have "prefix (butlast p) p" by (rule prefixeq_butlast)
  with 1 show ?case
    by (subst strip_trailing.simps) (auto intro: prefix_order.trans)
qed

lemma base_name_join:
  assumes "valid_comp c" and "r \<noteq> []"
  shows "base_name ((if last r = slash then r else r @ [slash]) @ c) = c"
proof (cases "last r = slash")
  case True
  with assms(2) obtain r' where "r = r' @ [slash]" by (metis append_butlast_last_id)
  with assms show ?thesis by (simp add: base_name_append valid_comp_def)
next
  case False
  with assms show ?thesis by (simp add: base_name_append valid_comp_def)
qed

lemma path_parent_snoc:
  assumes "list_all plain_comp (cs @ [c])"
  shows "opftp_path_parent (join_path [slash] (cs @ [c])) n =
    (if length (join_path [slash] cs) < n then Some (join_path [slash] cs) else None)"
proof -
  define r where "r = join_path [slash] cs"
  define p where "p = (if last r = slash then r else r @ [slash]) @ c"
  have p: "join_path [slash] (cs @ [c]) = p"
    by (simp add: p_def r_def join_path_append)
  have c: "valid_comp c" using assms by (simp add: plain_comp_def)
  then have c': "c \<noteq> []" "last c \<noteq> slash" by (metis last_in_set valid_comp_def)+
  have r: "r \<noteq> []" "last r = slash \<longleftrightarrow> r = [slash]"
    using canonical_last [of r] canonical_join [of cs] assms by (simp_all add: r_def)
  have strip: "strip_trailing p = p"
    using c' by (intro strip_trailing_id) (simp add: p_def)
  have base: "base_name p = c"
    unfolding p_def using c r(1) by (rule base_name_join)
  have "length p > 1"
    using r(1) c' unfolding p_def by (cases r; cases c) auto
  moreover have "slash \<in> set p"
    using r unfolding p_def by (cases "last r = slash") auto
  moreover have "length p - length c - 1 = (if r = [slash] then 0 else length r)"
    using r by (simp add: p_def)
  moreover have "take (length r) p = r" by (simp add: p_def)
  ultimately show ?thesis
    unfolding p r_def [symmetric] using r(1)
    by (auto simp: opftp_path_parent_def strip base Let_def)
qed

text \<open>
  Taking the parent of a canonical path drops exactly its last component; the parent of
  the root is the empty string, the value by which callers recognise the root.
\<close>

theorem path_parent_correct:
  assumes "canonical p" and "length p < OPFTP_MAX_PATH"
  shows "opftp_path_parent p OPFTP_MAX_PATH =
    Some (if split_loop p = [] then [] else join_path [slash] (butlast (split_loop p)))"
proof -
  from assms(1) obtain cs where cs: "list_all plain_comp cs" "p = join_path [slash] cs"
    by (rule canonicalE)
  then have sp: "split_loop p = cs" by (simp add: split_loop_join plain_valid)
  show ?thesis
  proof (cases cs rule: rev_cases)
    case Nil
    with cs sp show ?thesis by (simp add: opftp_path_parent_def)
  next
    case (snoc ds d)
    have "length (join_path [slash] ds) \<le> length p"
      using cs snoc join_path_length_mono [of "join_path [slash] ds" "[d]"]
      by (simp add: join_path_append)
    with cs sp snoc assms(2) show ?thesis by (simp add: path_parent_snoc)
  qed
qed

text \<open>Climbing to the parent makes progress, so a loop over parents ends.\<close>

lemma path_parent_shorter:
  assumes "opftp_path_parent p n = Some q" and "q \<noteq> []"
  shows "length q < length p"
proof -
  let ?p = "strip_trailing p"
  from assms have long: "length p > 1" and q: "q = take (length ?p - length (base_name ?p) - 1) ?p
      \<or> q = take 1 ?p" and "?p \<noteq> []"
    by (auto simp: opftp_path_parent_def Let_def split: if_splits)
  have "length ?p \<le> length p"
    using prefix_strip_trailing by (rule prefix_length_le)
  with q long \<open>?p \<noteq> []\<close> show ?thesis
    by (cases ?p) auto
qed

section \<open>Working directories below a root\<close>

text \<open>
  The resolver drops as many leading components of the working directory as the root has,
  which is right only for a working directory that still carries the root prefix. The command
  handlers store the directory without that prefix, and then a relative name is resolved in
  the wrong directory; the absolute form of the same name is not.
\<close>

lemma resolve_cwd_without_root:
  "opftp_path_resolve ''/srv'' ''/a'' ''b'' OPFTP_MAX_PATH = Some (''/srv/b'', False)"
  "opftp_path_resolve ''/srv'' ''/a'' ''/a/b'' OPFTP_MAX_PATH = Some (''/srv/a/b'', False)"
  "opftp_path_resolve ''/srv'' ''/srv/a'' ''b'' OPFTP_MAX_PATH = Some (''/srv/a/b'', False)"
  by (simp_all add: opftp_path_resolve_def split_components_def split_loop.simps)

section \<open>Witnesses\<close>

lemma resolve_contained_witness:
  "canonical ''/srv'' \<and> canonical ''/srv/a'' \<and>
   opftp_path_resolve ''/srv'' ''/srv/a'' ''../../etc'' 1024 = Some (''/srv/etc'', False) \<and>
   prefix (split_loop ''/srv'') (split_loop ''/srv/etc'')"
proof -
  have h: "canonical ''/srv''" "canonical ''/srv/a''"
    "opftp_path_resolve ''/srv'' ''/srv/a'' ''../../etc'' 1024 = Some (''/srv/etc'', False)"
    by code_simp+
  from h resolve_contained [OF h] show ?thesis by simp
qed

lemma resolve_correct_witness:
  "opftp_path_resolve ''/srv'' ''/srv/a/b'' ''..//c/'' 1024 = Some (''/srv/a/c'', True)"
proof -
  have "canonical ''/srv''" "list_all plain_comp [''a'', ''b'']" "length (components ''/srv'') \<le> 64"
    "length [''a'', ''b''] + length (components ''..//c/'') \<le> 512"
    by code_simp+
  then have "opftp_path_resolve ''/srv'' (join_path ''/srv'' [''a'', ''b'']) ''..//c/'' 1024 =
      (let p = join_path ''/srv'' (norm_comps (if ''..//c/'' \<noteq> [] \<and> hd ''..//c/'' = slash then [] else [''a'', ''b''])
                 (components ''..//c/''))
       in if length p < 1024 then Some (p, ''..//c/'' \<noteq> [] \<and> last ''..//c/'' = slash) else None)"
    by (intro resolve_correct) simp_all
  then show ?thesis by (simp add: components_def)
qed

lemma resolve_relative_witness:
  "opftp_path_resolve ''/'' ''/a'' ''b'' 1024 = opftp_path_resolve ''/'' ''/'' ''/a/b'' 1024"
proof -
  have "canonical ''/a''" by code_simp
  then show ?thesis using resolve_relative [of "''/a''" "''b''"] by simp
qed

lemma resolve_absolute_witness:
  "opftp_path_resolve ''/srv'' ''/x'' ''/a/b'' 1024 = Some (''/srv/a/b'', False)"
proof -
  have "canonical ''/srv''" "canonical ''/x''" "canonical ''/a/b''"
    "length (split_loop ''/srv'') \<le> 64"
    "join_path ''/srv'' (split_loop ''/a/b'') = ''/srv/a/b''"
    by code_simp+
  then show ?thesis using resolve_absolute [of "''/srv''" "''/x''" "''/a/b''"] by simp
qed

lemma path_parent_correct_witness:
  "opftp_path_parent ''/a/b'' 1024 = Some ''/a''"
proof -
  have "canonical ''/a/b''" "split_loop ''/a/b'' = [''a'', ''b'']" by code_simp+
  then show ?thesis using path_parent_correct [of "''/a/b''"] by simp
qed

end
