(* ===== verification/Fs_Rooted.thy ===== *)
theory Fs_Rooted
  imports Fs_Vtable Path_Resolve
begin

text \<open>
  The rooted file system wrapper: \<^verbatim>\<open>src/src/fs_rooted.c\<close>. A wrapper is made from a base backend,
  the root and, for the POSIX backend, \<open>realpath\<close>, which belongs to the operating system and is
  an argument here. The wrapper is again a backend; the locale \<open>confined_fs\<close> says what the rest
  of the server relies on: an operation on a path outside the allowed region fails with
  \<open>EACCES\<close> and leaves the world untouched.
\<close>

section \<open>Definitions\<close>

definition under_root :: "string \<Rightarrow> string \<Rightarrow> bool" where
  "under_root root path \<longleftrightarrow>
     prefix root path \<and>
     (if length root = 1 then path \<noteq> [] \<and> hd path = slash
      else let rest = drop (length root) path in rest = [] \<or> hd rest = slash)"

type_synonym 'x realpath = "string \<Rightarrow> ('x, string) fs_op"

text \<open>The \<open>for\<close> loop over the ancestors of a missing path.\<close>

function (sequential) realpath_probe ::
  "'x realpath \<Rightarrow> string \<Rightarrow> string \<Rightarrow> string \<Rightarrow> 'x sys \<Rightarrow> bool \<times> 'x sys" where
  "realpath_probe realpath root path probe s =
     (case opftp_path_parent probe OPFTP_MAX_PATH of
        None \<Rightarrow> (False, s)
      | Some parent \<Rightarrow>
          if parent = [] then (under_root root path, s)
          else
            (case realpath parent s of
               (Some resolved, s) \<Rightarrow> (under_root root resolved, s)
             | (None, s) \<Rightarrow>
                 if sys_errno s \<noteq> ENOENT then (False, s)
                 else realpath_probe realpath root path (c_snprintf OPFTP_MAX_PATH parent) s))"
  by pat_completeness auto
termination
proof (relation "measure (\<lambda>(_, _, _, probe, _). length probe)", simp)
  fix rp :: "'x realpath" and root path probe parent and s s' :: "'x sys"
  assume "opftp_path_parent probe OPFTP_MAX_PATH = Some parent" "parent \<noteq> []"
  then have "length parent < length probe" by (rule path_parent_shorter)
  then show "((rp, root, path, c_snprintf OPFTP_MAX_PATH parent, s'), rp, root, path, probe, s)
      \<in> measure (\<lambda>(_, _, _, probe, _). length probe)"
    by (simp add: c_snprintf_def)
qed

declare realpath_probe.simps [simp del]

definition realpath_contained :: "'x realpath \<Rightarrow> string \<Rightarrow> string \<Rightarrow> 'x sys \<Rightarrow> bool \<times> 'x sys" where
  "realpath_contained realpath root path s =
     (case realpath path s of
        (Some resolved, s) \<Rightarrow> (under_root root resolved, s)
      | (None, s) \<Rightarrow>
          if sys_errno s = ENOENT
          then realpath_probe realpath root path (c_snprintf OPFTP_MAX_PATH path) s
          else (False, s))"

text \<open>\<open>rt_realpath\<close> is \<^const>\<open>None\<close> unless \<open>check_realpath\<close> is set.\<close>

record 'x rooted =
  rt_base :: "'x opftp_fs"
  rt_root :: string
  rt_realpath :: "'x realpath option"

definition rooted_check :: "'x rooted \<Rightarrow> string \<Rightarrow> 'x sys \<Rightarrow> bool \<times> 'x sys" where
  "rooted_check r path s =
     (if \<not> under_root (rt_root r) path then (False, set_errno EACCES s)
      else
        case rt_realpath r of
          None \<Rightarrow> (True, s)
        | Some rp \<Rightarrow>
            (case realpath_contained rp (rt_root r) path s of
               (True, s) \<Rightarrow> (True, s)
             | (False, s) \<Rightarrow> (False, if sys_errno s \<noteq> ENOENT then set_errno EACCES s else s)))"

text \<open>The shape all path operations but \<open>rename\<close> share.\<close>

definition checked :: "'x rooted \<Rightarrow> string \<Rightarrow> ('x, 'r) fs_op \<Rightarrow> ('x, 'r) fs_op" where
  "checked r path base s =
     (case rooted_check r path s of (True, s) \<Rightarrow> base s | (False, s) \<Rightarrow> (None, s))"

definition r_rename :: "'x rooted \<Rightarrow> string \<Rightarrow> string \<Rightarrow> ('x, unit) fs_op" where
  "r_rename r a b s =
     (case rooted_check r a s of
        (False, s) \<Rightarrow> (None, set_errno EACCES s)
      | (True, s) \<Rightarrow>
          (case rooted_check r b s of
             (False, s) \<Rightarrow> (None, set_errno EACCES s)
           | (True, s) \<Rightarrow> fs_rename (rt_base r) a b s))"

definition rooted_vtable :: "'x rooted \<Rightarrow> 'x opftp_fs" where
  "rooted_vtable r =
     \<lparr> fs_open = (\<lambda>path flags mode. checked r path (fs_open (rt_base r) path flags mode)),
       fs_close = fs_close (rt_base r),
       fs_read = fs_read (rt_base r),
       fs_write = fs_write (rt_base r),
       fs_seek = fs_seek (rt_base r),
       fs_fstat = fs_fstat (rt_base r),
       fs_stat = (\<lambda>path. checked r path (fs_stat (rt_base r) path)),
       fs_opendir = (\<lambda>path. checked r path (fs_opendir (rt_base r) path)),
       fs_readdir = fs_readdir (rt_base r),
       fs_closedir = fs_closedir (rt_base r),
       fs_mkdir = (\<lambda>path mode. checked r path (fs_mkdir (rt_base r) path mode)),
       fs_rmdir = (\<lambda>path. checked r path (fs_rmdir (rt_base r) path)),
       fs_unlink = (\<lambda>path. checked r path (fs_unlink (rt_base r) path)),
       fs_rename = r_rename r,
       fs_chmod = (\<lambda>path mode. checked r path (fs_chmod (rt_base r) path mode)),
       fs_utimes = (\<lambda>path mtime. checked r path (fs_utimes (rt_base r) path mtime)) \<rparr>"

definition rooted_create :: "'x realpath option \<Rightarrow> 'x opftp_fs \<Rightarrow> string \<Rightarrow> 'x rooted" where
  "rooted_create rp base root =
     \<lparr> rt_base = base, rt_root = strip_trailing (c_snprintf OPFTP_MAX_PATH root), rt_realpath = rp \<rparr>"

text \<open>\<open>calloc_ok\<close> tells whether both allocations succeed.\<close>

definition opftp_fs_rooted ::
  "bool \<Rightarrow> 'x realpath option \<Rightarrow> 'x opftp_fs \<Rightarrow> string \<Rightarrow> 'x opftp_fs option" where
  "opftp_fs_rooted calloc_ok rp base root =
     (if root = [] \<or> hd root \<noteq> slash \<or> \<not> calloc_ok then None
      else Some (rooted_vtable (rooted_create rp base root)))"

section \<open>The contract\<close>

locale confined_fs =
  fixes fs :: "'x opftp_fs"
    and allowed :: "string \<Rightarrow> bool"
  assumes deny_open: "\<not> allowed p \<Longrightarrow> fs_open fs p fl m s = op_fail EACCES s"
    and deny_stat: "\<not> allowed p \<Longrightarrow> fs_stat fs p s = op_fail EACCES s"
    and deny_opendir: "\<not> allowed p \<Longrightarrow> fs_opendir fs p s = op_fail EACCES s"
    and deny_mkdir: "\<not> allowed p \<Longrightarrow> fs_mkdir fs p m s = op_fail EACCES s"
    and deny_rmdir: "\<not> allowed p \<Longrightarrow> fs_rmdir fs p s = op_fail EACCES s"
    and deny_unlink: "\<not> allowed p \<Longrightarrow> fs_unlink fs p s = op_fail EACCES s"
    and deny_chmod: "\<not> allowed p \<Longrightarrow> fs_chmod fs p m s = op_fail EACCES s"
    and deny_utimes: "\<not> allowed p \<Longrightarrow> fs_utimes fs p t s = op_fail EACCES s"
    and deny_rename: "\<not> allowed p \<Longrightarrow> fs_rename fs p q s = op_fail EACCES s"
begin

lemmas deny = deny_open deny_stat deny_opendir deny_mkdir deny_rmdir deny_unlink deny_chmod
  deny_utimes deny_rename

end

section \<open>The wrapper confines\<close>

lemma checked_denied: "\<not> under_root (rt_root r) p \<Longrightarrow> checked r p base s = op_fail EACCES s"
  by (simp add: checked_def rooted_check_def op_fail_def)

lemma rename_denied: "\<not> under_root (rt_root r) p \<Longrightarrow> r_rename r p q s = op_fail EACCES s"
  by (simp add: r_rename_def rooted_check_def op_fail_def)

interpretation rooted: confined_fs "rooted_vtable r" "under_root (rt_root r)" for r
  by unfold_locales (simp_all add: rooted_vtable_def checked_denied rename_denied)

text \<open>Without \<open>realpath\<close> the wrapper is transparent inside the root.\<close>

lemma checked_plain:
  "rt_realpath r = None \<Longrightarrow> under_root (rt_root r) p \<Longrightarrow> checked r p base s = base s"
  by (simp add: checked_def rooted_check_def)

text \<open>With \<open>realpath\<close>, a path that resolves to a place outside the root is refused before the
  base backend sees it.\<close>

lemma checked_escape:
  assumes "rt_realpath r = Some rp" "rp p s = (Some q, s')" "\<not> under_root (rt_root r) q"
    "sys_errno s' \<noteq> ENOENT"
  shows "checked r p base s =
    (None, set_errno EACCES (if under_root (rt_root r) p then s' else s))"
  using assms by (simp add: checked_def rooted_check_def realpath_contained_def)

lemma strip_trailing_canonical: "canonical p \<Longrightarrow> strip_trailing p = p"
  using canonical_last [of p] by (subst strip_trailing.simps) auto

lemma under_root_join:
  assumes "canonical root" "list_all plain_comp st"
  shows "under_root root (join_path root st)"
proof (cases st)
  case Nil
  with canonical_hd [OF assms(1)] show ?thesis
    by (simp add: under_root_def)
next
  case (Cons c cs)
  have pre: "prefix root (join_path root st)" by (rule prefix_join_path)
  show ?thesis
  proof (cases "root = [slash]")
    case True
    have "join_path root st \<noteq> []" "hd (join_path root st) = slash"
      using True by (simp_all add: hd_join_path)
    with True pre show ?thesis by (simp add: under_root_def)
  next
    case False
    then have "last root \<noteq> slash" using canonical_last [OF assms(1)] by simp
    then have j: "join_path root st = join_path (root @ slash # c) cs" by (simp add: Cons)
    then obtain t where "join_path root st = root @ slash # t"
      using prefix_join_path [of "root @ slash # c" cs] by (auto simp: prefix_def)
    moreover have "length root \<noteq> 1"
      using False canonical_short [OF assms(1)] by auto
    ultimately show ?thesis by (simp add: under_root_def)
  qed
qed

text \<open>
  What it means to be in a directory, with no reference to the code's comparison: an absolute path
  whose components begin with the directory's.
\<close>

definition within :: "string \<Rightarrow> string \<Rightarrow> bool" where
  "within dir p \<longleftrightarrow> p \<noteq> [] \<and> hd p = slash \<and> prefix (components dir) (components p)"

lemma under_root_components:
  assumes "under_root root p" "root \<noteq> []" "hd root = slash"
  shows "within root p"
proof -
  from assms(1) obtain t where t: "p = root @ t" by (auto simp: under_root_def prefix_def)
  have c: "prefix (components root) (components p)"
  proof (cases "length root = 1")
    case True
    with assms(2,3) have "root = [slash]" by (cases root) auto
    then show ?thesis by (simp add: components_def)
  next
    case False
    with assms(1) t have "t = [] \<or> hd t = slash" by (simp add: under_root_def)
    then have "t = [] \<or> (\<exists>u. t = slash # u)" by (cases t) auto
    then show ?thesis by (auto simp: t components_def pieces_append)
  qed
  with assms(2,3) t show ?thesis by (cases root) (auto simp: within_def)
qed

lemma within_canonical:
  assumes "canonical root" "canonical p"
  shows "under_root root p \<longleftrightarrow> within root p"
proof
  assume "within root p"
  then obtain cs where cs: "components p = components root @ cs" by (auto simp: within_def prefix_def)
  have "p = join_path [slash] (components p)" "root = join_path [slash] (components root)"
    using assms by (simp_all add: canonical_def split_loop_components)
  then have "p = join_path root cs" by (metis cs join_path_append)
  moreover have "list_all plain_comp cs"
    using canonical_plain [OF assms(2)] by (simp add: split_loop_components cs)
  ultimately show "under_root root p" using assms(1) by (simp add: under_root_join)
qed (use canonical_hd [OF assms(1)] in \<open>simp add: under_root_components\<close>)

lemma components_strip: "r \<noteq> [] \<Longrightarrow> components (strip_trailing r) = components r"
proof (induction r rule: strip_trailing.induct)
  case (1 r)
  show ?case
  proof (cases "length r > 1 \<and> last r = slash")
    case True
    then have "r = butlast r @ slash # []" by (metis append_butlast_last_id 1(2))
    moreover have "components (x @ slash # []) = components x" for x
      by (simp only: components_def pieces_append) simp
    ultimately have "components r = components (butlast r)" by metis
    moreover have "butlast r \<noteq> []" using True by (cases r) auto
    ultimately show ?thesis using True 1(1) by (subst strip_trailing.simps) simp
  qed (subst strip_trailing.simps, simp only: if_False)
qed

lemma strip_trailing_hd:
  assumes "r \<noteq> []"
  shows "strip_trailing r \<noteq> []" "hd (strip_trailing r) = hd r"
proof -
  have "strip_trailing r \<noteq> []"
    using assms
  proof (induction r rule: strip_trailing.induct)
    case (1 r)
    moreover have "length r > 1 \<Longrightarrow> butlast r \<noteq> []" by (cases r) auto
    ultimately show ?case by (subst strip_trailing.simps) auto
  qed
  moreover obtain t where "r = strip_trailing r @ t" using prefix_strip_trailing [of r] by (auto simp: prefix_def)
  ultimately show "strip_trailing r \<noteq> []" "hd (strip_trailing r) = hd r" by (simp, metis hd_append2)
qed

text \<open>A path outside the configured root fails the wrapper's comparison.\<close>

lemma outside_denied:
  assumes "opftp_fs_rooted calloc_ok rp base root = Some fs" "length root < OPFTP_MAX_PATH" "\<not> within root p"
  shows "\<not> under_root (rt_root (rooted_create rp base root)) p"
proof
  assume u: "under_root (rt_root (rooted_create rp base root)) p"
  have r: "root \<noteq> []" "hd root = slash"
    using assms(1) by (auto simp: opftp_fs_rooted_def split: if_splits)
  with under_root_components [OF u] assms(2,3) show False
    by (simp add: rooted_create_def c_snprintf_id strip_trailing_hd within_def components_strip)
qed

text \<open>
  The ancestor search against a file system whose \<open>realpath\<close> is a function of the path, failing
  with some error (\<open>Inl\<close>) or not: what counts is the first answer, going up from the path, that
  is not \<open>ENOENT\<close>.
\<close>

definition pure_realpath :: "(string \<Rightarrow> errno + string) \<Rightarrow> 'x realpath" where
  "pure_realpath f p s = (case f p of Inr q \<Rightarrow> (Some q, s) | Inl err \<Rightarrow> (None, set_errno err s))"

text \<open>The argument lists the components of the path, last first.\<close>

fun deepest :: "(string \<Rightarrow> errno + string) \<Rightarrow> string list \<Rightarrow> errno + string" where
  "deepest f [] = f [slash]"
| "deepest f (c # rcs) =
     (if f (join_path [slash] (rev (c # rcs))) = Inl ENOENT then deepest f rcs
      else f (join_path [slash] (rev (c # rcs))))"

definition ancestor_ok :: "string \<Rightarrow> string \<Rightarrow> errno + string \<Rightarrow> bool" where
  "ancestor_ok root path r =
     (case r of Inr q \<Rightarrow> under_root root q | Inl err \<Rightarrow> err = ENOENT \<and> under_root root path)"

lemma length_join_prefix: "length (join_path r xs) \<le> length (join_path r (xs @ ys))"
  by (simp add: join_path_append join_path_length_mono)

lemma parent_join:
  assumes "list_all plain_comp (cs @ [c])" "length (join_path [slash] (cs @ [c])) < OPFTP_MAX_PATH"
  shows "opftp_path_parent (join_path [slash] (cs @ [c])) OPFTP_MAX_PATH = Some (join_path [slash] cs)"
proof -
  have "length (join_path [slash] cs) + 1 \<le> OPFTP_MAX_PATH"
    using assms(2) length_join_prefix [of "[slash]" cs "[c]"] by simp
  with path_parent_snoc [OF assms(1)] show ?thesis by simp
qed

lemma realpath_probe_deepest:
  "list_all plain_comp cs \<Longrightarrow> length (join_path [slash] cs) < OPFTP_MAX_PATH \<Longrightarrow>
   fst (realpath_probe (pure_realpath f) root path (join_path [slash] cs) s) =
     (if cs = [] then under_root root path else ancestor_ok root path (deepest f (tl (rev cs))))"
proof (induction cs arbitrary: s rule: rev_induct)
  case Nil
  have "opftp_path_parent [slash] OPFTP_MAX_PATH = Some []"
    by (simp add: opftp_path_parent_def)
  then show ?case by (subst realpath_probe.simps) simp
next
  case (snoc c cs)
  let ?d = "join_path [slash] cs"
  have par: "opftp_path_parent (join_path [slash] (cs @ [c])) OPFTP_MAX_PATH = Some ?d"
    using snoc.prems by (intro parent_join) simp_all
  have short: "length ?d < OPFTP_MAX_PATH"
    using snoc.prems(2) length_join_prefix [of "[slash]" cs "[c]"] by simp
  then have sn: "c_snprintf OPFTP_MAX_PATH ?d = ?d" by (simp add: c_snprintf_id)
  have ne: "?d \<noteq> []" by simp
  show ?case
  proof (cases "f ?d = Inl ENOENT")
    case False
    then have d: "deepest f (rev cs) = f ?d" by (cases "rev cs") (auto simp: rev_swap)
    show ?thesis
      using par ne False by (subst realpath_probe.simps) (auto simp: pure_realpath_def ancestor_ok_def d split: sum.split)
  next
    case True
    then have "fst (realpath_probe (pure_realpath f) root path (join_path [slash] (cs @ [c])) s) =
      fst (realpath_probe (pure_realpath f) root path ?d (set_errno ENOENT s))"
      using par ne sn by (subst realpath_probe.simps) (simp add: pure_realpath_def)
    also have "\<dots> = (if cs = [] then under_root root path else ancestor_ok root path (deepest f (tl (rev cs))))"
      using snoc.prems short by (intro snoc.IH) simp_all
    also have "\<dots> = ancestor_ok root path (deepest f (rev cs))"
      using True by (cases "rev cs") (auto simp: rev_swap ancestor_ok_def)
    finally show ?thesis by simp
  qed
qed

lemma realpath_contained_deepest:
  assumes "canonical path" "length path < OPFTP_MAX_PATH"
  shows "fst (realpath_contained (pure_realpath f) root path s) =
    ancestor_ok root path (deepest f (rev (components path)))"
proof -
  define cs where "cs = components path"
  have cs: "list_all plain_comp cs" and p: "path = join_path [slash] cs"
    using assms(1) by (simp_all add: canonical_def cs_def split_loop_components)
  show ?thesis
  proof (cases "f path = Inl ENOENT")
    case True
    then have "fst (realpath_contained (pure_realpath f) root path s) =
      (if cs = [] then under_root root path else ancestor_ok root path (deepest f (tl (rev cs))))"
      using realpath_probe_deepest [OF cs, of f root path "set_errno ENOENT s"] assms(2)
      by (simp add: realpath_contained_def pure_realpath_def c_snprintf_id p)
    with True show ?thesis
      unfolding cs_def [symmetric] by (cases "rev cs") (auto simp: p rev_swap ancestor_ok_def)
  next
    case False
    then have d: "deepest f (rev cs) = f path" by (cases "rev cs") (auto simp: p rev_swap)
    show ?thesis
      unfolding cs_def [symmetric] d using False
      by (auto simp: realpath_contained_def pure_realpath_def ancestor_ok_def split: sum.split)
  qed
qed

section \<open>Properties\<close>

text \<open>
  C12: Confinement. Through the wrapper, every path operation on a path whose components do not
  begin with the root's fails with \<open>EACCES\<close>; the base backend is not called and nothing but
  \<open>errno\<close> changes. A rename is refused when either name is outside: if it is the source, as
  above; if it is the destination, the source is looked at first, so that the state is the one
  that check leaves, the same whatever the base backend is.
\<close>

theorem rooted_confines:
  assumes "opftp_fs_rooted calloc_ok rp base root = Some fs" "length root < OPFTP_MAX_PATH"
    and "\<not> within root p"
  shows "fs_open fs p fl m s = op_fail EACCES s \<and> fs_stat fs p s = op_fail EACCES s \<and>
    fs_opendir fs p s = op_fail EACCES s \<and> fs_mkdir fs p m s = op_fail EACCES s \<and>
    fs_rmdir fs p s = op_fail EACCES s \<and> fs_unlink fs p s = op_fail EACCES s \<and>
    fs_chmod fs p m s = op_fail EACCES s \<and> fs_utimes fs p t s = op_fail EACCES s \<and>
    fs_rename fs p q s = op_fail EACCES s \<and>
    fs_rename fs q p s = op_fail EACCES (snd (rooted_check (rooted_create rp void_fs root) q s)) \<and>
    (rp = None \<longrightarrow> fs_rename fs q p s = op_fail EACCES s)"
proof -
  let ?r = "rooted_create rp base root"
  have fs: "fs = rooted_vtable ?r"
    using assms(1) by (simp add: opftp_fs_rooted_def split: if_splits)
  note out = outside_denied [OF assms]
  have b: "rooted_check ?r q s = rooted_check (rooted_create rp void_fs root) q s"
    by (cases rp) (simp_all add: rooted_check_def rooted_create_def)
  have n: "r_rename ?r q p s = op_fail EACCES (snd (rooted_check (rooted_create rp void_fs root) q s))"
    using out by (auto simp: r_rename_def rooted_check_def [of ?r p] b [symmetric] op_fail_def
        split: prod.split bool.split)
  moreover have "r_rename ?r q p s = op_fail EACCES s" if "rp = None"
    unfolding n using that by (simp add: rooted_check_def rooted_create_def op_fail_def set_errno_def)
  ultimately show ?thesis
    unfolding fs using rooted.deny [OF out] by (simp add: rooted_vtable_def)
qed

theorem rooted_confines_witness:
  "fs_rename (rooted_vtable (rooted_create None void_fs ''/srv/ftp/'')) ''/srv/ftp/y'' ''/srv/ftpd/x''
     \<lparr> sys_errno = EOTHER 0, sys_state = () \<rparr> = (None, \<lparr> sys_errno = EACCES, sys_state = () \<rparr>)"
proof -
  have 1: "opftp_fs_rooted True None void_fs ''/srv/ftp/'' =
      Some (rooted_vtable (rooted_create None void_fs ''/srv/ftp/''))"
    by (simp add: opftp_fs_rooted_def)
  have 2: "\<not> within ''/srv/ftp/'' ''/srv/ftpd/x''" "length ''/srv/ftp/'' < OPFTP_MAX_PATH"
    by code_simp+
  show ?thesis
    using rooted_confines [OF 1 2(2,1), of undefined undefined "\<lparr> sys_errno = EOTHER 0, sys_state = () \<rparr>" undefined "''/srv/ftp/y''"]
    by (simp add: op_fail_def set_errno_def)
qed


text \<open>The witness: \<open>/srv/out\<close> is a link to \<open>/etc\<close>, and a file below it does not exist yet; a
  directory cannot be read.\<close>

definition link_example :: "string \<Rightarrow> errno + string" where
  "link_example p =
     (if p = ''/'' then Inr ''/'' else if p = ''/srv'' then Inr ''/srv''
      else if p = ''/srv/out'' then Inr ''/etc'' else if p = ''/srv/shut/x'' then Inl EACCES else Inl ENOENT)"


text \<open>
  The resolver and the wrapper agree. With a canonical root within the path limit, every path
  the resolver hands to the file system, whatever the client's argument, passes the wrapper's
  prefix check, so a request is never refused for leaving the root.
\<close>

theorem resolved_under_root:
  assumes "canonical root" "length root < OPFTP_MAX_PATH" "canonical cwd"
    and "opftp_path_resolve root cwd arg outsz = Some (p, ts)"
  shows "under_root (rt_root (rooted_create rp base root)) p"
proof -
  from assms(1,3,4) obtain st where "list_all plain_comp st" "p = join_path root st"
    by (rule resolve_join)
  with assms(1,2) show ?thesis
    by (simp add: rooted_create_def c_snprintf_id strip_trailing_canonical under_root_join)
qed

theorem resolved_under_root_witness:
  "case opftp_path_resolve ''/srv'' ''/srv/a'' ''../../../etc/passwd'' 1024 of
     Some (p, ts) \<Rightarrow> p = ''/srv/etc/passwd'' \<and>
       under_root (rt_root (rooted_create None (void_fs :: unit opftp_fs) ''/srv'')) p
   | None \<Rightarrow> False"
proof -
  have r: "opftp_path_resolve ''/srv'' ''/srv/a'' ''../../../etc/passwd'' 1024 =
      Some (''/srv/etc/passwd'', False)"
    by code_simp
  have c: "canonical ''/srv''" "canonical ''/srv/a''"
    by (simp_all add: canonical_def split_loop.simps plain_comp_def valid_comp_def)
  show ?thesis
    using resolved_under_root [OF c(1) _ c(2) r, of None "void_fs :: unit opftp_fs"] by (simp add: r)
qed

end
