(* ===== verification/Ftp_Time.thy ===== *)
theory Ftp_Time
  imports Opftp_Prelude
begin

text \<open>
  Time stamps: \<open>parse_ftp_time\<close> of \<^verbatim>\<open>src/src/commands.c\<close>, the \<open>YYYYMMDDHHMMSS\<close> format that
  \<open>cmd_mdtm\<close>, \<open>cmd_mfmt\<close> and the machine listing print, and what they use of the C library:
  \<open>struct tm\<close>, \<open>timegm\<close> and \<open>gmtime_r\<close> on the proleptic Gregorian calendar.
\<close>

section \<open>The C library\<close>

record tm =
  tm_year :: int
  tm_mon :: int
  tm_mday :: int
  tm_hour :: int
  tm_min :: int
  tm_sec :: int

text \<open>Days since 1970-01-01. Years start in March here, so that the leap day is the last one;
  \<open>mp\<close> is the month counted from March.\<close>

definition days_of_march_year :: "int \<Rightarrow> int" where
  "days_of_march_year y = y * 365 + y div 4 - y div 100 + y div 400"

definition days_from_civil :: "int \<Rightarrow> int \<Rightarrow> int \<Rightarrow> int" where
  "days_from_civil y mon d =
     (let mp = (mon + 10) mod 12;
          y = (if mon \<le> 1 then y - 1 else y)
      in days_of_march_year y + (153 * mp + 2) div 5 + d - 1 - 719468)"

text \<open>\<open>timegm\<close> normalises its argument: a day or month out of range carries over.\<close>

definition c_timegm :: "tm \<Rightarrow> int" where
  "c_timegm t =
     (let y = tm_year t + 1900 + tm_mon t div 12;
          days = days_from_civil y (tm_mon t mod 12) (tm_mday t)
      in ((days * 24 + tm_hour t) * 60 + tm_min t) * 60 + tm_sec t)"

text \<open>The inverse, by eras of 400 years, centuries, groups of four years and years.\<close>

definition civil_from_days :: "int \<Rightarrow> int \<times> int \<times> int" where
  "civil_from_days days =
     (let z = days + 719468;
          era = z div 146097;
          doe = z mod 146097;
          c = min 3 (doe div 36524);
          r1 = doe - c * 36524;
          q = r1 div 1461;
          r2 = r1 - q * 1461;
          y1 = min 3 (r2 div 365);
          doy = r2 - y1 * 365;
          mp = (5 * doy + 2) div 153;
          mon = (mp + 2) mod 12;
          y = era * 400 + c * 100 + q * 4 + y1
      in (if mon \<le> 1 then y + 1 else y, mon, doy - (153 * mp + 2) div 5 + 1))"

text \<open>\<open>gmtime_r\<close> fails when the year does not fit an \<open>int\<close>.\<close>

definition c_gmtime :: "int \<Rightarrow> tm option" where
  "c_gmtime t =
     (case civil_from_days (t div 86400) of
        (y, mon, d) \<Rightarrow>
          let sod = t mod 86400 in
          if y - 1900 < - (2 ^ 31) \<or> y - 1900 \<ge> 2 ^ 31 then None
          else Some \<lparr> tm_year = y - 1900, tm_mon = mon, tm_mday = d, tm_hour = sod div 3600,
                      tm_min = sod div 60 mod 60, tm_sec = sod mod 60 \<rparr>)"

section \<open>The code\<close>

definition digit :: "char \<Rightarrow> int" where
  "digit c = int (c_code c) - 48"

definition parse_ftp_time :: "string \<Rightarrow> int option" where
  "parse_ftp_time s =
     (if length s < 14 \<or> \<not> list_all c_isdigit (take 14 s) then None
      else
        let d = (\<lambda>i. digit (s ! i));
            yy = d 0 * 1000 + d 1 * 100 + d 2 * 10 + d 3;
            mm = d 4 * 10 + d 5;
            dd = d 6 * 10 + d 7;
            hh = d 8 * 10 + d 9;
            mi = d 10 * 10 + d 11;
            ss = d 12 * 10 + d 13
        in if mm < 1 \<or> mm > 12 \<or> dd < 1 \<or> dd > 31 \<or> hh > 23 \<or> mi > 59 \<or> ss > 59 then None
           else
             let t = c_timegm \<lparr> tm_year = yy - 1900, tm_mon = mm - 1, tm_mday = dd, tm_hour = hh,
                                tm_min = mi, tm_sec = ss \<rparr>
             in if t = -1 then None else Some t)"

text \<open>The format \<open>"%04d%02d%02d%02d%02d%02d"\<close> applied to a broken-down time.\<close>

definition ftp_time_str :: "tm \<Rightarrow> string" where
  "ftp_time_str t =
     dec_int 4 (tm_year t + 1900) @ dec_int 2 (tm_mon t + 1) @ dec_int 2 (tm_mday t) @
     dec_int 2 (tm_hour t) @ dec_int 2 (tm_min t) @ dec_int 2 (tm_sec t)"

section \<open>The calendar round trip\<close>

lemma div_bounds: "(0::int) < k \<Longrightarrow> x div k * k \<le> x \<and> x < x div k * k + k"
  using div_mult_mod_eq [of x k] pos_mod_bound [of k x] pos_mod_sign [of k x] by linarith

text \<open>The parts of a day number within an era of 400 years.\<close>

lemma era_split:
  fixes doe :: int
  assumes "0 \<le> doe" "doe < 146097"
  defines "c \<equiv> min 3 (doe div 36524)"
  defines "r1 \<equiv> doe - c * 36524"
  defines "q \<equiv> r1 div 1461"
  defines "r2 \<equiv> r1 - q * 1461"
  defines "y1 \<equiv> min 3 (r2 div 365)"
  shows "0 \<le> c" "c \<le> 3" "0 \<le> q" "q \<le> 24" "0 \<le> y1" "y1 \<le> 3" "0 \<le> r2 - y1 * 365" "r2 - y1 * 365 \<le> 365"
proof -
  have d: "doe div 36524 * 36524 \<le> doe" "doe < doe div 36524 * 36524 + 36524"
    using div_bounds [of 36524 doe] by simp_all
  have dp: "0 \<le> doe div 36524" using assms(1) by (simp add: pos_imp_zdiv_nonneg_iff)
  show c: "0 \<le> c" "c \<le> 3" using dp by (simp_all add: c_def)
  have r1: "0 \<le> r1" "r1 \<le> 36524"
    using d assms(2) c dp by (auto simp: r1_def c_def min_def split: if_splits)
  have q: "q * 1461 \<le> r1" "r1 < q * 1461 + 1461"
    using div_bounds [of 1461 r1] by (simp_all add: q_def)
  show q2: "0 \<le> q" using r1 by (simp add: q_def pos_imp_zdiv_nonneg_iff)
  show "q \<le> 24" using q r1 by linarith
  have r2: "0 \<le> r2" "r2 \<le> 1460" using q by (simp_all add: r2_def)
  have y: "r2 div 365 * 365 \<le> r2" "r2 < r2 div 365 * 365 + 365"
    using div_bounds [of 365 r2] by simp_all
  show y1: "0 \<le> y1" "y1 \<le> 3" using r2 by (simp_all add: y1_def pos_imp_zdiv_nonneg_iff)
  show "0 \<le> r2 - y1 * 365" "r2 - y1 * 365 \<le> 365"
    using y r2 y1 by (auto simp: y1_def min_def split: if_splits)
qed

lemma march_year_parts:
  fixes era :: int
  assumes "0 \<le> c" "c \<le> 3" "0 \<le> q" "q \<le> 24" "0 \<le> y1" "y1 \<le> 3"
  shows "days_of_march_year (era * 400 + c * 100 + q * 4 + y1) =
    era * 146097 + c * 36524 + q * 1461 + y1 * 365"
proof -
  let ?y = "era * 400 + c * 100 + q * 4 + y1"
  have "?y div 4 = era * 100 + c * 25 + q"
    using assms by (intro int_div_pos_eq [where r = y1]) simp_all
  moreover have "?y div 100 = era * 4 + c"
    using assms by (intro int_div_pos_eq [where r = "q * 4 + y1"]) simp_all
  moreover have "?y div 400 = era"
    using assms by (intro int_div_pos_eq [where r = "c * 100 + q * 4 + y1"]) simp_all
  ultimately show ?thesis by (simp add: days_of_march_year_def)
qed

text \<open>The month and day within a year that starts in March.\<close>

lemma month_split:
  fixes doy :: int
  assumes "0 \<le> doy" "doy \<le> 365"
  defines "mp \<equiv> (5 * doy + 2) div 153"
  shows "0 \<le> mp" "mp \<le> 11" "(153 * mp + 2) div 5 \<le> doy" "doy \<le> (153 * mp + 2) div 5 + 30"
proof -
  have m: "mp * 153 \<le> 5 * doy + 2" "5 * doy + 2 < mp * 153 + 153"
    using div_bounds [of 153 "5 * doy + 2"] by (simp_all add: mp_def)
  show mp: "0 \<le> mp" using assms(1) by (simp add: mp_def pos_imp_zdiv_nonneg_iff)
  show "mp \<le> 11" using m assms(2) by linarith
  have k: "(153 * mp + 2) div 5 * 5 \<le> 153 * mp + 2" "153 * mp + 2 < (153 * mp + 2) div 5 * 5 + 5"
    using div_bounds [of 5 "153 * mp + 2"] by simp_all
  show "(153 * mp + 2) div 5 \<le> doy" "doy \<le> (153 * mp + 2) div 5 + 30"
    using m k by linarith+
qed

lemma civil_round_trip:
  assumes "civil_from_days days = (y, mon, d)"
  shows "days_from_civil y mon d = days \<and> 0 \<le> mon \<and> mon \<le> 11 \<and> 1 \<le> d \<and> d \<le> 31"
proof -
  define z where "z = days + 719468"
  define era where "era = z div 146097"
  define doe where "doe = z mod 146097"
  define c where "c = min 3 (doe div 36524)"
  define r1 where "r1 = doe - c * 36524"
  define q where "q = r1 div 1461"
  define r2 where "r2 = r1 - q * 1461"
  define y1 where "y1 = min 3 (r2 div 365)"
  define doy where "doy = r2 - y1 * 365"
  define mp where "mp = (5 * doy + 2) div 153"
  define yy where "yy = era * 400 + c * 100 + q * 4 + y1"
  have "0 \<le> doe" "doe < 146097" by (simp_all add: doe_def)
  note e = era_split [OF this, folded c_def, folded r1_def, folded q_def, folded r2_def,
      folded y1_def, folded doy_def]
  note m = month_split [OF e(7,8), folded mp_def]
  have res: "y = (if (mp + 2) mod 12 \<le> 1 then yy + 1 else yy)" "mon = (mp + 2) mod 12"
    "d = doy - (153 * mp + 2) div 5 + 1"
    using assms unfolding civil_from_days_def Let_def z_def [symmetric] era_def [symmetric]
      doe_def [symmetric] c_def [symmetric] r1_def [symmetric] q_def [symmetric] r2_def [symmetric]
      y1_def [symmetric] doy_def [symmetric] mp_def [symmetric] yy_def [symmetric] by auto
  have mp: "(mon + 10) mod 12 = mp"
    unfolding res(2) using m(1,2) by (simp add: mod_add_left_eq)
  have "era * 146097 + doe = z" by (simp add: era_def doe_def)
  moreover have "days_of_march_year yy = era * 146097 + c * 36524 + q * 1461 + y1 * 365"
    unfolding yy_def by (rule march_year_parts [OF e(1-6)])
  ultimately have "days_of_march_year yy + doy = z"
    by (simp add: doy_def r2_def r1_def)
  moreover have "(if mon \<le> 1 then y - 1 else y) = yy" using res by auto
  ultimately have "days_from_civil y mon d = days"
    by (simp add: days_from_civil_def mp res(3) z_def)
  with m res show ?thesis by simp
qed

lemma gmtime_fields:
  assumes "c_gmtime t = Some x" "civil_from_days (t div 86400) = (y, mon, d)"
  shows "tm_year x = y - 1900" "tm_mon x = mon" "tm_mday x = d" "tm_hour x = t mod 86400 div 3600"
    "tm_min x = t mod 86400 div 60 mod 60" "tm_sec x = t mod 86400 mod 60"
  using assms by (auto simp: c_gmtime_def Let_def simp del: div_mod_decomp_int split: if_splits)

lemma gmtime_timegm: "c_gmtime t = Some x \<Longrightarrow> c_timegm x = t"
proof -
  assume x: "c_gmtime t = Some x"
  obtain y mon d where c: "civil_from_days (t div 86400) = (y, mon, d)" by (metis prod_cases3)
  note r = civil_round_trip [OF c] and f = gmtime_fields [OF x c]
  define s where "s = t mod 86400"
  have "s div 60 div 60 = s div 3600" by (simp add: zdiv_zmult2_eq [symmetric])
  then have "s div 3600 * 60 + s div 60 mod 60 = s div 60" "s div 60 * 60 + s mod 60 = s"
    using div_mult_mod_eq [of s 60] div_mult_mod_eq [of "s div 60" 60] by simp_all
  moreover have "t div 86400 * 86400 + s = t" by (simp add: s_def)
  moreover have "((D * 24 + h) * 60 + m) * 60 + x = t"
    if "h * 60 + m = k" "k * 60 + x = s" "D * 86400 + s = t" for D h m x k :: int
    unfolding that(3) [symmetric] that(2) [symmetric] that(1) [symmetric] by simp
  ultimately have e: "((t div 86400 * 24 + s div 3600) * 60 + s div 60 mod 60) * 60 + s mod 60 = t"
    by blast
  have "mon div 12 = 0" "mon mod 12 = mon" "y - 1900 + 1900 + 0 = y" using r by simp_all
  with r have d: "days_from_civil (y - 1900 + 1900 + mon div 12) (mon mod 12) d = t div 86400"
    by (simp only: simp_thms)
  show ?thesis
    unfolding c_timegm_def Let_def f d s_def [symmetric] by (rule e)
qed

lemma gmtime_ranges:
  assumes "c_gmtime t = Some x"
  shows "0 \<le> tm_mon x \<and> tm_mon x \<le> 11 \<and> 1 \<le> tm_mday x \<and> tm_mday x \<le> 31 \<and>
    0 \<le> tm_hour x \<and> tm_hour x \<le> 23 \<and> 0 \<le> tm_min x \<and> tm_min x \<le> 59 \<and>
    0 \<le> tm_sec x \<and> tm_sec x \<le> 59"
proof -
  obtain y mon d where c: "civil_from_days (t div 86400) = (y, mon, d)" by (metis prod_cases3)
  note r = civil_round_trip [OF c] and f = gmtime_fields [OF assms c]
  define s where "s = t mod 86400"
  have s: "0 \<le> s" "s < 86400" by (simp_all add: s_def)
  then have "0 \<le> s div 3600" by (simp add: pos_imp_zdiv_nonneg_iff)
  moreover have "s div 3600 \<le> 23" using s div_bounds [of 3600 s] by linarith
  moreover have "0 \<le> s div 60 mod 60" "s div 60 mod 60 < 60" "0 \<le> s mod 60" "s mod 60 < 60"
    by simp_all
  ultimately show ?thesis
    using r unfolding f s_def [symmetric] by linarith
qed

section \<open>Printing and parsing\<close>

abbreviation digit_char :: "int \<Rightarrow> char" where
  "digit_char d \<equiv> char_of (48 + nat d)"

lemma digit_char_simps:
  assumes "0 \<le> d" "d \<le> 9"
  shows "c_isdigit (digit_char d)" "digit (digit_char d) = d"
  using assms by (simp_all add: c_isdigit_def digit_def c_code_char_of)

lemma char_of_48: "char_of (48 :: nat) = CHR ''0''"
  by code_simp

lemma dec_int2:
  assumes "0 \<le> n" "n < 100"
  shows "dec_int 2 n = [digit_char (n div 10), digit_char (n mod 10)]"
proof -
  have "nat n < 10 \<or> 10 \<le> nat n \<and> nat n div 10 < 10" using assms by auto
  then show ?thesis
    using assms
    by (auto simp: dec_int_def zero_pad_def dec.simps nat_div_distrib nat_mod_distrib char_of_48)
qed

lemma dec_int4:
  assumes "0 \<le> n" "n < 10000"
  shows "dec_int 4 n = [digit_char (n div 1000), digit_char (n div 100 mod 10),
    digit_char (n div 10 mod 10), digit_char (n mod 10)]"
proof -
  define k where "k = nat n"
  have n: "n = int k" and k: "k < 10000" using assms by (simp_all add: k_def)
  have "k div 10 div 10 div 10 < 10"
    using k by (simp add: div_mult2_eq [symmetric] less_mult_imp_div_less)
  then consider "k < 10" | "10 \<le> k" "k div 10 < 10" | "10 \<le> k" "10 \<le> k div 10" "k div 10 div 10 < 10"
    | "10 \<le> k" "10 \<le> k div 10" "10 \<le> k div 10 div 10" "k div 10 div 10 div 10 < 10"
    by (metis not_less)
  moreover have "replicate 3 c = [c, c, c]" "replicate 2 c = [c, c]" for c :: char
    by (simp_all add: numeral_3_eq_3 numeral_2_eq_2)
  ultimately have "zero_pad 4 (dec k) = [char_of (48 + k div 1000), char_of (48 + k div 100 mod 10),
    char_of (48 + k div 10 mod 10), char_of (48 + k mod 10)]"
    by cases (simp_all add: zero_pad_def dec.simps div_mult2_eq [symmetric] char_of_48)
  then show ?thesis
    by (simp add: dec_int_def n nat_div_distrib nat_mod_distrib)
qed

lemma two_digits:
  fixes n :: int
  assumes "0 \<le> n" "n < 100"
  shows "0 \<le> n div 10" "n div 10 \<le> 9" "n div 10 * 10 + n mod 10 = n"
  using assms div_bounds [of 10 n] by (auto simp: pos_imp_zdiv_nonneg_iff)

lemma four_digits:
  fixes n :: int
  assumes "0 \<le> n" "n < 10000"
  shows "0 \<le> n div 1000" "n div 1000 \<le> 9"
    "n div 1000 * 1000 + n div 100 mod 10 * 100 + n div 10 mod 10 * 10 + n mod 10 = n"
proof -
  show "0 \<le> n div 1000" using assms by (simp add: pos_imp_zdiv_nonneg_iff)
  show "n div 1000 \<le> 9" using assms div_bounds [of 1000 n] by linarith
  have "n div 100 div 10 = n div 1000" "n div 10 div 10 = n div 100"
    by (simp_all add: zdiv_zmult2_eq [symmetric])
  then show "n div 1000 * 1000 + n div 100 mod 10 * 100 + n div 10 mod 10 * 10 + n mod 10 = n"
    using div_mult_mod_eq [of n 10] div_mult_mod_eq [of "n div 10" 10]
      div_mult_mod_eq [of "n div 100" 10] by linarith
qed

text \<open>Parsing the six fields printed with their fixed widths.\<close>

lemma parse_printed:
  assumes y: "0 \<le> y" "y < 10000" and m: "1 \<le> m" "m \<le> 12" and d: "1 \<le> d" "d \<le> 31"
    and h: "0 \<le> h" "h \<le> 23" and mi: "0 \<le> mi" "mi \<le> 59" and s: "0 \<le> s" "s \<le> 59"
  defines "t \<equiv> c_timegm \<lparr> tm_year = y - 1900, tm_mon = m - 1, tm_mday = d, tm_hour = h, tm_min = mi, tm_sec = s \<rparr>"
  shows "parse_ftp_time (dec_int 4 y @ dec_int 2 m @ dec_int 2 d @ dec_int 2 h @ dec_int 2 mi @
      dec_int 2 s @ rest) = (if t = -1 then None else Some t)"
proof -
  have b: "0 \<le> n mod 10" "n mod 10 \<le> 9" for n :: int
    using pos_mod_bound [of 10 n] pos_mod_sign [of 10 n] by simp_all
  have two: "0 \<le> n div 10" "n div 10 \<le> 9" "n div 10 * 10 + n mod 10 = n" if "0 \<le> n" "n < 100" for n :: int
    using two_digits [OF that] by auto
  note dc = digit_char_simps
  have i: "dec_int 2 m = [digit_char (m div 10), digit_char (m mod 10)]"
    "dec_int 2 d = [digit_char (d div 10), digit_char (d mod 10)]"
    "dec_int 2 h = [digit_char (h div 10), digit_char (h mod 10)]"
    "dec_int 2 mi = [digit_char (mi div 10), digit_char (mi mod 10)]"
    "dec_int 2 s = [digit_char (s div 10), digit_char (s mod 10)]"
    using assms by (simp_all add: dec_int2)
  have n: "m div 10 * 10 + m mod 10 = m" "d div 10 * 10 + d mod 10 = d" "h div 10 * 10 + h mod 10 = h"
    "mi div 10 * 10 + mi mod 10 = mi" "s div 10 * 10 + s mod 10 = s"
    by (simp_all only: div_mult_mod_eq)
  have z: "0 \<le> m div 10" "m div 10 \<le> 9" "0 \<le> d div 10" "d div 10 \<le> 9" "0 \<le> h div 10" "h div 10 \<le> 9"
    "0 \<le> mi div 10" "mi div 10 \<le> 9" "0 \<le> s div 10" "s div 10 \<le> 9"
    using assms by (simp_all add: two)
  note q = four_digits [OF y]
  show ?thesis
    unfolding parse_ftp_time_def dec_int4 [OF y] i
    using m d h mi s by (simp add: dc b z q n t_def)
qed

lemma ftp_time_parse:
  assumes "c_gmtime t = Some x" "0 \<le> tm_year x + 1900" "tm_year x + 1900 < 10000" "t \<noteq> -1"
  shows "parse_ftp_time (ftp_time_str x @ rest) = Some t \<and> length (ftp_time_str x) = 14"
proof -
  note r = gmtime_ranges [OF assms(1)]
  have x: "\<lparr> tm_year = tm_year x + 1900 - 1900, tm_mon = tm_mon x + 1 - 1, tm_mday = tm_mday x, tm_hour = tm_hour x,
      tm_min = tm_min x, tm_sec = tm_sec x \<rparr> = x"
    by (cases x) simp
  have "parse_ftp_time (ftp_time_str x @ rest) = (if c_timegm x = -1 then None else Some (c_timegm x))"
    using parse_printed [of "tm_year x + 1900" "tm_mon x + 1" "tm_mday x" "tm_hour x" "tm_min x"
        "tm_sec x" rest, unfolded x] r assms(2,3)
    by (simp add: ftp_time_str_def)
  moreover have "length (ftp_time_str x) = 14"
    using r assms(2,3) by (simp add: ftp_time_str_def dec_int2 dec_int4)
  ultimately show ?thesis
    using gmtime_timegm [OF assms(1)] assms(4) by simp
qed

section \<open>Properties\<close>

text \<open>
  C40: Modification times round-trip. For every time in the years 0 to 9999 other than the last
  second of 1969, the stamp that \<open>MDTM\<close> prints is fourteen digits that \<open>MFMT\<close> and \<open>SITE UTIME\<close>
  parse back to the same time, whatever text follows. (The parser cannot tell the excluded
  second from the error value of \<open>timegm\<close>.)
\<close>

theorem ftp_time_round_trip:
  assumes "c_gmtime t = Some x" "0 \<le> tm_year x + 1900" "tm_year x + 1900 < 10000" "t \<noteq> -1"
  shows "parse_ftp_time (ftp_time_str x @ rest) = Some t \<and> length (ftp_time_str x) = 14"
  by (rule ftp_time_parse [OF assms])

theorem ftp_time_round_trip_witness:
  "case c_gmtime 1700000000 of
     Some x \<Rightarrow> ftp_time_str x = ''20231114221320'' \<and>
       parse_ftp_time (ftp_time_str x @ ''.5'') = Some 1700000000
   | None \<Rightarrow> False"
proof -
  have g: "c_gmtime 1700000000 = Some \<lparr> tm_year = 123, tm_mon = 10, tm_mday = 14, tm_hour = 22,
      tm_min = 13, tm_sec = 20 \<rparr>"
    by code_simp
  have f: "ftp_time_str \<lparr> tm_year = 123, tm_mon = 10, tm_mday = 14, tm_hour = 22,
      tm_min = 13, tm_sec = 20 \<rparr> = ''20231114221320''"
    by code_simp
  show ?thesis
    using ftp_time_round_trip [OF g, of "''.5''"] by (simp add: g f)
qed

end
