(* ===== verification/Listing.thy ===== *)
theory Listing
  imports Fs_Vtable Ftp_Time
begin

text \<open>
  Directory listing lines: \<^verbatim>\<open>src/src/listing.c\<close>. \<open>localtime_r\<close> depends on the time zone of the
  host and is an argument; \<open>gmtime_r\<close> is the one of \<open>Ftp_Time\<close>. Both formatting functions return
  what \<open>snprintf\<close> returns, the length of the whole line, and the text left in the buffer of \<open>n\<close>
  bytes.
\<close>

section \<open>Definitions\<close>

definition opftp_mode_str :: "16 word \<Rightarrow> string" where
  "opftp_mode_str mode =
     (if mode AND S_IFMT = S_IFDIR then CHR ''d'' else CHR ''-'') #
     map (\<lambda>i. if mode AND drop_bit i 0x100 \<noteq> 0 then ''rwxrwxrwx'' ! i else CHR ''-'') [0..<9]"

definition MONTHS :: "string list" where
  "MONTHS = [''Jan'', ''Feb'', ''Mar'', ''Apr'', ''May'', ''Jun'', ''Jul'', ''Aug'', ''Sep'', ''Oct'', ''Nov'', ''Dec'']"

definition u_dec :: "'a::len word \<Rightarrow> string" where
  "u_dec w = dec (unat w)"

definition listing_line :: "(int \<Rightarrow> tm option) \<Rightarrow> opftp_dirent \<Rightarrow> string option \<Rightarrow> string" where
  "listing_line localtime de display_name =
     (let tm = (case localtime (de_mtime de) of
                  Some tm \<Rightarrow> tm
                | None \<Rightarrow> \<lparr> tm_year = 0, tm_mon = 0, tm_mday = 1, tm_hour = 0, tm_min = 0, tm_sec = 0 \<rparr>);
          (uid, gid) = (if de_uid de = 0 \<and> de_gid de = 0 then (1, 1) else (de_uid de, de_gid de))
      in opftp_mode_str (de_mode de) @ '' 1 '' @ u_dec uid @ '' '' @ u_dec gid @ '' '' @
         space_pad 12 (u_dec (de_size de)) @ '' '' @
         MONTHS ! nat (if tm_mon tm < 12 then tm_mon tm else 0) @ '' '' @
         dec_int 2 (tm_mday tm) @ '' '' @ dec_int 2 (tm_hour tm) @ '':'' @ dec_int 2 (tm_min tm) @ '' '' @
         (case display_name of Some d \<Rightarrow> d | None \<Rightarrow> de_name de) @ crlf)"

definition opftp_listing_format ::
  "(int \<Rightarrow> tm option) \<Rightarrow> nat \<Rightarrow> opftp_dirent \<Rightarrow> string option \<Rightarrow> nat \<times> string" where
  "opftp_listing_format localtime n de display_name =
     (let line = listing_line localtime de display_name in (length line, c_snprintf n line))"

definition mlsd_line :: "opftp_dirent \<Rightarrow> string" where
  "mlsd_line de =
     (let dir = (de_mode de AND S_IFMT = S_IFDIR);
          modify = (case c_gmtime (de_mtime de) of
                      None \<Rightarrow> ''19700101000000''
                    | Some tm \<Rightarrow> c_snprintf 16 (ftp_time_str tm))
      in ''type='' @ (if dir then ''dir'' else ''file'') @ '';size='' @
         u_dec (if dir then 0 else de_size de) @ '';modify='' @ modify @ '';perm='' @
         (if dir then ''eladfmp'' else ''adfrw'') @ ''; '' @ de_name de @ crlf)"

definition opftp_listing_format_mlsd :: "nat \<Rightarrow> opftp_dirent \<Rightarrow> nat \<times> string" where
  "opftp_listing_format_mlsd n de = (let line = mlsd_line de in (length line, c_snprintf n line))"

subsection \<open>Reading a machine listing\<close>

text \<open>The entry syntax of RFC 3659: facts \<open>name=value;\<close>, a space, the file name.\<close>

fun mlsd_parse :: "nat \<Rightarrow> string \<Rightarrow> ((string \<times> string) list \<times> string) option" where
  "mlsd_parse 0 s = None"
| "mlsd_parse (Suc k) s =
     (if s \<noteq> [] \<and> hd s = space then Some ([], tl s)
      else
        let key = takeWhile (\<lambda>c. c \<noteq> CHR ''='') s;
            s1 = dropWhile (\<lambda>c. c \<noteq> CHR ''='') s;
            val = takeWhile (\<lambda>c. c \<noteq> CHR '';'') (tl s1);
            s2 = dropWhile (\<lambda>c. c \<noteq> CHR '';'') (tl s1)
        in if s1 = [] \<or> s2 = [] then None
           else map_option (\<lambda>(fs, name). ((key, val) # fs, name)) (mlsd_parse k (tl s2)))"

section \<open>Lengths\<close>

lemma length_mode_str: "length (opftp_mode_str m) = 10"
  by (simp add: opftp_mode_str_def)

lemma mode_str_bits:
  assumes "i < 9"
  shows "opftp_mode_str m ! Suc i = (if bit m (8 - i) then ''rwxrwxrwx'' ! i else CHR ''-'')"
proof -
  have "drop_bit i (2 ^ 8 :: 16 word) = 2 ^ (8 - i)"
    using assms by (simp only: drop_bit_exp_eq) simp
  then have "m AND drop_bit i 0x100 \<noteq> 0 \<longleftrightarrow> bit m (8 - i)"
    by (simp add: and_exp_eq_0_iff_not_bit)
  with assms show ?thesis by (simp add: opftp_mode_str_def)
qed

lemma length_u_dec32: "length (u_dec (w :: 32 word)) \<le> 10"
proof -
  have "unat w < 2 ^ LENGTH(32)" by (rule unsigned_less)
  then show ?thesis using length_dec_le [of "unat w" 10] by (simp add: u_dec_def)
qed

lemma length_u_dec64: "length (u_dec (w :: 64 word)) \<le> 20"
proof -
  have "unat w < 2 ^ LENGTH(64)" by (rule unsigned_less)
  then show ?thesis using length_dec_le [of "unat w" 20] by (simp add: u_dec_def)
qed

text \<open>What \<open>localtime_r\<close> promises of the fields it fills in.\<close>

definition tm_in_range :: "tm \<Rightarrow> bool" where
  "tm_in_range t \<longleftrightarrow> 0 \<le> tm_mon t \<and> tm_mon t \<le> 11 \<and> 1 \<le> tm_mday t \<and> tm_mday t \<le> 31 \<and>
     0 \<le> tm_hour t \<and> tm_hour t \<le> 23 \<and> 0 \<le> tm_min t \<and> tm_min t \<le> 59"

lemma length_MONTHS: "i < 12 \<Longrightarrow> length (MONTHS ! i) = 3"
proof -
  assume "i < 12"
  then have "i \<in> set [0..<12]" by simp
  moreover have "list_all (\<lambda>i. length (MONTHS ! i) = 3) [0..<12]" by code_simp
  ultimately show ?thesis by (simp add: list_all_iff)
qed

text \<open>A line with its middle part abbreviated.\<close>

definition listing_tail :: "tm \<Rightarrow> 32 word \<Rightarrow> 32 word \<Rightarrow> 64 word \<Rightarrow> string" where
  "listing_tail tm uid gid sz =
     '' 1 '' @ u_dec uid @ '' '' @ u_dec gid @ '' '' @ space_pad 12 (u_dec sz) @ '' '' @
     MONTHS ! nat (if tm_mon tm < 12 then tm_mon tm else 0) @ '' '' @
     dec_int 2 (tm_mday tm) @ '' '' @ dec_int 2 (tm_hour tm) @ '':'' @ dec_int 2 (tm_min tm) @ '' ''"

lemma listing_line_shape:
  assumes "case localtime (de_mtime de) of None \<Rightarrow> True | Some tm \<Rightarrow> tm_in_range tm"
  obtains tm uid gid where "tm_in_range tm"
    "listing_line localtime de dn = opftp_mode_str (de_mode de) @ listing_tail tm uid gid (de_size de) @
       (case dn of Some d \<Rightarrow> d | None \<Rightarrow> de_name de) @ crlf"
proof -
  define tm where "tm = (case localtime (de_mtime de) of
                  Some tm \<Rightarrow> tm
                | None \<Rightarrow> \<lparr> tm_year = 0, tm_mon = 0, tm_mday = 1, tm_hour = 0, tm_min = 0, tm_sec = 0 \<rparr>)"
  obtain uid gid where "(if de_uid de = 0 \<and> de_gid de = 0 then (1, 1) else (de_uid de, de_gid de)) = (uid, gid)"
    by force
  then have "listing_line localtime de dn = opftp_mode_str (de_mode de) @
      listing_tail tm uid gid (de_size de) @ (case dn of Some d \<Rightarrow> d | None \<Rightarrow> de_name de) @ crlf"
    unfolding listing_line_def Let_def tm_def [symmetric] by (simp add: listing_tail_def)
  moreover have "tm_in_range tm"
    using assms by (auto simp: tm_def tm_in_range_def split: option.splits)
  ultimately show thesis by (rule that [rotated])
qed

lemma length_listing_tail: "tm_in_range tm \<Longrightarrow> length (listing_tail tm uid gid sz) \<le> 59"
proof -
  assume r: "tm_in_range tm"
  then have "length (dec_int 2 (tm_mday tm)) = 2" "length (dec_int 2 (tm_hour tm)) = 2"
    "length (dec_int 2 (tm_min tm)) = 2"
    by (simp_all add: tm_in_range_def dec_int2)
  moreover have "length (MONTHS ! nat (if tm_mon tm < 12 then tm_mon tm else 0)) = 3"
    using r by (intro length_MONTHS) (auto simp: tm_in_range_def)
  moreover have "length (space_pad 12 (u_dec sz)) \<le> 20"
    using length_u_dec64 [of sz] by (auto simp: space_pad_def)
  ultimately show ?thesis
    using length_u_dec32 [of uid] length_u_dec32 [of gid] by (simp add: listing_tail_def)
qed

section \<open>Facts of a machine listing\<close>

lemma mlsd_parse_fact:
  assumes "CHR ''='' \<notin> set key" "key \<noteq> []" "hd key \<noteq> space" "CHR '';'' \<notin> set val"
  shows "mlsd_parse (Suc k) (key @ ''='' @ val @ '';'' @ rest) =
    map_option (\<lambda>(fs, name). ((key, val) # fs, name)) (mlsd_parse k rest)"
  using assms by (simp add: takeWhile_until dropWhile_until)

lemma u_dec_no_semicolon: "CHR '';'' \<notin> set (u_dec w)"
proof -
  have "\<not> c_isdigit (CHR '';'')" by code_simp
  then show ?thesis using dec_digits [of "unat w"] by (auto simp: u_dec_def list_all_iff)
qed

lemma dec_int_no_semicolon: "CHR '';'' \<notin> set (dec_int k n)"
proof -
  have "\<not> c_isdigit (CHR '';'')" by code_simp
  then show ?thesis
    using dec_digits by (auto simp: dec_int_def zero_pad_def list_all_iff split: if_splits)
qed

definition mlsd_modify :: "opftp_dirent \<Rightarrow> string" where
  "mlsd_modify de =
     (case c_gmtime (de_mtime de) of
        None \<Rightarrow> ''19700101000000''
      | Some tm \<Rightarrow> c_snprintf 16 (ftp_time_str tm))"

lemma modify_no_semicolon: "CHR '';'' \<notin> set (mlsd_modify de)"
proof -
  have "CHR '';'' \<notin> set (ftp_time_str tm)" for tm
    by (simp add: ftp_time_str_def dec_int_no_semicolon)
  then have "CHR '';'' \<notin> set (c_snprintf 16 (ftp_time_str tm))" for tm
    using set_c_snprintf by blast
  then show ?thesis by (simp add: mlsd_modify_def split: option.split)
qed

lemma mlsd_parse_line:
  "mlsd_parse 5 (mlsd_line de) = Some
     ([(''type'', if mode_is_dir (de_mode de) then ''dir'' else ''file''),
       (''size'', u_dec (if mode_is_dir (de_mode de) then 0 else de_size de)),
       (''modify'', mlsd_modify de),
       (''perm'', if mode_is_dir (de_mode de) then ''eladfmp'' else ''adfrw'')],
      de_name de @ crlf)"
proof -
  define ty where "ty = (if mode_is_dir (de_mode de) then ''dir'' else ''file'')"
  define pm where "pm = (if mode_is_dir (de_mode de) then ''eladfmp'' else ''adfrw'')"
  define sz where "sz = u_dec (if mode_is_dir (de_mode de) then 0 else de_size de)"
  have n: "CHR '';'' \<notin> set ty" "CHR '';'' \<notin> set pm" "CHR '';'' \<notin> set sz"
    by (simp_all add: ty_def pm_def sz_def u_dec_no_semicolon)
  define r4 where "r4 = '' '' @ de_name de @ crlf"
  define r3 where "r3 = ''perm'' @ ''='' @ pm @ '';'' @ r4"
  define r2 where "r2 = ''modify'' @ ''='' @ mlsd_modify de @ '';'' @ r3"
  define r1 where "r1 = ''size'' @ ''='' @ sz @ '';'' @ r2"
  have l: "mlsd_line de = ''type'' @ ''='' @ ty @ '';'' @ r1"
    by (simp add: mlsd_line_def Let_def ty_def pm_def sz_def mlsd_modify_def mode_is_dir_def
        r1_def r2_def r3_def r4_def)
  have "mlsd_parse 1 r4 = Some ([], de_name de @ crlf)" by (simp add: r4_def)
  then have "mlsd_parse 2 r3 = Some ([(''perm'', pm)], de_name de @ crlf)"
    using mlsd_parse_fact [of "''perm''" pm 1 r4] n by (simp add: r3_def numeral_2_eq_2)
  then have "mlsd_parse 3 r2 = Some ([(''modify'', mlsd_modify de), (''perm'', pm)], de_name de @ crlf)"
    using mlsd_parse_fact [of "''modify''" "mlsd_modify de" 2 r3] modify_no_semicolon
    by (simp add: r2_def numeral_3_eq_3 numeral_2_eq_2)
  then have "mlsd_parse (Suc 3) r1 =
      Some ([(''size'', sz), (''modify'', mlsd_modify de), (''perm'', pm)], de_name de @ crlf)"
    using mlsd_parse_fact [of "''size''" sz 3 r2] n by (simp add: r1_def del: mlsd_parse.simps)
  then have "mlsd_parse (Suc (Suc 3)) (mlsd_line de) =
      Some ([(''type'', ty), (''size'', sz), (''modify'', mlsd_modify de), (''perm'', pm)],
        de_name de @ crlf)"
    using mlsd_parse_fact [of "''type''" ty "Suc 3" r1] n by (simp add: l del: mlsd_parse.simps)
  moreover have "Suc (Suc 3) = (5 :: nat)" by simp
  ultimately show ?thesis
    by (simp only: ty_def pm_def sz_def)
qed

lemma length_mlsd_line: "length (mlsd_line de) \<le> length (de_name de) + 75"
proof -
  have t: "length (c_snprintf 16 (ftp_time_str x)) \<le> 15" for x
    using length_c_snprintf [of 16 "ftp_time_str x"] by simp
  have "length (mlsd_modify de) \<le> 15"
    using t by (simp add: mlsd_modify_def split: option.split)
  moreover have "mlsd_line de = ''type='' @ (if mode_is_dir (de_mode de) then ''dir'' else ''file'') @
      '';size='' @ u_dec (if mode_is_dir (de_mode de) then 0 else de_size de) @ '';modify='' @
      mlsd_modify de @ '';perm='' @ (if mode_is_dir (de_mode de) then ''eladfmp'' else ''adfrw'') @
      ''; '' @ de_name de @ crlf"
    by (simp add: mlsd_line_def Let_def mlsd_modify_def mode_is_dir_def)
  ultimately show ?thesis
    using length_u_dec64 [of "if mode_is_dir (de_mode de) then 0 else de_size de"]
    by (cases "mode_is_dir (de_mode de)") simp_all
qed

section \<open>Properties\<close>

text \<open>
  A \<open>LIST\<close> line is never cut. For a directory entry (whose name has at most 255 bytes) and
  any local time with its fields in range, the 1024-byte buffer takes the whole line, the mode
  string shows the directory flag and exactly the nine permission bits, and the line ends with
  the entry's name and CRLF.
\<close>

theorem listing_line_complete:
  assumes "length (de_name de) \<le> 255"
    and "\<forall>t tm. localtime t = Some tm \<longrightarrow> tm_in_range tm"
  shows "\<exists>front. opftp_listing_format localtime 1024 de None =
      (length (front @ de_name de @ crlf), front @ de_name de @ crlf) \<and>
    take 10 front = opftp_mode_str (de_mode de) \<and>
    (hd front = CHR ''d'' \<longleftrightarrow> mode_is_dir (de_mode de)) \<and>
    (\<forall>i<9. front ! Suc i \<noteq> CHR ''-'' \<longleftrightarrow> bit (de_mode de) (8 - i))"
proof -
  have "case localtime (de_mtime de) of None \<Rightarrow> True | Some tm \<Rightarrow> tm_in_range tm"
    using assms(2) by (auto split: option.split)
  then obtain tm uid gid where "tm_in_range tm" and sh: "listing_line localtime de None =
      opftp_mode_str (de_mode de) @ listing_tail tm uid gid (de_size de) @ de_name de @ crlf"
    by (rule listing_line_shape [where dn = None]) simp
  define tail where "tail = listing_tail tm uid gid (de_size de)"
  have line: "listing_line localtime de None = (opftp_mode_str (de_mode de) @ tail) @ de_name de @ crlf"
    by (simp add: sh tail_def)
  have l: "length (listing_line localtime de None) < 1024"
    using length_listing_tail [OF \<open>tm_in_range tm\<close>, of uid gid "de_size de"] assms(1)
    by (simp add: sh length_mode_str)
  let ?front = "opftp_mode_str (de_mode de) @ tail"
  have bits: "?front ! Suc i \<noteq> CHR ''-'' \<longleftrightarrow> bit (de_mode de) (8 - i)" if "i < 9" for i
  proof -
    have "list_all (\<lambda>i. ''rwxrwxrwx'' ! i \<noteq> CHR ''-'') [0..<9]" by code_simp
    with that have "''rwxrwxrwx'' ! i \<noteq> CHR ''-''" by (simp add: list_all_iff)
    with mode_str_bits [OF that] that show ?thesis
      by (simp add: nth_append length_mode_str)
  qed
  have hd: "hd ?front = CHR ''d'' \<longleftrightarrow> mode_is_dir (de_mode de)"
    by (simp add: opftp_mode_str_def mode_is_dir_def)
  have "opftp_listing_format localtime 1024 de None =
      (length (?front @ de_name de @ crlf), ?front @ de_name de @ crlf)"
    using l by (simp add: opftp_listing_format_def Let_def c_snprintf_id line)
  with bits hd show ?thesis
    by (intro exI [of _ ?front]) (simp add: length_mode_str)
qed

definition example_entry :: opftp_dirent where
  "example_entry = \<lparr> de_name = ''file.txt'', de_mode = 0x81A4, de_size = 42, de_mtime = 1700000000,
     de_uid = 0, de_gid = 0 \<rparr>"

lemma gmtime_in_range: "c_gmtime t = Some tm \<Longrightarrow> tm_in_range tm"
  using gmtime_ranges [of t tm] by (simp add: tm_in_range_def)

theorem listing_line_complete_witness:
  "snd (opftp_listing_format c_gmtime 1024 example_entry None) =
     ''-rw-r--r-- 1 1 1           42 Nov 14 22:13 file.txt'' @ crlf \<and>
   (\<exists>front. opftp_listing_format c_gmtime 1024 example_entry None =
      (length (front @ ''file.txt'' @ crlf), front @ ''file.txt'' @ crlf))"
proof -
  have "snd (opftp_listing_format c_gmtime 1024 example_entry None) =
     ''-rw-r--r-- 1 1 1           42 Nov 14 22:13 file.txt'' @ crlf"
    by code_simp
  moreover have n: "de_name example_entry = ''file.txt''" by (simp add: example_entry_def)
  ultimately show ?thesis
    using listing_line_complete [of example_entry c_gmtime] gmtime_in_range unfolding n by auto
qed

text \<open>
  C32: Machine listings carry the metadata. An \<open>MLSD\<close> line fits its buffer, and a client that
  reads it by the rules of RFC 3659 recovers the type, the size of a file, the name (whatever
  characters it has) and the modification time, the latter exactly for the years 0 to 9999 but
  for the last second of 1969.
\<close>

theorem mlsd_round_trip:
  assumes "length (de_name de) \<le> 255" "c_gmtime (de_mtime de) = Some tm"
    and "0 \<le> tm_year tm + 1900" "tm_year tm + 1900 < 10000" "de_mtime de \<noteq> -1"
  shows "\<exists>line modify. opftp_listing_format_mlsd 1024 de = (length line, line) \<and>
    mlsd_parse 5 line = Some
     ([(''type'', if mode_is_dir (de_mode de) then ''dir'' else ''file''),
       (''size'', dec (if mode_is_dir (de_mode de) then 0 else unat (de_size de))),
       (''modify'', modify),
       (''perm'', if mode_is_dir (de_mode de) then ''eladfmp'' else ''adfrw'')],
      de_name de @ crlf) \<and>
    parse_ftp_time modify = Some (de_mtime de)"
proof -
  have "parse_ftp_time (ftp_time_str tm) = Some (de_mtime de) \<and> length (ftp_time_str tm) = 14"
    using ftp_time_parse [OF assms(2-5), of "[]"] by simp
  moreover from this have "mlsd_modify de = ftp_time_str tm"
    by (simp add: mlsd_modify_def assms(2) c_snprintf_id)
  moreover have "opftp_listing_format_mlsd 1024 de = (length (mlsd_line de), mlsd_line de)"
    using length_mlsd_line [of de] assms(1)
    by (simp add: opftp_listing_format_mlsd_def Let_def c_snprintf_id)
  moreover have "u_dec (if d then 0 else w) = dec (if d then 0 else unat w)" for d and w :: "64 word"
    by (simp add: u_dec_def)
  ultimately show ?thesis
    using mlsd_parse_line [of de] by (intro exI conjI) auto
qed

theorem mlsd_round_trip_witness:
  "\<exists>modify. mlsd_parse 5 (snd (opftp_listing_format_mlsd 1024 example_entry)) = Some
     ([(''type'', ''file''), (''size'', ''42''), (''modify'', modify), (''perm'', ''adfrw'')],
      ''file.txt'' @ crlf) \<and>
   parse_ftp_time modify = Some 1700000000"
proof -
  have g: "c_gmtime (de_mtime example_entry) = Some \<lparr> tm_year = 123, tm_mon = 10, tm_mday = 14,
      tm_hour = 22, tm_min = 13, tm_sec = 20 \<rparr>"
    by code_simp
  have s: "dec (if mode_is_dir (de_mode example_entry) then 0 else unat (de_size example_entry)) = ''42''"
    "mode_is_dir (de_mode example_entry) = False"
    by code_simp+
  show ?thesis
    using mlsd_round_trip [OF _ g] s by (auto simp: example_entry_def)
qed

end
