(* ===== verification/Server_State.thy ===== *)
theory Server_State
  imports Job_Queue Dispatch Pollset Fs_Rooted Listing
begin

text \<open>
  The data of the server: \<^verbatim>\<open>struct opftp_client\<close>, \<^verbatim>\<open>struct opftp_transfer_job\<close> and
  \<^verbatim>\<open>struct opftp_server\<close> of \<^verbatim>\<open>src/src/opftp.h\<close>, and the environment its handlers run in.

  Command handlers run on the reactor thread on behalf of one client. They are functions on a
  handler state that holds that client, the server and the state outside the program, and that
  records in order the lines handed to \<open>opftp_client_send_raw\<close> and the descriptors closed.
  Jobs are shared between the reactor and the workers; they live in a store and are named by
  identifiers where the code has pointers.

  Sockets, pipes, the clock, TLS sessions and the authentication callback are outside the
  program: the record \<open>env\<close> holds them as operations on the outside state. Counters without a
  wrap-around in any feasible run (references, generations, identifiers) are natural numbers.
\<close>

section \<open>Addresses\<close>

text \<open>Socket addresses with the address bytes in network order; a zeroed
  \<open>sockaddr_storage\<close> has no family.\<close>

datatype sockaddr =
    Sa_unspec
  | Sa_in "8 word list" "16 word"
  | Sa_in6 "8 word list" "16 word"

datatype family = AF_INET | AF_INET6

definition opftp_is_v4mapped :: "8 word list \<Rightarrow> bool" where
  "opftp_is_v4mapped a \<longleftrightarrow> take 10 a = replicate 10 0 \<and> a ! 10 = 0xFF \<and> a ! 11 = 0xFF"

fun sockaddr_ok :: "sockaddr \<Rightarrow> bool" where
  "sockaddr_ok Sa_unspec = True"
| "sockaddr_ok (Sa_in a p) \<longleftrightarrow> length a = 4"
| "sockaddr_ok (Sa_in6 a p) \<longleftrightarrow> length a = 16"

section \<open>Clients, jobs and the server\<close>

record client =
  c_refs :: nat
  c_generation :: nat
  c_fd :: int
  c_peer :: sockaddr
  c_rbuf :: string  \<comment> \<open>the unconsumed bytes \<open>rbuf[rpos..rlen)\<close>\<close>
  c_logged_in :: bool
  c_disconnect_requested :: bool
  c_user :: string
  c_cwd :: string
  c_job :: "nat option"
  c_abor_pending :: bool
  c_rest :: "64 word"
  c_rnfr :: string
  c_have_rnfr :: bool
  c_cpfr :: string
  c_have_cpfr :: bool
  c_tls :: "nat option"
  c_tls_handshaking :: bool
  c_tls_prot :: bool
  c_pasv_fd :: int
  c_data_peer :: sockaddr
  c_have_data_peer :: bool
  c_poll_handle :: int

datatype job_op = OPFTP_JOB_LIST | OPFTP_JOB_STOR | OPFTP_JOB_APPE | OPFTP_JOB_RETR | OPFTP_JOB_COPY

record job =
  j_client :: nat
  j_generation :: nat
  j_op :: job_op
  j_path :: string
  j_dst :: string
  j_rest :: "64 word"
  j_nlst :: bool
  j_mlsd :: bool
  j_cancelled :: bool
  j_cancel_bytes :: nat  \<comment> \<open>bytes written to the cancel pipe\<close>
  j_cancel_r :: int  \<comment> \<open>\<open>cancel_pipe[0]\<close>, polled by the worker\<close>
  j_cancel_w :: int  \<comment> \<open>\<open>cancel_pipe[1]\<close>, written by the reactor\<close>
  j_data_fd :: int
  j_need_tls :: bool
  j_pasv_fd :: int
  j_data_peer :: sockaddr
  j_have_data_peer :: bool
  j_ctl_peer :: sockaddr
  j_conn_ok :: bool
  j_bytes :: "64 word"
  j_total :: "64 word"
  j_result :: rc

record server =
  s_root :: string
  s_allow_stop :: bool
  s_has_tls :: bool
  s_require_tls :: bool
  s_skip_banner :: bool
  s_allow_foreign_port :: bool
  s_pasv_min :: "16 word"
  s_pasv_max :: "16 word"
  s_stopping :: bool
  s_ring :: "nat ring"
  s_jobs :: "nat \<rightharpoonup> job"
  s_next_job :: nat
  s_stou_seq :: "32 word"
  s_pollset :: "nat pollset option"

section \<open>The environment of a handler\<close>

record 'x env =
  e_fs :: "'x opftp_fs"
  e_calloc :: "('x, unit) fs_op"
  e_pipe :: "('x, int \<times> int) fs_op"
  e_getsockname :: "int \<Rightarrow> ('x, sockaddr) fs_op"
  e_socket :: "family \<Rightarrow> ('x, int) fs_op"
  e_bind :: "int \<Rightarrow> sockaddr \<Rightarrow> ('x, unit) fs_op"
  e_listen :: "int \<Rightarrow> nat \<Rightarrow> ('x, unit) fs_op"
  e_close :: "int \<Rightarrow> 'x sys \<Rightarrow> 'x sys"
  e_time :: "'x sys \<Rightarrow> int \<times> 'x sys"
  e_tls_create :: "int \<Rightarrow> string \<Rightarrow> ('x, nat) fs_op"
  e_auth :: "(string \<Rightarrow> string \<Rightarrow> 'x sys \<Rightarrow> bool \<times> 'x sys) option"
  e_localtime :: "int \<Rightarrow> tm option"
  e_inet_pton4 :: "string \<Rightarrow> 8 word list option"
  e_inet_pton6 :: "string \<Rightarrow> 8 word list option"
  e_dir_bound :: nat  \<comment> \<open>entries a directory yields at most\<close>

record 'x hst =
  h_id :: nat  \<comment> \<open>identity of the client\<close>
  h_cl :: client
  h_srv :: server
  h_sys :: "'x sys"
  h_out :: "string list"
  h_closed :: "int list"

type_synonym 'x handler = "'x env \<Rightarrow> string option \<Rightarrow> 'x hst \<Rightarrow> 'x hst"

definition upd_cl :: "(client \<Rightarrow> client) \<Rightarrow> 'x hst \<Rightarrow> 'x hst" where
  "upd_cl f h = h\<lparr> h_cl := f (h_cl h) \<rparr>"

definition upd_srv :: "(server \<Rightarrow> server) \<Rightarrow> 'x hst \<Rightarrow> 'x hst" where
  "upd_srv f h = h\<lparr> h_srv := f (h_srv h) \<rparr>"

text \<open>Run an operation of the outside world.\<close>

definition call :: "('x, 'r) fs_op \<Rightarrow> 'x hst \<Rightarrow> 'r option \<times> 'x hst" where
  "call f h = (case f (h_sys h) of (r, s) \<Rightarrow> (r, h\<lparr> h_sys := s \<rparr>))"

abbreviation errno_of :: "'x hst \<Rightarrow> errno" where
  "errno_of h \<equiv> sys_errno (h_sys h)"

definition opftp_close_fd :: "'x env \<Rightarrow> int \<Rightarrow> 'x hst \<Rightarrow> 'x hst" where
  "opftp_close_fd e fd h =
     h\<lparr> h_sys := e_close e fd (h_sys h), h_closed := h_closed h @ [fd] \<rparr>"

text \<open>Change the poll events of the client's own slot, when there is a poll set.\<close>

definition poll_mod_client :: "poll_events \<Rightarrow> 'x hst \<Rightarrow> 'x hst" where
  "poll_mod_client ev h =
     (if c_poll_handle (h_cl h) \<ge> 0
      then upd_srv (\<lambda>s. s\<lparr> s_pollset := map_option (opftp_pollset_mod (c_poll_handle (h_cl h)) ev) (s_pollset s) \<rparr>) h
      else h)"

section \<open>Sending\<close>

definition opftp_client_send_raw :: "string \<Rightarrow> 'x hst \<Rightarrow> 'x hst" where
  "opftp_client_send_raw s h = h\<lparr> h_out := h_out h @ [s] \<rparr>"

definition opftp_client_send :: "string \<Rightarrow> 'x hst \<Rightarrow> 'x hst" where
  "opftp_client_send msg = opftp_client_send_raw (c_snprintf 1024 (msg @ crlf))"

definition reply_text :: "nat \<Rightarrow> string \<Rightarrow> string" where
  "reply_text code msg = c_snprintf 1024 (dec code @ '' '' @ msg @ crlf)"

definition opftp_client_send_reply :: "nat \<Rightarrow> string \<Rightarrow> 'x hst \<Rightarrow> 'x hst" where
  "opftp_client_send_reply code msg = opftp_client_send_raw (reply_text code msg)"

abbreviation reply :: "nat \<Rightarrow> string \<Rightarrow> 'x hst \<Rightarrow> 'x hst" where
  "reply \<equiv> opftp_client_send_reply"

text \<open>The reply texts of \<^verbatim>\<open>opftp.h\<close>.\<close>

abbreviation R150 :: string where "R150 \<equiv> ''Accepted data connection.''"
abbreviation R200 :: string where "R200 \<equiv> ''OK.''"
abbreviation R202 :: string where "R202 \<equiv> ''Already logged in.''"
abbreviation R215 :: string where "R215 \<equiv> ''UNIX Type: L8''"
abbreviation R221 :: string where "R221 \<equiv> ''Bye.''"
abbreviation R226 :: string where "R226 \<equiv> ''Transfer complete.''"
abbreviation R250 :: string where "R250 \<equiv> ''File operation successful.''"
abbreviation R350A :: string where "R350A \<equiv> ''Ready for next command.''"
abbreviation R421 :: string where "R421 \<equiv> ''Closing control connection.''"
abbreviation R425 :: string where "R425 \<equiv> ''Cannot open data connection.''"
abbreviation R426 :: string where "R426 \<equiv> ''Connection closed; transfer aborted.''"
abbreviation R450 :: string where "R450 \<equiv> ''Another data transfer is already in progress.''"
abbreviation R451 :: string where "R451 \<equiv> ''Data transfer error (network).''"
abbreviation R501 :: string where "R501 \<equiv> ''Bad command syntax.''"
abbreviation R502 :: string where "R502 \<equiv> ''Command not implemented.''"
abbreviation R503 :: string where "R503 \<equiv> ''Bad command usage.''"
abbreviation R504 :: string where "R504 \<equiv> ''Parameter not accepted.''"
abbreviation R530 :: string where "R530 \<equiv> ''Not logged in.''"
abbreviation R550 :: string where "R550 \<equiv> ''Cannot access specified file or directory.''"
abbreviation R554 :: string where "R554 \<equiv> ''Invalid REST restart point.''"

section \<open>A fresh client\<close>

definition opftp_client_new :: "int \<Rightarrow> sockaddr \<Rightarrow> client" where
  "opftp_client_new fd peer =
     \<lparr> c_refs = 1, c_generation = 1, c_fd = fd, c_peer = peer, c_rbuf = [], c_logged_in = False,
       c_disconnect_requested = False, c_user = [], c_cwd = ''/'', c_job = None,
       c_abor_pending = False, c_rest = 0, c_rnfr = [], c_have_rnfr = False, c_cpfr = [],
       c_have_cpfr = False, c_tls = None, c_tls_handshaking = False, c_tls_prot = False,
       c_pasv_fd = -1, c_data_peer = Sa_unspec, c_have_data_peer = False, c_poll_handle = 0 \<rparr>"

section \<open>An example instance\<close>

text \<open>A host on which every call fails, a server with the default configuration and one client,
  for statements at concrete states.\<close>

definition void_env :: "'x env" where
  "void_env =
     \<lparr> e_fs = void_fs, e_calloc = (\<lambda>s. (Some (), s)), e_pipe = (\<lambda>s. (Some (20, 21), s)),
       e_getsockname = (\<lambda>_. op_fail EBADF), e_socket = (\<lambda>_. op_fail EMFILE),
       e_bind = (\<lambda>_ _. op_fail EINVAL), e_listen = (\<lambda>_ _. op_fail EINVAL), e_close = (\<lambda>_ s. s),
       e_time = (\<lambda>s. (0, s)), e_tls_create = (\<lambda>_ _. op_fail ENOMEM), e_auth = None,
       e_localtime = c_gmtime, e_inet_pton4 = (\<lambda>_. None), e_inet_pton6 = (\<lambda>_. None),
       e_dir_bound = 100 \<rparr>"

definition default_server :: server where
  "default_server =
     \<lparr> s_root = ''/'', s_allow_stop = False, s_has_tls = False, s_require_tls = False,
       s_skip_banner = False, s_allow_foreign_port = False, s_pasv_min = 0, s_pasv_max = 0,
       s_stopping = False, s_ring = queue_init 2, s_jobs = Map.empty, s_next_job = 0,
       s_stou_seq = 0, s_pollset = None \<rparr>"

definition example_state :: "unit hst" where
  "example_state =
     \<lparr> h_id = 0, h_cl = opftp_client_new 5 (Sa_in [10, 0, 0, 1] 4000), h_srv = default_server,
       h_sys = \<lparr> sys_errno = EOTHER 0, sys_state = () \<rparr>, h_out = [], h_closed = [] \<rparr>"

section \<open>Simplification of state updates\<close>

lemma upd_cl_simps [simp]:
  "h_id (upd_cl f h) = h_id h" "h_cl (upd_cl f h) = f (h_cl h)" "h_srv (upd_cl f h) = h_srv h"
  "h_sys (upd_cl f h) = h_sys h" "h_out (upd_cl f h) = h_out h" "h_closed (upd_cl f h) = h_closed h"
  by (simp_all add: upd_cl_def)

lemma upd_srv_simps [simp]:
  "h_id (upd_srv f h) = h_id h" "h_cl (upd_srv f h) = h_cl h" "h_srv (upd_srv f h) = f (h_srv h)"
  "h_sys (upd_srv f h) = h_sys h" "h_out (upd_srv f h) = h_out h" "h_closed (upd_srv f h) = h_closed h"
  by (simp_all add: upd_srv_def)

lemma send_simps [simp]:
  "h_id (opftp_client_send_raw s h) = h_id h" "h_cl (opftp_client_send_raw s h) = h_cl h"
  "h_srv (opftp_client_send_raw s h) = h_srv h" "h_sys (opftp_client_send_raw s h) = h_sys h"
  "h_out (opftp_client_send_raw s h) = h_out h @ [s]"
  "h_closed (opftp_client_send_raw s h) = h_closed h"
  by (simp_all add: opftp_client_send_raw_def)

lemma reply_simps [simp]:
  "h_id (reply n s h) = h_id h" "h_cl (reply n s h) = h_cl h" "h_srv (reply n s h) = h_srv h"
  "h_sys (reply n s h) = h_sys h" "h_out (reply n s h) = h_out h @ [reply_text n s]"
  "h_closed (reply n s h) = h_closed h"
  by (simp_all add: opftp_client_send_reply_def)

lemma client_send_simps [simp]:
  "h_id (opftp_client_send s h) = h_id h" "h_cl (opftp_client_send s h) = h_cl h"
  "h_srv (opftp_client_send s h) = h_srv h" "h_sys (opftp_client_send s h) = h_sys h"
  "h_out (opftp_client_send s h) = h_out h @ [c_snprintf 1024 (s @ crlf)]"
  "h_closed (opftp_client_send s h) = h_closed h"
  by (simp_all add: opftp_client_send_def)

lemma close_simps [simp]:
  "h_id (opftp_close_fd e fd h) = h_id h" "h_cl (opftp_close_fd e fd h) = h_cl h"
  "h_srv (opftp_close_fd e fd h) = h_srv h" "h_out (opftp_close_fd e fd h) = h_out h"
  "h_closed (opftp_close_fd e fd h) = h_closed h @ [fd]"
  by (simp_all add: opftp_close_fd_def)

lemma poll_mod_client_simps [simp]:
  "h_id (poll_mod_client ev h) = h_id h" "h_cl (poll_mod_client ev h) = h_cl h"
  "h_sys (poll_mod_client ev h) = h_sys h" "h_out (poll_mod_client ev h) = h_out h"
  "h_closed (poll_mod_client ev h) = h_closed h"
  by (simp_all add: poll_mod_client_def)

lemma call_frame:
  "call f h = (r, h') \<Longrightarrow>
   h_id h' = h_id h \<and> h_cl h' = h_cl h \<and> h_srv h' = h_srv h \<and> h_out h' = h_out h \<and>
   h_closed h' = h_closed h"
  by (auto simp: call_def split: prod.splits)

text \<open>Steps that change only the outside state.\<close>

definition sys_only :: "'x hst \<Rightarrow> 'x hst \<Rightarrow> bool" where
  "sys_only h h' \<longleftrightarrow> (\<exists>s. h' = h\<lparr> h_sys := s \<rparr>)"

lemma sys_onlyD:
  assumes "sys_only h h'"
  shows "h_id h' = h_id h" "h_cl h' = h_cl h" "h_srv h' = h_srv h" "h_out h' = h_out h"
    "h_closed h' = h_closed h"
  using assms by (auto simp: sys_only_def)

lemma sys_only_refl [simp]: "sys_only h h"
  unfolding sys_only_def by (rule exI [of _ "h_sys h"]) simp

lemma sys_only_trans: "sys_only h1 h2 \<Longrightarrow> sys_only h2 h3 \<Longrightarrow> sys_only h1 h3"
  by (auto simp: sys_only_def)

lemma call_sys_only: "call f h = (r, h') \<Longrightarrow> sys_only h h'"
  by (auto simp: call_def sys_only_def split: prod.splits)

end
