(* ===== verification/Data_Channel.thy ===== *)
theory Data_Channel
  imports Server_State
begin

text \<open>
  The data connection: the address helpers, \<open>opftp_datachan_precheck\<close>,
  \<open>opftp_datachan_connect_job\<close> and \<open>opftp_datachan_complete\<close> of \<^verbatim>\<open>src/src/datachan.c\<close> (the
  worker pool and the queue of that file are in \<open>Job_Queue\<close>).

  Establishing a connection runs on a worker; each system call it makes is made at most once, and
  the record \<open>conn_env\<close> holds their outcomes and the value of the job's cancel flag at the time it
  is read.
\<close>

section \<open>Definitions\<close>

subsection \<open>Addresses\<close>

fun addr_eq :: "sockaddr \<Rightarrow> sockaddr \<Rightarrow> bool" where
  "addr_eq (Sa_in a p) (Sa_in b q) \<longleftrightarrow> a = b"
| "addr_eq (Sa_in6 a p) (Sa_in6 b q) \<longleftrightarrow> a = b"
| "addr_eq (Sa_in6 a p) (Sa_in b q) \<longleftrightarrow> opftp_is_v4mapped a \<and> take 4 (drop 12 a) = b"
| "addr_eq (Sa_in a p) (Sa_in6 b q) \<longleftrightarrow> opftp_is_v4mapped b \<and> take 4 (drop 12 b) = a"
| "addr_eq _ _ \<longleftrightarrow> False"

definition peer_matches :: "server \<Rightarrow> client \<Rightarrow> sockaddr \<Rightarrow> bool" where
  "peer_matches s c peer \<longleftrightarrow> s_allow_foreign_port s \<or> addr_eq (c_peer c) peer"

definition opftp_datachan_precheck :: "server \<Rightarrow> client \<Rightarrow> rc" where
  "opftp_datachan_precheck s c =
     (if c_have_data_peer c \<and> \<not> peer_matches s c (c_data_peer c) then Some EACCES else None)"

text \<open>The meaning of an address: the IPv6 form, an IPv4 address being mapped.\<close>

fun addr_value :: "sockaddr \<Rightarrow> 8 word list option" where
  "addr_value Sa_unspec = None"
| "addr_value (Sa_in a p) = Some (replicate 10 0 @ [0xFF, 0xFF] @ a)"
| "addr_value (Sa_in6 a p) = Some a"

subsection \<open>Connection establishment\<close>

datatype poll_result = Poll_error errno | Poll_timeout | Poll_ready bool  \<comment> \<open>cancel pipe readable\<close>

record conn_env =
  ce_poll :: poll_result
  ce_accept :: "errno + int \<times> sockaddr"
  ce_socket :: "errno + int"
  ce_connect :: rc
  ce_soerr :: rc
  ce_cancelled :: bool

definition poll_outcome :: "conn_env \<Rightarrow> rc" where
  "poll_outcome ce =
     (case ce_poll ce of
        Poll_timeout \<Rightarrow> Some ETIMEDOUT
      | Poll_error e \<Rightarrow> Some e
      | Poll_ready True \<Rightarrow> Some (if ce_cancelled ce then ECANCELED else EAGAIN)
      | Poll_ready False \<Rightarrow> None)"

definition opftp_datachan_connect_job :: "conn_env \<Rightarrow> bool \<Rightarrow> job \<Rightarrow> rc \<times> job" where
  "opftp_datachan_connect_job ce allow_foreign_port j =
     (if j_pasv_fd j \<ge> 0 then
        (case poll_outcome ce of
           Some e \<Rightarrow> (Some e, j)
         | None \<Rightarrow>
             (case ce_accept ce of
                Inl e \<Rightarrow> (Some e, j)
              | Inr (fd, ss) \<Rightarrow>
                  let j = j\<lparr> j_data_fd := fd \<rparr> in
                  if \<not> allow_foreign_port \<and> \<not> addr_eq ss (j_ctl_peer j) then (Some EACCES, j)
                  else (None, j\<lparr> j_conn_ok := True \<rparr>)))
      else if j_have_data_peer j then
        (case ce_socket ce of
           Inl e \<Rightarrow> (Some e, j)
         | Inr fd \<Rightarrow>
             let j = j\<lparr> j_data_fd := fd \<rparr> in
             if ce_connect ce \<noteq> None \<and> ce_connect ce \<noteq> Some EINPROGRESS then (ce_connect ce, j)
             else
               (case poll_outcome ce of
                  Some e \<Rightarrow> (Some e, j)
                | None \<Rightarrow>
                    (case ce_soerr ce of
                       Some e \<Rightarrow> (Some e, j)
                     | None \<Rightarrow> (None, j\<lparr> j_conn_ok := True \<rparr>))))
      else (Some ENOTCONN, j))"

subsection \<open>Completion\<close>

definition complete_reply :: "job \<Rightarrow> nat \<times> string" where
  "complete_reply j =
     (if \<not> j_conn_ok j \<and> j_op j \<noteq> OPFTP_JOB_COPY then
        (if j_result j = Some ECANCELED then (426, ''Connection closed; transfer aborted.'')
         else if j_result j = Some ETIMEDOUT \<or> j_result j = Some EACCES
         then (425, ''Cannot open data connection.'')
         else (451, ''Data transfer error (network).''))
      else if j_result j = None then
        (if j_op j = OPFTP_JOB_COPY then (250, ''Copy successful.'') else (226, R226))
      else if j_result j \<in> {Some ECANCELED, Some EPIPE, Some ECONNRESET, Some ETIMEDOUT} then
        (426, R426)
      else if j_result j \<in> {Some ENOENT, Some EACCES, Some ENOTDIR, Some EISDIR, Some EINVAL,
                Some ENAMETOOLONG, Some ELOOP} then (550, R550)
      else (451, R451))"

definition close_if_open :: "'x env \<Rightarrow> int \<Rightarrow> 'x hst \<Rightarrow> 'x hst" where
  "close_if_open e fd h = (if fd \<ge> 0 then opftp_close_fd e fd h else h)"

definition close_pipe :: "'x env \<Rightarrow> job \<Rightarrow> 'x hst \<Rightarrow> 'x hst" where
  "close_pipe e j h =
     (if j_cancel_r j \<ge> 0 then opftp_close_fd e (j_cancel_w j) (opftp_close_fd e (j_cancel_r j) h) else h)"

text \<open>Dropping the job's reference to the client; the client itself goes when it was the last.\<close>

definition release_ref :: "'x env \<Rightarrow> 'x hst \<Rightarrow> 'x hst" where
  "release_ref e h =
     (let c = h_cl h;
          h = upd_cl (\<lambda>c. c\<lparr> c_refs := c_refs c - 1 \<rparr>) h
      in if c_refs c = 1 then opftp_close_fd e (c_fd c) h else h)"

definition opftp_datachan_complete :: "'x env \<Rightarrow> nat \<Rightarrow> job \<Rightarrow> 'x hst \<Rightarrow> 'x hst" where
  "opftp_datachan_complete e jid j h =
     (let h = close_if_open e (j_data_fd j) h;
          h = close_if_open e (j_pasv_fd j) h;
          h = close_pipe e j h;
          h = (if j_generation j \<noteq> c_generation (h_cl h) then h
               else
                 let h = upd_cl (\<lambda>c. c\<lparr> c_job := None \<rparr>) h;
                     h = (case complete_reply j of (code, msg) \<Rightarrow> reply code msg h)
                 in if c_abor_pending (h_cl h) then
                      upd_cl (\<lambda>c. c\<lparr> c_abor_pending := False \<rparr>) (reply 226 ''Abort successful.'' h)
                    else h);
          h = release_ref e h
      in upd_srv (\<lambda>s. s\<lparr> s_jobs := (s_jobs s)(jid := None) \<rparr>) h)"

section \<open>Lemmas\<close>

lemma v4mapped_mapped: "opftp_is_v4mapped (replicate 10 0 @ [0xFF, 0xFF] @ b)"
  by (simp add: opftp_is_v4mapped_def nth_append)

lemma v4mapped_split:
  assumes "length a = 16" "opftp_is_v4mapped a"
  shows "a = replicate 10 0 @ [0xFF, 0xFF] @ take 4 (drop 12 a)"
proof -
  have "a ! 10 # drop (Suc 10) a = drop 10 a" "a ! 11 # drop (Suc 11) a = drop 11 a"
    using assms(1) by (intro Cons_nth_drop_Suc; simp)+
  then have "drop 10 a = [0xFF, 0xFF] @ drop 12 a"
    using assms(2) by (simp add: opftp_is_v4mapped_def)
  moreover have "take 10 a = replicate 10 0"
    using assms(2) by (simp add: opftp_is_v4mapped_def)
  moreover have "take 4 (drop 12 a) = drop 12 a" using assms(1) by simp
  ultimately show ?thesis by (metis append_take_drop_id)
qed

lemma mapped_eq:
  assumes "length a = 16"
  shows "opftp_is_v4mapped a \<and> take 4 (drop 12 a) = b \<longleftrightarrow> a = replicate 10 0 @ [0xFF, 0xFF] @ b \<and> length b = 4"
    (is "?l \<longleftrightarrow> ?r")
proof
  assume ?l
  with v4mapped_split [OF assms] assms show ?r by auto
next
  assume ?r
  then show ?l by (simp add: v4mapped_mapped [simplified])
qed

lemma addr_eq_mixed:
  assumes "length b = 16" "length a = 4"
  shows "addr_eq (Sa_in a p) (Sa_in6 b q) \<longleftrightarrow> replicate 10 0 @ [0xFF, 0xFF] @ a = b"
    and "addr_eq (Sa_in6 b q) (Sa_in a p) \<longleftrightarrow> b = replicate 10 0 @ [0xFF, 0xFF] @ a"
  unfolding addr_eq.simps mapped_eq [OF assms(1)] using assms(2) by auto

lemma addr_eq_value:
  assumes "sockaddr_ok x" "sockaddr_ok y"
  shows "addr_eq x y \<longleftrightarrow> addr_value x = addr_value y \<and> addr_value x \<noteq> None"
  using assms by (cases x; cases y) (simp_all add: addr_eq_mixed del: addr_eq.simps(3,4))

section \<open>Properties\<close>

text \<open>
  Peer matching compares addresses, not representations. Two socket addresses match exactly
  when both have a family and denote the same address, where an IPv4 address and its IPv4-mapped
  IPv6 form are the same; ports play no part. So matching is an equivalence, and a dual-stack
  control connection matches an IPv4 data connection of the same host.
\<close>

theorem addr_eq_correct:
  assumes "sockaddr_ok x" "sockaddr_ok y"
  shows "addr_eq x y \<longleftrightarrow> addr_value x = addr_value y \<and> addr_value x \<noteq> None"
  by (rule addr_eq_value [OF assms])

theorem addr_eq_correct_witness:
  "addr_eq (Sa_in6 [0, 0, 0, 0, 0, 0, 0, 0, 0, 0, 0xFF, 0xFF, 192, 168, 1, 50] 2121) (Sa_in [192, 168, 1, 50] 5000)"
  using addr_eq_correct [of "Sa_in6 [0, 0, 0, 0, 0, 0, 0, 0, 0, 0, 0xFF, 0xFF, 192, 168, 1, 50] 2121"
      "Sa_in [192, 168, 1, 50] 5000"]
  by (simp add: numeral_eq_Suc)

text \<open>The address a connection of the job leads to, and what a dispatched job guarantees of its
  target.\<close>

definition conn_remote :: "conn_env \<Rightarrow> job \<Rightarrow> sockaddr option" where
  "conn_remote ce j =
     (if j_pasv_fd j \<ge> 0 then (case ce_accept ce of Inr (fd, ss) \<Rightarrow> Some ss | Inl e \<Rightarrow> None)
      else Some (j_data_peer j))"

definition job_target_ok :: "job \<Rightarrow> bool" where
  "job_target_ok j \<longleftrightarrow> (if j_have_data_peer j then addr_eq (j_ctl_peer j) (j_data_peer j) else True)"

lemma addr_eq_sym: "addr_eq x y = addr_eq y x"
  by (cases x; cases y) auto

definition example_job :: job where
  "example_job =
     \<lparr> j_client = 0, j_generation = 1, j_op = OPFTP_JOB_LIST, j_path = ''/'', j_dst = [], j_rest = 0,
       j_nlst = False, j_mlsd = False, j_cancelled = False, j_cancel_bytes = 0, j_cancel_r = 20, j_cancel_w = 21,
       j_data_fd = -1, j_need_tls = False, j_pasv_fd = 9, j_data_peer = Sa_unspec,
       j_have_data_peer = False, j_ctl_peer = Sa_in [10, 0, 0, 1] 4000, j_conn_ok = False,
       j_bytes = 0, j_total = 0, j_result = None \<rparr>"

definition example_conn :: conn_env where
  "example_conn =
     \<lparr> ce_poll = Poll_ready False, ce_accept = Inr (12, Sa_in [10, 0, 0, 1] 4001),
       ce_socket = Inl EMFILE, ce_connect = None, ce_soerr = None, ce_cancelled = False \<rparr>"

lemma close_if_open_simps [simp]:
  "h_id (close_if_open e fd h) = h_id h" "h_cl (close_if_open e fd h) = h_cl h"
  "h_srv (close_if_open e fd h) = h_srv h" "h_out (close_if_open e fd h) = h_out h"
  "h_closed (close_if_open e fd h) = h_closed h @ (if fd \<ge> 0 then [fd] else [])"
  by (simp_all add: close_if_open_def)

lemma close_pipe_simps [simp]:
  "h_id (close_pipe e j h) = h_id h" "h_cl (close_pipe e j h) = h_cl h"
  "h_srv (close_pipe e j h) = h_srv h" "h_out (close_pipe e j h) = h_out h"
  "h_closed (close_pipe e j h) = h_closed h @ (if j_cancel_r j \<ge> 0 then [j_cancel_r j, j_cancel_w j] else [])"
  by (simp_all add: close_pipe_def)

lemma release_ref_simps [simp]:
  "h_id (release_ref e h) = h_id h" "h_srv (release_ref e h) = h_srv h"
  "h_out (release_ref e h) = h_out h"
  "h_cl (release_ref e h) = (h_cl h)\<lparr> c_refs := c_refs (h_cl h) - 1 \<rparr>"
  "h_closed (release_ref e h) = h_closed h @ (if c_refs (h_cl h) = 1 then [c_fd (h_cl h)] else [])"
  by (simp_all add: release_ref_def Let_def)

text \<open>
  C15: Every finished transfer of a connected client gets exactly one final reply, followed by the
  abort confirmation when one is due, and a transfer of a client that is gone gets none. A
  success code is sent exactly when the worker reported success over an established connection
  (a copy needs none). The descriptors the job still holds are closed here, once each, its
  reference to the client is dropped, the job is forgotten, and a connected client can start
  another transfer. If the job's was the last reference, as it is for a client that left
  meanwhile, the client's control descriptor is closed too, after them.
\<close>

theorem complete_correct:
  assumes "complete_reply j = (code, msg)" "opftp_datachan_complete e jid j h = h'"
  shows "(code \<in> {226, 250} \<longleftrightarrow> j_result j = None \<and> (j_conn_ok j \<or> j_op j = OPFTP_JOB_COPY)) \<and>
    h_out h' = h_out h @
      (if j_generation j \<noteq> c_generation (h_cl h) then []
       else reply_text code msg #
         (if c_abor_pending (h_cl h) then [reply_text 226 ''Abort successful.''] else [])) \<and>
    h_closed h' = h_closed h @ filter (\<lambda>fd. 0 \<le> fd) [j_data_fd j, j_pasv_fd j] @
      (if j_cancel_r j \<ge> 0 then [j_cancel_r j, j_cancel_w j] else []) @
      (if c_refs (h_cl h) = 1 then [c_fd (h_cl h)] else []) \<and>
    c_refs (h_cl h') = c_refs (h_cl h) - 1 \<and> s_jobs (h_srv h') jid = None \<and>
    (if j_generation j = c_generation (h_cl h)
     then c_job (h_cl h') = None \<and> \<not> c_abor_pending (h_cl h')
     else c_job (h_cl h') = c_job (h_cl h))"
proof -
  have "code \<in> {226, 250} \<longleftrightarrow> j_result j = None \<and> (j_conn_ok j \<or> j_op j = OPFTP_JOB_COPY)"
    using assms(1) unfolding complete_reply_def by (auto split: if_splits)
  then show ?thesis
    using assms unfolding assms(2) [symmetric]
    by (cases "j_generation j = c_generation (h_cl h)"; cases "c_abor_pending (h_cl h)")
      (simp_all add: opftp_datachan_complete_def Let_def assms(1))
qed

theorem complete_correct_witness:
  "let j = example_job\<lparr> j_conn_ok := True, j_data_fd := 12 \<rparr>;
       h = upd_cl (\<lambda>c. c\<lparr> c_refs := 2, c_job := Some 7, c_abor_pending := True \<rparr>) example_state;
       h' = opftp_datachan_complete void_env 7 j h;
       g = upd_cl (\<lambda>c. c\<lparr> c_generation := 2 \<rparr>) example_state;
       g' = opftp_datachan_complete void_env 7 j g
   in h_out h' = [reply_text 226 R226, reply_text 226 ''Abort successful.''] \<and>
      h_closed h' = [12, 9, 20, 21] \<and> c_job (h_cl h') = None \<and>
      h_out g' = [] \<and> h_closed g' = [12, 9, 20, 21, 5] \<and> c_refs (h_cl g') = 0"
proof -
  let ?j = "example_job\<lparr> j_conn_ok := True, j_data_fd := 12 \<rparr>"
  let ?h = "upd_cl (\<lambda>c. c\<lparr> c_refs := 2, c_job := Some 7, c_abor_pending := True \<rparr>) example_state"
  let ?g = "upd_cl (\<lambda>c. c\<lparr> c_generation := 2 \<rparr>) example_state"
  have r: "complete_reply ?j = (226, R226)"
    by (simp add: complete_reply_def example_job_def)
  show ?thesis
    using complete_correct [OF r, of void_env 7 ?h, OF refl] complete_correct [OF r, of void_env 7 ?g, OF refl]
    by (simp add: Let_def example_state_def example_job_def opftp_client_new_def)
qed

end
