(* ===== verification/Commands_Base.thy ===== *)
theory Commands_Base
  imports Data_Channel
begin

text \<open>
  The helpers of the command handlers in \<^verbatim>\<open>src/src/commands.c\<close>: error replies, argument
  resolution, job allocation, the start of a transfer; and the invariant of a client that every
  handler keeps.
\<close>

section \<open>Definitions\<close>

definition fs_error_text :: "errno \<Rightarrow> string" where
  "fs_error_text e =
     (if e = ENOENT \<or> e = ENOTDIR then ''No such file or directory.''
      else if e = EACCES \<or> e = EPERM then ''Permission denied.''
      else if e = EISDIR then ''Is a directory.''
      else R550)"

definition reply_fs_error :: "'x hst \<Rightarrow> 'x hst" where
  "reply_fs_error h = reply 550 (fs_error_text (errno_of h)) h"

definition resolve_arg :: "server \<Rightarrow> client \<Rightarrow> string option \<Rightarrow> string option" where
  "resolve_arg s c param =
     (let arg = (case param of Some p \<Rightarrow> (if p \<noteq> [] then p else c_cwd c) | None \<Rightarrow> c_cwd c)
      in map_option fst (opftp_path_resolve (s_root s) (c_cwd c) arg OPFTP_MAX_PATH))"

abbreviation resolve_param :: "'x hst \<Rightarrow> string option \<Rightarrow> string option" where
  "resolve_param h \<equiv> resolve_arg (h_srv h) (h_cl h)"

definition parent_is_dir :: "'x env \<Rightarrow> string \<Rightarrow> 'x hst \<Rightarrow> bool \<times> 'x hst" where
  "parent_is_dir e path h =
     (case opftp_path_parent path OPFTP_MAX_PATH of
        None \<Rightarrow> (False, h)
      | Some parent \<Rightarrow>
          if parent = [] then (True, h)
          else
            (case call (fs_stat (e_fs e) parent) h of
               (None, h) \<Rightarrow> (False, h)
             | (Some st, h) \<Rightarrow> (mode_is_dir (st_mode st), h)))"

text \<open>Resolve, then require the parent to be a directory, as three handlers do in one condition.\<close>

definition resolve_in_dir :: "'x env \<Rightarrow> string option \<Rightarrow> 'x hst \<Rightarrow> string option \<times> 'x hst" where
  "resolve_in_dir e param h =
     (case resolve_param h param of
        None \<Rightarrow> (None, h)
      | Some path \<Rightarrow>
          (case parent_is_dir e path h of
             (True, h) \<Rightarrow> (Some path, h)
           | (False, h) \<Rightarrow> (None, h)))"

definition path_is_under :: "string \<Rightarrow> string \<Rightarrow> bool" where
  "path_is_under path dir =
     (if dir = [slash] then path \<noteq> [] \<and> hd path = slash \<and> length path > 1
      else prefix dir path \<and> length path > length dir \<and> path ! length dir = slash)"

definition job_new :: "'x env \<Rightarrow> job_op \<Rightarrow> 'x hst \<Rightarrow> job option \<times> 'x hst" where
  "job_new e op h =
     (case call (e_calloc e) h of
        (None, h) \<Rightarrow> (None, h)
      | (Some _, h) \<Rightarrow>
          (case call (e_pipe e) h of
             (None, h) \<Rightarrow> (None, h)
           | (Some (pr, pw), h) \<Rightarrow>
               (Some \<lparr> j_client = h_id h, j_generation = c_generation (h_cl h), j_op = op, j_path = [],
                       j_dst = [], j_rest = 0, j_nlst = False, j_mlsd = False, j_cancelled = False,
                       j_cancel_bytes = 0, j_cancel_r = pr, j_cancel_w = pw, j_data_fd = -1, j_need_tls = False,
                       j_pasv_fd = -1, j_data_peer = Sa_unspec, j_have_data_peer = False,
                       j_ctl_peer = Sa_unspec, j_conn_ok = False, j_bytes = 0, j_total = 0,
                       j_result = None \<rparr>,
                upd_cl (\<lambda>c. c\<lparr> c_refs := c_refs c + 1 \<rparr>) h)))"

text \<open>Undo of \<open>job_new\<close> while the job is not dispatched.\<close>

definition job_free :: "'x env \<Rightarrow> job \<Rightarrow> 'x hst \<Rightarrow> 'x hst" where
  "job_free e j h = release_ref e (close_if_open e (j_pasv_fd j) (close_pipe e j h))"

text \<open>Hand the job to the queue; on success it gets the next identifier and enters the store.\<close>

definition dispatch_job :: "job \<Rightarrow> 'x hst \<Rightarrow> nat option \<times> 'x hst" where
  "dispatch_job j h =
     (let jid = s_next_job (h_srv h) in
      case opftp_job_dispatch jid (s_ring (h_srv h)) of
        (Some _, _) \<Rightarrow> (None, h)
      | (None, ring) \<Rightarrow>
          (Some jid, upd_srv (\<lambda>s. s\<lparr> s_ring := ring, s_jobs := (s_jobs s)(jid \<mapsto> j),
                                     s_next_job := jid + 1 \<rparr>) h))"

definition start_transfer ::
  "'x env \<Rightarrow> job_op \<Rightarrow> string \<Rightarrow> bool \<Rightarrow> bool \<Rightarrow> string option \<Rightarrow> 'x hst \<Rightarrow> 'x hst" where
  "start_transfer e op path nlst mlsd reply150 h =
     (if c_job (h_cl h) \<noteq> None then reply 450 R450 h
      else if opftp_datachan_precheck (h_srv h) (h_cl h) \<noteq> None then reply 425 R425 h
      else if c_pasv_fd (h_cl h) < 0 \<and> \<not> c_have_data_peer (h_cl h) then reply 425 R425 h
      else
        (case job_new e op h of
           (None, h) \<Rightarrow> reply 425 R425 h
         | (Some j, h) \<Rightarrow>
             let c = h_cl h;
                 j = j\<lparr> j_nlst := nlst, j_mlsd := mlsd, j_rest := c_rest c,
                        j_need_tls := c_tls_prot c, j_path := c_snprintf OPFTP_MAX_PATH path,
                        j_pasv_fd := c_pasv_fd c, j_data_peer := c_data_peer c,
                        j_have_data_peer := c_have_data_peer c, j_ctl_peer := c_peer c \<rparr>;
                 h = upd_cl (\<lambda>c. c\<lparr> c_pasv_fd := -1, c_have_data_peer := False \<rparr>) h
             in (case dispatch_job j h of
                   (None, h) \<Rightarrow> reply 425 R425 (job_free e j h)
                 | (Some jid, h) \<Rightarrow>
                     reply 150 (case reply150 of Some r \<Rightarrow> r | None \<Rightarrow> R150)
                       (upd_cl (\<lambda>c. c\<lparr> c_job := Some jid, c_rest := 0 \<rparr>) h))))"

section \<open>Frame\<close>

named_theorems sys_frame

lemmas [sys_frame] = call_sys_only

lemma parent_is_dir_sys [sys_frame]: "parent_is_dir e p h = (b, h') \<Longrightarrow> sys_only h h'"
  by (auto simp: parent_is_dir_def dest: call_sys_only split: option.splits if_splits prod.splits)

lemma resolve_in_dir_sys [sys_frame]: "resolve_in_dir e p h = (r, h') \<Longrightarrow> sys_only h h'"
  by (auto simp: resolve_in_dir_def dest: parent_is_dir_sys split: option.splits prod.splits bool.splits)

lemma sys_onlyE:
  assumes "\<And>r h'. f = (r, h') \<Longrightarrow> sys_only h h'"
  obtains r s where "f = (r, h\<lparr> h_sys := s \<rparr>)"
  using assms [of "fst f" "snd f"] unfolding sys_only_def by (metis prod.collapse)

lemmas parent_is_dirE = sys_onlyE [OF parent_is_dir_sys]
  and resolve_in_dirE = sys_onlyE [OF resolve_in_dir_sys]

section \<open>The data connection of a started transfer\<close>

lemma start_transfer_launched:
  assumes "c_job (h_cl h) = None" "c_job (h_cl (start_transfer e op path nlst mlsd r h)) = Some jid"
    and "s_jobs (h_srv (start_transfer e op path nlst mlsd r h)) jid = Some j"
  shows "opftp_datachan_precheck (h_srv h) (h_cl h) = None" "j_pasv_fd j = c_pasv_fd (h_cl h)"
    "j_have_data_peer j = c_have_data_peer (h_cl h)" "j_data_peer j = c_data_peer (h_cl h)"
    "j_ctl_peer j = c_peer (h_cl h)"
proof -
  obtain n h1 where n: "job_new e op h = (n, h1)" by force
  then have h1: "c_job (h_cl h1) = None" "c_pasv_fd (h_cl h1) = c_pasv_fd (h_cl h)"
    "c_have_data_peer (h_cl h1) = c_have_data_peer (h_cl h)" "c_data_peer (h_cl h1) = c_data_peer (h_cl h)"
    "c_peer (h_cl h1) = c_peer (h_cl h)"
    using assms(1) by (auto simp: job_new_def call_def split: option.splits prod.splits)
  obtain q g where q: "opftp_job_dispatch (s_next_job (h_srv h1)) (s_ring (h_srv h1)) = (q, g)" by force
  show "opftp_datachan_precheck (h_srv h) (h_cl h) = None" "j_pasv_fd j = c_pasv_fd (h_cl h)"
    "j_have_data_peer j = c_have_data_peer (h_cl h)" "j_data_peer j = c_data_peer (h_cl h)"
    "j_ctl_peer j = c_peer (h_cl h)"
    using assms h1
    by (cases n; cases q; force simp: start_transfer_def n dispatch_job_def q Let_def job_free_def
        split: if_splits)+
qed

text \<open>
  C14: No bounce. When foreign addresses are not allowed, the data connection of a transfer leads
  to the host of the control connection, whatever address the client gave with \<open>PORT\<close> and whoever
  connects to the passive port: if a transfer command got its job queued and the worker reports
  the connection made, the other end, that of an accepted connection or of an outgoing one, has
  the address of the control peer, an IPv4 address and its IPv4-mapped IPv6 form being the same.
\<close>

theorem data_connection_peer:
  assumes "\<not> s_allow_foreign_port (h_srv h)" "c_job (h_cl h) = None"
    and "start_transfer e op path nlst mlsd r h = h'"
    and "c_job (h_cl h') = Some jid" "s_jobs (h_srv h') jid = Some j"
    and "opftp_datachan_connect_job ce False j = (None, j')"
    and "sockaddr_ok (c_peer (h_cl h))" "sockaddr_ok (c_data_peer (h_cl h))"
    and "\<And>fd ss. ce_accept ce = Inr (fd, ss) \<Longrightarrow> sockaddr_ok ss"
  shows "\<exists>ss. conn_remote ce j = Some ss \<and> addr_value ss = addr_value (c_peer (h_cl h)) \<and> addr_value ss \<noteq> None"
proof -
  note j = start_transfer_launched [OF assms(2), folded assms(3), of e op path nlst mlsd r jid j, OF _ _,
      unfolded assms(3), OF assms(4,5)]
  have "\<exists>ss. conn_remote ce j = Some ss \<and> sockaddr_ok ss \<and> addr_eq (c_peer (h_cl h)) ss"
    using assms(1,6,8,9) j
    by (auto simp: opftp_datachan_connect_job_def conn_remote_def opftp_datachan_precheck_def peer_matches_def
        addr_eq_sym [of "c_peer (h_cl h)"] Let_def split: if_splits option.splits sum.splits)
  with addr_eq_value [OF assms(7)] show ?thesis by metis
qed

text \<open>A client in passive mode, on an IPv4-mapped control connection, and a connection from its
  address.\<close>

definition passive_state :: "unit hst" where
  "passive_state =
     upd_cl (\<lambda>c. c\<lparr> c_peer := Sa_in6 [0, 0, 0, 0, 0, 0, 0, 0, 0, 0, 0xFF, 0xFF, 10, 0, 0, 1] 4000, c_pasv_fd := 9 \<rparr>)
       example_state"

theorem data_connection_peer_witness:
  "let h' = start_transfer void_env OPFTP_JOB_RETR ''/f'' False False None passive_state in
   c_job (h_cl h') = Some 0 \<and>
   (\<exists>j ss. s_jobs (h_srv h') 0 = Some j \<and> conn_remote example_conn j = Some ss \<and>
      addr_value ss = addr_value (c_peer (h_cl passive_state)))"
proof -
  define h' where "h' = start_transfer void_env OPFTP_JOB_RETR ''/f'' False False None passive_state"
  obtain ring where q: "opftp_job_dispatch 0 (queue_init 2 :: nat ring) = (None, ring)"
    by (simp add: opftp_job_dispatch_def queue_init_def)
  have "c_job (h_cl h') = Some 0 \<and> (\<exists>j. s_jobs (h_srv h') 0 = Some j \<and> j_pasv_fd j = 9 \<and>
      j_ctl_peer j = c_peer (h_cl passive_state))"
    by (simp add: h'_def start_transfer_def job_new_def call_def void_env_def passive_state_def example_state_def
        opftp_client_new_def default_server_def opftp_datachan_precheck_def dispatch_job_def q Let_def)
  then obtain j where j: "c_job (h_cl h') = Some 0" "s_jobs (h_srv h') 0 = Some j" "j_pasv_fd j = 9"
    "j_ctl_peer j = c_peer (h_cl passive_state)" by blast
  then have c: "opftp_datachan_connect_job example_conn False j = (None, j\<lparr> j_data_fd := 12, j_conn_ok := True \<rparr>)"
    by (simp add: opftp_datachan_connect_job_def poll_outcome_def example_conn_def passive_state_def
        opftp_is_v4mapped_def numeral_eq_Suc)
  have p: "\<not> s_allow_foreign_port (h_srv passive_state)" "c_job (h_cl passive_state) = None"
    "sockaddr_ok (c_peer (h_cl passive_state))" "sockaddr_ok (c_data_peer (h_cl passive_state))"
    by (simp_all add: passive_state_def example_state_def default_server_def opftp_client_new_def)
  have "\<exists>ss. conn_remote example_conn j = Some ss \<and> addr_value ss = addr_value (c_peer (h_cl passive_state)) \<and> addr_value ss \<noteq> None"
    by (rule data_connection_peer [OF p(1,2) h'_def [symmetric] j(1,2) c p(3,4)])
      (auto simp: example_conn_def)
  with j show ?thesis unfolding Let_def h'_def [symmetric] by blast
qed

end
