(* ===== verification/Commands_Session.thy ===== *)
theory Commands_Session
  imports Commands_Base
begin

text \<open>
  Login and session commands of \<^verbatim>\<open>src/src/commands.c\<close>: \<open>USER\<close>, \<open>PASS\<close>, \<open>QUIT\<close>, \<open>NOOP\<close>, \<open>SYST\<close>,
  \<open>FEAT\<close>, \<open>HELP\<close>, \<open>OPTS\<close>, \<open>ACCT\<close>, \<open>ALLO\<close>, \<open>TYPE\<close>, \<open>MODE\<close>, \<open>STRU\<close>, \<open>STOP\<close>, \<open>REST\<close>, and the TLS
  commands \<open>AUTH\<close>, \<open>PBSZ\<close>, \<open>PROT\<close>.
\<close>

unbundle bit_operations_syntax

section \<open>Login\<close>

definition cmd_user :: "'x handler" where
  "cmd_user e param h =
     (case param of
        None \<Rightarrow> reply 501 R501 h
      | Some p \<Rightarrow>
          if p = [] then reply 501 R501 h
          else
            let user = c_snprintf 256 p in
            reply 331 (c_snprintf 256 (''Username '' @ user @ '' OK. Password required.''))
              (upd_cl (\<lambda>c. c\<lparr> c_user := user \<rparr>) h))"

definition cmd_pass :: "'x handler" where
  "cmd_pass e param h =
     (if c_user (h_cl h) = [] then reply 503 R503 h
      else
        let pass = (case param of Some p \<Rightarrow> p | None \<Rightarrow> []);
            (ok, h) = (case e_auth e of
                         None \<Rightarrow> (True, h)
                       | Some auth \<Rightarrow> (case auth (c_user (h_cl h)) pass (h_sys h) of
                                        (ok, s) \<Rightarrow> (ok, h\<lparr> h_sys := s \<rparr>)))
        in if ok then
             reply 230 (c_snprintf 256 (''Successfully logged in as '' @ c_user (h_cl h) @ ''.''))
               (upd_cl (\<lambda>c. c\<lparr> c_logged_in := True \<rparr>) h)
           else reply 530 R530 (upd_cl (\<lambda>c. c\<lparr> c_user := [] \<rparr>) h))"

section \<open>Session\<close>

definition cmd_quit :: "'x handler" where
  "cmd_quit e param h =
     upd_cl (\<lambda>c. c\<lparr> c_disconnect_requested := True \<rparr>) (reply 221 R221 h)"

definition cmd_noop :: "'x handler" where
  "cmd_noop e param h = reply 200 R200 h"

definition cmd_syst :: "'x handler" where
  "cmd_syst e param h = reply 215 R215 h"

definition feat_lines :: "bool \<Rightarrow> string list" where
  "feat_lines tls =
     [''211-Features:'', '' UTF8'', '' SIZE'', '' MDTM'', '' MLSD'', '' MLST type*;size*;modify*;perm*;'',
      '' MFMT'', '' REST STREAM'', '' EPSV'', '' EPRT'', '' CPFR'', '' CPTO''] @
     (if tls then ['' AUTH TLS'', '' PBSZ'', '' PROT''] else []) @ [''211 End'']"

definition cmd_feat :: "'x handler" where
  "cmd_feat e param h = fold opftp_client_send (feat_lines (s_has_tls (h_srv h))) h"

definition cmd_help :: "'x handler" where
  "cmd_help e param h = reply 214 ''The following commands are recognized.'' h"

definition cmd_opts :: "'x handler" where
  "cmd_opts e param h =
     (case param of
        None \<Rightarrow> reply 501 R501 h
      | Some p \<Rightarrow>
          if c_strncaseeq 4 p ''UTF8'' \<and> c_strcaseeq (skip_spaces (drop 4 p)) ''ON''
          then reply 200 R200 h
          else reply 501 R501 h)"

definition cmd_acct :: "'x handler" where
  "cmd_acct e param h = reply 202 R202 h"

definition cmd_allo :: "'x handler" where
  "cmd_allo e param h = reply 202 R202 h"

definition cmd_type :: "'x handler" where
  "cmd_type e param h =
     (case param of
        None \<Rightarrow> reply 501 R501 h
      | Some [] \<Rightarrow> reply 501 R501 h
      | Some (p # ps) \<Rightarrow>
          let t = c_toupper p;
              rest = skip_spaces ps
          in if t = CHR ''I'' then (if rest \<noteq> [] then reply 504 R504 h else reply 200 R200 h)
             else if t = CHR ''A'' then
               (if rest = [] \<or> rest \<in> {''N'', ''T'', ''C''} then reply 200 R200 h
                else reply 504 R504 h)
             else reply 504 R504 h)"

definition first_is :: "char \<Rightarrow> string option \<Rightarrow> bool" where
  "first_is c param \<longleftrightarrow> (case param of Some (p # ps) \<Rightarrow> p = c | _ \<Rightarrow> False)"

definition cmd_mode :: "'x handler" where
  "cmd_mode e param h = (if first_is (CHR ''S'') param then reply 200 R200 h else reply 504 R504 h)"

definition cmd_stru :: "'x handler" where
  "cmd_stru e param h = (if first_is (CHR ''F'') param then reply 200 R200 h else reply 504 R504 h)"

definition cmd_stop :: "'x handler" where
  "cmd_stop e param h = upd_srv (\<lambda>s. s\<lparr> s_stopping := True \<rparr>) (reply 200 R200 h)"

definition cmd_rest :: "'x handler" where
  "cmd_rest e param h =
     (case param of
        None \<Rightarrow> reply 501 R501 h
      | Some p \<Rightarrow>
          if p = [] then reply 501 R501 h
          else
            (case c_strtoull p of
               Some (v, []) \<Rightarrow>
                 reply 350 (c_snprintf 64 (''Restarting at '' @ u_dec v @ ''.''))
                   (upd_cl (\<lambda>c. c\<lparr> c_rest := v \<rparr>) h)
             | _ \<Rightarrow> reply 554 R554 h))"

section \<open>TLS\<close>

text \<open>\<open>opftp_client_start_tls\<close> of \<^verbatim>\<open>src/src/client.c\<close>: the bytes already read become the
  session's pending input.\<close>

definition opftp_client_start_tls :: "'x env \<Rightarrow> 'x hst \<Rightarrow> bool \<times> 'x hst" where
  "opftp_client_start_tls e h =
     (let c = h_cl h in
      if \<not> s_has_tls (h_srv h) \<or> c_tls c \<noteq> None \<or> c_tls_handshaking c then (False, h)
      else
        (case call (e_tls_create e (c_fd c) (c_rbuf c)) (upd_cl (\<lambda>c. c\<lparr> c_rbuf := [] \<rparr>) h) of
           (None, h) \<Rightarrow> (False, h)
         | (Some t, h) \<Rightarrow>
             (True, poll_mod_client (POLLIN OR POLLPRI OR POLLOUT)
                (upd_cl (\<lambda>c. c\<lparr> c_tls := Some t, c_tls_handshaking := True \<rparr>) h))))"

definition cmd_auth :: "'x handler" where
  "cmd_auth e param h =
     (if \<not> (case param of Some p \<Rightarrow> c_strcaseeq p ''TLS'' | None \<Rightarrow> False) then reply 504 R504 h
      else if \<not> s_has_tls (h_srv h) then reply 502 R502 h
      else if c_tls (h_cl h) \<noteq> None then reply 503 R503 h
      else
        (case opftp_client_start_tls e h of
           (False, h) \<Rightarrow>
             upd_cl (\<lambda>c. c\<lparr> c_disconnect_requested := True \<rparr>) (reply 421 R421 h)
         | (True, h) \<Rightarrow> reply 234 ''AUTH TLS successful.'' h))"

definition cmd_pbsz :: "'x handler" where
  "cmd_pbsz e param h =
     (if c_tls (h_cl h) = None then reply 503 R503 h
      else if param = None \<or> param = Some [] then reply 501 R501 h
      else reply 200 R200 h)"

definition cmd_prot :: "'x handler" where
  "cmd_prot e param h =
     (if c_tls (h_cl h) = None then reply 503 R503 h
      else if param = Some ''P'' then reply 200 R200 (upd_cl (\<lambda>c. c\<lparr> c_tls_prot := True \<rparr>) h)
      else if param = Some ''C'' then reply 200 R200 (upd_cl (\<lambda>c. c\<lparr> c_tls_prot := False \<rparr>) h)
      else reply 504 R504 h)"

end
