(* ===== verification/Commands_Files.thy ===== *)
theory Commands_Files
  imports Commands_Session
begin

text \<open>
  The file and directory commands of \<^verbatim>\<open>src/src/commands.c\<close>: \<open>PWD\<close>, \<open>CWD\<close>, \<open>CDUP\<close>, \<open>MKD\<close>, \<open>RMD\<close>,
  \<open>DELE\<close>, \<open>RNFR\<close>, \<open>RNTO\<close>, \<open>CPFR\<close>, \<open>CPTO\<close>, \<open>SITE\<close>, \<open>SIZE\<close>, \<open>MDTM\<close>, \<open>STAT\<close>, \<open>MLST\<close> and \<open>MFMT\<close>.
\<close>

section \<open>Directories\<close>

definition quoted :: "string \<Rightarrow> string" where
  "quoted p = ''\"'' @ p @ ''\"''"

definition cmd_pwd :: "'x handler" where
  "cmd_pwd e param h = reply 257 (c_snprintf (OPFTP_MAX_PATH + 16) (quoted (c_cwd (h_cl h)))) h"

text \<open>The working directory a client sees: the path below the root.\<close>

definition visible_cwd :: "string \<Rightarrow> string \<Rightarrow> string" where
  "visible_cwd root path =
     (if path = root then ''/''
      else c_snprintf OPFTP_MAX_PATH (if length root > 1 then drop (length root) path else path))"

definition cmd_cwd :: "'x handler" where
  "cmd_cwd e param h =
     (case resolve_param h param of
        None \<Rightarrow> reply 501 R501 h
      | Some path \<Rightarrow>
          (case call (fs_stat (e_fs e) path) h of
             (None, h) \<Rightarrow> reply_fs_error h
           | (Some st, h) \<Rightarrow>
               if \<not> mode_is_dir (st_mode st) then reply_fs_error h
               else reply 250 R250
                 (upd_cl (\<lambda>c. c\<lparr> c_cwd := visible_cwd (s_root (h_srv h)) path \<rparr>) h)))"

definition cmd_cdup :: "'x handler" where
  "cmd_cdup e param h = cmd_cwd e (Some ''..'') h"

definition cmd_mkd :: "'x handler" where
  "cmd_mkd e param h =
     (if param = None \<or> param = Some [] then reply 501 R501 h
      else
        (case resolve_in_dir e param h of
           (None, h) \<Rightarrow> reply_fs_error h
         | (Some path, h) \<Rightarrow>
             (case call (fs_mkdir (e_fs e) path 0x1ED) h of
                (None, h) \<Rightarrow> reply_fs_error h
              | (Some _, h) \<Rightarrow> reply 257 (c_snprintf (OPFTP_MAX_PATH + 16) (quoted path)) h)))"

definition cmd_rmd :: "'x handler" where
  "cmd_rmd e param h =
     (case resolve_param h param of
        None \<Rightarrow> reply 501 R501 h
      | Some path \<Rightarrow>
          (case call (fs_rmdir (e_fs e) path) h of
             (None, h) \<Rightarrow> reply_fs_error h
           | (Some _, h) \<Rightarrow> reply 250 R250 h))"

definition cmd_dele :: "'x handler" where
  "cmd_dele e param h =
     (case resolve_param h param of
        None \<Rightarrow> reply 501 R501 h
      | Some path \<Rightarrow>
          (case call (fs_unlink (e_fs e) path) h of
             (None, h) \<Rightarrow> reply_fs_error h
           | (Some _, h) \<Rightarrow> reply 250 R250 h))"

section \<open>Renaming and copying\<close>

definition cmd_rnfr :: "'x handler" where
  "cmd_rnfr e param h =
     (case resolve_param h param of
        None \<Rightarrow> reply 501 R501 h
      | Some path \<Rightarrow>
          (case call (fs_stat (e_fs e) path) h of
             (None, h) \<Rightarrow> reply_fs_error h
           | (Some st, h) \<Rightarrow>
               reply 350 R350A
                 (upd_cl (\<lambda>c. c\<lparr> c_rnfr := c_snprintf OPFTP_MAX_PATH path, c_have_rnfr := True \<rparr>) h)))"

definition cmd_rnto :: "'x handler" where
  "cmd_rnto e param h =
     (if \<not> c_have_rnfr (h_cl h) then reply 503 R503 h
      else
        (case resolve_in_dir e param h of
           (None, h) \<Rightarrow> reply_fs_error (upd_cl (\<lambda>c. c\<lparr> c_have_rnfr := False \<rparr>) h)
         | (Some path, h) \<Rightarrow>
             (case call (fs_rename (e_fs e) (c_rnfr (h_cl h)) path)
                     (upd_cl (\<lambda>c. c\<lparr> c_have_rnfr := False \<rparr>) h) of
                (None, h) \<Rightarrow> reply_fs_error h
              | (Some _, h) \<Rightarrow> reply 250 R250 h)))"

definition cmd_cpfr :: "'x handler" where
  "cmd_cpfr e param h =
     (case resolve_param h param of
        None \<Rightarrow> reply 501 R501 h
      | Some path \<Rightarrow>
          (case call (fs_stat (e_fs e) path) h of
             (st, h) \<Rightarrow>
               let mode = (case st of Some st \<Rightarrow> st_mode st | None \<Rightarrow> 0) in
               if \<not> mode_is_reg mode \<and> \<not> mode_is_dir mode then reply_fs_error h
               else reply 350 (if mode_is_dir mode then ''Directory exists, ready for destination name.''
                               else ''File exists, ready for destination name.'')
                 (upd_cl (\<lambda>c. c\<lparr> c_cpfr := c_snprintf OPFTP_MAX_PATH path, c_have_cpfr := True \<rparr>) h)))"

definition cmd_cpto :: "'x handler" where
  "cmd_cpto e param h =
     (if \<not> c_have_cpfr (h_cl h) then reply 503 R503 h
      else if c_job (h_cl h) \<noteq> None then reply 450 R450 h
      else
        (case resolve_in_dir e param h of
           (None, h) \<Rightarrow> reply_fs_error (upd_cl (\<lambda>c. c\<lparr> c_have_cpfr := False \<rparr>) h)
         | (Some path, h) \<Rightarrow>
             let h = upd_cl (\<lambda>c. c\<lparr> c_have_cpfr := False \<rparr>) h;
                 cpfr = c_cpfr (h_cl h)
             in if cpfr = path then reply 550 ''Source and destination are the same file.'' h
                else if path_is_under path cpfr
                then reply 550 ''Destination is inside the source directory.'' h
                else
                  (case job_new e OPFTP_JOB_COPY h of
                     (None, h) \<Rightarrow> reply 451 R451 h
                   | (Some j, h) \<Rightarrow>
                       let j = j\<lparr> j_path := c_snprintf OPFTP_MAX_PATH cpfr,
                                  j_dst := c_snprintf OPFTP_MAX_PATH path \<rparr>
                       in (case dispatch_job j h of
                             (None, h) \<Rightarrow> reply 451 R451 (job_free e j h)
                           | (Some jid, h) \<Rightarrow> upd_cl (\<lambda>c. c\<lparr> c_job := Some jid \<rparr>) h))))"

section \<open>SITE\<close>

definition site_chmod :: "'x env \<Rightarrow> string \<Rightarrow> 'x hst \<Rightarrow> 'x hst" where
  "site_chmod e args h =
     (case c_strtol 8 (skip_spaces args) of
        Some (mode, CHR '' '' # rest) \<Rightarrow>
          (case resolve_param h (Some (skip_spaces rest)) of
             None \<Rightarrow> reply 501 R501 h
           | Some path \<Rightarrow>
               (case call (fs_chmod (e_fs e) path (word_of_int mode)) h of
                  (None, h) \<Rightarrow> reply_fs_error h
                | (Some _, h) \<Rightarrow> reply 200 R200 h))
      | _ \<Rightarrow> reply 501 R501 h)"

text \<open>The loop that finds the last space-separated token; a token is the rest of the string from
  its start.\<close>

function last_token :: "string \<Rightarrow> string option \<Rightarrow> string option" where
  "last_token [] tok = tok"
| "last_token (c # cs) tok =
     last_token (skip_spaces (dropWhile (\<lambda>x. x \<noteq> space) (c # cs))) (Some (c # cs))"
  by pat_completeness auto
termination
proof (relation "measure (\<lambda>(s, _). length s)")
  fix c cs and tok :: "string option"
  have "length (skip_spaces (dropWhile (\<lambda>x. x \<noteq> space) (c # cs))) < length (c # cs)"
  proof (cases "c = space")
    case True
    then show ?thesis
      by (simp add: skip_spaces_def less_Suc_eq_le length_dropWhile_le)
  next
    case False
    have "length (dropWhile (\<lambda>x. x = space) (dropWhile (\<lambda>x. x \<noteq> space) cs)) \<le> length cs"
      by (meson length_dropWhile_le order_trans)
    with False show ?thesis by (simp add: skip_spaces_def)
  qed
  then show "((skip_spaces (dropWhile (\<lambda>x. x \<noteq> space) (c # cs)), Some (c # cs)), c # cs, tok)
      \<in> measure (\<lambda>(s, _). length s)"
    by simp
qed simp

function trim_end :: "string \<Rightarrow> string" where
  "trim_end s = (if length s > 1 \<and> last s = space then trim_end (butlast s) else s)"
  by pat_completeness auto
termination by (relation "measure length") auto

declare trim_end.simps [simp del]

definition site_utime :: "'x env \<Rightarrow> string \<Rightarrow> 'x hst \<Rightarrow> 'x hst" where
  "site_utime e args h =
     (let p = skip_spaces args in
      case last_token p None of
        None \<Rightarrow> reply 501 R501 h
      | Some tok \<Rightarrow>
          if length tok = length p \<or> length tok < 14 \<or> \<not> list_all c_isdigit (take 14 tok)
          then reply 501 R501 h
          else
            let pathbuf = trim_end (take (length p - length tok) p) in
            if length pathbuf \<ge> OPFTP_MAX_PATH then reply 501 R501 h
            else
              (case parse_ftp_time tok of
                 None \<Rightarrow> reply 501 R501 h
               | Some t \<Rightarrow>
                   (case resolve_param h (Some pathbuf) of
                      None \<Rightarrow> reply 501 R501 h
                    | Some path \<Rightarrow>
                        (case call (fs_stat (e_fs e) path) h of
                           (None, h) \<Rightarrow> reply_fs_error h
                         | (Some _, h) \<Rightarrow>
                             (case call (fs_utimes (e_fs e) path t) h of
                                (None, h) \<Rightarrow> reply_fs_error h
                              | (Some _, h) \<Rightarrow> reply 200 R200 h)))))"

definition cmd_site :: "'x handler" where
  "cmd_site e param h =
     (case param of
        None \<Rightarrow> reply 502 R502 h
      | Some p \<Rightarrow>
          if p = [] then reply 502 R502 h
          else if c_strncaseeq 5 p ''CHMOD'' then site_chmod e (drop 5 p) h
          else if c_strncaseeq 5 p ''UTIME'' then site_utime e (drop 5 p) h
          else if c_strncaseeq 4 p ''STOP'' then
            (if skip_spaces (drop 4 p) \<noteq> [] then reply 501 R501 h
             else if \<not> s_allow_stop (h_srv h) then reply 502 R502 h
             else cmd_stop e param h)
          else reply 502 R502 h)"

section \<open>Status\<close>

definition cmd_size :: "'x handler" where
  "cmd_size e param h =
     (case resolve_param h param of
        None \<Rightarrow> reply 501 R501 h
      | Some path \<Rightarrow>
          (case call (fs_stat (e_fs e) path) h of
             (None, h) \<Rightarrow> reply_fs_error h
           | (Some st, h) \<Rightarrow>
               if \<not> mode_is_reg (st_mode st) then reply_fs_error h
               else reply 213 (c_snprintf 64 (u_dec (st_size st))) h))"

definition cmd_mdtm :: "'x handler" where
  "cmd_mdtm e param h =
     (case resolve_param h param of
        None \<Rightarrow> reply 501 R501 h
      | Some path \<Rightarrow>
          (case call (fs_stat (e_fs e) path) h of
             (None, h) \<Rightarrow> reply_fs_error h
           | (Some st, h) \<Rightarrow>
               (case c_gmtime (st_mtime st) of
                  None \<Rightarrow> reply_fs_error h
                | Some tm \<Rightarrow> reply 213 (c_snprintf 64 (ftp_time_str tm)) h)))"

text \<open>A directory entry for a single path, as \<open>STAT\<close> and \<open>MLST\<close> build it.\<close>

definition entry_of :: "string \<Rightarrow> opftp_stat \<Rightarrow> opftp_dirent" where
  "entry_of path st =
     \<lparr> de_name = c_snprintf 256 (base_name path), de_mode = st_mode st, de_size = st_size st,
       de_mtime = st_mtime st, de_uid = st_uid st, de_gid = st_gid st \<rparr>"

text \<open>The \<open>readdir\<close> loop of \<open>STAT\<close>; the first argument bounds the entries read.\<close>

fun stat_entries :: "nat \<Rightarrow> 'x env \<Rightarrow> nat \<Rightarrow> 'x hst \<Rightarrow> 'x hst" where
  "stat_entries 0 e dir h = h"
| "stat_entries (Suc n) e dir h =
     (case call (fs_readdir (e_fs e) dir) h of
        (Some (Some de), h) \<Rightarrow>
          stat_entries n e dir
            (opftp_client_send_raw (snd (opftp_listing_format (e_localtime e) 1024 de None)) h)
      | (_, h) \<Rightarrow> h)"

definition cmd_stat :: "'x handler" where
  "cmd_stat e param h =
     (if param = None \<or> param = Some [] then
        opftp_client_send ''211 End''
          (opftp_client_send
            (c_snprintf (OPFTP_MAX_PATH + 64) (''211-Status of server: cwd='' @ c_cwd (h_cl h))) h)
      else
        (case resolve_param h param of
           None \<Rightarrow> reply 501 R501 h
         | Some path \<Rightarrow>
             (case call (fs_stat (e_fs e) path) h of
                (None, h) \<Rightarrow> reply_fs_error h
              | (Some st, h) \<Rightarrow>
                  let h = opftp_client_send (c_snprintf 1024 (''211-Status of '' @ path @ '':'')) h;
                      h = (if mode_is_dir (st_mode st) then
                             (case call (fs_opendir (e_fs e) path) h of
                                (None, h) \<Rightarrow> h
                              | (Some dir, h) \<Rightarrow>
                                  snd (call (fs_closedir (e_fs e) dir)
                                    (stat_entries (e_dir_bound e) e dir h)))
                           else opftp_client_send_raw
                             (snd (opftp_listing_format (e_localtime e) 1024 (entry_of path st) None)) h)
                  in opftp_client_send ''211 End'' h)))"

definition cmd_mlst :: "'x handler" where
  "cmd_mlst e param h =
     (if param = None \<or> param = Some [] then reply 501 R501 h
      else
        (case resolve_param h param of
           None \<Rightarrow> reply 501 R501 h
         | Some path \<Rightarrow>
             (case call (fs_stat (e_fs e) path) h of
                (None, h) \<Rightarrow> reply_fs_error h
              | (Some st, h) \<Rightarrow>
                  let line = snd (opftp_listing_format_mlsd 1024 (entry_of path st));
                      h = opftp_client_send ''250-Start of list'' h;
                      h = opftp_client_send_raw (c_snprintf 1025 ('' '' @ line)) h
                  in reply 250 ''End'' h)))"

definition cmd_mfmt :: "'x handler" where
  "cmd_mfmt e param h =
     (case param of
        None \<Rightarrow> reply 501 R501 h
      | Some p \<Rightarrow>
          if length p < 15 \<or> p ! 14 \<noteq> space then reply 501 R501 h
          else
            (case parse_ftp_time p of
               None \<Rightarrow> reply 501 R501 h
             | Some t \<Rightarrow>
                 (case resolve_param h (Some (skip_spaces (drop 15 p))) of
                    None \<Rightarrow> reply 501 R501 h
                  | Some path \<Rightarrow>
                      (case call (fs_stat (e_fs e) path) h of
                         (None, h) \<Rightarrow> reply_fs_error h
                       | (Some _, h) \<Rightarrow>
                           (case call (fs_utimes (e_fs e) path t) h of
                              (None, h) \<Rightarrow> reply_fs_error h
                            | (Some _, h) \<Rightarrow>
                                (case c_gmtime t of
                                   None \<Rightarrow> reply_fs_error h
                                 | Some tm \<Rightarrow>
                                     reply 213 (c_snprintf 64 (''Modify='' @ ftp_time_str tm)) h))))))"

end
