(* ===== verification/Commands_Data.thy ===== *)
theory Commands_Data
  imports Commands_Files
begin

text \<open>
  The data channel and transfer commands of \<^verbatim>\<open>src/src/commands.c\<close>: \<open>PASV\<close>, \<open>PORT\<close>, \<open>EPSV\<close>, \<open>EPRT\<close>,
  \<open>ABOR\<close>, \<open>LIST\<close>, \<open>NLST\<close>, \<open>MLSD\<close>, \<open>RETR\<close>, \<open>STOR\<close>, \<open>APPE\<close>, \<open>STOU\<close>.
\<close>

section \<open>Passive mode\<close>

fun with_port :: "16 word \<Rightarrow> sockaddr \<Rightarrow> sockaddr" where
  "with_port p (Sa_in a q) = Sa_in a p"
| "with_port p (Sa_in6 a q) = Sa_in6 a p"
| "with_port p Sa_unspec = Sa_unspec"

fun sockaddr_port :: "sockaddr \<Rightarrow> 16 word" where
  "sockaddr_port (Sa_in a p) = p"
| "sockaddr_port (Sa_in6 a p) = p"
| "sockaddr_port Sa_unspec = 0"

text \<open>The loop of \<open>bind_listener_in_range\<close> from candidate \<open>cand\<close> on; \<open>lo = 0\<close> asks for an
  ephemeral port once.\<close>

function bind_from ::
  "'x env \<Rightarrow> int \<Rightarrow> sockaddr \<Rightarrow> nat \<Rightarrow> nat \<Rightarrow> nat \<Rightarrow> 'x hst \<Rightarrow> sockaddr option \<times> 'x hst" where
  "bind_from e fd addr lo hi cand h =
     (if cand \<le> hi \<or> lo = 0 \<and> cand = 0 then
        (case call (e_bind e fd (with_port (of_nat cand) addr)) h of
           (Some _, h) \<Rightarrow> (Some (with_port (of_nat cand) addr), h)
         | (None, h) \<Rightarrow>
             if lo = 0 then (None, h)
             else if cand + 1 > hi then
               (case call (e_bind e fd (with_port 0 addr)) h of
                  (Some _, h) \<Rightarrow> (Some (with_port 0 addr), h)
                | (None, h) \<Rightarrow> (None, h))
             else bind_from e fd addr lo hi (cand + 1) h)
      else (None, h))"
  by pat_completeness auto
termination
  by (relation "measure (\<lambda>(_, _, _, _, hi, cand, _). Suc hi - cand)") auto

declare bind_from.simps [simp del]

definition bind_listener_in_range ::
  "'x env \<Rightarrow> int \<Rightarrow> sockaddr \<Rightarrow> 16 word \<Rightarrow> 16 word \<Rightarrow> 'x hst \<Rightarrow> sockaddr option \<times> 'x hst" where
  "bind_listener_in_range e fd addr pmin pmax h =
     (let lo = unat pmin; hi = unat pmax;
          (lo, hi) = (if lo = 0 \<or> hi < lo then (0, 0) else (lo, hi))
      in bind_from e fd addr lo hi lo h)"

definition drop_pasv :: "'x env \<Rightarrow> 'x hst \<Rightarrow> 'x hst" where
  "drop_pasv e h =
     (if c_pasv_fd (h_cl h) \<ge> 0
      then upd_cl (\<lambda>c. c\<lparr> c_pasv_fd := -1 \<rparr>) (opftp_close_fd e (c_pasv_fd (h_cl h)) h)
      else h)"

text \<open>Bind, listen and look up the bound address; \<open>getsockname\<close> leaves the address alone when it
  fails.\<close>

definition open_listener :: "'x env \<Rightarrow> int \<Rightarrow> sockaddr \<Rightarrow> 'x hst \<Rightarrow> sockaddr option \<times> 'x hst" where
  "open_listener e fd addr h =
     (case bind_listener_in_range e fd addr (s_pasv_min (h_srv h)) (s_pasv_max (h_srv h)) h of
        (None, h) \<Rightarrow> (None, h)
      | (Some addr, h) \<Rightarrow>
          (case call (e_listen e fd 1) h of
             (None, h) \<Rightarrow> (None, h)
           | (Some _, h) \<Rightarrow>
               (case call (e_getsockname e fd) h of
                  (None, h) \<Rightarrow> (Some addr, h)
                | (Some bound, h) \<Rightarrow> (Some bound, h))))"

definition ipv4_any :: "8 word list" where
  "ipv4_any = [0, 0, 0, 0]"

definition ipv4_loopback :: "8 word list" where
  "ipv4_loopback = [127, 0, 0, 1]"

text \<open>The IPv4 address of the control connection, if it has one: \<open>Inl\<close> is the early reply.\<close>

definition local_ipv4 :: "sockaddr \<Rightarrow> nat \<times> string + 8 word list" where
  "local_ipv4 lss =
     (case lss of
        Sa_in a p \<Rightarrow> Inr a
      | Sa_in6 a p \<Rightarrow>
          (if \<not> opftp_is_v4mapped a then Inl (522, ''Network protocol not supported, use (1)'')
           else Inr (take 4 (drop 12 a)))
      | Sa_unspec \<Rightarrow> Inl (425, R425))"

definition pasv_text :: "8 word list \<Rightarrow> 16 word \<Rightarrow> string" where
  "pasv_text ip port =
     ''Entering Passive Mode ('' @ u_dec (ip ! 0) @ '','' @ u_dec (ip ! 1) @ '','' @ u_dec (ip ! 2) @ '','' @
     u_dec (ip ! 3) @ '','' @ dec (unat port div 256) @ '','' @ dec (unat port mod 256) @ '')''"

definition cmd_pasv :: "'x handler" where
  "cmd_pasv e param h =
     (case call (e_getsockname e (c_fd (h_cl h))) h of
        (lss, h) \<Rightarrow>
          (case local_ipv4 (case lss of Some a \<Rightarrow> a | None \<Rightarrow> Sa_unspec) of
             Inl (code, msg) \<Rightarrow> reply code msg h
           | Inr local4 \<Rightarrow>
               (case call (e_socket e AF_INET) (drop_pasv e h) of
                  (None, h) \<Rightarrow> reply 425 R425 h
                | (Some fd, h) \<Rightarrow>
                    (case open_listener e fd (Sa_in ipv4_any 0) h of
                       (None, h) \<Rightarrow>
                         let err = errno_of h;
                             h = opftp_close_fd e fd h
                         in reply 425 R425 (h\<lparr> h_sys := set_errno err (h_sys h) \<rparr>)
                     | (Some bound, h) \<Rightarrow>
                         let ip = (if local4 = ipv4_any then ipv4_loopback else local4) in
                         reply 227 (c_snprintf 128 (pasv_text ip (sockaddr_port bound)))
                           (upd_cl (\<lambda>c. c\<lparr> c_pasv_fd := fd, c_have_data_peer := False \<rparr>) h)))))"

definition control_proto :: "client \<Rightarrow> int" where
  "control_proto c =
     (case c_peer c of Sa_in6 a p \<Rightarrow> (if opftp_is_v4mapped a then 1 else 2) | _ \<Rightarrow> 1)"

definition cmd_epsv :: "'x handler" where
  "cmd_epsv e param h =
     (if (case param of Some p \<Rightarrow> p \<noteq> [] \<and> c_atoi p \<noteq> control_proto (h_cl h) | None \<Rightarrow> False)
      then reply 522 ''Network protocol not supported, use (1,2)'' h
      else
        let h = drop_pasv e h;
            (sock, h) = (case call (e_socket e AF_INET6) h of
                           (Some fd, h) \<Rightarrow> (Some (fd, Sa_in6 (replicate 16 0) 0), h)
                         | (None, h) \<Rightarrow>
                             (case call (e_socket e AF_INET) h of
                                (Some fd, h) \<Rightarrow> (Some (fd, Sa_in ipv4_any 0), h)
                              | (None, h) \<Rightarrow> (None, h)))
        in case sock of
             None \<Rightarrow> reply 425 R425 h
           | Some (fd, addr) \<Rightarrow>
               (case open_listener e fd addr h of
                  (None, h) \<Rightarrow> reply 425 R425 (opftp_close_fd e fd h)
                | (Some bound, h) \<Rightarrow>
                    reply 229 (c_snprintf 64 (''Entering Extended Passive Mode (|||'' @
                        dec (unat (sockaddr_port bound)) @ ''|)''))
                      (upd_cl (\<lambda>c. c\<lparr> c_pasv_fd := fd, c_have_data_peer := False \<rparr>) h)))"

section \<open>Active mode\<close>

text \<open>One \<open>%u\<close> conversion of \<open>sscanf\<close> into a 32-bit \<open>unsigned\<close>.\<close>

definition scan_u :: "string \<Rightarrow> (32 word \<times> string) option" where
  "scan_u s = map_option (\<lambda>(v, rest). (ucast v, rest)) (c_strtoull s)"

text \<open>\<open>sscanf (s, "%u,%u,...")\<close> with \<open>n + 1\<close> conversions, all of which must succeed.\<close>

fun scan_tuple :: "nat \<Rightarrow> string \<Rightarrow> 32 word list option" where
  "scan_tuple 0 s = map_option (\<lambda>(v, rest). [v]) (scan_u s)"
| "scan_tuple (Suc n) s =
     (case scan_u s of
        Some (v, CHR '','' # rest) \<Rightarrow> map_option ((#) v) (scan_tuple n rest)
      | _ \<Rightarrow> None)"

definition set_data_peer :: "'x env \<Rightarrow> sockaddr \<Rightarrow> 'x hst \<Rightarrow> 'x hst" where
  "set_data_peer e a h =
     drop_pasv e (upd_cl (\<lambda>c. c\<lparr> c_data_peer := a, c_have_data_peer := True \<rparr>) h)"

definition cmd_port :: "'x handler" where
  "cmd_port e param h =
     (case param of
        None \<Rightarrow> reply 501 R501 h
      | Some p \<Rightarrow>
          (case scan_tuple 5 p of
             None \<Rightarrow> reply 501 R501 h
           | Some t \<Rightarrow>
               if \<not> list_all (\<lambda>v. v \<le> 255) t then reply 501 R501 h
               else reply 200 R200
                 (set_data_peer e
                   (Sa_in (map ucast (take 4 t)) (push_bit 8 (ucast (t ! 4)) OR ucast (t ! 5))) h)))"

text \<open>One \<open>%n[^|]\<close> conversion: one to \<open>n\<close> characters other than a bar.\<close>

definition scan_field :: "nat \<Rightarrow> string \<Rightarrow> (string \<times> string) option" where
  "scan_field n s =
     (let f = take n (takeWhile (\<lambda>c. c \<noteq> CHR ''|'') s)
      in if f = [] then None else Some (f, drop (length f) s))"

text \<open>\<open>sscanf (param, "|%7[^|]|%127[^|]|%15[^|]|", ...) == 3\<close>.\<close>

definition scan_eprt :: "string \<Rightarrow> (string \<times> string \<times> string) option" where
  "scan_eprt s =
     (case s of
        CHR ''|'' # s \<Rightarrow>
          (case scan_field 7 s of
             Some (proto, CHR ''|'' # s) \<Rightarrow>
               (case scan_field 127 s of
                  Some (addr, CHR ''|'' # s) \<Rightarrow>
                    map_option (\<lambda>(port, _). (proto, addr, port)) (scan_field 15 s)
                | _ \<Rightarrow> None)
           | _ \<Rightarrow> None)
      | _ \<Rightarrow> None)"

text \<open>A refused address leaves the recorded peer cleared, whatever was recorded before.\<close>

definition cmd_eprt :: "'x handler" where
  "cmd_eprt e param h =
     (case param of
        None \<Rightarrow> reply 501 R501 h
      | Some s \<Rightarrow>
          (case scan_eprt s of
             None \<Rightarrow> reply 501 R501 h
           | Some (proto, addr, port) \<Rightarrow>
               let p = c_atoi proto;
                   pnum = (case c_strtol 10 port of Some (v, _) \<Rightarrow> v | None \<Rightarrow> 0)
               in if pnum < 1 \<or> pnum > 65535 then reply 501 R501 h
                  else if p = 1 then
                    (case e_inet_pton4 e addr of
                       None \<Rightarrow>
                         reply 501 R501 (upd_cl (\<lambda>c. c\<lparr> c_data_peer := Sa_in ipv4_any 0 \<rparr>) h)
                     | Some a \<Rightarrow> reply 200 R200 (set_data_peer e (Sa_in a (word_of_int pnum)) h))
                  else if p = 2 then
                    (case e_inet_pton6 e addr of
                       None \<Rightarrow>
                         reply 501 R501 (upd_cl (\<lambda>c. c\<lparr> c_data_peer := Sa_in6 (replicate 16 0) 0 \<rparr>) h)
                     | Some a \<Rightarrow> reply 200 R200 (set_data_peer e (Sa_in6 a (word_of_int pnum)) h))
                  else reply 522 ''Network protocol not supported, use (1,2)''
                    (upd_cl (\<lambda>c. c\<lparr> c_data_peer := Sa_unspec \<rparr>) h)))"

section \<open>Transfers\<close>

definition cancel_job :: "nat \<Rightarrow> server \<Rightarrow> server" where
  "cancel_job jid s =
     s\<lparr> s_jobs := (s_jobs s)(jid := map_option
          (\<lambda>j. j\<lparr> j_cancelled := True, j_cancel_bytes := j_cancel_bytes j + 1 \<rparr>) (s_jobs s jid)) \<rparr>"

definition cmd_abor :: "'x handler" where
  "cmd_abor e param h =
     (case c_job (h_cl h) of
        Some jid \<Rightarrow> upd_cl (\<lambda>c. c\<lparr> c_abor_pending := True \<rparr>) (upd_srv (cancel_job jid) h)
      | None \<Rightarrow> reply 226 ''Abort successful.'' h)"

text \<open>The argument of a listing without its \<open>-flags\<close>.\<close>

definition listing_arg :: "string option \<Rightarrow> string option" where
  "listing_arg param =
     (case param of
        Some (CHR ''-'' # p) \<Rightarrow>
          (let rest = dropWhile (\<lambda>c. c \<noteq> space) (CHR ''-'' # p)
           in if rest = [] then None else Some (skip_spaces rest))
      | _ \<Rightarrow> param)"

definition start_listing :: "'x env \<Rightarrow> string option \<Rightarrow> bool \<Rightarrow> bool \<Rightarrow> 'x hst \<Rightarrow> 'x hst" where
  "start_listing e param nlst mlsd h =
     (case resolve_param h (listing_arg param) of
        None \<Rightarrow> reply 501 R501 h
      | Some path \<Rightarrow>
          (case call (fs_stat (e_fs e) path) h of
             (None, h) \<Rightarrow> reply_fs_error h
           | (Some _, h) \<Rightarrow> start_transfer e OPFTP_JOB_LIST path nlst mlsd None h))"

definition cmd_list :: "'x handler" where
  "cmd_list e param h = start_listing e param False False h"

definition cmd_nlst :: "'x handler" where
  "cmd_nlst e param h = start_listing e param True False h"

definition cmd_mlsd :: "'x handler" where
  "cmd_mlsd e param h = start_listing e param False True h"

definition cmd_retr :: "'x handler" where
  "cmd_retr e param h =
     (case resolve_param h param of
        None \<Rightarrow> reply 501 R501 h
      | Some path \<Rightarrow>
          (case call (fs_stat (e_fs e) path) h of
             (None, h) \<Rightarrow> reply_fs_error h
           | (Some st, h) \<Rightarrow>
               if \<not> mode_is_reg (st_mode st) then reply_fs_error h
               else start_transfer e OPFTP_JOB_RETR path False False None h))"

definition start_store :: "'x env \<Rightarrow> job_op \<Rightarrow> string option \<Rightarrow> 'x hst \<Rightarrow> 'x hst" where
  "start_store e op param h =
     (case resolve_param h param of
        None \<Rightarrow> reply 501 R501 h
      | Some path \<Rightarrow>
          (case parent_is_dir e path h of
             (False, h) \<Rightarrow> reply_fs_error h
           | (True, h) \<Rightarrow> start_transfer e op path False False None h))"

definition cmd_stor :: "'x handler" where
  "cmd_stor e param h = start_store e OPFTP_JOB_STOR param h"

definition cmd_appe :: "'x handler" where
  "cmd_appe e param h = start_store e OPFTP_JOB_APPE param h"

text \<open>The search for an unused name: \<open>Inl\<close> is an early reply.\<close>

fun stou_search :: "nat \<Rightarrow> 'x env \<Rightarrow> 'x hst \<Rightarrow> (nat \<times> string + string) \<times> 'x hst" where
  "stou_search 0 e h = (Inl (450, ''No unique file name available.''), h)"
| "stou_search (Suc n) e h =
     (let rel = c_snprintf 32 (''ftp'' @ zero_pad 6 (u_dec (s_stou_seq (h_srv h))));
          h = upd_srv (\<lambda>s. s\<lparr> s_stou_seq := s_stou_seq s + 1 \<rparr>) h
      in case resolve_param h (Some rel) of
           None \<Rightarrow> (Inl (550, R550), h)
         | Some name \<Rightarrow>
             (case call (fs_stat (e_fs e) name) h of
                (st, h) \<Rightarrow>
                  if st = None \<and> errno_of h = ENOENT then (Inr name, h)
                  else stou_search n e h))"

definition cmd_stou :: "'x handler" where
  "cmd_stou e param h =
     (let h = (if s_stou_seq (h_srv h) = 0 then
                 (case e_time e (h_sys h) of
                    (t, s) \<Rightarrow> upd_srv (\<lambda>v. v\<lparr> s_stou_seq := word_of_int t mod 1000000 \<rparr>) (h\<lparr> h_sys := s \<rparr>))
               else h)
      in case stou_search 10 e h of
           (Inl (code, msg), h) \<Rightarrow> reply code msg h
         | (Inr name, h) \<Rightarrow>
             start_transfer e OPFTP_JOB_STOR name False False
               (Some (c_snprintf 64 (''FILE: '' @ base_name name))) h)"

section \<open>Frame\<close>

lemma bind_from_sys: "bind_from e fd addr lo hi cand h = (r, h') \<Longrightarrow> sys_only h h'"
proof (induction e fd addr lo hi cand h rule: bind_from.induct)
  case (1 e fd addr lo hi cand h)
  obtain c h1 where c: "call (e_bind e fd (with_port (of_nat cand) addr)) h = (c, h1)" by force
  obtain d h2 where d: "call (e_bind e fd (with_port 0 addr)) h1 = (d, h2)" by force
  have s: "sys_only h h1" "sys_only h h2"
    using call_sys_only [OF c] call_sys_only [OF d] sys_only_trans by blast+
  note IH = 1(1) [OF _ c [symmetric]]
  show ?case
  proof (cases "(cand \<le> hi \<or> lo = 0 \<and> cand = 0) \<and> c = None \<and> lo \<noteq> 0 \<and> \<not> cand + 1 > hi")
    case True
    with 1(2) c have "bind_from e fd addr lo hi (cand + 1) h1 = (r, h')"
      by (subst (asm) bind_from.simps) simp
    with IH True have "sys_only h1 h'" by blast
    with s(1) show ?thesis by (rule sys_only_trans)
  next
    case False
    with 1(2) c d s show ?thesis
      by (subst (asm) bind_from.simps) (auto split: if_splits option.splits)
  qed
qed

lemma open_listener_sys [sys_frame]: "open_listener e fd addr h = (r, h') \<Longrightarrow> sys_only h h'"
proof -
  assume o: "open_listener e fd addr h = (r, h')"
  obtain a h1 where a: "bind_listener_in_range e fd addr (s_pasv_min (h_srv h)) (s_pasv_max (h_srv h)) h = (a, h1)"
    by force
  then have s1: "sys_only h h1"
    by (auto simp: bind_listener_in_range_def Let_def split: prod.splits dest: bind_from_sys)
  obtain b h2 where b: "call (e_listen e fd 1) h1 = (b, h2)" by force
  obtain c h3 where c: "call (e_getsockname e fd) h2 = (c, h3)" by force
  have "sys_only h h2" "sys_only h h3"
    using s1 call_sys_only [OF b] call_sys_only [OF c] sys_only_trans by blast+
  with s1 o a b c show ?thesis
    by (auto simp: open_listener_def split: option.splits)
qed

end
