(* ===== verification/Commands.thy ===== *)
theory Commands
  imports Commands_Data
begin

text \<open>
  The built-in command table, \<open>opftp_commands_init\<close> of \<^verbatim>\<open>src/src/commands.c\<close>, and what holds of
  every built-in handler.
\<close>

section \<open>The command table\<close>

definition builtin_commands :: "bool \<Rightarrow> (string \<times> 'x handler) list" where
  "builtin_commands allow_stop =
     [(''USER'', cmd_user), (''PASS'', cmd_pass), (''QUIT'', cmd_quit), (''NOOP'', cmd_noop),
      (''SYST'', cmd_syst), (''FEAT'', cmd_feat), (''HELP'', cmd_help), (''OPTS'', cmd_opts),
      (''ACCT'', cmd_acct), (''ALLO'', cmd_allo), (''TYPE'', cmd_type), (''MODE'', cmd_mode),
      (''STRU'', cmd_stru)] @
     (if allow_stop then [(''STOP'', cmd_stop)] else []) @
     [(''PWD'', cmd_pwd), (''XPWD'', cmd_pwd), (''CWD'', cmd_cwd), (''XCWD'', cmd_cwd),
      (''CDUP'', cmd_cdup), (''XCUP'', cmd_cdup), (''MKD'', cmd_mkd), (''XMKD'', cmd_mkd),
      (''RMD'', cmd_rmd), (''XRMD'', cmd_rmd), (''DELE'', cmd_dele), (''RNFR'', cmd_rnfr),
      (''RNTO'', cmd_rnto), (''CPFR'', cmd_cpfr), (''CPTO'', cmd_cpto), (''SITE'', cmd_site),
      (''SIZE'', cmd_size), (''MDTM'', cmd_mdtm), (''REST'', cmd_rest), (''STAT'', cmd_stat),
      (''PASV'', cmd_pasv), (''PORT'', cmd_port), (''EPSV'', cmd_epsv), (''EPRT'', cmd_eprt),
      (''AUTH'', cmd_auth), (''PBSZ'', cmd_pbsz), (''PROT'', cmd_prot), (''ABOR'', cmd_abor),
      (''LIST'', cmd_list), (''NLST'', cmd_nlst), (''MLSD'', cmd_mlsd), (''MLST'', cmd_mlst),
      (''MFMT'', cmd_mfmt), (''STOU'', cmd_stou), (''RETR'', cmd_retr), (''STOR'', cmd_stor),
      (''APPE'', cmd_appe)]"

definition opftp_commands_init :: "bool \<Rightarrow> 'x handler cmd_table option \<Rightarrow> 'x handler cmd_table option" where
  "opftp_commands_init allow_stop t = register_all (builtin_commands allow_stop) t"

definition builtin_names :: "bool \<Rightarrow> string list" where
  "builtin_names allow_stop =
     [''USER'', ''PASS'', ''QUIT'', ''NOOP'', ''SYST'', ''FEAT'', ''HELP'', ''OPTS'', ''ACCT'', ''ALLO'', ''TYPE'',
      ''MODE'', ''STRU''] @ (if allow_stop then [''STOP''] else []) @
     [''PWD'', ''XPWD'', ''CWD'', ''XCWD'', ''CDUP'', ''XCUP'', ''MKD'', ''XMKD'', ''RMD'', ''XRMD'', ''DELE'', ''RNFR'',
      ''RNTO'', ''CPFR'', ''CPTO'', ''SITE'', ''SIZE'', ''MDTM'', ''REST'', ''STAT'', ''PASV'', ''PORT'', ''EPSV'', ''EPRT'',
      ''AUTH'', ''PBSZ'', ''PROT'', ''ABOR'', ''LIST'', ''NLST'', ''MLSD'', ''MLST'', ''MFMT'', ''STOU'', ''RETR'', ''STOR'',
      ''APPE'']"

lemma map_fst_builtin: "map fst (builtin_commands b) = builtin_names b"
  by (simp add: builtin_commands_def builtin_names_def)

lemma builtin_names_ok:
  "distinct (builtin_names b)" "length (builtin_names b) \<le> 51"
  "list_all (\<lambda>n. 0 < length n \<and> length n < 8 \<and> map c_toupper n = n) (builtin_names b)"
proof -
  have "distinct (builtin_names True)" "distinct (builtin_names False)" by code_simp+
  then show "distinct (builtin_names b)" by (cases b) simp_all
  show "length (builtin_names b) \<le> 51" by (simp add: builtin_names_def)
  have "list_all (\<lambda>n. 0 < length n \<and> length n < 8 \<and> map c_toupper n = n) (builtin_names True)"
    "list_all (\<lambda>n. 0 < length n \<and> length n < 8 \<and> map c_toupper n = n) (builtin_names False)"
    by code_simp+
  then show "list_all (\<lambda>n. 0 < length n \<and> length n < 8 \<and> map c_toupper n = n) (builtin_names b)"
    by (cases b) simp_all
qed

lemma set_builtin_names: "fst ` set (builtin_commands b) = set (builtin_names b)"
  by (metis map_fst_builtin set_map)

lemma builtin_well_named: "disp.well_named (builtin_commands b :: (string \<times> 'x handler) list)"
proof -
  have "0 < length n \<and> length n < 8 \<and> map c_toupper n = n"
    if "(n, f) \<in> set (builtin_commands b :: (string \<times> 'x handler) list)" for n f
  proof -
    from that have "n \<in> set (builtin_names b)"
      unfolding set_builtin_names [symmetric, where ?'a = 'x] by force
    with builtin_names_ok(3) [of b] show ?thesis unfolding list_all_iff by blast
  qed
  then show ?thesis unfolding disp.well_named_def list_all_iff by blast
qed

lemma map_of_rev_builtin:
  "map_of (rev (builtin_commands b)) = map_of (builtin_commands b :: (string \<times> 'x handler) list)"
proof -
  have "distinct (map fst (builtin_commands b :: (string \<times> 'x handler) list))"
    by (simp add: map_fst_builtin builtin_names_ok(1))
  then show ?thesis by (simp add: map_of_inject_set rev_map [symmetric])
qed

lemma no_builtin_stop: "map_of (builtin_commands False) ''STOP'' = None"
proof -
  have "''STOP'' \<notin> set (builtin_names False)" by code_simp
  then show ?thesis by (simp add: map_of_eq_None_iff set_builtin_names)
qed

lemma commands_init_table:
  "table_ok (opftp_commands_init b empty_table)"
  "reg_lookup (opftp_commands_init b empty_table) = map_of (builtin_commands b)"
proof -
  have "card (set (builtin_names b)) \<le> DISPATCH_CAP"
    using builtin_names_ok(2) [of b] card_length [of "builtin_names b"] by (simp add: DISPATCH_CAP_def)
  then show "table_ok (opftp_commands_init b empty_table)"
    "reg_lookup (opftp_commands_init b empty_table) = map_of (builtin_commands b)"
    using disp.install_invar [OF disp.fresh_invar]
      disp.install_lookup [OF disp.fresh_invar builtin_well_named]
    by (simp_all add: opftp_commands_init_def register_all_install disp.fresh_lookup
        set_builtin_names map_of_rev_builtin)
qed

section \<open>Properties of the table\<close>

text \<open>
  C11: The command table. After initialisation, and after an application has installed further
  well-named commands that fit the 64 slots, every name runs the application's latest handler
  for it if there is one and the built-in handler otherwise; unknown names are unknown. In
  particular \<open>STOP\<close> is a command only where it was allowed or the application added it.
\<close>

theorem command_table_correct:
  assumes "list_all (\<lambda>(n, f). 0 < length n \<and> length n < 8 \<and> map c_toupper n = n) app"
    and "card (set (builtin_names allow_stop) \<union> fst ` set app) \<le> DISPATCH_CAP"
    and "t = register_all app (opftp_commands_init allow_stop empty_table)"
  shows "table_ok t \<and>
    opftp_dispatch_call t (Some name) =
      (case map_of (rev app) name of Some f \<Rightarrow> Some f | None \<Rightarrow> map_of (builtin_commands allow_stop) name) \<and>
    (name = ''STOP'' \<and> \<not> allow_stop \<and> ''STOP'' \<notin> fst ` set app \<longrightarrow>
       opftp_dispatch_call t (Some name) = None)"
proof -
  let ?t0 = "opftp_commands_init allow_stop empty_table"
  have w: "disp.well_named app" using assms(1) by (simp add: disp.well_named_def)
  have d: "dom (map_of (builtin_commands allow_stop :: (string \<times> 'a handler) list)) = set (builtin_names allow_stop)"
    by (simp add: dom_map_of_conv_image_fst set_builtin_names)
  have t: "t = disp.install app ?t0" by (simp add: assms(3) register_all_install)
  have "reg_lookup t = map_of (builtin_commands allow_stop) ++ map_of (rev app)"
    unfolding t using assms(2)
    by (subst disp.install_lookup [OF commands_init_table(1) w]) (simp_all add: commands_init_table(2) d)
  moreover have "table_ok t"
    unfolding t by (rule disp.install_invar [OF commands_init_table(1)])
  ultimately have "table_ok t" and c: "opftp_dispatch_call t (Some name) =
      (case map_of (rev app) name of Some f \<Rightarrow> Some f | None \<Rightarrow> map_of (builtin_commands allow_stop) name)"
    by (simp_all add: reg_lookup_def [symmetric] map_add_def)
  moreover have "opftp_dispatch_call t (Some name) = None"
    if "name = ''STOP'' \<and> \<not> allow_stop \<and> ''STOP'' \<notin> fst ` set app"
  proof -
    from that have "map_of (rev app) name = None" by (simp add: map_of_eq_None_iff)
    with that show ?thesis unfolding c by (simp add: no_builtin_stop)
  qed
  ultimately show ?thesis by blast
qed

theorem command_table_correct_witness:
  "opftp_dispatch_call (register_all [(''NOOP'', cmd_quit)] (opftp_commands_init False empty_table))
     (Some ''NOOP'') = Some (cmd_quit :: unit handler) \<and>
   opftp_dispatch_call (register_all [(''NOOP'', cmd_quit :: unit handler)]
     (opftp_commands_init False empty_table)) (Some ''STOP'') = None"
proof -
  have w: "list_all (\<lambda>(n, f). 0 < length n \<and> length n < 8 \<and> map c_toupper n = n)
      [(''NOOP'', cmd_quit :: unit handler)]"
    by simp code_simp
  have "set (builtin_names False) \<union> fst ` set [(''NOOP'', cmd_quit :: unit handler)] = set (builtin_names False)"
    by simp code_simp
  then have c: "card (set (builtin_names False) \<union> fst ` set [(''NOOP'', cmd_quit :: unit handler)]) \<le> DISPATCH_CAP"
    using builtin_names_ok(2) [of False] card_length [of "builtin_names False"] by (simp add: DISPATCH_CAP_def)
  show ?thesis
    using command_table_correct [OF w c refl, of "''NOOP''"] command_table_correct [OF w c refl, of "''STOP''"]
      no_builtin_stop
    by simp
qed

end
