(* ===== verification/Command_Replies.thy ===== *)
theory Command_Replies
  imports Commands
begin

text \<open>
  Reply discipline of the built-in commands: every command is answered by exactly one final
  line, the last one sent, unless the answer is deferred to the completion of a job.
\<close>

section \<open>Final lines\<close>

text \<open>The last line of a reply: a three-digit code followed by a space.\<close>

definition is_final :: "string \<Rightarrow> bool" where
  "is_final l \<longleftrightarrow> length l \<ge> 4 \<and> list_all c_isdigit (take 3 l) \<and> l ! 3 = space"

definition one_reply :: "'x hst \<Rightarrow> 'x hst \<Rightarrow> bool" where
  "one_reply h h' \<longleftrightarrow>
     (\<exists>pre fin. h_out h' = h_out h @ pre @ [fin] \<and> is_final fin \<and> list_all (\<lambda>l. \<not> is_final l) pre)"

named_theorems reply_simps

lemma length_dec_three: "100 \<le> n \<Longrightarrow> n < 1000 \<Longrightarrow> length (dec n) = 3"
proof -
  assume n: "100 \<le> n" "n < 1000"
  then have "\<not> n < 10" "\<not> n div 10 < 10" "n div 10 div 10 < 10" by auto
  then show ?thesis by (simp add: dec.simps)
qed

lemma is_final_reply: "100 \<le> n \<Longrightarrow> n < 1000 \<Longrightarrow> is_final (reply_text n m)"
  using length_dec_three [of n] dec_digits [of n]
  by (simp add: is_final_def reply_text_def c_snprintf_def nth_append)

lemma one_reply_reply [reply_simps]:
  "100 \<le> n \<Longrightarrow> n < 1000 \<Longrightarrow> h_out h' = h_out h \<Longrightarrow> one_reply h (reply n s h')"
  unfolding one_reply_def
  by (rule exI [of _ "[]"], rule exI [of _ "reply_text n s"]) (simp add: is_final_reply)

lemma one_reply_fs_error [reply_simps]: "h_out h' = h_out h \<Longrightarrow> one_reply h (reply_fs_error h')"
  by (simp add: reply_fs_error_def one_reply_reply)

lemma one_reply_upd [reply_simps]:
  "one_reply h (upd_cl f h') = one_reply h h'" "one_reply h (upd_srv g h') = one_reply h h'"
  by (simp_all add: one_reply_def)

section \<open>The handlers\<close>

text \<open>A call changes only the outside state, so that the handlers' replies can be computed.\<close>

lemma call_eq: "call f h = (fst (f (h_sys h)), h\<lparr> h_sys := snd (f (h_sys h)) \<rparr>)"
  by (simp add: call_def split: prod.split)

lemma helper_out [reply_simps]:
  "h_out (job_free e j h) = h_out h" "h_out (drop_pasv e h) = h_out h"
  "h_out (set_data_peer e a h) = h_out h"
  by (simp_all add: job_free_def drop_pasv_def set_data_peer_def)

lemmas handler_unfold =
  call_eq parent_is_dir_def resolve_in_dir_def job_new_def dispatch_job_def Let_def

lemma one_reply_start_transfer [reply_simps]:
  "h_out h' = h_out h \<Longrightarrow> one_reply h (start_transfer e op path nlst mlsd r h')"
  by (simp add: start_transfer_def handler_unfold reply_simps split: option.split prod.split)

lemma session_replies [reply_simps]:
  "one_reply h (cmd_user e p h)" "one_reply h (cmd_quit e p h)"
  "one_reply h (cmd_noop e p h)" "one_reply h (cmd_syst e p h)" "one_reply h (cmd_help e p h)"
  "one_reply h (cmd_opts e p h)" "one_reply h (cmd_acct e p h)" "one_reply h (cmd_allo e p h)"
  "one_reply h (cmd_mode e p h)" "one_reply h (cmd_stru e p h)" "one_reply h (cmd_stop e p h)"
  "one_reply h (cmd_type e p h)" "one_reply h (cmd_pbsz e p h)" "one_reply h (cmd_prot e p h)"
  by (simp_all add: cmd_user_def cmd_quit_def cmd_noop_def cmd_syst_def cmd_help_def
      cmd_opts_def cmd_acct_def cmd_allo_def cmd_mode_def cmd_stru_def cmd_stop_def cmd_type_def
      cmd_pbsz_def cmd_prot_def Let_def reply_simps split: option.split list.split)

lemma login_replies [reply_simps]:
  "one_reply h (cmd_pass e p h)" "one_reply h (cmd_rest e p h)"
  "one_reply h (cmd_auth e p h)"
  by (auto simp: cmd_pass_def cmd_rest_def cmd_auth_def opftp_client_start_tls_def handler_unfold
      reply_simps split: option.split prod.split list.split)

lemma directory_replies [reply_simps]:
  "one_reply h (cmd_pwd e p h)" "one_reply h (cmd_cwd e p h)" "one_reply h (cmd_cdup e p h)"
  "one_reply h (cmd_rmd e p h)" "one_reply h (cmd_dele e p h)"
  "one_reply h (cmd_rnfr e p h)" "one_reply h (cmd_cpfr e p h)"
  "one_reply h (cmd_size e p h)" "one_reply h (cmd_mdtm e p h)" "one_reply h (cmd_mfmt e p h)"
  by (simp_all add: cmd_pwd_def cmd_cwd_def cmd_cdup_def cmd_rmd_def cmd_dele_def
      cmd_rnfr_def cmd_cpfr_def cmd_size_def cmd_mdtm_def cmd_mfmt_def handler_unfold
      reply_simps split: option.split prod.split bool.split)

lemma in_dir_replies [reply_simps]: "one_reply h (cmd_mkd e p h)" "one_reply h (cmd_rnto e p h)"
  by (auto simp: cmd_mkd_def cmd_rnto_def handler_unfold reply_simps split: option.split prod.split bool.split)

lemma site_replies [reply_simps]:
  "one_reply h (site_chmod e p h)" "one_reply h (site_utime e p h)"
  by (simp_all add: site_chmod_def site_utime_def handler_unfold
      reply_simps split: option.split prod.split list.split char.split bool.split)

lemma site_reply [reply_simps]: "one_reply h (cmd_site e p h)"
  by (simp add: cmd_site_def reply_simps split: option.split)

lemma active_replies [reply_simps]: "one_reply h (cmd_port e p h)" "one_reply h (cmd_eprt e p h)"
  by (simp_all add: cmd_port_def cmd_eprt_def Let_def reply_simps split: option.split prod.split)

lemma one_reply_open_listener:
  "(\<And>r s. one_reply h (k r (h'\<lparr> h_sys := s \<rparr>))) \<Longrightarrow>
   one_reply h (case open_listener e fd a h' of (r, h'') \<Rightarrow> k r h'')"
  by (auto simp: sys_only_def dest!: open_listener_sys split: prod.split)

lemma pasv_reply [reply_simps]: "one_reply h (cmd_pasv e p h)"
  by (auto simp: cmd_pasv_def local_ipv4_def handler_unfold reply_simps
      intro!: one_reply_open_listener split: option.split sockaddr.split)

lemma epsv_reply [reply_simps]: "one_reply h (cmd_epsv e p h)"
  by (auto simp: cmd_epsv_def handler_unfold reply_simps
      intro!: one_reply_open_listener split: option.split)

lemma transfer_replies [reply_simps]:
  "one_reply h (start_listing e p nlst mlsd h)" "one_reply h (cmd_retr e p h)"
  "one_reply h (start_store e op p h)"
  by (simp_all add: start_listing_def cmd_retr_def start_store_def handler_unfold
      reply_simps split: option.split bool.split)

lemma stou_search_out:
  "stou_search n e h = (r, h') \<Longrightarrow>
   h_out h' = h_out h \<and> (\<forall>code msg. r = Inl (code, msg) \<longrightarrow> code = 450 \<or> code = 550)"
  by (induction n e h rule: stou_search.induct)
    (auto simp: handler_unfold split: option.splits if_splits)

lemma stou_reply [reply_simps]: "one_reply h (cmd_stou e p h)"
  by (auto simp: cmd_stou_def Let_def reply_simps split: sum.split prod.split dest!: stou_search_out)

subsection \<open>Replies of several lines\<close>

lemma not_digits: "\<not> c_isdigit space" "\<not> c_isdigit (CHR ''-'')" "\<not> c_isdigit (CHR ''d'')"
  by code_simp+

lemma not_final_hd: "\<not> c_isdigit c \<Longrightarrow> \<not> is_final (take n (c # l))"
  by (simp add: is_final_def take_Cons')

lemma not_final_dash: "\<not> is_final (c_snprintf 1024 (CHR ''2'' # CHR ''1'' # CHR ''1'' # CHR ''-'' # l))"
  by (simp add: is_final_def c_snprintf_def take_Cons')

lemma one_reply_lines:
  "h_out h' = h_out h @ pre @ [fin] \<Longrightarrow> is_final fin \<Longrightarrow> list_all (\<lambda>l. \<not> is_final l) pre \<Longrightarrow>
   one_reply h h'"
  unfolding one_reply_def by blast

lemma send_lines_out:
  "h_out (fold opftp_client_send ls h) = h_out h @ map (\<lambda>l. c_snprintf 1024 (l @ crlf)) ls"
  by (induction ls arbitrary: h) simp_all

lemma feat_reply [reply_simps]: "one_reply h (cmd_feat e p h)"
proof -
  have f: "is_final (c_snprintf 1024 (''211 End'' @ crlf))"
    "list_all (\<lambda>l. \<not> is_final (c_snprintf 1024 (l @ crlf))) (butlast (feat_lines True))"
    "list_all (\<lambda>l. \<not> is_final (c_snprintf 1024 (l @ crlf))) (butlast (feat_lines False))"
    by code_simp+
  let ?g = "\<lambda>l. c_snprintf 1024 (l @ crlf)"
  let ?pre = "butlast (feat_lines (s_has_tls (h_srv h)))"
  have "feat_lines b = butlast (feat_lines b) @ [''211 End'']" for b
    by (simp add: feat_lines_def butlast_append)
  then have "map ?g (feat_lines (s_has_tls (h_srv h))) = map ?g ?pre @ [?g ''211 End'']"
    by (subst map_append [of ?g ?pre "[''211 End'']", simplified list.map, symmetric]) simp
  then have "h_out (cmd_feat e p h) = h_out h @ map ?g ?pre @ [?g ''211 End'']"
    by (simp only: cmd_feat_def send_lines_out)
  moreover have "list_all (\<lambda>l. \<not> is_final l) (map ?g ?pre)"
    using f(2,3) by (cases "s_has_tls (h_srv h)") (simp_all only: list.pred_map o_def)
  ultimately show ?thesis by (rule one_reply_lines [OF _ f(1)])
qed

lemma listing_not_final: "\<not> is_final (snd (opftp_listing_format lt n de d))"
proof -
  have "\<exists>l. listing_line lt de d = (if de_mode de AND S_IFMT = S_IFDIR then CHR ''d'' else CHR ''-'') # l"
    unfolding listing_line_def opftp_mode_str_def Let_def case_prod_beta append_Cons by (rule exI, rule refl)
  then obtain l where "listing_line lt de d = (if de_mode de AND S_IFMT = S_IFDIR then CHR ''d'' else CHR ''-'') # l"
    by blast
  then show ?thesis
    using not_final_hd not_digits by (simp add: opftp_listing_format_def c_snprintf_def Let_def)
qed

lemma stat_entries_out:
  "\<exists>ls. h_out (stat_entries n e dir h) = h_out h @ ls \<and> list_all (\<lambda>l. \<not> is_final l) ls"
proof (induction n e dir h rule: stat_entries.induct)
  case (2 n e dir h)
  show ?case
  proof (cases "call (fs_readdir (e_fs e) dir) h")
    case (Pair r h1)
    then have o: "h_out h1 = h_out h" by (simp add: call_frame)
    show ?thesis
    proof (cases "\<exists>de. r = Some (Some de)")
      case True
      then obtain de where r: "r = Some (Some de)" by blast
      from 2(1) [OF Pair [symmetric] r refl] obtain ls where
        "h_out (stat_entries n e dir (opftp_client_send_raw (snd (opftp_listing_format (e_localtime e) 1024 de None)) h1))
           = h_out h @ snd (opftp_listing_format (e_localtime e) 1024 de None) # ls"
        "list_all (\<lambda>l. \<not> is_final l) ls"
        using o by auto
      with Pair r listing_not_final show ?thesis
        by (intro exI [of _ "snd (opftp_listing_format (e_localtime e) 1024 de None) # ls"]) simp
    next
      case False
      with Pair o show ?thesis
        by (intro exI [of _ "[]"]) (auto split: option.split)
    qed
  qed
qed simp

lemma stat_listing_out:
  "\<exists>ls. h_out (if mode_is_dir m then
               (case call (fs_opendir (e_fs e) path) h of
                  (None, h) \<Rightarrow> h
                | (Some dir, h) \<Rightarrow> snd (call (fs_closedir (e_fs e) dir) (stat_entries n e dir h)))
             else opftp_client_send_raw (snd (opftp_listing_format lt 1024 de None)) h) = h_out h @ ls \<and>
     list_all (\<lambda>l. \<not> is_final l) ls"
proof (cases "mode_is_dir m")
  case True
  obtain r h1 where r: "call (fs_opendir (e_fs e) path) h = (r, h1)" by force
  then have o: "h_out h1 = h_out h" by (simp add: call_frame)
  show ?thesis
  proof (cases r)
    case None
    with True r o show ?thesis by (intro exI [of _ "[]"]) simp
  next
    case (Some dir)
    from stat_entries_out [of n e dir h1] obtain ls where
      "h_out (stat_entries n e dir h1) = h_out h1 @ ls" "list_all (\<lambda>l. \<not> is_final l) ls" by blast
    with True r o Some show ?thesis by (intro exI [of _ ls]) (simp add: call_eq)
  qed
next
  case False
  then show ?thesis
    by (intro exI [of _ "[snd (opftp_listing_format lt 1024 de None)]"]) (simp add: listing_not_final)
qed

lemma final_end: "is_final (c_snprintf 1024 (''211 End'' @ crlf))" "is_final (reply_text 250 ''End'')"
  "\<not> is_final (c_snprintf 1024 (''250-Start of list'' @ crlf))"
  by code_simp+

lemma not_final_status:
  "\<not> is_final (c_snprintf 1024 (c_snprintf (OPFTP_MAX_PATH + 64) (''211-'' @ l) @ crlf))"
  "\<not> is_final (c_snprintf 1024 (c_snprintf 1024 (''211-'' @ l) @ crlf))"
  by (simp_all add: is_final_def c_snprintf_def take_Cons')

lemma stat_reply [reply_simps]: "one_reply h (cmd_stat e p h)"
proof (cases "p = None \<or> p = Some []")
  case True
  show ?thesis
    by (rule one_reply_lines [OF _ final_end(1), of _ _ "[c_snprintf 1024 (c_snprintf (OPFTP_MAX_PATH + 64)
          (''211-'' @ ''Status of server: cwd='' @ c_cwd (h_cl h)) @ crlf)]"])
      (use True not_final_status(1) in \<open>simp_all add: cmd_stat_def\<close>)
next
  case False
  then obtain c cs where p: "p = Some (c # cs)" by (cases p) (auto simp: neq_Nil_conv)
  show ?thesis
  proof (cases "\<exists>path st. resolve_param h p = Some path \<and> fst (fs_stat (e_fs e) path (h_sys h)) = Some st")
    case True
    then obtain path st where r: "resolve_param h p = Some path" "fst (fs_stat (e_fs e) path (h_sys h)) = Some st"
      by blast
    define h1 where "h1 = opftp_client_send (c_snprintf 1024 (''211-Status of '' @ path @ '':''))
        (h\<lparr> h_sys := snd (fs_stat (e_fs e) path (h_sys h)) \<rparr>)"
    let ?listing = "if mode_is_dir (st_mode st) then
        (case call (fs_opendir (e_fs e) path) h1 of
           (None, h) \<Rightarrow> h
         | (Some dir, h) \<Rightarrow> snd (call (fs_closedir (e_fs e) dir) (stat_entries (e_dir_bound e) e dir h)))
      else opftp_client_send_raw (snd (opftp_listing_format (e_localtime e) 1024 (entry_of path st) None)) h1"
    have "cmd_stat e p h = opftp_client_send ''211 End'' ?listing"
      using r by (simp add: h1_def cmd_stat_def call_eq [of "fs_stat (e_fs e) path"] Let_def p)
    moreover obtain ls where "h_out ?listing = h_out h1 @ ls" and ls: "list_all (\<lambda>l. \<not> is_final l) ls"
      using stat_listing_out [where m = "st_mode st" and e = e and path = path and h = h1 and
          n = "e_dir_bound e" and lt = "e_localtime e" and de = "entry_of path st"] by blast
    ultimately have "h_out (cmd_stat e p h) = h_out h1 @ ls @ [c_snprintf 1024 (''211 End'' @ crlf)]"
      by (simp only: client_send_simps append_assoc)
    with ls show ?thesis
      using not_final_status(2) [of "''Status of '' @ path @ '':''"]
      by (intro one_reply_lines [OF _ final_end(1), of _ _ "c_snprintf 1024 (c_snprintf 1024 (''211-Status of '' @ path @ '':'') @ crlf) # ls"])
        (simp_all add: h1_def)
  next
    case none: False
    with p show ?thesis
      by (auto simp: cmd_stat_def call_eq reply_simps split: option.split)
  qed
qed

lemma mlst_reply [reply_simps]: "one_reply h (cmd_mlst e p h)"
proof -
  have "\<not> is_final (c_snprintf 1025 ('' '' @ l))" for l
    using not_final_hd [OF not_digits(1), of 1024 l] by (simp add: c_snprintf_def)
  then have "one_reply h (reply 250 ''End'' (opftp_client_send_raw (c_snprintf 1025 ('' '' @ l))
      (opftp_client_send ''250-Start of list'' (h\<lparr> h_sys := s \<rparr>))))" for l s
    by (intro one_reply_lines [OF _ final_end(2), of _ _ "[c_snprintf 1024 (''250-Start of list'' @ crlf), c_snprintf 1025 ('' '' @ l)]"])
      (use final_end(3) in simp_all)
  then show ?thesis
    by (simp add: cmd_mlst_def call_eq Let_def reply_simps split: option.split)
qed

subsection \<open>Deferred replies\<close>

definition deferred :: "'x hst \<Rightarrow> 'x hst \<Rightarrow> bool" where
  "deferred h h' \<longleftrightarrow> h_out h' = h_out h \<and> c_job (h_cl h') \<noteq> None"

lemma abor_reply: "one_reply h (cmd_abor e p h) \<or> deferred h (cmd_abor e p h)"
  by (simp add: cmd_abor_def deferred_def reply_simps split: option.split)

lemma cpto_reply: "one_reply h (cmd_cpto e p h) \<or> deferred h (cmd_cpto e p h)"
proof -
  obtain r s where r: "resolve_in_dir e p h = (r, h\<lparr> h_sys := s \<rparr>)"
    by (rule resolve_in_dirE)
  show ?thesis
    by (simp add: cmd_cpto_def r deferred_def job_new_def dispatch_job_def call_eq Let_def reply_simps
        split: option.split prod.split)
qed

definition replying_handlers :: "'x handler set" where
  "replying_handlers =
     {cmd_user, cmd_pass, cmd_quit, cmd_noop, cmd_syst, cmd_feat, cmd_help, cmd_opts, cmd_acct, cmd_allo,
      cmd_type, cmd_mode, cmd_stru, cmd_pwd, cmd_cwd, cmd_cdup, cmd_mkd, cmd_rmd, cmd_dele, cmd_rnfr,
      cmd_rnto, cmd_cpfr, cmd_site, cmd_size, cmd_mdtm, cmd_rest, cmd_stat, cmd_pasv, cmd_port, cmd_epsv,
      cmd_eprt, cmd_auth, cmd_pbsz, cmd_prot, cmd_list, cmd_nlst, cmd_mlsd, cmd_mlst, cmd_mfmt, cmd_stou,
      cmd_retr, cmd_stor, cmd_appe}"

lemma listing_replies [reply_simps]:
  "one_reply h (cmd_list e p h)" "one_reply h (cmd_nlst e p h)" "one_reply h (cmd_mlsd e p h)"
  "one_reply h (cmd_stor e p h)" "one_reply h (cmd_appe e p h)"
  by (simp_all add: cmd_list_def cmd_nlst_def cmd_mlsd_def cmd_stor_def cmd_appe_def reply_simps)

lemma replying_handlers_reply: "f \<in> replying_handlers \<Longrightarrow> one_reply h (f e p h)"
  unfolding replying_handlers_def by (elim insertE emptyE; simp only: reply_simps)

section \<open>Property\<close>

text \<open>
  C2: Reply discipline. Every built-in command, whatever its argument, the state of the client
  and the outcome of the calls it makes, sends exactly one final reply line (three digits and a
  space), after any number of continuation lines and as its last line; the exceptions are \<open>ABOR\<close>
  and \<open>CPTO\<close>, which may leave the answer to the completion of the job the client then has, and
  send nothing.
\<close>

theorem commands_reply_once:
  assumes "(name, f) \<in> set (builtin_commands allow_stop)"
  shows "one_reply h (f e param h) \<or> name \<in> {''ABOR'', ''CPTO''} \<and> deferred h (f e param h)"
proof -
  have "(name, f) = (''ABOR'', cmd_abor) \<or> (name, f) = (''CPTO'', cmd_cpto) \<or> f = cmd_stop \<or>
      f \<in> replying_handlers"
    using assms unfolding builtin_commands_def replying_handlers_def
    by (auto split: if_splits)
  then show ?thesis
    using abor_reply [of h e param] cpto_reply [of h e param] replying_handlers_reply [of f h e param]
      session_replies(11) [of h e param] by auto
qed

theorem commands_reply_once_witness:
  "(''NOOP'', cmd_noop) \<in> set (builtin_commands False) \<and>
   one_reply example_state (cmd_noop void_env None example_state)"
proof -
  have m: "(''NOOP'', cmd_noop) \<in> set (builtin_commands False)" by (simp add: builtin_commands_def)
  then show ?thesis
    using commands_reply_once [OF m, of example_state void_env None] by simp
qed

end
