(* ===== verification/Command_Steps.thy ===== *)
theory Command_Steps
  imports Command_Replies
begin

text \<open>
  The built-in handlers as a step relation. Every handler is a sequence of the elementary steps
  \<open>hstep\<close>, each with the condition under which the code takes it; what all steps keep, all
  handlers keep. The invariants of clients, jobs and the server are proved once over the steps,
  by rule induction.
\<close>

section \<open>Elementary steps\<close>

definition auth_accepts :: "'x env \<Rightarrow> string \<Rightarrow> bool" where
  "auth_accepts e user \<longleftrightarrow>
     user \<noteq> [] \<and> (case e_auth e of None \<Rightarrow> True | Some auth \<Rightarrow> \<exists>pass s. fst (auth user pass s))"

text \<open>A job is handed to the queue: the client gets the reference and the job, and gives up what
  \<open>f\<close> takes from it.\<close>

definition launch :: "(client \<Rightarrow> client) \<Rightarrow> job \<Rightarrow> 'x hst \<Rightarrow> 'x hst" where
  "launch f j h =
     (let jid = s_next_job (h_srv h) in
      upd_cl (\<lambda>c. f (c\<lparr> c_refs := c_refs c + 1, c_job := Some jid \<rparr>))
        (upd_srv (\<lambda>s. s\<lparr> s_ring := snd (opftp_job_dispatch jid (s_ring s)),
                         s_jobs := (s_jobs s)(jid \<mapsto> j), s_next_job := jid + 1 \<rparr>) h))"

definition fresh_job :: "'x hst \<Rightarrow> job \<Rightarrow> bool" where
  "fresh_job h j \<longleftrightarrow>
     j_client j = h_id h \<and> j_generation j = c_generation (h_cl h) \<and> j_data_fd j = -1 \<and>
     \<not> j_conn_ok j \<and> c_job (h_cl h) = None \<and>
     fst (opftp_job_dispatch (s_next_job (h_srv h)) (s_ring (h_srv h))) = None"

definition hand_over :: "client \<Rightarrow> client" where
  "hand_over c = c\<lparr> c_pasv_fd := -1, c_have_data_peer := False, c_rest := 0 \<rparr>"

inductive hstep :: "'x env \<Rightarrow> 'x hst \<Rightarrow> 'x hst \<Rightarrow> bool" for e where
  Sys: "hstep e h (h\<lparr> h_sys := s \<rparr>)"
| Out: "hstep e h (opftp_client_send_raw l h)"
| Close_own: "hstep e h (opftp_close_fd e fd h)"
| User: "length u < 256 \<Longrightarrow> hstep e h (upd_cl (\<lambda>c. c\<lparr> c_user := u \<rparr>) h)"
| Login: "auth_accepts e (c_user (h_cl h)) \<Longrightarrow> hstep e h (upd_cl (\<lambda>c. c\<lparr> c_logged_in := True \<rparr>) h)"
| Leave: "hstep e h (upd_cl (\<lambda>c. c\<lparr> c_disconnect_requested := True \<rparr>) h)"
| Cwd: "resolve_param h p = Some path \<Longrightarrow>
    hstep e h (upd_cl (\<lambda>c. c\<lparr> c_cwd := visible_cwd (s_root (h_srv h)) path \<rparr>) h)"
| Rnfr: "resolve_param h p = Some path \<Longrightarrow>
    hstep e h (upd_cl (\<lambda>c. c\<lparr> c_rnfr := c_snprintf OPFTP_MAX_PATH path, c_have_rnfr := True \<rparr>) h)"
| Rnfr_used: "hstep e h (upd_cl (\<lambda>c. c\<lparr> c_have_rnfr := False \<rparr>) h)"
| Cpfr: "resolve_param h p = Some path \<Longrightarrow>
    hstep e h (upd_cl (\<lambda>c. c\<lparr> c_cpfr := c_snprintf OPFTP_MAX_PATH path, c_have_cpfr := True \<rparr>) h)"
| Cpfr_used: "hstep e h (upd_cl (\<lambda>c. c\<lparr> c_have_cpfr := False \<rparr>) h)"
| Rest: "hstep e h (upd_cl (\<lambda>c. c\<lparr> c_rest := v \<rparr>) h)"
| Stop: "s_allow_stop (h_srv h) \<Longrightarrow> hstep e h (upd_srv (\<lambda>s. s\<lparr> s_stopping := True \<rparr>) h)"
| Tls_input: "hstep e h (upd_cl (\<lambda>c. c\<lparr> c_rbuf := [] \<rparr>) h)"
| Tls_start: "s_has_tls (h_srv h) \<Longrightarrow> c_tls (h_cl h) = None \<Longrightarrow>
    hstep e h (upd_cl (\<lambda>c. c\<lparr> c_tls := Some t, c_tls_handshaking := True \<rparr>) h)"
| Poll: "hstep e h (poll_mod_client ev h)"
| Prot: "c_tls (h_cl h) \<noteq> None \<Longrightarrow> hstep e h (upd_cl (\<lambda>c. c\<lparr> c_tls_prot := b \<rparr>) h)"
| Drop_pasv: "hstep e h (drop_pasv e h)"
| Listen: "c_pasv_fd (h_cl h) < 0 \<Longrightarrow>
    hstep e h (upd_cl (\<lambda>c. c\<lparr> c_pasv_fd := fd, c_have_data_peer := False \<rparr>) h)"
| Peer: "hstep e h (upd_cl (\<lambda>c. c\<lparr> c_data_peer := a \<rparr>) h)"
| Peer_set: "hstep e h (set_data_peer e a h)"
| Stou: "hstep e h (upd_srv (\<lambda>s. s\<lparr> s_stou_seq := f s \<rparr>) h)"
| Abor: "c_job (h_cl h) = Some jid \<Longrightarrow>
    hstep e h (upd_cl (\<lambda>c. c\<lparr> c_abor_pending := True \<rparr>) (upd_srv (cancel_job jid) h))"
| Transfer: "fresh_job h j \<Longrightarrow> j_op j \<noteq> OPFTP_JOB_COPY \<Longrightarrow>
    opftp_datachan_precheck (h_srv h) (h_cl h) = None \<Longrightarrow>
    \<exists>p path. resolve_param h p = Some path \<and> j_path j = c_snprintf OPFTP_MAX_PATH path \<Longrightarrow>
    j_pasv_fd j = c_pasv_fd (h_cl h) \<Longrightarrow> j_data_peer j = c_data_peer (h_cl h) \<Longrightarrow>
    j_have_data_peer j = c_have_data_peer (h_cl h) \<Longrightarrow> j_ctl_peer j = c_peer (h_cl h) \<Longrightarrow>
    hstep e h (launch hand_over j h)"
| Copy: "fresh_job h j \<Longrightarrow> c_have_cpfr (h_cl h) \<Longrightarrow> j_op j = OPFTP_JOB_COPY \<Longrightarrow> j_pasv_fd j = -1 \<Longrightarrow> \<not> j_have_data_peer j \<Longrightarrow>
    \<exists>p path. resolve_param h p = Some path \<and> j_dst j = c_snprintf OPFTP_MAX_PATH path \<Longrightarrow>
    j_path j = c_snprintf OPFTP_MAX_PATH (c_cpfr (h_cl h)) \<Longrightarrow>
    hstep e h (launch (\<lambda>c. c\<lparr> c_have_cpfr := False \<rparr>) j h)"
| Give_up: "hstep e h (upd_cl (\<lambda>c. c\<lparr> c_pasv_fd := -1, c_have_data_peer := False \<rparr>)
    (close_if_open e (c_pasv_fd (h_cl h)) h))"

abbreviation hsteps :: "'x env \<Rightarrow> 'x hst \<Rightarrow> 'x hst \<Rightarrow> bool" where
  "hsteps e \<equiv> (hstep e)\<^sup>*\<^sup>*"

named_theorems step_simps

lemma hsteps_then: "hsteps e h h' \<Longrightarrow> hstep e h' h'' \<Longrightarrow> hsteps e h h''"
  by (rule rtranclp.rtrancl_into_rtrancl)

lemmas hsteps_intros [step_simps] =
  hsteps_then [OF _ Sys] hsteps_then [OF _ Out] hsteps_then [OF _ Close_own] hsteps_then [OF _ Leave]
  hsteps_then [OF _ Rnfr_used] hsteps_then [OF _ Cpfr_used] hsteps_then [OF _ Rest]
  hsteps_then [OF _ Tls_input] hsteps_then [OF _ Poll] hsteps_then [OF _ Drop_pasv]
  hsteps_then [OF _ Peer] hsteps_then [OF _ Peer_set] hsteps_then [OF _ Stou]
  hsteps_then [OF _ User] hsteps_then [OF _ Login] hsteps_then [OF _ Prot] hsteps_then [OF _ Stop]

lemma hsteps_send [step_simps]:
  "hsteps e h h' \<Longrightarrow> hsteps e h (reply n m h')" "hsteps e h h' \<Longrightarrow> hsteps e h (opftp_client_send m h')"
  "hsteps e h h' \<Longrightarrow> hsteps e h (reply_fs_error h')"
  by (simp_all add: opftp_client_send_reply_def opftp_client_send_def reply_fs_error_def hsteps_intros)

lemma hsteps_fold_send: "hsteps e h h' \<Longrightarrow> hsteps e h (fold opftp_client_send ls h')"
  by (induction ls arbitrary: h') (simp_all add: hsteps_send)

section \<open>The handlers as sequences of steps\<close>

lemma session_steps [step_simps]:
  "hsteps e h (cmd_user e p h)" "hsteps e h (cmd_quit e p h)"
  "hsteps e h (cmd_noop e p h)" "hsteps e h (cmd_syst e p h)" "hsteps e h (cmd_help e p h)"
  "hsteps e h (cmd_opts e p h)" "hsteps e h (cmd_acct e p h)" "hsteps e h (cmd_allo e p h)"
  "hsteps e h (cmd_mode e p h)" "hsteps e h (cmd_stru e p h)"
  "hsteps e h (cmd_type e p h)" "hsteps e h (cmd_pbsz e p h)" "hsteps e h (cmd_prot e p h)"
  "hsteps e h (cmd_feat e p h)"
  by (simp_all add: cmd_user_def cmd_quit_def cmd_noop_def cmd_syst_def cmd_help_def
      cmd_opts_def cmd_acct_def cmd_allo_def cmd_mode_def cmd_stru_def cmd_type_def
      cmd_pbsz_def cmd_prot_def cmd_feat_def Let_def step_simps hsteps_fold_send c_snprintf_def
      split: option.split list.split)

lemma stop_steps [step_simps]: "s_allow_stop (h_srv h) \<Longrightarrow> hsteps e h (cmd_stop e p h)"
  by (simp add: cmd_stop_def step_simps)

lemma rest_steps [step_simps]: "hsteps e h (cmd_rest e p h)"
  by (simp add: cmd_rest_def step_simps split: option.split prod.split list.split)

lemma pass_steps [step_simps]: "hsteps e h (cmd_pass e p h)"
proof -
  have "auth_accepts e (c_user (h_cl h))" if "c_user (h_cl h) \<noteq> []" "e_auth e = None"
    using that by (simp add: auth_accepts_def)
  moreover have "auth_accepts e (c_user (h_cl h))"
    if "c_user (h_cl h) \<noteq> []" "e_auth e = Some f" "f (c_user (h_cl h)) q (h_sys h) = (True, s)" for f q s
  proof -
    from that(3) have "fst (f (c_user (h_cl h)) q (h_sys h))" by simp
    then have "\<exists>q s. fst (f (c_user (h_cl h)) q s)" by blast
    with that(1,2) show ?thesis by (simp add: auth_accepts_def)
  qed
  ultimately show ?thesis
    by (auto simp: cmd_pass_def Let_def step_simps split: option.split prod.split)
qed

lemma auth_steps [step_simps]: "hsteps e h (cmd_auth e p h)"
  by (simp add: cmd_auth_def opftp_client_start_tls_def call_eq Let_def step_simps
      hsteps_then [OF _ Tls_start] split: option.split)

lemma simple_file_steps [step_simps]:
  "hsteps e h (cmd_pwd e p h)" "hsteps e h (cmd_rmd e p h)" "hsteps e h (cmd_dele e p h)"
  "hsteps e h (cmd_size e p h)" "hsteps e h (cmd_mdtm e p h)" "hsteps e h (cmd_mfmt e p h)"
  "hsteps e h (cmd_mlst e p h)"
  by (simp_all add: cmd_pwd_def cmd_rmd_def cmd_dele_def cmd_size_def cmd_mdtm_def cmd_mfmt_def
      cmd_mlst_def call_eq Let_def step_simps split: option.split)

lemma hsteps_path:
  assumes "hsteps e h h'" "resolve_param h p = Some path" "h_srv h' = h_srv h" "h_cl h' = h_cl h"
  shows "hsteps e h (upd_cl (\<lambda>c. c\<lparr> c_cwd := visible_cwd (s_root (h_srv h)) path \<rparr>) h')"
    "hsteps e h (upd_cl (\<lambda>c. c\<lparr> c_rnfr := c_snprintf OPFTP_MAX_PATH path, c_have_rnfr := True \<rparr>) h')"
    "hsteps e h (upd_cl (\<lambda>c. c\<lparr> c_cpfr := c_snprintf OPFTP_MAX_PATH path, c_have_cpfr := True \<rparr>) h')"
  using hsteps_then [OF assms(1) Cwd] hsteps_then [OF assms(1) Rnfr] hsteps_then [OF assms(1) Cpfr] assms(2-4)
  by simp_all

lemma cwd_steps [step_simps]: "hsteps e h (cmd_cwd e p h)"
  by (simp add: cmd_cwd_def call_eq step_simps hsteps_path [of e h _ p] split: option.split)

lemma cdup_steps [step_simps]: "hsteps e h (cmd_cdup e p h)"
  by (simp add: cmd_cdup_def cwd_steps)

lemma from_steps [step_simps]: "hsteps e h (cmd_rnfr e p h)" "hsteps e h (cmd_cpfr e p h)"
  by (simp_all add: cmd_rnfr_def cmd_cpfr_def call_eq Let_def step_simps hsteps_path [of e h _ p] split: option.split)

lemma in_dir_steps [step_simps]: "hsteps e h (cmd_mkd e p h)" "hsteps e h (cmd_rnto e p h)"
proof -
  obtain r s where r: "resolve_in_dir e p h = (r, h\<lparr> h_sys := s \<rparr>)"
    by (rule resolve_in_dirE)
  show "hsteps e h (cmd_mkd e p h)" "hsteps e h (cmd_rnto e p h)"
    by (simp_all add: cmd_mkd_def cmd_rnto_def r call_eq step_simps split: option.split)
qed

lemma site_steps [step_simps]: "hsteps e h (cmd_site e p h)"
proof -
  have "hsteps e h (site_chmod e q h)" for q
    by (simp add: site_chmod_def call_eq step_simps
      split: option.split prod.split list.split char.split bool.split)
  moreover have "hsteps e h (site_utime e q h)" for q
    by (simp add: site_utime_def call_eq Let_def step_simps split: option.split)
  ultimately show ?thesis by (simp add: cmd_site_def step_simps split: option.split)
qed

lemma port_steps [step_simps]: "hsteps e h (cmd_port e p h)" "hsteps e h (cmd_eprt e p h)"
  by (simp_all add: cmd_port_def cmd_eprt_def Let_def step_simps split: option.split prod.split)

lemma abor_steps [step_simps]: "hsteps e h (cmd_abor e p h)"
  by (auto simp: cmd_abor_def step_simps intro: r_into_rtranclp Abor split: option.split)

lemma stat_entries_steps: "hsteps e h h' \<Longrightarrow> hsteps e h (stat_entries n e dir h')"
  by (induction n e dir h' rule: stat_entries.induct) (auto simp: call_eq step_simps split: option.split)

lemma stat_steps [step_simps]: "hsteps e h (cmd_stat e p h)"
  by (simp add: cmd_stat_def call_eq Let_def step_simps stat_entries_steps split: option.split)

lemma pasv_fd_drop: "c_pasv_fd (h_cl (drop_pasv e h)) < 0"
  by (simp add: drop_pasv_def)

lemma hsteps_open_listener:
  "(\<And>r s. hsteps e h (k r (h'\<lparr> h_sys := s \<rparr>))) \<Longrightarrow>
   hsteps e h (case open_listener e fd a h' of (r, h'') \<Rightarrow> k r h'')"
  by (auto simp: sys_only_def dest!: open_listener_sys split: prod.split)

lemma hsteps_listen:
  "hsteps e h h' \<Longrightarrow> c_pasv_fd (h_cl h') < 0 \<Longrightarrow>
   hsteps e h (upd_cl (\<lambda>c. c\<lparr> c_pasv_fd := fd, c_have_data_peer := False \<rparr>) h')"
  by (rule hsteps_then [OF _ Listen])

lemma pasv_steps [step_simps]: "hsteps e h (cmd_pasv e p h)"
  by (auto simp: cmd_pasv_def local_ipv4_def call_eq Let_def step_simps hsteps_listen pasv_fd_drop
      intro!: hsteps_open_listener split: option.split sockaddr.split)

lemma epsv_steps [step_simps]: "hsteps e h (cmd_epsv e p h)"
  by (auto simp: cmd_epsv_def call_eq Let_def step_simps hsteps_listen pasv_fd_drop
      intro!: hsteps_open_listener split: option.split)

subsection \<open>Jobs\<close>

lemma job_free_undo:
  assumes "0 < c_refs (h_cl h)"
  shows "job_free e j (upd_cl (\<lambda>c. c\<lparr> c_pasv_fd := -1, c_have_data_peer := False \<rparr>)
      (upd_cl (\<lambda>c. c\<lparr> c_refs := c_refs c + 1 \<rparr>) h)) =
    upd_cl (\<lambda>c. c\<lparr> c_pasv_fd := -1, c_have_data_peer := False \<rparr>) (close_if_open e (j_pasv_fd j) (close_pipe e j h))"
    "job_free e j (upd_cl (\<lambda>c. c\<lparr> c_refs := c_refs c + 1 \<rparr>) h) = close_if_open e (j_pasv_fd j) (close_pipe e j h)"
  using assms
  by (simp_all add: job_free_def release_ref_def close_if_open_def close_pipe_def opftp_close_fd_def upd_cl_def Let_def)

lemma hsteps_give_up:
  assumes "hsteps e h h'"
  shows "hsteps e h (upd_cl (\<lambda>c. c\<lparr> c_pasv_fd := -1, c_have_data_peer := False \<rparr>)
      (close_if_open e (c_pasv_fd (h_cl h')) (close_pipe e j h')))"
proof -
  have "hsteps e h (close_pipe e j h')" by (simp add: close_pipe_def step_simps assms)
  from hsteps_then [OF this Give_up] show ?thesis by simp
qed

definition transfer_job :: "client \<Rightarrow> string \<Rightarrow> bool \<Rightarrow> bool \<Rightarrow> job \<Rightarrow> job" where
  "transfer_job c path nlst mlsd j =
     j\<lparr> j_nlst := nlst, j_mlsd := mlsd, j_rest := c_rest c, j_need_tls := c_tls_prot c,
        j_path := c_snprintf OPFTP_MAX_PATH path, j_pasv_fd := c_pasv_fd c,
        j_data_peer := c_data_peer c, j_have_data_peer := c_have_data_peer c, j_ctl_peer := c_peer c \<rparr>"

lemma start_job_cases:
  fixes h :: "'x hst" and e :: "'x env"
  assumes "hsteps e h0 h"
  obtains (fail) h1 where "job_new e op h = (None, h1)" "hsteps e h0 h1"
  | (made) j h1 where "job_new e op h = (Some j, upd_cl (\<lambda>c. c\<lparr> c_refs := c_refs c + 1 \<rparr>) h1)"
      "hsteps e h0 h1" "sys_only h h1" "j_client j = h_id h" "j_generation j = c_generation (h_cl h)" "j_op j = op"
      "j_data_fd j = -1" "j_pasv_fd j = -1" "\<not> j_have_data_peer j" "\<not> j_conn_ok j"
proof -
  let ?h1 = "h\<lparr> h_sys := snd (e_calloc e (h_sys h)) \<rparr>"
  let ?h2 = "h\<lparr> h_sys := snd (e_pipe e (snd (e_calloc e (h_sys h)))) \<rparr>"
  have s: "hsteps e h0 ?h1" "hsteps e h0 ?h2" by (simp_all add: step_simps assms)
  have so: "sys_only h ?h2" by (auto simp: sys_only_def)
  show thesis
  proof (cases "fst (e_calloc e (h_sys h))")
    case None
    with fail [of ?h1] s(1) show thesis by (simp add: job_new_def call_eq)
  next
    case (Some a)
    show thesis
    proof (cases "fst (e_pipe e (snd (e_calloc e (h_sys h))))")
      case None
      with fail [of ?h2] s(2) Some show thesis by (simp add: job_new_def call_eq)
    next
      case (Some pipe)
      obtain pr pw where "pipe = (pr, pw)" by force
      with \<open>fst (e_calloc e (h_sys h)) = Some a\<close> Some show thesis
        using s(2) so by (intro made [of _ ?h2]) (auto simp: job_new_def call_eq)
    qed
  qed
qed

lemma dispatch_cases:
  obtains (full) "dispatch_job j h = (None, h)"
  | (queued) "fst (opftp_job_dispatch (s_next_job (h_srv h)) (s_ring (h_srv h))) = None"
      "dispatch_job j h = (Some (s_next_job (h_srv h)),
         upd_srv (\<lambda>s. s\<lparr> s_ring := snd (opftp_job_dispatch (s_next_job (h_srv h)) (s_ring (h_srv h))),
           s_jobs := (s_jobs s)(s_next_job (h_srv h) \<mapsto> j), s_next_job := s_next_job (h_srv h) + 1 \<rparr>) h)"
proof (cases "opftp_job_dispatch (s_next_job (h_srv h)) (s_ring (h_srv h))")
  case (Pair r ring)
  show thesis
  proof (cases r)
    case None
    with Pair show thesis by (intro queued) (simp_all add: dispatch_job_def Let_def)
  next
    case (Some err)
    with Pair show thesis by (intro full) (simp add: dispatch_job_def Let_def)
  qed
qed

lemma start_transfer_steps:
  assumes "hsteps e h h'" "0 < c_refs (h_cl h')" "op \<noteq> OPFTP_JOB_COPY" "resolve_param h' p = Some path"
  shows "hsteps e h (start_transfer e op path nlst mlsd r h')"
proof (cases "c_job (h_cl h') \<noteq> None \<or> opftp_datachan_precheck (h_srv h') (h_cl h') \<noteq> None \<or>
    c_pasv_fd (h_cl h') < 0 \<and> \<not> c_have_data_peer (h_cl h')")
  case True
  with assms(1) show ?thesis by (auto simp: start_transfer_def step_simps)
next
  case ready: False
  show ?thesis
  proof (rule start_job_cases [OF assms(1), of op], goal_cases fail made)
    case (fail h1)
    with ready show ?thesis by (auto simp: start_transfer_def step_simps)
  next
    case (made j0 h1)
    note same = sys_onlyD [OF made(3)]
    let ?j = "transfer_job (h_cl h') path nlst mlsd j0"
    let ?h2 = "upd_cl (\<lambda>c. c\<lparr> c_pasv_fd := -1, c_have_data_peer := False \<rparr>)
        (upd_cl (\<lambda>c. c\<lparr> c_refs := c_refs c + 1 \<rparr>) h1)"
    have st: "start_transfer e op path nlst mlsd r h' =
        (case dispatch_job ?j ?h2 of
           (None, h) \<Rightarrow> reply 425 R425 (job_free e ?j h)
         | (Some jid, h) \<Rightarrow> reply 150 (case r of Some r \<Rightarrow> r | None \<Rightarrow> R150)
             (upd_cl (\<lambda>c. c\<lparr> c_job := Some jid, c_rest := 0 \<rparr>) h))"
      using ready made(1)
      by (auto simp: start_transfer_def transfer_job_def Let_def same cong: option.case_cong prod.case_cong)
    show ?thesis
    proof (rule dispatch_cases [of ?j ?h2], goal_cases full queued)
      case full
      have "j_pasv_fd ?j = c_pasv_fd (h_cl h1)" by (simp add: transfer_job_def same)
      moreover have "job_free e ?j ?h2 = upd_cl (\<lambda>c. c\<lparr> c_pasv_fd := -1, c_have_data_peer := False \<rparr>)
          (close_if_open e (j_pasv_fd ?j) (close_pipe e ?j h1))"
        by (rule job_free_undo(1)) (simp add: same assms(2))
      ultimately show ?thesis
        unfolding st full using hsteps_give_up [OF made(2), of ?j] by (simp add: step_simps)
    next
      case queued
      have "launch hand_over ?j h1 = upd_cl (\<lambda>c. c\<lparr> c_job := Some (s_next_job (h_srv ?h2)), c_rest := 0 \<rparr>)
          (snd (dispatch_job ?j ?h2))"
        unfolding queued(2) by (simp add: launch_def hand_over_def upd_cl_def upd_srv_def Let_def)
      moreover have "hstep e h1 (launch hand_over ?j h1)"
        using queued(1) ready assms(3,4) made(4-) 
        by (intro Transfer) (auto simp: fresh_job_def transfer_job_def same)
      ultimately show ?thesis
        using queued(2) made(2) unfolding st by (simp add: step_simps hsteps_then)
    qed
  qed
qed

lemma listing_steps [step_simps]:
  assumes "0 < c_refs (h_cl h)"
  shows "hsteps e h (start_listing e p nlst mlsd h)" "hsteps e h (cmd_retr e p h)"
    "op \<noteq> OPFTP_JOB_COPY \<Longrightarrow> hsteps e h (start_store e op p h)"
proof -
  have st: "hsteps e h (start_transfer e op path nlst mlsd r (h\<lparr> h_sys := s \<rparr>))"
    if "resolve_param h q = Some path" "op \<noteq> OPFTP_JOB_COPY" for q op path nlst mlsd r s
    by (rule start_transfer_steps [of _ _ _ _ q]) (use assms that in \<open>simp_all add: step_simps\<close>)
  show "hsteps e h (start_listing e p nlst mlsd h)" "hsteps e h (cmd_retr e p h)"
    by (simp_all add: start_listing_def cmd_retr_def call_eq step_simps st split: option.split)
  show "hsteps e h (start_store e op p h)" if op: "op \<noteq> OPFTP_JOB_COPY"
  proof (cases "resolve_param h p")
    case None
    then show ?thesis by (simp add: start_store_def step_simps)
  next
    case (Some path)
    obtain b s where "parent_is_dir e path h = (b, h\<lparr> h_sys := s \<rparr>)" by (rule parent_is_dirE)
    with Some op show ?thesis by (simp add: start_store_def step_simps st split: bool.split)
  qed
qed

lemma stou_search_steps:
  "stou_search n e h' = (r, h'') \<Longrightarrow> hsteps e h h' \<Longrightarrow>
   hsteps e h h'' \<and> h_cl h'' = h_cl h' \<and> s_root (h_srv h'') = s_root (h_srv h') \<and>
   (\<forall>name. r = Inr name \<longrightarrow> (\<exists>p. resolve_param h'' p = Some name))"
proof (induction n e h' arbitrary: r h'' rule: stou_search.induct)
  case (2 n e h')
  define h1 where "h1 = upd_srv (\<lambda>s. s\<lparr> s_stou_seq := s_stou_seq s + 1 \<rparr>) h'"
  define rel where "rel = c_snprintf 32 (''ftp'' @ zero_pad 6 (u_dec (s_stou_seq (h_srv h'))))"
  have h1: "hsteps e h h1" "h_cl h1 = h_cl h'" "s_root (h_srv h1) = s_root (h_srv h')"
    using 2(3) by (simp_all add: h1_def step_simps)
  have u: "stou_search (Suc n) e h' =
      (case resolve_param h1 (Some rel) of
         None \<Rightarrow> (Inl (550, R550), h1)
       | Some name \<Rightarrow>
           (case call (fs_stat (e_fs e) name) h1 of
              (st, h) \<Rightarrow> if st = None \<and> errno_of h = ENOENT then (Inr name, h) else stou_search n e h))"
    unfolding stou_search.simps Let_def h1_def [symmetric] rel_def [symmetric] by (rule refl)
  show ?case
  proof (cases "resolve_param h1 (Some rel)")
    case None
    with 2(2) h1 show ?thesis unfolding u by auto
  next
    case (Some name)
    define h2 where "h2 = h1\<lparr> h_sys := snd (fs_stat (e_fs e) name (h_sys h1)) \<rparr>"
    have h2: "hsteps e h h2" "h_cl h2 = h_cl h'" "s_root (h_srv h2) = s_root (h_srv h')"
      "resolve_param h2 (Some rel) = Some name"
      using h1 Some by (simp_all add: h2_def step_simps)
    have c: "call (fs_stat (e_fs e) name) h1 = (fst (fs_stat (e_fs e) name (h_sys h1)), h2)"
      by (simp add: h2_def call_eq)
    show ?thesis
    proof (cases "fst (fs_stat (e_fs e) name (h_sys h1)) = None \<and> errno_of h2 = ENOENT")
      case True
      with 2(2) Some c h2 show ?thesis unfolding u by auto
    next
      case False
      have "stou_search n e h2 = (r, h'')" using 2(2) False Some c unfolding u by auto
      moreover note IH = 2(1) [OF rel_def h1_def Some c [symmetric] False]
      ultimately show ?thesis using h2 by auto
    qed
  qed
qed auto

lemma stou_steps [step_simps]:
  assumes "0 < c_refs (h_cl h)"
  shows "hsteps e h (cmd_stou e p h)"
proof -
  define h1 where "h1 = (if s_stou_seq (h_srv h) = 0 then
      (case e_time e (h_sys h) of
         (t, s) \<Rightarrow> upd_srv (\<lambda>v. v\<lparr> s_stou_seq := word_of_int t mod 1000000 \<rparr>) (h\<lparr> h_sys := s \<rparr>)) else h)"
  have h1: "hsteps e h h1" "h_cl h1 = h_cl h"
    by (simp_all add: h1_def step_simps split: prod.split)
  obtain r h2 where r: "stou_search 10 e h1 = (r, h2)" by force
  note h2 = stou_search_steps [OF r h1(1)]
  have "hsteps e h (start_transfer e OPFTP_JOB_STOR name False False x h2)" if "r = Inr name" for name x
  proof -
    from h2 that obtain q where "resolve_param h2 q = Some name" by blast
    with h1 h2 assms show ?thesis by (intro start_transfer_steps) auto
  qed
  with h2 show ?thesis
    unfolding cmd_stou_def h1_def [symmetric] Let_def r by (simp add: step_simps split: sum.split prod.split)
qed

lemma cpto_steps [step_simps]:
  assumes "0 < c_refs (h_cl h)"
  shows "hsteps e h (cmd_cpto e p h)"
proof (cases "\<not> c_have_cpfr (h_cl h) \<or> c_job (h_cl h) \<noteq> None")
  case True
  then show ?thesis by (auto simp: cmd_cpto_def step_simps)
next
  case idle: False
  obtain r s where r: "resolve_in_dir e p h = (r, h\<lparr> h_sys := s \<rparr>)" by (rule resolve_in_dirE)
  define h1 where "h1 = upd_cl (\<lambda>c. c\<lparr> c_have_cpfr := False \<rparr>) (h\<lparr> h_sys := s \<rparr>)"
  have h1: "hsteps e h h1" by (simp add: h1_def step_simps)
  show ?thesis
  proof (cases r)
    case None
    then show ?thesis using idle by (simp add: cmd_cpto_def r step_simps)
  next
    case (Some path)
    have path: "resolve_param h1 p = Some path"
      using r Some by (auto simp: resolve_in_dir_def h1_def resolve_arg_def split: option.splits prod.splits bool.splits)
    then have path0: "resolve_param h p = Some path"
      by (simp add: h1_def resolve_arg_def cong: option.case_cong if_cong)
    let ?j = "\<lambda>j. j\<lparr> j_path := c_snprintf OPFTP_MAX_PATH (c_cpfr (h_cl h1)), j_dst := c_snprintf OPFTP_MAX_PATH path \<rparr>"
    have cp: "cmd_cpto e p h =
        (if c_cpfr (h_cl h1) = path then reply 550 ''Source and destination are the same file.'' h1
         else if path_is_under path (c_cpfr (h_cl h1))
         then reply 550 ''Destination is inside the source directory.'' h1
         else (case job_new e OPFTP_JOB_COPY h1 of
                 (None, h) \<Rightarrow> reply 451 R451 h
               | (Some j, h) \<Rightarrow>
                   (case dispatch_job (?j j) h of
                      (None, h) \<Rightarrow> reply 451 R451 (job_free e (?j j) h)
                    | (Some jid, h) \<Rightarrow> upd_cl (\<lambda>c. c\<lparr> c_job := Some jid \<rparr>) h)))"
      using idle Some by (simp add: cmd_cpto_def r h1_def Let_def cong: option.case_cong prod.case_cong)
    show ?thesis
    proof (rule start_job_cases [OF h1, of OPFTP_JOB_COPY], goal_cases fail made)
      case (fail h2)
      with h1 show ?thesis unfolding cp by (simp add: step_simps)
    next
      case (made j0 h2)
      note same = sys_onlyD [OF made(3)]
      let ?h3 = "upd_cl (\<lambda>c. c\<lparr> c_refs := c_refs c + 1 \<rparr>) h2"
      have "hsteps e h (case dispatch_job (?j j0) ?h3 of
                      (None, h) \<Rightarrow> reply 451 R451 (job_free e (?j j0) h)
                    | (Some jid, h) \<Rightarrow> upd_cl (\<lambda>c. c\<lparr> c_job := Some jid \<rparr>) h)"
      proof (rule dispatch_cases [of "?j j0" ?h3], goal_cases full queued)
        case full
        have "job_free e (?j j0) ?h3 = close_if_open e (j_pasv_fd (?j j0)) (close_pipe e (?j j0) h2)"
          by (rule job_free_undo(2)) (simp add: same h1_def assms)
        with full made(2,8) show ?thesis
          by (simp add: close_if_open_def close_pipe_def step_simps)
      next
        case queued
        obtain s2 where "h2 = h1\<lparr> h_sys := s2 \<rparr>" using made(3) by (auto simp: sys_only_def)
        then have h2: "h2 = upd_cl (\<lambda>c. c\<lparr> c_have_cpfr := False \<rparr>) (h\<lparr> h_sys := s2 \<rparr>)"
          by (simp add: h1_def upd_cl_def)
        let ?h0 = "h\<lparr> h_sys := s2 \<rparr>"
        have "launch (\<lambda>c. c\<lparr> c_have_cpfr := False \<rparr>) (?j j0) ?h0 =
            upd_cl (\<lambda>c. c\<lparr> c_job := Some (s_next_job (h_srv ?h3)) \<rparr>) (snd (dispatch_job (?j j0) ?h3))"
          unfolding queued(2) by (simp add: launch_def h2 upd_cl_def upd_srv_def Let_def)
        moreover have "hstep e ?h0 (launch (\<lambda>c. c\<lparr> c_have_cpfr := False \<rparr>) (?j j0) ?h0)"
          using queued(1) idle made(4-) path0
          by (intro Copy) (auto simp: fresh_job_def same h1_def)
        moreover have "hsteps e h ?h0" by (simp add: step_simps)
        ultimately show ?thesis
          using queued(2) by (simp add: hsteps_then)
      qed
      with made(1) h1 show ?thesis unfolding cp by (simp add: step_simps)
    qed
  qed
qed

text \<open>Every built-in handler is a sequence of steps.\<close>

theorem builtin_steps:
  assumes "(name, f) \<in> set (builtin_commands (s_allow_stop (h_srv h)))" "0 < c_refs (h_cl h)"
  shows "hsteps e h (f e p h)"
proof -
  have "f \<in> {cmd_abor, cmd_cpto} \<union> replying_handlers \<or> f = cmd_stop \<and> s_allow_stop (h_srv h)"
    using assms(1) unfolding builtin_commands_def replying_handlers_def by (auto split: if_splits)
  moreover have "hsteps e h (f e p h)" if "f \<in> replying_handlers"
    using that assms(2) unfolding replying_handlers_def
    by (elim insertE emptyE) (simp_all add: step_simps cmd_list_def cmd_nlst_def cmd_mlsd_def cmd_stor_def cmd_appe_def)
  ultimately show ?thesis
    using abor_steps cpto_steps [OF assms(2)] stop_steps by auto
qed

end
