(* ===== verification/Client_Io.thy ===== *)
theory Client_Io
  imports Server_State
begin

text \<open>
  Control connection input and output of \<^verbatim>\<open>src/src/client.c\<close>: filling the read buffer
  (\<open>opftp_client_read\<close>), cutting it into lines (\<open>opftp_client_getline\<close>) and writing a line to the
  socket (the loop of \<open>opftp_client_send_raw\<close>).

  The buffer of a client is the string of its unconsumed bytes, \<open>rbuf[rpos..rlen)\<close>; shifting the
  rest to the front is then the identity. Sockets and TLS sessions are parameters. The line
  splitter is shown independent of how the network cuts the stream into pieces.
\<close>

section \<open>Definitions\<close>

abbreviation OPFTP_RBUF :: nat where "OPFTP_RBUF \<equiv> 4096"

lemma line_shorter: "length (takeWhile P b) \<noteq> length b \<Longrightarrow> length b - Suc n < length b"
  by (cases b) auto

text \<open>What \<open>opftp_tls_read\<close> and \<open>opftp_tls_write\<close> return: data or a count, or which way to wait.\<close>

datatype 'r tls_io = Tls_done 'r | Tls_want_read | Tls_want_write | Tls_error

text \<open>What \<open>opftp_tls_handshake\<close> and \<open>opftp_tls_close_notify\<close> return.\<close>

datatype handshake_result = Hs_done | Hs_want_read | Hs_want_write | Hs_error

text \<open>The transport below a control connection. \<open>cio_poll\<close> is true when the descriptor became
  ready within the second it is given.\<close>

record 'x cio =
  cio_recv :: "int \<Rightarrow> nat \<Rightarrow> ('x, string) fs_op"
  cio_tls_read :: "nat \<Rightarrow> nat \<Rightarrow> 'x sys \<Rightarrow> string tls_io \<times> 'x sys"
  cio_send :: "int \<Rightarrow> string \<Rightarrow> ('x, nat) fs_op"
  cio_tls_write :: "nat \<Rightarrow> string \<Rightarrow> 'x sys \<Rightarrow> nat tls_io \<times> 'x sys"
  cio_poll :: "int \<Rightarrow> bool \<Rightarrow> 'x sys \<Rightarrow> bool \<times> 'x sys"

text \<open>Results of \<open>opftp_client_read\<close>: a positive count, 0, -2 and -1.\<close>

datatype read_result = Read_bytes nat | Read_eof | Read_again | Read_error

definition would_block :: "errno \<Rightarrow> bool" where
  "would_block err \<longleftrightarrow> err = EAGAIN"

definition opftp_client_read :: "'x cio \<Rightarrow> client \<Rightarrow> 'x sys \<Rightarrow> read_result \<times> client \<times> 'x sys" where
  "opftp_client_read io c s =
     (let room = OPFTP_RBUF - length (c_rbuf c) in
      if length (c_rbuf c) \<ge> OPFTP_RBUF then (Read_error, c, s)
      else
        (case (if c_tls_handshaking c then None else c_tls c) of
           Some t \<Rightarrow>
             (case cio_tls_read io t room s of
                (Tls_done bs, s) \<Rightarrow>
                  if bs \<noteq> [] then (Read_bytes (length bs), c\<lparr> c_rbuf := c_rbuf c @ bs \<rparr>, s)
                  else (Read_eof, c, s)
              | (Tls_want_read, s) \<Rightarrow> (Read_again, c, s)
              | (Tls_want_write, s) \<Rightarrow> (Read_again, c, s)
              | (Tls_error, s) \<Rightarrow> (Read_error, c, s))
         | None \<Rightarrow>
             (case cio_recv io (c_fd c) room s of
                (Some bs, s) \<Rightarrow>
                  if bs \<noteq> [] then (Read_bytes (length bs), c\<lparr> c_rbuf := c_rbuf c @ bs \<rparr>, s)
                  else (Read_eof, c, s)
              | (None, s) \<Rightarrow> (if would_block (sys_errno s) then Read_again else Read_error, c, s))))"

text \<open>The first line of the buffer, if it is complete, cut to the caller's buffer; and the rest.\<close>

definition chop_cr :: "string \<Rightarrow> string" where
  "chop_cr l = (if l \<noteq> [] \<and> last l = CR then butlast l else l)"

definition opftp_client_getline :: "nat \<Rightarrow> string \<Rightarrow> (string \<times> string) option" where
  "opftp_client_getline outsz buf =
     (let l = takeWhile (\<lambda>c. c \<noteq> LF) buf in
      if length l = length buf then None
      else Some (take (outsz - 1) (chop_cr l), drop (length l + 1) buf))"

subsection \<open>Writing\<close>

text \<open>The send loop; \<open>None\<close> when it never ends. The result is true for 0 and false for -1, with
  what the transport accepted.\<close>

partial_function (option) send_loop ::
  "'x cio \<Rightarrow> client \<Rightarrow> string \<Rightarrow> string \<Rightarrow> 'x sys \<Rightarrow> (bool \<times> string \<times> 'x sys) option" where
  "send_loop io c sent rest s =
     (if rest = [] then Some (True, sent, s)
      else
        (case (if c_tls_handshaking c then None else c_tls c) of
           Some t \<Rightarrow>
             (case cio_tls_write io t rest s of
                (r, s) \<Rightarrow>
                  (case r of
                     Tls_done n \<Rightarrow>
                       if n > 0 then send_loop io c (sent @ take n rest) (drop n rest) s
                       else Some (False, sent, s)
                   | Tls_error \<Rightarrow> Some (False, sent, s)
                   | _ \<Rightarrow>
                       (case cio_poll io (c_fd c) (r = Tls_want_write) s of
                          (ready, s) \<Rightarrow>
                            if ready then send_loop io c sent rest s else Some (False, sent, s))))
         | None \<Rightarrow>
             (case cio_send io (c_fd c) rest s of
                (r, s) \<Rightarrow>
                  (case r of
                     Some n \<Rightarrow>
                       if n > 0 then send_loop io c (sent @ take n rest) (drop n rest) s
                       else Some (False, sent, s)
                   | None \<Rightarrow>
                       if would_block (sys_errno s) then
                         (case cio_poll io (c_fd c) True s of
                            (ready, s) \<Rightarrow>
                              if ready then send_loop io c sent rest s else Some (False, sent, s))
                       else Some (False, sent, s)))))"

definition send_control :: "'x cio \<Rightarrow> client \<Rightarrow> string \<Rightarrow> 'x sys \<Rightarrow> (bool \<times> string \<times> 'x sys) option" where
  "send_control io c line s = send_loop io c [] line s"

subsection \<open>The stream as lines\<close>

text \<open>All complete lines of a byte sequence, and the unfinished rest.\<close>

function split_lines :: "string \<Rightarrow> string list \<times> string" where
  "split_lines buf =
     (let l = takeWhile (\<lambda>c. c \<noteq> LF) buf in
      if length l = length buf then ([], buf)
      else (case split_lines (drop (length l + 1) buf) of (ls, r) \<Rightarrow> (chop_cr l # ls, r)))"
  by pat_completeness auto
termination
  by (relation "measure length") (auto simp: line_shorter)

declare split_lines.simps [simp del]

text \<open>Take lines until none is complete, as the reactor does after every read.\<close>

function take_lines :: "nat \<Rightarrow> string \<Rightarrow> string list \<times> string" where
  "take_lines outsz buf =
     (case opftp_client_getline outsz buf of
        None \<Rightarrow> ([], buf)
      | Some (l, rest) \<Rightarrow> (case take_lines outsz rest of (ls, r) \<Rightarrow> (l # ls, r)))"
  by pat_completeness auto
termination
  by (relation "measure (\<lambda>(_, b). length b)")
    (auto simp: opftp_client_getline_def Let_def line_shorter split: if_splits)

declare take_lines.simps [simp del]

text \<open>The read loop of \<open>handle_client_events\<close> seen from the wire, with what is done to the lines
  left out: read, take every complete line, read again until nothing more is there. The result is
  the lines, why reading stopped and what is left in the buffer.\<close>

partial_function (option) receive ::
  "'x cio \<Rightarrow> client \<Rightarrow> 'x sys \<Rightarrow> (string list \<times> read_result \<times> string) option" where
  "receive io c s =
     (case opftp_client_read io c s of
        (r, cs) \<Rightarrow>
          (case r of
             Read_bytes n \<Rightarrow>
               (case take_lines 1024 (c_rbuf (fst cs)) of
                  (ls, rest) \<Rightarrow>
                    Option.bind (receive io ((fst cs)\<lparr> c_rbuf := rest \<rparr>) (snd cs))
                      (\<lambda>out. Some (map_prod ((@) ls) id out)))
           | _ \<Rightarrow> Some ([], r, c_rbuf (fst cs))))"

text \<open>A connection on which the bytes in flight arrive in the given pieces, then nothing more for
  now. \<open>recv\<close> returns at most what it is asked for; what it did not take of a piece stays.\<close>

definition segment_io :: "string list cio" where
  "segment_io =
     \<lparr> cio_recv = (\<lambda>fd n s. case sys_state s of
          [] \<Rightarrow> (None, s\<lparr> sys_errno := EAGAIN \<rparr>)
        | b # bs \<Rightarrow> (Some (take n b), s\<lparr> sys_state := (if length b \<le> n then bs else drop n b # bs) \<rparr>)),
       cio_tls_read = (\<lambda>t n s. (Tls_error, s)), cio_send = (\<lambda>fd bs s. (Some (length bs), s)),
       cio_tls_write = (\<lambda>t bs s. (Tls_error, s)), cio_poll = (\<lambda>fd b s. (True, s)) \<rparr>"

text \<open>What the bytes of a connection mean as commands, with no reference to how they arrive: the
  text up to each LF without its CR, cut to what the line buffer takes, up to the first line that
  fills the whole read buffer, which ends the connection.\<close>

function framed :: "string \<Rightarrow> string list \<times> read_result \<times> string" where
  "framed s =
     (let l = takeWhile (\<lambda>c. c \<noteq> LF) s in
      if length l \<ge> OPFTP_RBUF then ([], Read_error, take OPFTP_RBUF l)
      else if length l = length s then ([], Read_again, s)
      else (case framed (drop (length l + 1) s) of (ls, r) \<Rightarrow> (take 1023 (chop_cr l) # ls, r)))"
  by pat_completeness auto
termination
  by (relation "measure length") (auto simp: line_shorter)

declare framed.simps [simp del]

section \<open>Lines of a stream\<close>

lemma to_newline:
  "LF \<notin> set l \<Longrightarrow> takeWhile (\<lambda>c. c \<noteq> LF) l = l"
  "LF \<notin> set l \<Longrightarrow> takeWhile (\<lambda>c. c \<noteq> LF) (l @ LF # r) = l"
  by (induction l) auto

lemma split_lines_step:
  "LF \<notin> set l \<Longrightarrow> split_lines (l @ LF # r) = (case split_lines r of (ls, r') \<Rightarrow> (chop_cr l # ls, r'))"
  by (subst split_lines.simps) (simp add: to_newline)

lemma split_lines_none: "LF \<notin> set l \<Longrightarrow> split_lines l = ([], l)"
  by (subst split_lines.simps) (simp add: to_newline)

lemma lines_cases:
  obtains (none) "LF \<notin> set buf" | (line) l r where "buf = l @ LF # r" "LF \<notin> set l"
  by (meson split_list_first)

text \<open>Lines that are longer than the caller's buffer are cut to it; otherwise the reactor sees the
  lines of the stream.\<close>

lemma getline_line: "LF \<notin> set l \<Longrightarrow> opftp_client_getline n (l @ LF # r) = Some (take (n - 1) (chop_cr l), r)"
  by (simp add: opftp_client_getline_def to_newline)

lemma getline_none: "LF \<notin> set l \<Longrightarrow> opftp_client_getline n l = None"
  by (simp add: opftp_client_getline_def to_newline)

lemma take_lines_split:
  "take_lines n buf = (map (take (n - 1)) (fst (split_lines buf)), snd (split_lines buf))"
proof (induction n buf rule: take_lines.induct)
  case (1 n buf)
  show ?case
  proof (cases rule: lines_cases [of buf])
    case none
    then show ?thesis by (subst take_lines.simps) (simp add: getline_none split_lines_none)
  next
    case (line l r)
    then show ?thesis
      using 1 [of "(take (n - 1) (chop_cr l), r)"]
      by (subst take_lines.simps) (simp add: getline_line split_lines_step split: prod.split)
  qed
qed

lemma split_lines_append:
  "split_lines (a @ b) =
   (fst (split_lines a) @ fst (split_lines (snd (split_lines a) @ b)), snd (split_lines (snd (split_lines a) @ b)))"
proof (induction "length a" arbitrary: a rule: less_induct)
  case less
  show ?case
  proof (cases rule: lines_cases [of a])
    case none
    then show ?thesis by (simp add: split_lines_none)
  next
    case (line l r)
    then show ?thesis
      using less [of r] by (simp add: split_lines_step split: prod.split)
  qed
qed

lemma split_lines_rest: "LF \<notin> set (snd (split_lines buf))"
proof (induction "length buf" arbitrary: buf rule: less_induct)
  case less
  show ?case
  proof (cases rule: lines_cases [of buf])
    case none
    then show ?thesis by (simp add: split_lines_none)
  next
    case (line l r)
    then show ?thesis
      using less [of r] by (simp add: split_lines_step case_prod_beta)
  qed
qed

lemma framed_line:
  "LF \<notin> set l \<Longrightarrow> length l < OPFTP_RBUF \<Longrightarrow>
   framed (l @ LF # r) = map_prod ((#) (take 1023 (chop_cr l))) id (framed r)"
  by (subst framed.simps) (simp add: to_newline split: prod.split)

lemma framed_pending: "LF \<notin> set l \<Longrightarrow> length l < OPFTP_RBUF \<Longrightarrow> framed l = ([], Read_again, l)"
  by (subst framed.simps) (simp add: to_newline)

lemma framed_full:
  assumes "LF \<notin> set l" "length l = OPFTP_RBUF"
  shows "framed (l @ r) = ([], Read_error, l)"
proof -
  have "takeWhile (\<lambda>c. c \<noteq> LF) (l @ r) = l @ takeWhile (\<lambda>c. c \<noteq> LF) r"
    using assms(1) by (subst takeWhile_append2) auto
  with assms(2) show ?thesis by (subst framed.simps) simp
qed

text \<open>A buffer's complete lines can be taken before more bytes arrive.\<close>

lemma framed_take_lines:
  "length a \<le> OPFTP_RBUF \<Longrightarrow> take_lines 1024 a = (ls, r) \<Longrightarrow> framed (a @ b) = map_prod ((@) ls) id (framed (r @ b))"
proof (induction "length a" arbitrary: a ls rule: less_induct)
  case less
  show ?case
  proof (cases rule: lines_cases [of a])
    case none
    with less(3) show ?thesis by (simp add: take_lines_split split_lines_none map_prod_def split: prod.split)
  next
    case (line l q)
    obtain ls' where ls: "take_lines 1024 q = (ls', r)" "ls = take 1023 (chop_cr l) # ls'"
      using less(3) line by (auto simp: take_lines_split split_lines_step split: prod.splits)
    have "framed (q @ b) = map_prod ((@) ls') id (framed (r @ b))"
      using less(1) [of q ls'] less(2) line(1) ls(1) by simp
    with line less(2) ls(2) show ?thesis
      by (cases "framed (r @ b)") (simp add: framed_line)
  qed
qed

lemma take_lines_rest:
  assumes "take_lines n a = (ls, r)"
  shows "LF \<notin> set r" "length r \<le> length a"
proof -
  have "length (snd (split_lines a)) \<le> length a"
  proof (induction "length a" arbitrary: a rule: less_induct)
    case less
    then show ?case
      by (cases rule: lines_cases [of a])
        (force simp: split_lines_none split_lines_step case_prod_beta intro: le_SucI trans_le_add2)+
  qed
  with assms show "LF \<notin> set r" "length r \<le> length a"
    using split_lines_rest [of a] by (auto simp: take_lines_split)
qed

lemma receive_framed:
  assumes "c_tls c = None \<or> c_tls_handshaking c" "LF \<notin> set (c_rbuf c)" "length (c_rbuf c) \<le> OPFTP_RBUF"
    and "[] \<notin> set (sys_state s)"
  shows "receive segment_io c s = Some (framed (c_rbuf c @ concat (sys_state s)))"
  using assms
proof (induction "length (concat (sys_state s))" arbitrary: c s rule: less_induct)
  case less
  have tls: "(if c_tls_handshaking c then None else c_tls c) = None" using less(2) by auto
  show ?case
  proof (cases "length (c_rbuf c) = OPFTP_RBUF")
    case True
    with less(3) show ?thesis
      by (subst receive.simps) (simp add: opftp_client_read_def framed_full)
  next
    case room: False
    with less(4) have room: "length (c_rbuf c) < OPFTP_RBUF" by simp
    show ?thesis
    proof (cases "sys_state s")
      case Nil
      with less(3) room tls show ?thesis
        by (subst receive.simps)
          (simp add: opftp_client_read_def segment_io_def would_block_def framed_pending)
    next
      case (Cons b bs)
      define k where "k = OPFTP_RBUF - length (c_rbuf c)"
      define s1 where "s1 = s\<lparr> sys_state := (if length b \<le> k then bs else drop k b # bs) \<rparr>"
      define a where "a = c_rbuf c @ take k b"
      obtain ls r where t: "take_lines 1024 a = (ls, r)" by force
      have b: "b \<noteq> []" "0 < k" "take k b \<noteq> []" using less(5) Cons room by (auto simp: k_def)
      have a: "length a \<le> OPFTP_RBUF" using room by (simp add: a_def k_def)
      have read: "opftp_client_read segment_io c s = (Read_bytes (length (take k b)), c\<lparr> c_rbuf := a \<rparr>, s1)"
        using room tls Cons b by (simp add: opftp_client_read_def segment_io_def k_def s1_def a_def Let_def)
      have bytes: "take k b @ concat (sys_state s1) = concat (sys_state s)"
        using Cons by (simp add: s1_def append_assoc [symmetric] del: append_assoc)
      have "length (concat (sys_state s1)) < length (concat (sys_state s))"
        unfolding bytes [symmetric] using b by simp
      moreover have "[] \<notin> set (sys_state s1)" using less(5) Cons by (auto simp: s1_def)
      ultimately have "receive segment_io (c\<lparr> c_rbuf := r \<rparr>) s1 = Some (framed (r @ concat (sys_state s1)))"
        using less(1) [of s1 "c\<lparr> c_rbuf := r \<rparr>"] less(2) take_lines_rest [OF t] a by simp
      moreover have "framed (a @ concat (sys_state s1)) = map_prod ((@) ls) id (framed (r @ concat (sys_state s1)))"
        by (rule framed_take_lines [OF a t])
      ultimately have "receive segment_io c s = Some (framed (a @ concat (sys_state s1)))"
        by (subst receive.simps) (simp add: read t)
      then show ?thesis using bytes by (simp add: a_def)
    qed
  qed
qed



section \<open>Writing\<close>

text \<open>What a transport is relied on for: it accepts at most what it is given, and a connection it
  reported ready again after it would have blocked is closer to accepting something, by some
  measure.\<close>

definition cio_ok :: "'x cio \<Rightarrow> ('x sys \<Rightarrow> nat) \<Rightarrow> bool" where
  "cio_ok io \<mu> \<longleftrightarrow>
     (\<forall>fd bs s n s1. cio_send io fd bs s = (Some n, s1) \<longrightarrow> n \<le> length bs) \<and>
     (\<forall>t bs s n s1. cio_tls_write io t bs s = (Tls_done n, s1) \<longrightarrow> n \<le> length bs) \<and>
     (\<forall>fd bs s s1 s2. cio_send io fd bs s = (None, s1) \<and> cio_poll io fd True s1 = (True, s2) \<longrightarrow> \<mu> s2 < \<mu> s) \<and>
     (\<forall>t fd bs s s1 w s2. cio_tls_write io t bs s = (if w then Tls_want_write else Tls_want_read, s1) \<and>
        cio_poll io fd w s1 = (True, s2) \<longrightarrow> \<mu> s2 < \<mu> s)"

lemma cio_okD:
  assumes "cio_ok io \<mu>"
  shows "cio_send io fd bs s = (Some n, s1) \<Longrightarrow> n \<le> length bs"
    "cio_tls_write io t bs s = (Tls_done n, s1) \<Longrightarrow> n \<le> length bs"
    "cio_send io fd bs s = (None, s1) \<Longrightarrow> cio_poll io fd True s1 = (True, s2) \<Longrightarrow> \<mu> s2 < \<mu> s"
    "cio_tls_write io t bs s = (Tls_want_write, s1) \<Longrightarrow> cio_poll io fd True s1 = (True, s2) \<Longrightarrow> \<mu> s2 < \<mu> s"
    "cio_tls_write io t bs s = (Tls_want_read, s1) \<Longrightarrow> cio_poll io fd False s1 = (True, s2) \<Longrightarrow> \<mu> s2 < \<mu> s"
proof -
  note * = assms [unfolded cio_ok_def]
  note ** = * [THEN conjunct2, THEN conjunct2]
  show "cio_send io fd bs s = (Some n, s1) \<Longrightarrow> n \<le> length bs" by (rule * [THEN conjunct1, rule_format])
  show "cio_tls_write io t bs s = (Tls_done n, s1) \<Longrightarrow> n \<le> length bs"
    by (rule * [THEN conjunct2, THEN conjunct1, rule_format])
  show "cio_send io fd bs s = (None, s1) \<Longrightarrow> cio_poll io fd True s1 = (True, s2) \<Longrightarrow> \<mu> s2 < \<mu> s"
    by (rule ** [THEN conjunct1, rule_format, OF conjI])
  note w = ** [THEN conjunct2, rule_format, OF conjI, of t bs s _ s1 fd s2]
  show "cio_tls_write io t bs s = (Tls_want_write, s1) \<Longrightarrow> cio_poll io fd True s1 = (True, s2) \<Longrightarrow> \<mu> s2 < \<mu> s"
    using w [of True] by simp
  show "cio_tls_write io t bs s = (Tls_want_read, s1) \<Longrightarrow> cio_poll io fd False s1 = (True, s2) \<Longrightarrow> \<mu> s2 < \<mu> s"
    using w [of False] by simp
qed

definition send_result :: "string \<Rightarrow> string \<Rightarrow> (bool \<times> string \<times> 'x sys) option \<Rightarrow> bool" where
  "send_result sent rest r \<longleftrightarrow>
     (\<exists>ok x s'. r = Some (ok, sent @ x, s') \<and> prefix x rest \<and> (ok \<longleftrightarrow> x = rest))"

lemma send_result_stop: "rest \<noteq> [] \<Longrightarrow> send_result sent rest (Some (False, sent, s))"
  unfolding send_result_def by (intro exI [of _ False] exI [of _ "[]"] exI [of _ s]) simp

lemma send_result_progress:
  assumes "send_result (sent @ take n rest) (drop n rest) r" "n \<le> length rest"
  shows "send_result sent rest r"
proof -
  from assms(1) obtain ok x s' where r: "r = Some (ok, (sent @ take n rest) @ x, s')"
    and x: "prefix x (drop n rest)" "ok \<longleftrightarrow> x = drop n rest"
    unfolding send_result_def by blast
  have "take n rest @ x = rest \<longleftrightarrow> x = drop n rest"
    by (metis append_take_drop_id same_append_eq)
  moreover have "prefix (take n rest @ x) rest"
    using x(1) by (metis append_take_drop_id same_prefix_prefix)
  ultimately show ?thesis
    unfolding send_result_def using r x(2)
    by (intro exI [of _ ok] exI [of _ "take n rest @ x"] exI [of _ s']) simp
qed

lemma send_loop_result:
  assumes ok: "cio_ok io \<mu>"
  shows "send_result sent rest (send_loop io c sent rest s)"
proof (induction "length rest" arbitrary: sent rest s rule: less_induct)
  case (less rest sent s)
  note outer = less
  show ?case
  proof (cases "rest = []")
    case True
    then have "send_loop io c sent rest s = Some (True, sent @ [], s)"
      by (subst send_loop.simps) simp
    with True show ?thesis unfolding send_result_def by blast
  next
    case rest: False
    have shorter: "send_result sent rest (send_loop io c (sent @ take n rest) (drop n rest) s1)"
      if "0 < n" "n \<le> length rest" for n s1
      by (rule send_result_progress [OF outer]) (use that rest in auto)
    show ?thesis
    proof (induction "\<mu> s" arbitrary: s rule: less_induct)
      case (less s)
      show ?case
      proof (cases "if c_tls_handshaking c then None else c_tls c")
        case None
        obtain r s1 where r: "cio_send io (c_fd c) rest s = (r, s1)" by force
        obtain rdy s2 where p: "cio_poll io (c_fd c) True s1 = (rdy, s2)" by force
        have "n \<le> length rest" if "r = Some n" for n
          using cio_okD(1) [OF ok] r that by blast
        moreover have "send_result sent rest (send_loop io c sent rest s2)" if "r = None" rdy
          by (rule less, rule cio_okD(3) [OF ok]) (use r p that in auto)
        ultimately show ?thesis
          using rest None shorter
          by (subst send_loop.simps) (simp add: r p send_result_stop split: option.split)
      next
        case (Some t)
        obtain r s1 where r: "cio_tls_write io t rest s = (r, s1)" by force
        obtain rdy s2 where p: "cio_poll io (c_fd c) True s1 = (rdy, s2)" by force
        obtain rdy' s3 where q: "cio_poll io (c_fd c) False s1 = (rdy', s3)" by force
        have "n \<le> length rest" if "r = Tls_done n" for n
          using cio_okD(2) [OF ok] r that by blast
        moreover have "send_result sent rest (send_loop io c sent rest s2)" if "r = Tls_want_write" rdy
          by (rule less, rule cio_okD(4) [OF ok]) (use r p that in auto)
        moreover have "send_result sent rest (send_loop io c sent rest s3)" if "r = Tls_want_read" rdy'
          by (rule less, rule cio_okD(5) [OF ok]) (use r q that in auto)
        ultimately show ?thesis
          using rest Some shorter
          by (subst send_loop.simps) (simp add: r p q send_result_stop split: tls_io.split)
      qed
    qed
  qed
qed

text \<open>
  Sending a control line ends. Over a transport that accepts no more than it is given and does
  not report readiness forever without accepting anything, the loop returns; what the peer got
  is an initial part of the line, and success is reported exactly when it is the whole line, so
  no byte is skipped, repeated or reordered by partial writes and retries.
\<close>

theorem send_control_complete:
  assumes "cio_ok io \<mu>"
  shows "\<exists>ok sent s'. send_control io c line s = Some (ok, sent, s') \<and> prefix sent line \<and>
    (ok \<longleftrightarrow> sent = line)"
  using send_loop_result [OF assms, of "[]" line c s]
  unfolding send_control_def send_result_def by simp

text \<open>A transport that takes at most three bytes at a time.\<close>

definition slow_cio :: "unit cio" where
  "slow_cio =
     \<lparr> cio_recv = (\<lambda>fd n. op_fail EAGAIN), cio_tls_read = (\<lambda>t n s. (Tls_error, s)),
       cio_send = (\<lambda>fd bs s. (Some (min 3 (length bs)), s)),
       cio_tls_write = (\<lambda>t bs s. (Tls_error, s)), cio_poll = (\<lambda>fd w s. (False, s)) \<rparr>"

theorem send_control_complete_witness:
  "cio_ok slow_cio (\<lambda>_. 0) \<and>
   (\<exists>ok sent s'. send_control slow_cio (opftp_client_new 5 Sa_unspec) (reply_text 200 R200)
       \<lparr> sys_errno = EAGAIN, sys_state = () \<rparr> = Some (ok, sent, s') \<and>
     prefix sent (reply_text 200 R200) \<and> (ok \<longleftrightarrow> sent = reply_text 200 R200))"
proof -
  have "cio_ok slow_cio (\<lambda>_. 0)" by (simp add: cio_ok_def slow_cio_def)
  with send_control_complete [OF this] show ?thesis by blast
qed

end
