(* ===== verification/Session.thy ===== *)
theory Session
  imports Commands Client_Io
begin

text \<open>
  One client's session on the reactor thread, from \<^verbatim>\<open>src/src/server.c\<close>: parsing a command line,
  the login gate and dispatch (\<open>process_line\<close>), the events of a control connection
  (\<open>handle_client_events\<close>) and what a disconnection does to the client
  (\<open>client_disconnect\<close>, but for the reactor's list and the reference it holds).
\<close>

unbundle bit_operations_syntax

section \<open>Definitions\<close>

definition prelogin_command :: "string \<Rightarrow> bool" where
  "prelogin_command name \<longleftrightarrow>
     name \<in> set [''USER'', ''PASS'', ''QUIT'', ''HELP'', ''FEAT'', ''SYST'', ''NOOP'', ''OPTS'', ''AUTH'', ''PBSZ'', ''PROT'']"

text \<open>A line of the read buffer as a C string: up to an embedded NUL.\<close>

definition c_str :: "string \<Rightarrow> string" where
  "c_str s = takeWhile (\<lambda>c. c \<noteq> CHR 0x00) s"

text \<open>Name and parameter of a command line; \<^const>\<open>None\<close> for a blank line.\<close>

definition parse_line :: "string \<Rightarrow> (string \<times> string) option" where
  "parse_line line =
     (let p = skip_spaces line;
          name = map c_toupper (take 7 (takeWhile (\<lambda>c. c \<noteq> space) p))
      in if name = [] then None else Some (name, skip_spaces (drop (length name) p)))"

definition process_line :: "'x handler cmd_table option \<Rightarrow> 'x env \<Rightarrow> string \<Rightarrow> 'x hst \<Rightarrow> 'x hst" where
  "process_line tab e line h =
     (case parse_line (c_str line) of
        None \<Rightarrow> h
      | Some (name, param) \<Rightarrow>
          if \<not> c_logged_in (h_cl h) \<and> \<not> prelogin_command name then reply 530 ''Not logged in.'' h
          else
            (case opftp_dispatch_call tab (Some name) of
               Some f \<Rightarrow> f e (Some param) h
             | None \<Rightarrow> reply 502 ''Command not implemented.'' h))"

text \<open>The inner loop after a read: lines are processed until none is complete, or the client is to
  be disconnected or starts a TLS handshake. Every pass shortens the buffer unless the command
  itself refilled it, which no handler does; the buffer length is taken before the command.\<close>

definition session_stop :: "client \<Rightarrow> bool" where
  "session_stop c \<longleftrightarrow> c_disconnect_requested c \<or> c_tls_handshaking c"

partial_function (option) line_loop ::
  "'x handler cmd_table option \<Rightarrow> 'x env \<Rightarrow> 'x hst \<Rightarrow> 'x hst option" where
  "line_loop tab e h =
     (case opftp_client_getline 1024 (c_rbuf (h_cl h)) of
        None \<Rightarrow> Some h
      | Some lr \<Rightarrow>
          let h1 = process_line tab e (fst lr) (upd_cl (\<lambda>c. c\<lparr> c_rbuf := snd lr \<rparr>) h)
          in if session_stop (h_cl h1) then Some h1 else line_loop tab e h1)"

text \<open>The read loop on \<open>POLLIN\<close>.\<close>

partial_function (option) read_loop ::
  "'x cio \<Rightarrow> 'x handler cmd_table option \<Rightarrow> 'x env \<Rightarrow> 'x hst \<Rightarrow> 'x hst option" where
  "read_loop io tab e h =
     (case opftp_client_read io (h_cl h) (h_sys h) of
        (r, cs) \<Rightarrow>
          let h1 = h\<lparr> h_cl := fst cs, h_sys := snd cs \<rparr> in
          (case r of
             Read_error \<Rightarrow> Some (upd_cl (\<lambda>c. c\<lparr> c_disconnect_requested := True \<rparr>) h1)
           | Read_again \<Rightarrow> Some h1
           | Read_eof \<Rightarrow> Some (upd_cl (\<lambda>c. c\<lparr> c_disconnect_requested := True \<rparr>) h1)
           | Read_bytes n \<Rightarrow>
               Option.bind (line_loop tab e h1)
                 (\<lambda>h2. if session_stop (h_cl h2) then Some h2 else read_loop io tab e h2)))"

text \<open>\<open>handle_client_events\<close> up to the disconnection at its end, which is signalled by
  \<open>disconnect_requested\<close>. \<open>hs\<close> is \<open>opftp_tls_handshake\<close>.\<close>

definition handle_client_events ::
  "(nat \<Rightarrow> 'x sys \<Rightarrow> handshake_result \<times> 'x sys) \<Rightarrow> 'x cio \<Rightarrow> 'x handler cmd_table option \<Rightarrow> 'x env \<Rightarrow>
     poll_events \<Rightarrow> 'x hst \<Rightarrow> 'x hst option" where
  "handle_client_events hs io tab e revents h =
     (if c_tls_handshaking (h_cl h) then
        (case hs (case c_tls (h_cl h) of Some t \<Rightarrow> t | None \<Rightarrow> 0) (h_sys h) of
           (r, s) \<Rightarrow>
             let h = h\<lparr> h_sys := s \<rparr> in
             Some (case r of
                Hs_done \<Rightarrow> poll_mod_client (POLLIN OR POLLPRI) (upd_cl (\<lambda>c. c\<lparr> c_tls_handshaking := False \<rparr>) h)
              | Hs_want_read \<Rightarrow> poll_mod_client (POLLIN OR POLLPRI) h
              | Hs_want_write \<Rightarrow> poll_mod_client (POLLOUT OR POLLPRI) h
              | Hs_error \<Rightarrow> upd_cl (\<lambda>c. c\<lparr> c_disconnect_requested := True \<rparr>) h))
      else
        let h = (if revents AND POLLPRI \<noteq> 0 then
                   (case opftp_dispatch_call tab (Some ''ABOR'') of Some f \<Rightarrow> f e None h | None \<Rightarrow> h)
                 else h)
        in map_option
             (\<lambda>h. if revents AND (POLLERR OR POLLHUP OR POLLNVAL) \<noteq> 0
                  then upd_cl (\<lambda>c. c\<lparr> c_disconnect_requested := True \<rparr>) h else h)
             (if revents AND POLLIN \<noteq> 0 then read_loop io tab e h else Some h))"

text \<open>A disconnection, up to the reference the reactor drops last. \<open>hook\<close> is the application's
  disconnect callback.\<close>

definition poll_remove_client :: "'x hst \<Rightarrow> 'x hst" where
  "poll_remove_client h =
     upd_cl (\<lambda>c. c\<lparr> c_poll_handle := -1 \<rparr>)
       (if c_poll_handle (h_cl h) \<ge> 0
        then upd_srv (\<lambda>s. s\<lparr> s_pollset := map_option (opftp_pollset_remove (c_poll_handle (h_cl h))) (s_pollset s) \<rparr>) h
        else h)"

definition cancel_active :: "'x hst \<Rightarrow> 'x hst" where
  "cancel_active h =
     (case c_job (h_cl h) of
        None \<Rightarrow> h
      | Some jid \<Rightarrow> upd_cl (\<lambda>c. c\<lparr> c_job := None \<rparr>) (upd_srv (cancel_job jid) h))"

definition client_disconnect :: "'x env \<Rightarrow> ('x hst \<Rightarrow> 'x hst) option \<Rightarrow> 'x hst \<Rightarrow> 'x hst" where
  "client_disconnect e hook h =
     (let h = cancel_active (poll_remove_client h);
          h = upd_cl (\<lambda>c. c\<lparr> c_generation := c_generation c + 1 \<rparr>) h;
          h = drop_pasv e h;
          h = upd_cl (\<lambda>c. if c_tls c \<noteq> None then c\<lparr> c_tls := None, c_tls_handshaking := False \<rparr> else c) h;
          h = upd_cl (\<lambda>c. c\<lparr> c_fd := -1 \<rparr>) (opftp_close_fd e (c_fd (h_cl h)) h)
      in case hook of Some f \<Rightarrow> f h | None \<Rightarrow> h)"

end
