(* ===== verification/Session_Invariant.thy ===== *)
theory Session_Invariant
  imports Command_Steps Session
begin

text \<open>
  The invariant \<open>hst_ok\<close> of a client and the jobs, kept by every elementary step of the built-in
  handlers: paths stay below the server root, the working directory stays canonical, buffers keep
  their bounds, every job's data connection goes to the peer of its control connection.
\<close>

section \<open>The invariant\<close>

definition below :: "string \<Rightarrow> string \<Rightarrow> bool" where
  "below root p \<longleftrightarrow> canonical p \<and> prefix (split_loop root) (split_loop p) \<and> length p < OPFTP_MAX_PATH"

definition client_ok :: "string \<Rightarrow> client \<Rightarrow> bool" where
  "client_ok root c \<longleftrightarrow> 0 < c_refs c \<and> length (c_user c) < 256 \<and> length (c_rbuf c) \<le> OPFTP_RBUF \<and>
     canonical (c_cwd c) \<and> length (c_cwd c) < OPFTP_MAX_PATH \<and>
     (c_have_rnfr c \<longrightarrow> below root (c_rnfr c)) \<and> (c_have_cpfr c \<longrightarrow> below root (c_cpfr c))"

definition job_ok :: "server \<Rightarrow> job \<Rightarrow> bool" where
  "job_ok s j \<longleftrightarrow> below (s_root s) (j_path j) \<and> (j_op j = OPFTP_JOB_COPY \<longrightarrow> below (s_root s) (j_dst j)) \<and>
     (s_allow_foreign_port s \<or> job_target_ok j)"

definition jobs_ok :: "server \<Rightarrow> bool" where
  "jobs_ok s \<longleftrightarrow> ring_ok (s_ring s) \<and>
     (\<forall>jid j. s_jobs s jid = Some j \<longrightarrow> job_ok s j \<and> jid < s_next_job s)"

definition link_ok :: "'x hst \<Rightarrow> bool" where
  "link_ok h \<longleftrightarrow> (\<forall>jid. c_job (h_cl h) = Some jid \<longrightarrow>
     (\<exists>j. s_jobs (h_srv h) jid = Some j \<and> j_client j = h_id h \<and> j_generation j = c_generation (h_cl h)))"

definition hst_ok :: "'x hst \<Rightarrow> bool" where
  "hst_ok h \<longleftrightarrow> canonical (s_root (h_srv h)) \<and> client_ok (s_root (h_srv h)) (h_cl h) \<and>
     jobs_ok (h_srv h) \<and> link_ok h"

section \<open>Paths\<close>

lemma join_path_shift: "x \<noteq> [] \<Longrightarrow> join_path (r @ x) cs = r @ join_path x cs"
proof (induction cs arbitrary: x)
  case (Cons c cs)
  let ?x = "(if last x = slash then x else x @ [slash]) @ c"
  have "join_path (r @ x) (c # cs) = join_path (r @ ?x) cs" using Cons(2) by simp
  also have "\<dots> = r @ join_path ?x cs" using Cons(2) by (intro Cons(1)) auto
  finally show ?case by simp
qed simp

lemma resolve_param_below:
  assumes "canonical (s_root s)" "canonical (c_cwd c)" "resolve_arg s c p = Some path"
  obtains st where "list_all plain_comp st" "path = join_path (s_root s) st" "below (s_root s) path"
    "c_snprintf OPFTP_MAX_PATH path = path"
proof -
  from assms(3) obtain arg ts where r: "opftp_path_resolve (s_root s) (c_cwd c) arg OPFTP_MAX_PATH = Some (path, ts)"
    by (auto simp: resolve_arg_def Let_def)
  from resolve_join [OF assms(1,2) r] obtain st where
    st: "list_all plain_comp st" "path = join_path (s_root s) st" "length path < OPFTP_MAX_PATH" by blast
  with join_path_canonical [OF assms(1) st(1)] have "below (s_root s) path"
    by (simp add: below_def)
  with st that show thesis by (simp add: c_snprintf_def)
qed

lemma visible_cwd_canonical:
  assumes "canonical root" "list_all plain_comp st" "length (join_path root st) < OPFTP_MAX_PATH"
  shows "canonical (visible_cwd root (join_path root st))"
    "length (visible_cwd root (join_path root st)) < OPFTP_MAX_PATH"
proof -
  have "canonical (visible_cwd root (join_path root st)) \<and>
    length (visible_cwd root (join_path root st)) < OPFTP_MAX_PATH"
  proof (cases "st = [] \<or> length root \<le> 1")
    case True
    then show ?thesis
      using assms join_path_canonical(1) [OF assms(1,2)] by (auto simp: visible_cwd_def c_snprintf_def)
  next
    case False
    then obtain c cs where st: "st = c # cs" by (cases st) auto
    have "last root \<noteq> slash" using canonical_last [OF assms(1)] False by auto
    then have j: "join_path root st = root @ join_path [slash] st"
      using join_path_shift [of "slash # c" root cs] by (simp add: st)
    have "canonical (join_path [slash] st)" by (rule canonical_join [OF assms(2)])
    moreover have "visible_cwd root (join_path root st) = join_path [slash] st"
      using False assms(3) unfolding j by (auto simp: visible_cwd_def c_snprintf_def)
    ultimately show ?thesis using assms(3) by (simp add: j)
  qed
  then show "canonical (visible_cwd root (join_path root st))"
    "length (visible_cwd root (join_path root st)) < OPFTP_MAX_PATH" by auto
qed

section \<open>Every step keeps the invariant\<close>

text \<open>Fields that no step changes.\<close>

definition same_config :: "'x hst \<Rightarrow> 'x hst \<Rightarrow> bool" where
  "same_config h h' \<longleftrightarrow> h_id h' = h_id h \<and> c_fd (h_cl h') = c_fd (h_cl h) \<and> c_peer (h_cl h') = c_peer (h_cl h) \<and>
     c_generation (h_cl h') = c_generation (h_cl h) \<and> c_poll_handle (h_cl h') = c_poll_handle (h_cl h) \<and>
     s_root (h_srv h') = s_root (h_srv h) \<and> s_allow_stop (h_srv h') = s_allow_stop (h_srv h) \<and>
     s_allow_foreign_port (h_srv h') = s_allow_foreign_port (h_srv h) \<and>
     s_has_tls (h_srv h') = s_has_tls (h_srv h)"

lemma hstep_config: "hstep e h h' \<Longrightarrow> same_config h h'"
  by (induction rule: hstep.induct)
    (simp_all add: same_config_def poll_mod_client_def drop_pasv_def set_data_peer_def cancel_job_def
      launch_def hand_over_def Let_def)

lemma hsteps_config: "hsteps e h h' \<Longrightarrow> same_config h h'"
  by (induction rule: rtranclp_induct) (auto simp: same_config_def dest!: hstep_config)

lemma dispatch_ring_ok: "ring_ok r \<Longrightarrow> ring_ok (snd (opftp_job_dispatch x r))"
  by (rule rq.enq_invar [THEN conjunct1])

lemma job_ok_config:
  "s_root s' = s_root s \<Longrightarrow> s_allow_foreign_port s' = s_allow_foreign_port s \<Longrightarrow> job_ok s' j = job_ok s j"
  by (simp add: job_ok_def)

lemma job_ok_cancel: "job_ok s (j\<lparr> j_cancelled := b, j_cancel_bytes := n \<rparr>) = job_ok s j"
  by (simp add: job_ok_def job_target_ok_def)

lemma launch_ok:
  assumes "hst_ok h" "fresh_job h j" "job_ok (h_srv h) j"
    "\<And>c. c_job (f c) = c_job c \<and> c_generation (f c) = c_generation c"
    "\<And>c. client_ok (s_root (h_srv h)) c \<Longrightarrow> client_ok (s_root (h_srv h)) (f c)"
  shows "hst_ok (launch f j h)"
proof -
  have "job_ok (h_srv (launch f j h)) k = job_ok (h_srv h) k" for k
    by (rule job_ok_config) (simp_all add: launch_def Let_def)
  then have "jobs_ok (h_srv (launch f j h))"
    using assms(1,3) unfolding jobs_ok_def
    by (auto simp: hst_ok_def jobs_ok_def launch_def dispatch_ring_ok Let_def less_Suc_eq)
  moreover have "client_ok (s_root (h_srv h)) ((h_cl h)\<lparr> c_refs := n + 1, c_job := x \<rparr>)" for n x
    using assms(1) by (simp add: hst_ok_def client_ok_def)
  then have "client_ok (s_root (h_srv h)) (h_cl (launch f j h))"
    unfolding launch_def Let_def upd_cl_simps upd_srv_simps by (intro assms(5))
  moreover have "link_ok (launch f j h)"
    using assms(2,4) by (simp add: link_ok_def launch_def fresh_job_def Let_def)
  moreover have "s_root (h_srv (launch f j h)) = s_root (h_srv h)" by (simp add: launch_def Let_def)
  ultimately show ?thesis using assms(1) by (simp add: hst_ok_def)
qed

lemma cancel_job_ok: "jobs_ok s \<Longrightarrow> jobs_ok (cancel_job jid s)"
proof -
  have "job_ok (cancel_job jid s) k = job_ok s k" for k
    by (rule job_ok_config) (simp_all add: cancel_job_def)
  then show "jobs_ok s \<Longrightarrow> jobs_ok (cancel_job jid s)" unfolding jobs_ok_def
    by (auto simp: cancel_job_def job_ok_cancel split: if_splits)
qed

text \<open>Steps that leave the jobs alone keep what concerns the client.\<close>

lemma hst_ok_client:
  assumes "hst_ok h" "h_id h' = h_id h" "h_srv h' = h_srv h" "c_job (h_cl h') = c_job (h_cl h)"
    "c_generation (h_cl h') = c_generation (h_cl h)" "client_ok (s_root (h_srv h)) (h_cl h')"
  shows "hst_ok h'"
  using assms by (simp add: hst_ok_def link_ok_def)

lemma hst_ok_server:
  assumes "hst_ok h" "h_id h' = h_id h" "h_cl h' = h_cl h" "s_root (h_srv h') = s_root (h_srv h)"
    "s_allow_foreign_port (h_srv h') = s_allow_foreign_port (h_srv h)"
    "s_jobs (h_srv h') = s_jobs (h_srv h)" "s_ring (h_srv h') = s_ring (h_srv h)"
    "s_next_job (h_srv h') = s_next_job (h_srv h)"
  shows "hst_ok h'"
  using assms by (simp add: hst_ok_def link_ok_def jobs_ok_def job_ok_def)

lemma hstep_ok: "hstep e h h' \<Longrightarrow> hst_ok h \<Longrightarrow> hst_ok h'"
proof (induction rule: hstep.induct)
  case (Cwd h p path)
  then obtain st where "list_all plain_comp st" "path = join_path (s_root (h_srv h)) st" "below (s_root (h_srv h)) path"
    by (auto simp: hst_ok_def client_ok_def elim: resolve_param_below)
  with Cwd(2) show ?case
    by (intro hst_ok_client [OF Cwd(2)])
      (auto simp: hst_ok_def client_ok_def below_def intro: visible_cwd_canonical)
next
  case (Rnfr h p path)
  then obtain "below (s_root (h_srv h)) path" "c_snprintf OPFTP_MAX_PATH path = path"
    by (auto simp: hst_ok_def client_ok_def elim: resolve_param_below)
  with Rnfr(2) show ?case
    by (intro hst_ok_client [OF Rnfr(2)]) (auto simp: hst_ok_def client_ok_def)
next
  case (Cpfr h p path)
  then obtain "below (s_root (h_srv h)) path" "c_snprintf OPFTP_MAX_PATH path = path"
    by (auto simp: hst_ok_def client_ok_def elim: resolve_param_below)
  with Cpfr(2) show ?case
    by (intro hst_ok_client [OF Cpfr(2)]) (auto simp: hst_ok_def client_ok_def)
next
  case (Abor h jid)
  then show ?case
    by (auto simp: hst_ok_def client_ok_def cancel_job_ok link_ok_def) (auto simp: cancel_job_def)
next
  case (Transfer h j)
  then obtain p path where "resolve_param h p = Some path" "j_path j = c_snprintf OPFTP_MAX_PATH path" by blast
  with Transfer(9) have "below (s_root (h_srv h)) (j_path j)"
    by (auto simp: hst_ok_def client_ok_def elim: resolve_param_below)
  with Transfer show ?case
    by (intro launch_ok) (auto simp: job_ok_def job_target_ok_def hand_over_def client_ok_def
        opftp_datachan_precheck_def peer_matches_def split: if_splits)
next
  case (Copy h j)
  then obtain p path where "resolve_param h p = Some path" "j_dst j = c_snprintf OPFTP_MAX_PATH path" by blast
  with Copy(8) have "below (s_root (h_srv h)) (j_dst j)"
    by (auto simp: hst_ok_def client_ok_def elim: resolve_param_below)
  moreover have "below (s_root (h_srv h)) (j_path j)"
    using Copy by (simp add: hst_ok_def client_ok_def below_def c_snprintf_def)
  ultimately show ?case
    using Copy by (intro launch_ok) (auto simp: job_ok_def job_target_ok_def client_ok_def)
next
  case (Poll h ev)
  then show ?case by (intro hst_ok_server [OF Poll]) (auto simp: poll_mod_client_def)
next
  case (Stop h)
  then show ?case by (intro hst_ok_server [OF Stop(2)]) auto
next
  case (Stou h f)
  then show ?case by (intro hst_ok_server [OF Stou]) auto
qed (simp_all add: hst_ok_def client_ok_def link_ok_def drop_pasv_def set_data_peer_def)

lemma hsteps_ok: "hsteps e h h' \<Longrightarrow> hst_ok h \<Longrightarrow> hst_ok h'"
  by (induction rule: rtranclp_induct) (auto intro: hstep_ok)

end
