(* ===== verification/Session_Input.thy ===== *)
theory Session_Input
  imports Session_Invariant
begin

text \<open>
  The bytes a session still has to read. Whatever measure of the outside state the transport's
  input has, a command handler leaves it alone as long as the calls it makes do: every built-in
  handler is a sequence of calls of its environment and changes of the client and the server.
\<close>

section \<open>Definitions\<close>

text \<open>A call that gives the measure \<open>m\<close> of the outside state nothing to grow by.\<close>

definition calm :: "('x \<Rightarrow> nat) \<Rightarrow> ('x sys \<Rightarrow> 'r \<times> 'x sys) \<Rightarrow> bool" where
  "calm m f \<longleftrightarrow> (\<forall>s. m (sys_state (snd (f s))) \<le> m (sys_state s))"

definition calm_env :: "('x \<Rightarrow> nat) \<Rightarrow> 'x env \<Rightarrow> bool" where
  "calm_env m e \<longleftrightarrow>
     (\<forall>p. calm m (fs_stat (e_fs e) p)) \<and> (\<forall>p. calm m (fs_opendir (e_fs e) p)) \<and>
     (\<forall>d. calm m (fs_readdir (e_fs e) d)) \<and> (\<forall>d. calm m (fs_closedir (e_fs e) d)) \<and>
     (\<forall>p n. calm m (fs_mkdir (e_fs e) p n)) \<and> (\<forall>p. calm m (fs_rmdir (e_fs e) p)) \<and>
     (\<forall>p. calm m (fs_unlink (e_fs e) p)) \<and> (\<forall>p q. calm m (fs_rename (e_fs e) p q)) \<and>
     (\<forall>p n. calm m (fs_chmod (e_fs e) p n)) \<and> (\<forall>p t. calm m (fs_utimes (e_fs e) p t)) \<and>
     calm m (e_calloc e) \<and> calm m (e_pipe e) \<and> (\<forall>fd. calm m (e_getsockname e fd)) \<and>
     (\<forall>f. calm m (e_socket e f)) \<and> (\<forall>fd a. calm m (e_bind e fd a)) \<and>
     (\<forall>fd n. calm m (e_listen e fd n)) \<and> (\<forall>fd. calm m (\<lambda>s. ((), e_close e fd s))) \<and>
     calm m (e_time e) \<and> (\<forall>fd p. calm m (e_tls_create e fd p)) \<and>
     (case e_auth e of None \<Rightarrow> True | Some f \<Rightarrow> \<forall>u p. calm m (f u p))"

abbreviation left_over :: "('x \<Rightarrow> nat) \<Rightarrow> 'x hst \<Rightarrow> nat" where
  "left_over m h \<equiv> m (sys_state (h_sys h))"

section \<open>Handlers\<close>

named_theorems calm_simps

lemma calm_le: "calm m f \<Longrightarrow> m (sys_state s) \<le> k \<Longrightarrow> m (sys_state (snd (f s))) \<le> k"
  unfolding calm_def by (meson le_trans)

lemma calm_le_case: "calm m f \<Longrightarrow> f s = (r, s') \<Longrightarrow> m (sys_state s) \<le> k \<Longrightarrow> m (sys_state s') \<le> k"
  using calm_le [of m f s k] by simp

lemma calm_ops [calm_simps]:
  assumes "calm_env m e" "m (sys_state s) \<le> k"
  shows "m (sys_state (snd (fs_stat (e_fs e) p s))) \<le> k" "m (sys_state (snd (fs_opendir (e_fs e) p s))) \<le> k"
    "m (sys_state (snd (fs_readdir (e_fs e) d s))) \<le> k" "m (sys_state (snd (fs_closedir (e_fs e) d s))) \<le> k"
    "m (sys_state (snd (fs_mkdir (e_fs e) p n s))) \<le> k" "m (sys_state (snd (fs_rmdir (e_fs e) p s))) \<le> k"
    "m (sys_state (snd (fs_unlink (e_fs e) p s))) \<le> k" "m (sys_state (snd (fs_rename (e_fs e) p q s))) \<le> k"
    "m (sys_state (snd (fs_chmod (e_fs e) p n s))) \<le> k" "m (sys_state (snd (fs_utimes (e_fs e) p t s))) \<le> k"
    "m (sys_state (snd (e_calloc e s))) \<le> k" "m (sys_state (snd (e_pipe e s))) \<le> k"
    "m (sys_state (snd (e_getsockname e fd s))) \<le> k" "m (sys_state (snd (e_socket e f s))) \<le> k"
    "m (sys_state (snd (e_bind e fd a s))) \<le> k" "m (sys_state (snd (e_listen e fd l s))) \<le> k"
    "m (sys_state (e_close e fd s)) \<le> k" "m (sys_state (snd (e_time e s))) \<le> k"
    "m (sys_state (snd (e_tls_create e fd p s))) \<le> k"
    "e_auth e = Some g \<Longrightarrow> m (sys_state (snd (g u p s))) \<le> k"
  using assms calm_le [of m "\<lambda>s. ((), e_close e fd s)" s k] unfolding calm_env_def
  by (auto intro: calm_le)

lemma calm_helpers [calm_simps]:
  assumes "calm_env m e"
  shows "left_over m h \<le> k \<Longrightarrow> left_over m (opftp_close_fd e fd h) \<le> k"
    "left_over m h \<le> k \<Longrightarrow> left_over m (close_if_open e fd h) \<le> k"
    "left_over m h \<le> k \<Longrightarrow> left_over m (close_pipe e j h) \<le> k"
    "left_over m h \<le> k \<Longrightarrow> left_over m (release_ref e h) \<le> k"
    "left_over m h \<le> k \<Longrightarrow> left_over m (drop_pasv e h) \<le> k"
  using assms
  by (simp_all add: opftp_close_fd_def close_if_open_def close_pipe_def release_ref_def drop_pasv_def
      Let_def calm_simps)

lemma calm_helpers2 [calm_simps]:
  assumes "calm_env m e"
  shows "left_over m h \<le> k \<Longrightarrow> left_over m (job_free e j h) \<le> k"
    "left_over m h \<le> k \<Longrightarrow> left_over m (set_data_peer e a h) \<le> k"
    "left_over m h \<le> k \<Longrightarrow> left_over m (snd (job_new e op h)) \<le> k"
    "left_over m h \<le> k \<Longrightarrow> left_over m (snd (parent_is_dir e p h)) \<le> k"
    "left_over m h \<le> k \<Longrightarrow> left_over m (snd (dispatch_job j h)) \<le> k"
  using assms
  by (simp_all add: job_free_def set_data_peer_def job_new_def call_eq parent_is_dir_def dispatch_job_def Let_def
      calm_simps split: option.split prod.split)

lemma calm_in_dir [calm_simps]:
  assumes "calm_env m e" "left_over m h \<le> k"
  shows "left_over m (snd (resolve_in_dir e p h)) \<le> k"
proof (cases "resolve_param h p")
  case (Some path)
  obtain b h1 where p: "parent_is_dir e path h = (b, h1)" by force
  with calm_helpers2(4) [OF assms, of path] have "left_over m h1 \<le> k" by simp
  with Some p show ?thesis by (cases b) (simp_all add: resolve_in_dir_def)
qed (use assms in \<open>simp add: resolve_in_dir_def\<close>)

lemma calm_transfer [calm_simps]:
  assumes "calm_env m e" "left_over m h \<le> k"
  shows "left_over m (start_transfer e op p n l r h) \<le> k"
proof -
  obtain j h1 where j: "job_new e op h = (j, h1)" by force
  with calm_helpers2(3) [OF assms, of op] have h1: "left_over m h1 \<le> k" by simp
  obtain q g where q: "opftp_job_dispatch (s_next_job (h_srv h1)) (s_ring (h_srv h1)) = (q, g)" by force
  show ?thesis
    using assms h1 q
    by (cases q; cases j; simp add: start_transfer_def j dispatch_job_def Let_def calm_simps split: option.split)
qed

lemma fold_send_sys: "h_sys (fold opftp_client_send ls h) = h_sys h"
  by (induction ls arbitrary: h) simp_all

lemma calm_auth:
  "calm_env m e \<Longrightarrow> e_auth e = Some g \<Longrightarrow> g u p s = (b, s') \<Longrightarrow> m (sys_state s') \<le> m (sys_state s)"
  using calm_ops(20) [of m e s "m (sys_state s)" g u p] by simp

lemma calm_session:
  assumes "calm_env m e"
  shows "left_over m (cmd_user e p h) \<le> left_over m h" "left_over m (cmd_pass e p h) \<le> left_over m h"
    "left_over m (cmd_quit e p h) \<le> left_over m h" "left_over m (cmd_noop e p h) \<le> left_over m h"
    "left_over m (cmd_syst e p h) \<le> left_over m h" "left_over m (cmd_help e p h) \<le> left_over m h"
    "left_over m (cmd_opts e p h) \<le> left_over m h" "left_over m (cmd_acct e p h) \<le> left_over m h"
    "left_over m (cmd_allo e p h) \<le> left_over m h" "left_over m (cmd_mode e p h) \<le> left_over m h"
    "left_over m (cmd_stru e p h) \<le> left_over m h" "left_over m (cmd_type e p h) \<le> left_over m h"
    "left_over m (cmd_pbsz e p h) \<le> left_over m h" "left_over m (cmd_prot e p h) \<le> left_over m h"
    "left_over m (cmd_feat e p h) \<le> left_over m h" "left_over m (cmd_stop e p h) \<le> left_over m h"
    "left_over m (cmd_rest e p h) \<le> left_over m h" "left_over m (cmd_abor e p h) \<le> left_over m h"
    "left_over m (cmd_auth e p h) \<le> left_over m h" "left_over m (cmd_pwd e p h) \<le> left_over m h"
  using assms calm_auth [OF assms]
  by (auto simp: cmd_user_def cmd_pass_def cmd_quit_def cmd_noop_def cmd_syst_def cmd_help_def
      cmd_opts_def cmd_acct_def cmd_allo_def cmd_mode_def cmd_stru_def cmd_type_def cmd_pwd_def
      cmd_pbsz_def cmd_prot_def cmd_feat_def cmd_stop_def cmd_rest_def cmd_abor_def cmd_auth_def
      opftp_client_start_tls_def poll_mod_client_def call_eq Let_def fold_send_sys calm_simps
      split: option.split list.split prod.split)

lemma calm_files:
  assumes "calm_env m e"
  shows "left_over m (cmd_cwd e p h) \<le> left_over m h" "left_over m (cmd_rmd e p h) \<le> left_over m h"
    "left_over m (cmd_dele e p h) \<le> left_over m h" "left_over m (cmd_rnfr e p h) \<le> left_over m h"
    "left_over m (cmd_cpfr e p h) \<le> left_over m h" "left_over m (cmd_size e p h) \<le> left_over m h"
    "left_over m (cmd_mdtm e p h) \<le> left_over m h" "left_over m (cmd_mlst e p h) \<le> left_over m h"
    "left_over m (cmd_mfmt e p h) \<le> left_over m h" "left_over m (cmd_retr e p h) \<le> left_over m h"
    "left_over m (start_listing e p n l h) \<le> left_over m h"
  using assms
  by (simp_all add: cmd_cwd_def cmd_rmd_def cmd_dele_def cmd_rnfr_def cmd_cpfr_def cmd_size_def cmd_mdtm_def
      cmd_mlst_def cmd_mfmt_def cmd_retr_def start_listing_def reply_fs_error_def call_eq Let_def calm_simps
      split: option.split)

lemma calm_site:
  assumes "calm_env m e"
  shows "left_over m (site_chmod e a h) \<le> left_over m h" "left_over m (site_utime e a h) \<le> left_over m h"
proof -
  show "left_over m (site_chmod e a h) \<le> left_over m h"
    using assms by (simp add: site_chmod_def reply_fs_error_def call_eq calm_simps
        split: option.split prod.split list.split char.split bool.split)
  show "left_over m (site_utime e a h) \<le> left_over m h"
    using assms by (simp add: site_utime_def reply_fs_error_def call_eq Let_def calm_simps split: option.split)
qed

lemma calm_in_dir_case:
  assumes "calm_env m e" "resolve_in_dir e p h = (r, h')"
  shows "left_over m h' \<le> left_over m h"
  using calm_in_dir [OF assms(1) order_refl, of p] assms(2) by (metis snd_conv)

lemma calm_placed:
  assumes "calm_env m e"
  shows "left_over m (cmd_mkd e p h) \<le> left_over m h" "left_over m (cmd_rnto e p h) \<le> left_over m h"
proof -
  obtain r h1 where r: "resolve_in_dir e p h = (r, h1)" by force
  note h1 = calm_in_dir_case [OF assms r]
  show "left_over m (cmd_mkd e p h) \<le> left_over m h" "left_over m (cmd_rnto e p h) \<le> left_over m h"
    using assms h1 by (cases r; simp add: cmd_mkd_def cmd_rnto_def r reply_fs_error_def call_eq calm_simps
        split: option.split)+
qed

lemma calm_cpto:
  assumes "calm_env m e"
  shows "left_over m (cmd_cpto e p h) \<le> left_over m h"
proof -
  obtain r h1 where r: "resolve_in_dir e p h = (r, h1)" by force
  define h2 where "h2 = upd_cl (\<lambda>c. c\<lparr> c_have_cpfr := False \<rparr>) h1"
  have h2: "left_over m h2 \<le> left_over m h" using calm_in_dir_case [OF assms r] by (simp add: h2_def)
  obtain j h3 where j: "job_new e OPFTP_JOB_COPY h2 = (j, h3)" by force
  with calm_helpers2(3) [OF assms h2] have h3: "left_over m h3 \<le> left_over m h" by (metis snd_conv)
  obtain q g where q: "opftp_job_dispatch (s_next_job (h_srv h3)) (s_ring (h_srv h3)) = (q, g)" by force
  show ?thesis
    using assms h2 h3 q
    by (cases r; cases q; cases j; simp add: cmd_cpto_def r h2_def [symmetric] j reply_fs_error_def
        dispatch_job_def Let_def calm_simps)
qed

lemma calm_store:
  assumes "calm_env m e"
  shows "left_over m (start_store e op p h) \<le> left_over m h"
proof (cases "resolve_param h p")
  case (Some path)
  obtain b h1 where b: "parent_is_dir e path h = (b, h1)" by force
  with calm_helpers2(4) [OF assms order_refl, of path] have "left_over m h1 \<le> left_over m h" by (metis snd_conv)
  with Some b assms show ?thesis by (cases b) (simp_all add: start_store_def reply_fs_error_def calm_simps)
qed (simp add: start_store_def)

lemma calm_entries:
  "calm_env m e \<Longrightarrow> left_over m h \<le> k \<Longrightarrow> left_over m (stat_entries n e d h) \<le> k"
  by (induction n arbitrary: h) (simp_all add: call_eq calm_simps split: option.split)

lemma calm_stat: "calm_env m e \<Longrightarrow> left_over m (cmd_stat e p h) \<le> left_over m h"
  by (simp add: cmd_stat_def reply_fs_error_def call_eq Let_def calm_simps calm_entries split: option.split)

lemma calm_bind:
  "calm_env m e \<Longrightarrow> left_over m h \<le> k \<Longrightarrow> left_over m (snd (bind_from e fd a lo hi c h)) \<le> k"
proof (induction e fd a lo hi c h rule: bind_from.induct)
  case (1 e fd a lo hi c h)
  then show ?case
    by (subst bind_from.simps) (simp add: call_eq calm_simps split: option.split)
qed

lemma calm_listener:
  assumes "calm_env m e" "open_listener e fd a h = (r, h')"
  shows "left_over m h' \<le> left_over m h"
proof -
  let ?b = "bind_listener_in_range e fd a (s_pasv_min (h_srv h)) (s_pasv_max (h_srv h)) h"
  obtain q h1 where q: "?b = (q, h1)" by force
  have "left_over m (snd ?b) \<le> left_over m h"
    using assms(1) by (simp add: bind_listener_in_range_def Let_def calm_bind)
  with q have "left_over m h1 \<le> left_over m h" by simp
  with assms q show ?thesis
    by (auto simp: open_listener_def call_eq calm_simps split: option.splits)
qed

lemma calm_stou_search:
  "calm_env m e \<Longrightarrow> left_over m h \<le> k \<Longrightarrow> left_over m (snd (stou_search n e h)) \<le> k"
  by (induction n arbitrary: h) (simp_all add: call_eq Let_def calm_simps split: option.split)

lemma calm_pasv:
  assumes "calm_env m e"
  shows "left_over m (cmd_pasv e p h) \<le> left_over m h"
proof -
  define h1 where "h1 = h\<lparr> h_sys := snd (e_getsockname e (c_fd (h_cl h)) (h_sys h)) \<rparr>"
  define h2 where "h2 = snd (call (e_socket e AF_INET) (drop_pasv e h1))"
  have h1: "left_over m h1 \<le> left_over m h" using assms by (simp add: h1_def calm_simps)
  then have h2: "left_over m h2 \<le> left_over m h" using assms by (simp add: h2_def call_eq calm_simps)
  have "left_over m h3 \<le> left_over m h" if "open_listener e fd a h2 = (r, h3)" for fd a r h3
    using calm_listener [OF assms that] h2 by simp
  with assms h1 h2 show ?thesis
    by (auto simp: cmd_pasv_def call_eq h1_def [symmetric] h2_def Let_def calm_simps
        split: option.split prod.split sum.split)
qed

lemma calm_epsv:
  assumes "calm_env m e"
  shows "left_over m (cmd_epsv e p h) \<le> left_over m h"
proof -
  define h1 where "h1 = drop_pasv e h"
  define h2 where "h2 = snd (call (e_socket e AF_INET6) h1)"
  define h3 where "h3 = snd (call (e_socket e AF_INET) h2)"
  have h: "left_over m h1 \<le> left_over m h" using assms by (simp add: h1_def calm_simps)
  then have h2: "left_over m h2 \<le> left_over m h" using assms by (simp add: h2_def call_eq calm_simps)
  then have h3: "left_over m h3 \<le> left_over m h" using assms by (simp add: h3_def call_eq calm_simps)
  have "left_over m h4 \<le> left_over m h" if "open_listener e fd a h2 = (r, h4)" for fd a r h4
    using calm_listener [OF assms that] h2 by simp
  moreover have "left_over m h4 \<le> left_over m h" if "open_listener e fd a h3 = (r, h4)" for fd a r h4
    using calm_listener [OF assms that] h3 by simp
  ultimately show ?thesis
    using assms h2 h3
    by (auto simp: cmd_epsv_def call_eq h1_def [symmetric] h2_def h3_def Let_def calm_simps
        split: option.split prod.split)
qed

lemma calm_stou:
  assumes "calm_env m e"
  shows "left_over m (cmd_stou e p h) \<le> left_over m h"
proof -
  define h1 where "h1 = (if s_stou_seq (h_srv h) = 0 then
       (case e_time e (h_sys h) of
          (t, s) \<Rightarrow> upd_srv (\<lambda>v. v\<lparr> s_stou_seq := word_of_int t mod 1000000 \<rparr>) (h\<lparr> h_sys := s \<rparr>))
     else h)"
  have h1: "left_over m h1 \<le> left_over m h"
    using calm_ops(18) [OF assms order_refl] by (simp add: h1_def case_prod_beta)
  obtain r h2 where r: "stou_search 10 e h1 = (r, h2)" by force
  with calm_stou_search [OF assms h1, of 10] have "left_over m h2 \<le> left_over m h" by simp
  with assms show ?thesis
    unfolding cmd_stou_def h1_def [symmetric] Let_def
    by (simp add: r calm_simps split: sum.split prod.split)
qed

lemma calm_peers:
  assumes "calm_env m e"
  shows "left_over m (cmd_port e p h) \<le> left_over m h" "left_over m (cmd_eprt e p h) \<le> left_over m h"
    "left_over m (cmd_site e p h) \<le> left_over m h"
  using assms calm_site [OF assms] calm_session(16) [OF assms]
  by (simp_all add: cmd_port_def cmd_eprt_def cmd_site_def Let_def calm_simps split: option.split prod.split)

lemmas calm_commands = calm_session calm_files calm_placed calm_cpto calm_store calm_stat calm_pasv
  calm_epsv calm_stou calm_peers

lemma builtin_calm:
  assumes "calm_env m e" "map_of (builtin_commands b) name = Some f"
  shows "left_over m (f e p h) \<le> left_over m h"
proof -
  have "(name, f) \<in> set (builtin_commands b)" using assms(2) by (rule map_of_SomeD)
  then show ?thesis
    using calm_commands [OF assms(1)]
    by (auto simp: builtin_commands_def cmd_cdup_def cmd_list_def cmd_nlst_def cmd_mlsd_def cmd_stor_def
        cmd_appe_def split: if_splits)
qed

end
