(* ===== verification/Session_Gate.thy ===== *)
theory Session_Gate
  imports Session_Input
begin

text \<open>
  What holds of a session whatever the client sends: every command line and every event keeps the
  invariant of \<^verbatim>\<open>Session_Invariant\<close>; before login only the login commands run, and they touch
  neither files nor jobs nor data connections; and the lines of a read buffer are always processed
  to an end.
\<close>

section \<open>Definitions\<close>

abbreviation builtin_table :: "bool \<Rightarrow> 'x handler cmd_table option" where
  "builtin_table b \<equiv> opftp_commands_init b empty_table"

definition builtin_only :: "'x handler cmd_table option \<Rightarrow> bool \<Rightarrow> bool" where
  "builtin_only tab b \<longleftrightarrow> (\<forall>name. opftp_dispatch_call tab (Some name) = map_of (builtin_commands b) name)"

text \<open>\<open>recv\<close> and the TLS read return at most the bytes asked for.\<close>

definition cio_bounded :: "'x cio \<Rightarrow> bool" where
  "cio_bounded io \<longleftrightarrow>
     (\<forall>fd n s bs s'. cio_recv io fd n s = (Some bs, s') \<longrightarrow> length bs \<le> n) \<and>
     (\<forall>t n s bs s'. cio_tls_read io t n s = (Tls_done bs, s') \<longrightarrow> length bs \<le> n)"

text \<open>What a client that has not logged in can change: its own name, the state of its TLS session
  and its end. The protection of data connections is stated apart: \<open>PROT\<close> sets it.\<close>

definition gate_frame :: "'x env \<Rightarrow> 'x hst \<Rightarrow> 'x hst \<Rightarrow> bool" where
  "gate_frame e h h' \<longleftrightarrow>
     s_jobs (h_srv h') = s_jobs (h_srv h) \<and> s_ring (h_srv h') = s_ring (h_srv h) \<and>
     s_next_job (h_srv h') = s_next_job (h_srv h) \<and> s_stopping (h_srv h') = s_stopping (h_srv h) \<and>
     h_closed h' = h_closed h \<and> c_refs (h_cl h') = c_refs (h_cl h) \<and> c_job (h_cl h') = c_job (h_cl h) \<and>
     c_cwd (h_cl h') = c_cwd (h_cl h) \<and> c_pasv_fd (h_cl h') = c_pasv_fd (h_cl h) \<and>
     c_have_data_peer (h_cl h') = c_have_data_peer (h_cl h) \<and> c_data_peer (h_cl h') = c_data_peer (h_cl h) \<and>
     c_rest (h_cl h') = c_rest (h_cl h) \<and>
     c_rnfr (h_cl h') = c_rnfr (h_cl h) \<and> c_cpfr (h_cl h') = c_cpfr (h_cl h) \<and>
     c_have_rnfr (h_cl h') = c_have_rnfr (h_cl h) \<and> c_have_cpfr (h_cl h') = c_have_cpfr (h_cl h) \<and>
     (c_logged_in (h_cl h') \<longrightarrow> c_logged_in (h_cl h) \<or> auth_accepts e (c_user (h_cl h)))"

definition prelogin_handlers :: "'x handler list" where
  "prelogin_handlers = [cmd_user, cmd_pass, cmd_quit, cmd_help, cmd_feat, cmd_syst, cmd_noop, cmd_opts,
     cmd_auth, cmd_pbsz, cmd_prot]"

text \<open>Transports for statements at concrete states: one that has nothing to read for now, and one
  that delivers a single command line first.\<close>

definition idle_io :: "unit cio" where
  "idle_io =
     \<lparr> cio_recv = (\<lambda>fd n s. (None, s\<lparr> sys_errno := EAGAIN \<rparr>)),
       cio_tls_read = (\<lambda>t n s. (Tls_error, s)), cio_send = (\<lambda>fd bs s. (Some (length bs), s)),
       cio_tls_write = (\<lambda>t bs s. (Tls_error, s)), cio_poll = (\<lambda>fd b s. (True, s)) \<rparr>"

definition one_line_io :: "string \<Rightarrow> unit cio" where
  "one_line_io l =
     idle_io\<lparr> cio_recv := (\<lambda>fd n s. if sys_errno s = EOTHER 0 \<and> length l \<le> n
                                  then (Some l, s\<lparr> sys_errno := EAGAIN \<rparr>)
                                  else (None, s\<lparr> sys_errno := EAGAIN \<rparr>)) \<rparr>"

text \<open>A session with two commands on the way, in three pieces.\<close>

definition typed_state :: "string list hst" where
  "typed_state =
     \<lparr> h_id = 0, h_cl = opftp_client_new 5 (Sa_in [10, 0, 0, 1] 4000), h_srv = default_server,
       h_sys = \<lparr> sys_errno = EOTHER 0, sys_state = [''USER a'', crlf, ''NOOP'' @ crlf] \<rparr>, h_out = [], h_closed = [] \<rparr>"

definition bytes_left :: "string list \<Rightarrow> nat" where
  "bytes_left segs = sum_list (map (\<lambda>b. length b + 1) segs)"

section \<open>Lines\<close>

lemma builtin_call: "opftp_dispatch_call (builtin_table b) (Some name) = map_of (builtin_commands b) name"
  using fun_cong [OF commands_init_table(2), of b name] by (simp add: reg_lookup_def)

lemma builtin_only_init: "builtin_only (builtin_table b) b"
  by (simp add: builtin_only_def builtin_call)

lemma process_line_steps:
  assumes "builtin_only tab (s_allow_stop (h_srv h))" "0 < c_refs (h_cl h)"
  shows "hsteps e h (process_line tab e line h)"
  using builtin_steps [of _ _ h e] assms
  by (auto simp: process_line_def builtin_only_def step_simps split: option.split dest!: map_of_SomeD)

lemma process_line_ok:
  assumes "hst_ok h" "builtin_only tab (s_allow_stop (h_srv h))"
  shows "hst_ok (process_line tab e line h)" "same_config h (process_line tab e line h)"
proof -
  have "hsteps e h (process_line tab e line h)"
    using assms by (intro process_line_steps) (simp_all add: hst_ok_def client_ok_def)
  then show "hst_ok (process_line tab e line h)" "same_config h (process_line tab e line h)"
    using hsteps_ok hsteps_config assms(1) by blast+
qed

lemma same_config_trans: "same_config h1 h2 \<Longrightarrow> same_config h2 h3 \<Longrightarrow> same_config h1 h3"
  by (simp add: same_config_def)

lemma getline_rest:
  "opftp_client_getline n b = Some (l, r) \<Longrightarrow> length r < length b"
  by (auto simp: opftp_client_getline_def Let_def line_shorter split: if_splits)

lemma hst_ok_shorter:
  "hst_ok h \<Longrightarrow> length r \<le> OPFTP_RBUF \<Longrightarrow> hst_ok (upd_cl (\<lambda>c. c\<lparr> c_rbuf := r \<rparr>) h)"
  by (simp add: hst_ok_def client_ok_def link_ok_def)

lemma line_loop_ok:
  assumes "line_loop tab e h = Some h'" "builtin_only tab (s_allow_stop (h_srv h))" "hst_ok h"
  shows "hst_ok h' \<and> same_config h h'"
  using assms
proof (induction rule: line_loop.raw_induct [rotated, consumes 1])
  case (1 f tab e h h')
  show ?case
  proof (cases "opftp_client_getline 1024 (c_rbuf (h_cl h))")
    case None
    with 1 show ?thesis by (simp add: same_config_def)
  next
    case (Some lr)
    define h0 where "h0 = upd_cl (\<lambda>c. c\<lparr> c_rbuf := snd lr \<rparr>) h"
    define h1 where "h1 = process_line tab e (fst lr) h0"
    have "length (snd lr) < length (c_rbuf (h_cl h))"
      using getline_rest Some by (metis prod.collapse)
    moreover have "length (c_rbuf (h_cl h)) \<le> OPFTP_RBUF" using 1(4) by (simp add: hst_ok_def client_ok_def)
    ultimately have h0: "hst_ok h0" "same_config h h0" "s_allow_stop (h_srv h0) = s_allow_stop (h_srv h)"
      using hst_ok_shorter [OF 1(4)] by (simp_all add: h0_def same_config_def)
    then have h1: "hst_ok h1" "same_config h h1"
      using process_line_ok [OF h0(1), of tab] same_config_trans [OF h0(2)] 1(3) by (auto simp: h1_def)
    then have t: "builtin_only tab (s_allow_stop (h_srv h1))" using 1(3) by (simp add: same_config_def)
    from 1(2) Some have "h' = h1 \<or> f tab e h1 = Some h'"
      by (simp add: h0_def h1_def Let_def split: if_splits)
    with 1(1) [OF _ t h1(1)] h1 show ?thesis by (auto intro: same_config_trans)
  qed
qed

lemma client_read_buf:
  assumes "cio_bounded io" "opftp_client_read io c s = (r, c', s')"
  shows "c' = c \<or> (\<exists>bs. c' = c\<lparr> c_rbuf := c_rbuf c @ bs \<rparr> \<and> length (c_rbuf c @ bs) \<le> OPFTP_RBUF \<and> bs \<noteq> [])"
proof -
  have b: "cio_recv io fd n s = (Some bs, s') \<Longrightarrow> length bs \<le> n"
    "cio_tls_read io t n s = (Tls_done bs, s') \<Longrightarrow> length bs \<le> n" for fd t n bs s'
    using assms(1) unfolding cio_bounded_def by blast+
  show ?thesis
    using assms(2) unfolding opftp_client_read_def Let_def
    by (auto split: if_splits option.splits prod.splits tls_io.splits dest!: b)
qed

lemma client_read_ok:
  assumes "cio_bounded io" "hst_ok h" "opftp_client_read io (h_cl h) (h_sys h) = (r, c, s)"
  shows "hst_ok (h\<lparr> h_cl := c, h_sys := s \<rparr>)" "same_config h (h\<lparr> h_cl := c, h_sys := s \<rparr>)"
  using client_read_buf [OF assms(1,3)] assms(2)
  by (auto simp: hst_ok_def client_ok_def link_ok_def same_config_def)

lemma hst_ok_leave:
  "hst_ok h \<Longrightarrow> hst_ok (upd_cl (\<lambda>c. c\<lparr> c_disconnect_requested := True \<rparr>) h)"
  "same_config h (upd_cl (\<lambda>c. c\<lparr> c_disconnect_requested := True \<rparr>) h)"
  by (simp_all add: hst_ok_def client_ok_def link_ok_def same_config_def)

lemma read_loop_ok:
  assumes "read_loop io tab e h = Some h'" "builtin_only tab (s_allow_stop (h_srv h))" "hst_ok h"
    "cio_bounded io"
  shows "hst_ok h' \<and> same_config h h'"
  using assms
proof (induction rule: read_loop.raw_induct [rotated, consumes 1])
  case (1 f io tab e h h')
  obtain r c s where r: "opftp_client_read io (h_cl h) (h_sys h) = (r, c, s)" by (cases "opftp_client_read io (h_cl h) (h_sys h)") auto
  define h1 where "h1 = h\<lparr> h_cl := c, h_sys := s \<rparr>"
  have h1: "hst_ok h1" "same_config h h1" "builtin_only tab (s_allow_stop (h_srv h1))"
    using client_read_ok [OF 1(5,4) r] 1(3) by (simp_all add: h1_def)
  show ?case
  proof (cases r)
    case (Read_bytes n)
    with 1(2) r obtain h2 where l: "line_loop tab e h1 = Some h2" and
      "h' = h2 \<or> f io tab e h2 = Some h'"
      by (auto simp: h1_def Let_def bind_eq_Some_conv split: if_splits)
    moreover have "hst_ok h2" "same_config h1 h2" using line_loop_ok [OF l h1(3,1)] by auto
    moreover from this h1(3) have "builtin_only tab (s_allow_stop (h_srv h2))" by (simp add: same_config_def)
    ultimately show ?thesis
      using 1(1) [OF _ _ _ 1(5)] h1(2) by (auto intro: same_config_trans)
  qed (use 1(2) r h1 hst_ok_leave [of h1] in \<open>auto simp: h1_def Let_def intro: same_config_trans\<close>)
qed

lemma hst_ok_poll: "hst_ok h \<Longrightarrow> hst_ok (poll_mod_client ev h)" "same_config h (poll_mod_client ev h)"
  by (auto intro: hstep_ok hstep_config hstep.Poll)

lemma hst_ok_sys: "hst_ok (h\<lparr> h_sys := s \<rparr>) = hst_ok h" "same_config h (h\<lparr> h_sys := s \<rparr>)"
  by (simp_all add: hst_ok_def link_ok_def same_config_def)

lemma hst_ok_handshaken:
  "hst_ok h \<Longrightarrow> hst_ok (upd_cl (\<lambda>c. c\<lparr> c_tls_handshaking := b \<rparr>) h)"
  "same_config h (upd_cl (\<lambda>c. c\<lparr> c_tls_handshaking := b \<rparr>) h)"
  by (simp_all add: hst_ok_def client_ok_def link_ok_def same_config_def)

lemma handshake_ok:
  assumes "hst_ok h" "c_tls_handshaking (h_cl h)" "handle_client_events hs io tab e ev h = Some h'"
  shows "hst_ok h' \<and> same_config h h'"
proof -
  obtain r s where r: "hs (case c_tls (h_cl h) of Some t \<Rightarrow> t | None \<Rightarrow> 0) (h_sys h) = (r, s)" by fastforce
  let ?h = "h\<lparr> h_sys := s \<rparr>"
  have "hst_ok ?h" "same_config h ?h" using assms(1) hst_ok_sys by auto
  moreover from this have "hst_ok h'"
    using assms(2,3) r
    by (cases r) (auto simp: handle_client_events_def Let_def
        intro!: hst_ok_poll(1) hst_ok_handshaken(1) hst_ok_leave(1))
  moreover have "same_config ?h h'"
    using assms(2,3) r
    by (cases r) (auto simp: handle_client_events_def Let_def
        intro: hst_ok_poll(2) hst_ok_leave(2) same_config_trans [OF hst_ok_handshaken(2) hst_ok_poll(2)])
  ultimately show ?thesis by (blast intro: same_config_trans)
qed

lemma urgent_ok:
  assumes "hst_ok h" "builtin_only tab (s_allow_stop (h_srv h))" "opftp_dispatch_call tab (Some name) = Some f"
  shows "hst_ok (f e p h)" "same_config h (f e p h)"
proof -
  have "hsteps e h (f e p h)"
    using assms by (intro builtin_steps) (auto simp: builtin_only_def hst_ok_def client_ok_def dest: map_of_SomeD)
  then show "hst_ok (f e p h)" "same_config h (f e p h)" using hsteps_ok hsteps_config assms(1) by blast+
qed

lemma events_ok:
  assumes "hst_ok h" "builtin_only tab (s_allow_stop (h_srv h))" "cio_bounded io"
    "handle_client_events hs io tab e ev h = Some h'"
  shows "hst_ok h' \<and> same_config h h'"
proof (cases "c_tls_handshaking (h_cl h)")
  case False
  define h1 where "h1 = (if ev AND POLLPRI \<noteq> 0 then
     (case opftp_dispatch_call tab (Some ''ABOR'') of Some f \<Rightarrow> f e None h | None \<Rightarrow> h) else h)"
  have h1: "hst_ok h1" "same_config h h1" "builtin_only tab (s_allow_stop (h_srv h1))"
    using assms(1,2) urgent_ok [OF assms(1,2)]
    by (auto simp: h1_def same_config_def split: option.split)
  obtain h2 where h2: "(if ev AND POLLIN \<noteq> 0 then read_loop io tab e h1 else Some h1) = Some h2"
    and h': "h' = h2 \<or> h' = upd_cl (\<lambda>c. c\<lparr> c_disconnect_requested := True \<rparr>) h2"
    using assms(4) False unfolding handle_client_events_def Let_def h1_def [symmetric]
    by (auto split: if_splits)
  have "hst_ok h2 \<and> same_config h1 h2"
    using h2 h1 read_loop_ok [OF _ h1(3,1) assms(3)] by (auto simp: same_config_def split: if_splits)
  with h' h1 hst_ok_leave [of h2] show ?thesis by (auto intro: same_config_trans)
qed (rule handshake_ok [OF assms(1) _ assms(4)])

section \<open>Before login\<close>

lemma fold_send_frame:
  "h_srv (fold opftp_client_send ls h) = h_srv h" "h_cl (fold opftp_client_send ls h) = h_cl h"
  "h_closed (fold opftp_client_send ls h) = h_closed h"
  by (induction ls arbitrary: h) simp_all

lemma gate_frame_refl: "gate_frame e h h"
  by (simp add: gate_frame_def)

lemma start_tls_gate:
  "opftp_client_start_tls e h = (b, h') \<Longrightarrow> gate_frame e h h'"
  by (auto simp: opftp_client_start_tls_def gate_frame_def call_eq Let_def poll_mod_client_def
      split: if_splits option.splits)

lemma pass_gate: "gate_frame e h (cmd_pass e p h)"
proof -
  have "fst (f u q s) \<Longrightarrow> u \<noteq> [] \<Longrightarrow> e_auth e = Some f \<Longrightarrow> auth_accepts e u" for f u q s
    by (auto simp: auth_accepts_def)
  moreover have "u \<noteq> [] \<Longrightarrow> e_auth e = None \<Longrightarrow> auth_accepts e u" for u by (simp add: auth_accepts_def)
  ultimately show ?thesis
    by (auto simp: cmd_pass_def gate_frame_def Let_def split: option.split prod.split)
      (metis fst_conv)+
qed

lemma session_gate:
  "gate_frame e h (cmd_user e p h)" "gate_frame e h (cmd_quit e p h)" "gate_frame e h (cmd_help e p h)"
  "gate_frame e h (cmd_feat e p h)" "gate_frame e h (cmd_syst e p h)" "gate_frame e h (cmd_noop e p h)"
  "gate_frame e h (cmd_opts e p h)" "gate_frame e h (cmd_pbsz e p h)" "gate_frame e h (cmd_prot e p h)"
  by (simp_all add: gate_frame_def cmd_user_def cmd_quit_def cmd_help_def cmd_feat_def cmd_syst_def
      cmd_noop_def cmd_opts_def cmd_pbsz_def cmd_prot_def Let_def fold_send_frame split: option.split)

lemma auth_gate: "gate_frame e h (cmd_auth e p h)"
proof -
  obtain b h' where t: "opftp_client_start_tls e h = (b, h')" by fastforce
  have "gate_frame e h (reply n m h)" for n m by (simp add: gate_frame_def)
  moreover have "gate_frame e h (upd_cl (\<lambda>c. c\<lparr> c_disconnect_requested := True \<rparr>) (reply n m h'))"
    "gate_frame e h (reply n m h')" for n m
    using start_tls_gate [OF t] by (simp_all add: gate_frame_def)
  ultimately show ?thesis by (simp add: cmd_auth_def t split: bool.split)
qed

lemma prelogin_lookup:
  "map_of (builtin_commands b) ''USER'' = Some cmd_user" "map_of (builtin_commands b) ''PASS'' = Some cmd_pass"
  "map_of (builtin_commands b) ''QUIT'' = Some cmd_quit" "map_of (builtin_commands b) ''HELP'' = Some cmd_help"
  "map_of (builtin_commands b) ''FEAT'' = Some cmd_feat" "map_of (builtin_commands b) ''SYST'' = Some cmd_syst"
  "map_of (builtin_commands b) ''NOOP'' = Some cmd_noop" "map_of (builtin_commands b) ''OPTS'' = Some cmd_opts"
  "map_of (builtin_commands b) ''AUTH'' = Some cmd_auth" "map_of (builtin_commands b) ''PBSZ'' = Some cmd_pbsz"
  "map_of (builtin_commands b) ''PROT'' = Some cmd_prot"
  by (simp_all add: builtin_commands_def)

lemma prelogin_builtin:
  fixes f :: "'x handler"
  assumes "prelogin_command name" "map_of (builtin_commands b) name = Some f"
  shows "f \<in> set prelogin_handlers"
proof -
  from assms(1) have "the (map_of (builtin_commands b) name :: 'x handler option) \<in> set prelogin_handlers"
    unfolding prelogin_command_def
    by (simp only: list.set insert_iff empty_iff) (elim disjE; simp add: prelogin_lookup prelogin_handlers_def)
  with assms(2) show ?thesis by simp
qed

lemma prelogin_frame: "f \<in> set prelogin_handlers \<Longrightarrow> gate_frame e h (f e p h)"
  by (auto simp: prelogin_handlers_def session_gate pass_gate auth_gate)

text \<open>Of these handlers only \<open>PROT\<close> changes the protection of data connections.\<close>

lemma start_tls_prot: "c_tls_prot (h_cl (snd (opftp_client_start_tls e h))) = c_tls_prot (h_cl h)"
  by (simp add: opftp_client_start_tls_def call_eq Let_def poll_mod_client_def split: option.split)

lemma prelogin_prot:
  fixes f :: "'x handler"
  assumes "prelogin_command name" "map_of (builtin_commands b) name = Some f"
  shows "c_tls_prot (h_cl (f e p h)) = c_tls_prot (h_cl h) \<or> name = ''PROT'' \<and> c_tls (h_cl h) \<noteq> None"
proof -
  have auth: "c_tls_prot (h_cl (cmd_auth e p h)) = c_tls_prot (h_cl h)"
    using start_tls_prot [of e h] by (auto simp: cmd_auth_def split: prod.split bool.split)
  have pass: "c_tls_prot (h_cl (cmd_pass e p h)) = c_tls_prot (h_cl h)"
    by (auto simp: cmd_pass_def Let_def split: option.split prod.split bool.split)
  let ?P = "\<lambda>f. c_tls_prot (h_cl (f e p h)) = c_tls_prot (h_cl h) \<or> name = ''PROT'' \<and> c_tls (h_cl h) \<noteq> None"
  from assms(1) have "?P (the (map_of (builtin_commands b) name :: 'x handler option))"
    unfolding prelogin_command_def
    by (simp only: list.set insert_iff empty_iff)
      (elim disjE; simp add: prelogin_lookup auth pass cmd_user_def cmd_quit_def cmd_help_def cmd_feat_def cmd_syst_def
        cmd_noop_def cmd_opts_def cmd_pbsz_def cmd_prot_def Let_def fold_send_frame split: option.split)
  with assms(2) show ?thesis by simp
qed

lemma prelogin_no_fs: "f \<in> set prelogin_handlers \<Longrightarrow> f (e\<lparr> e_fs := fs \<rparr>) p h = f e p h"
  by (auto simp: prelogin_handlers_def cmd_user_def cmd_pass_def cmd_quit_def cmd_help_def cmd_feat_def
      cmd_syst_def cmd_noop_def cmd_opts_def cmd_pbsz_def cmd_prot_def cmd_auth_def opftp_client_start_tls_def
      Let_def)

section \<open>Lines come to an end\<close>

lemma hstep_rbuf: "hstep e h h' \<Longrightarrow> length (c_rbuf (h_cl h')) \<le> length (c_rbuf (h_cl h))"
  by (induction rule: hstep.induct)
    (simp_all add: poll_mod_client_def drop_pasv_def set_data_peer_def cancel_job_def
      launch_def hand_over_def Let_def)

lemma hsteps_rbuf: "hsteps e h h' \<Longrightarrow> length (c_rbuf (h_cl h')) \<le> length (c_rbuf (h_cl h))"
  by (induction rule: rtranclp_induct) (auto dest: hstep_rbuf)

lemma line_loop_total:
  assumes "builtin_only tab (s_allow_stop (h_srv h))" "hst_ok h"
  shows "\<exists>h'. line_loop tab e h = Some h'"
  using assms
proof (induction "length (c_rbuf (h_cl h))" arbitrary: h rule: less_induct)
  case less
  show ?case
  proof (cases "opftp_client_getline 1024 (c_rbuf (h_cl h))")
    case None
    then show ?thesis by (subst line_loop.simps) simp
  next
    case (Some lr)
    define h0 where "h0 = upd_cl (\<lambda>c. c\<lparr> c_rbuf := snd lr \<rparr>) h"
    define h1 where "h1 = process_line tab e (fst lr) h0"
    have l: "length (snd lr) < length (c_rbuf (h_cl h))" using getline_rest Some by (metis prod.collapse)
    with less(3) have h0: "hst_ok h0" "builtin_only tab (s_allow_stop (h_srv h0))"
      using hst_ok_shorter [OF less(3), of "snd lr"] less(2) by (simp_all add: h0_def hst_ok_def client_ok_def)
    then have h1: "hst_ok h1" "builtin_only tab (s_allow_stop (h_srv h1))"
      using process_line_ok [OF h0, of e "fst lr"] by (simp_all add: h1_def same_config_def)
    have "length (c_rbuf (h_cl h1)) \<le> length (c_rbuf (h_cl h0))"
      using h0 unfolding h1_def
      by (intro hsteps_rbuf [OF process_line_steps]) (simp_all add: hst_ok_def client_ok_def)
    with l have "length (c_rbuf (h_cl h1)) < length (c_rbuf (h_cl h))" by (simp add: h0_def)
    from less(1) [OF this h1(2,1)] Some show ?thesis
      by (subst line_loop.simps) (auto simp: h1_def h0_def Let_def)
  qed
qed

lemma line_loop_sys:
  assumes "line_loop tab e h = Some h'" "\<And>h l. \<mu> (h_sys (process_line tab e l h)) \<le> (\<mu> (h_sys h) :: nat)"
  shows "\<mu> (h_sys h') \<le> \<mu> (h_sys h)"
  using assms
proof (induction rule: line_loop.raw_induct [rotated, consumes 1])
  case (1 f tab e h h')
  show ?case
  proof (cases "opftp_client_getline 1024 (c_rbuf (h_cl h))")
    case (Some lr)
    define h1 where "h1 = process_line tab e (fst lr) (upd_cl (\<lambda>c. c\<lparr> c_rbuf := snd lr \<rparr>) h)"
    have "\<mu> (h_sys h1) \<le> \<mu> (h_sys (upd_cl (\<lambda>c. c\<lparr> c_rbuf := snd lr \<rparr>) h))"
      unfolding h1_def by (rule 1(3))
    moreover from 1(2) Some have "h' = h1 \<or> f tab e h1 = Some h'"
      by (simp add: h1_def Let_def split: if_splits)
    moreover have "f tab e h1 = Some h' \<Longrightarrow> \<mu> (h_sys h') \<le> \<mu> (h_sys h1)" by (rule 1(1) [OF _ 1(3)])
    ultimately show ?thesis by auto
  qed (use 1 in simp)
qed

lemma read_loop_total:
  assumes read: "\<And>c s n c' s'. opftp_client_read io c s = (Read_bytes n, c', s') \<Longrightarrow> \<mu> s' < \<mu> s"
    and line: "\<And>h l. \<mu> (h_sys (process_line tab e l h)) \<le> (\<mu> (h_sys h) :: nat)"
    and ok: "builtin_only tab (s_allow_stop (h_srv h))" "hst_ok h" "cio_bounded io"
  shows "\<exists>h'. read_loop io tab e h = Some h'"
  using ok
proof (induction "\<mu> (h_sys h)" arbitrary: h rule: less_induct)
  case less
  obtain r c s where r: "opftp_client_read io (h_cl h) (h_sys h) = (r, c, s)"
    by (cases "opftp_client_read io (h_cl h) (h_sys h)") auto
  define h1 where "h1 = h\<lparr> h_cl := c, h_sys := s \<rparr>"
  have h1: "hst_ok h1" "builtin_only tab (s_allow_stop (h_srv h1))"
    using client_read_ok [OF less(4,3) r] less(2) by (simp_all add: h1_def)
  obtain h2 where h2: "line_loop tab e h1 = Some h2" using line_loop_total [OF h1(2,1)] by blast
  have ok2: "hst_ok h2" "builtin_only tab (s_allow_stop (h_srv h2))"
    using line_loop_ok [OF h2 h1(2,1)] h1(2) by (auto simp: same_config_def)
  have "\<mu> (h_sys h2) \<le> \<mu> (h_sys h1)" using line_loop_sys [OF h2] line by blast
  then have "\<mu> (h_sys h2) < \<mu> (h_sys h)" if "r = Read_bytes n" for n
    using read [of "h_cl h" "h_sys h" n c s] r that by (simp add: h1_def)
  then have "\<exists>h'. read_loop io tab e h2 = Some h'" if "r = Read_bytes n" for n
    using less(1) [OF _ ok2(2,1) less(4)] that by blast
  with r h2 show ?case
    by (subst read_loop.simps) (cases r; auto simp: h1_def Let_def)
qed

lemma example_ok: "hst_ok example_state"
proof -
  have "canonical ''/''" "ring_ok (queue_init 2 :: nat ring)" by code_simp+
  then show ?thesis
    by (simp add: hst_ok_def example_state_def client_ok_def jobs_ok_def link_ok_def default_server_def
        opftp_client_new_def)
qed

lemma typed_ok: "hst_ok typed_state"
proof -
  have "canonical ''/''" "ring_ok (queue_init 2 :: nat ring)" by code_simp+
  then show ?thesis
    by (simp add: hst_ok_def typed_state_def client_ok_def jobs_ok_def link_ok_def default_server_def
        opftp_client_new_def)
qed

lemma process_line_calm:
  assumes "calm_env m e"
  shows "left_over m (process_line (builtin_table b) e line h) \<le> left_over m h"
  using builtin_calm [OF assms] by (auto simp: process_line_def builtin_call split: option.split)

section \<open>Properties\<close>

text \<open>
  C4: The session invariant. Whatever events a control connection has and whatever bytes it
  delivers, handling them with the built-in commands keeps the invariant: the working directory
  canonical and bounded, the rename and copy sources below the server root, the read buffer and
  the user name within their arrays, the job queue well formed, every job's paths below the root
  and, unless foreign ports are allowed, its data connection to the peer of the control
  connection, and the client's own job present and its own. The connection's identity and the
  server's configuration do not change.
\<close>

theorem session_invariant:
  assumes "hst_ok h" "cio_bounded io"
    and "handle_client_events hs io (builtin_table (s_allow_stop (h_srv h))) e ev h = Some h'"
  shows "hst_ok h' \<and> same_config h h'"
  using events_ok [OF assms(1) builtin_only_init assms(2,3)] .

theorem session_invariant_witness:
  "\<exists>h'. handle_client_events (\<lambda>t s. (Hs_error, s)) (one_line_io (''NOOP'' @ crlf)) (builtin_table False) void_env POLLIN
      example_state = Some h' \<and> h_out h' = [''200 OK.'' @ crlf] \<and> hst_ok h' \<and> same_config example_state h'"
proof -
  let ?io = "one_line_io (''NOOP'' @ crlf)" and ?h = "example_state"
  let ?s = "\<lparr> sys_errno = EAGAIN, sys_state = () \<rparr>"
  have ok: "cio_bounded ?io" by (auto simp: cio_bounded_def one_line_io_def idle_io_def split: if_splits)
  let ?h1 = "reply 200 R200 (?h\<lparr> h_sys := ?s \<rparr>)" and ?l = "''NOOP'' @ crlf"
  have g: "opftp_client_getline 1024 ?l = Some (''NOOP'', [])" "opftp_client_getline 1024 [] = None"
    "parse_line (c_str ''NOOP'') = Some (''NOOP'', [])" "prelogin_command ''NOOP''"
    by code_simp+
  have r: "opftp_client_read ?io (h_cl ?h) (h_sys ?h) = (Read_bytes 6, (h_cl ?h)\<lparr> c_rbuf := ?l \<rparr>, ?s)"
    "opftp_client_read ?io (h_cl ?h) ?s = (Read_again, h_cl ?h, ?s)"
    by (simp_all add: opftp_client_read_def one_line_io_def idle_io_def example_state_def opftp_client_new_def
        would_block_def)
  have p: "process_line (builtin_table False) void_env ''NOOP'' h = reply 200 R200 h" for h :: "unit hst"
    using g(3,4) by (simp add: process_line_def builtin_call prelogin_lookup cmd_noop_def)
  have ex: "\<not> c_tls_handshaking (h_cl ?h)" "\<not> c_disconnect_requested (h_cl ?h)"
    by (simp_all add: example_state_def opftp_client_new_def)
  have "line_loop (builtin_table False) void_env ?h1 = Some ?h1"
    using g(2) by (subst line_loop.simps) (simp add: example_state_def opftp_client_new_def)
  then have "line_loop (builtin_table False) void_env (?h\<lparr> h_cl := (h_cl ?h)\<lparr> c_rbuf := ?l \<rparr>, h_sys := ?s \<rparr>) = Some ?h1"
    using g(1) by (subst line_loop.simps)
      (simp add: p Let_def upd_cl_def session_stop_def example_state_def opftp_client_new_def)
  moreover have "read_loop ?io (builtin_table False) void_env ?h1 = Some ?h1"
    using r(2) by (subst read_loop.simps) (simp add: opftp_client_send_reply_def opftp_client_send_raw_def)
  ultimately have "read_loop ?io (builtin_table False) void_env ?h = Some ?h1"
    by (subst read_loop.simps) (use r(1) in \<open>simp add: session_stop_def ex\<close>)
  then have h: "handle_client_events (\<lambda>t s. (Hs_error, s)) ?io (builtin_table False) void_env POLLIN ?h = Some ?h1"
    using ex by (simp add: handle_client_events_def)
  have "hst_ok (reply 200 R200 (?h\<lparr> h_sys := ?s \<rparr>)) \<and> same_config ?h (reply 200 R200 (?h\<lparr> h_sys := ?s \<rparr>))"
    by (rule session_invariant [OF example_ok ok, of "\<lambda>t s. (Hs_error, s)" void_env POLLIN])
      (use h in \<open>simp add: example_state_def default_server_def\<close>)
  moreover have "reply_text 200 R200 = ''200 OK.'' @ crlf" by code_simp
  moreover have "h_out ?h = []" by (simp add: example_state_def)
  ultimately show ?thesis using h by (simp del: append.simps)
qed

text \<open>
  C3: The login gate. A command line of a client that has not logged in changes no job, queue,
  descriptor, working directory, data address, restart offset, rename or copy source and never
  stops the server, whatever table of built-in commands is installed; it does not depend on the
  file system; and it leaves the client logged in only if the user name given before is one that
  the authentication callback accepts with some password. Of what a later transfer reads, only
  the TLS protection of data connections can change, by \<open>PROT\<close> and only on a TLS connection.
\<close>

theorem login_gate:
  assumes "\<not> c_logged_in (h_cl h)"
  shows "gate_frame e h (process_line (builtin_table b) e line h) \<and>
    (c_tls_prot (h_cl (process_line (builtin_table b) e line h)) \<noteq> c_tls_prot (h_cl h) \<longrightarrow>
       map_option fst (parse_line (c_str line)) = Some ''PROT'' \<and> c_tls (h_cl h) \<noteq> None) \<and>
    process_line (builtin_table b) (e\<lparr> e_fs := fs \<rparr>) line h = process_line (builtin_table b) e line h"
proof (cases "parse_line (c_str line)")
  case (Some np)
  obtain name param where np: "np = (name, param)" by fastforce
  have r: "gate_frame e h (reply n m h)" for n m by (simp add: gate_frame_def)
  show ?thesis
  proof (cases "prelogin_command name")
    case True
    show ?thesis
    proof (cases "map_of (builtin_commands b) name :: 'a handler option")
      case f: (Some f)
      have "f \<in> set prelogin_handlers" by (rule prelogin_builtin [OF True f])
      with Some np f True show ?thesis
        using prelogin_prot [OF True f, of e "Some param" h]
        by (auto simp: process_line_def builtin_call prelogin_frame prelogin_no_fs)
    qed (use Some np r in \<open>simp add: process_line_def builtin_call\<close>)
  qed (use assms Some np r in \<open>simp add: process_line_def\<close>)
qed (simp add: process_line_def gate_frame_refl)

theorem login_gate_witness:
  "gate_frame void_env example_state (process_line (builtin_table True) void_env ''STOP'' example_state) \<and>
   s_stopping (h_srv (process_line (builtin_table True) void_env ''STOP'' example_state)) = False"
proof -
  have "\<not> c_logged_in (h_cl example_state)" by (simp add: example_state_def opftp_client_new_def)
  from login_gate [OF this, of void_env True "''STOP''"] show ?thesis
    by (simp add: gate_frame_def example_state_def default_server_def)
qed

text \<open>
  C29: Handling a connection's events ends. If every successful read uses up some of the input the
  transport has left, and no call a command handler makes adds to it, every event is handled to
  its end: the lines of the buffer are processed until none is complete, since no command refills
  the buffer, and reading stops.
\<close>

theorem events_handled:
  fixes m :: "'x \<Rightarrow> nat"
  assumes "\<And>c s n c' s'. opftp_client_read io c s = (Read_bytes n, c', s') \<Longrightarrow> m (sys_state s') < m (sys_state s)"
    and "calm_env m e"
    and "hst_ok h" "s_allow_stop (h_srv h) = b" "cio_bounded io"
  shows "\<exists>h'. handle_client_events hs io (builtin_table b) e ev h = Some h'"
proof (cases "c_tls_handshaking (h_cl h)")
  case False
  define h1 where "h1 = (if ev AND POLLPRI \<noteq> 0 then
     (case opftp_dispatch_call (builtin_table b) (Some ''ABOR'') of Some f \<Rightarrow> f e None h | None \<Rightarrow> h) else h)"
  have t: "builtin_only (builtin_table b :: 'x handler cmd_table option) (s_allow_stop (h_srv h))"
    using builtin_only_init assms(4) by simp
  have h1: "hst_ok h1" "same_config h h1"
    using assms(3) urgent_ok [OF assms(3) t] by (auto simp: h1_def same_config_def split: option.split)
  then have "\<exists>h'. read_loop io (builtin_table b) e h1 = Some h'"
    using t by (intro read_loop_total [where \<mu> = "\<lambda>s. m (sys_state s)", OF assms(1) process_line_calm [OF assms(2)] _ h1(1) assms(5)])
      (simp_all add: same_config_def)
  with False show ?thesis unfolding handle_client_events_def Let_def h1_def [symmetric] by auto
qed (auto simp: handle_client_events_def Let_def split: prod.split)

theorem events_handled_witness:
  "bytes_left (sys_state (h_sys typed_state)) = 17 \<and>
   (\<exists>h'. handle_client_events (\<lambda>t s. (Hs_error, s)) segment_io (builtin_table False) void_env POLLIN typed_state = Some h')"
proof
  show "bytes_left (sys_state (h_sys typed_state)) = 17" by (simp add: bytes_left_def typed_state_def)
  show "\<exists>h'. handle_client_events (\<lambda>t s. (Hs_error, s)) segment_io (builtin_table False) void_env POLLIN typed_state = Some h'"
  proof (rule events_handled [where m = bytes_left])
    show "bytes_left (sys_state s') < bytes_left (sys_state s)"
      if "opftp_client_read segment_io c s = (Read_bytes n, c', s')" for c s n c' s'
      using that by (auto simp: opftp_client_read_def segment_io_def bytes_left_def Let_def
          split: if_splits option.splits list.splits)
    show "calm_env bytes_left void_env"
      by (simp add: calm_env_def calm_def void_env_def void_fs_def op_fail_def)
    show "hst_ok typed_state" by (rule typed_ok)
    show "s_allow_stop (h_srv typed_state) = False" by (simp add: typed_state_def default_server_def)
    show "cio_bounded segment_io" by (auto simp: cio_bounded_def segment_io_def split: list.splits)
  qed
qed

end
