(* ===== verification/Session_Steps.thy ===== *)
theory Session_Steps
  imports Session_Gate
begin

text \<open>
  Handling the events of a connection as a sequence of elementary steps: those of the command
  handlers, and the changes of the read buffer and of the handshake flag that the event loop makes
  itself. What every such step keeps, every batch of events keeps.
\<close>

inductive estep :: "'x env \<Rightarrow> 'x hst \<Rightarrow> 'x hst \<Rightarrow> bool" for e where
  Command: "hstep e h h' \<Longrightarrow> estep e h h'"
| Buffer: "estep e h (upd_cl (\<lambda>c. c\<lparr> c_rbuf := b \<rparr>) h)"
| Secured: "estep e h (upd_cl (\<lambda>c. c\<lparr> c_tls_handshaking := False \<rparr>) h)"

abbreviation esteps :: "'x env \<Rightarrow> 'x hst \<Rightarrow> 'x hst \<Rightarrow> bool" where
  "esteps e \<equiv> (estep e)\<^sup>*\<^sup>*"

lemma hsteps_esteps: "hsteps e h h' \<Longrightarrow> esteps e h h'"
  by (induction rule: rtranclp_induct) (auto intro: rtranclp.rtrancl_into_rtrancl estep.Command)

lemma esteps_then: "esteps e h h' \<Longrightarrow> estep e h' h'' \<Longrightarrow> esteps e h h''"
  by (rule rtranclp.rtrancl_into_rtrancl)

lemma hstep_refs: "hstep e h h' \<Longrightarrow> c_refs (h_cl h) \<le> c_refs (h_cl h')"
  by (induction rule: hstep.induct)
    (simp_all add: poll_mod_client_def drop_pasv_def set_data_peer_def launch_def hand_over_def Let_def)

lemma estep_keeps:
  "estep e h h' \<Longrightarrow> c_refs (h_cl h) \<le> c_refs (h_cl h') \<and> s_allow_stop (h_srv h') = s_allow_stop (h_srv h)"
  by (induction rule: estep.induct) (auto simp: same_config_def dest: hstep_refs hstep_config)

lemma esteps_keeps:
  "esteps e h h' \<Longrightarrow> c_refs (h_cl h) \<le> c_refs (h_cl h') \<and> s_allow_stop (h_srv h') = s_allow_stop (h_srv h)"
  by (induction rule: rtranclp_induct) (auto dest: estep_keeps)

lemma line_loop_esteps:
  assumes "line_loop tab e h = Some h'" "builtin_only tab (s_allow_stop (h_srv h))" "0 < c_refs (h_cl h)"
  shows "esteps e h h'"
  using assms
proof (induction rule: line_loop.raw_induct [rotated, consumes 1])
  case (1 f tab e h h')
  show ?case
  proof (cases "opftp_client_getline 1024 (c_rbuf (h_cl h))")
    case None
    with 1 show ?thesis by simp
  next
    case (Some lr)
    define h0 where "h0 = upd_cl (\<lambda>c. c\<lparr> c_rbuf := snd lr \<rparr>) h"
    define h1 where "h1 = process_line tab e (fst lr) h0"
    have h0: "esteps e h h0" by (simp add: h0_def r_into_rtranclp Buffer)
    have "hsteps e h0 h1" unfolding h1_def using 1(3,4) by (intro process_line_steps) (simp_all add: h0_def)
    with h0 have h1: "esteps e h h1" by (blast dest: hsteps_esteps intro: rtranclp_trans)
    note k = esteps_keeps [OF h1]
    from 1(2) Some have "h' = h1 \<or> f tab e h1 = Some h'"
      by (simp add: h0_def h1_def Let_def split: if_splits)
    with 1(1) [of tab e h1 h'] k 1(3,4) h1 show ?thesis by (auto intro: rtranclp_trans)
  qed
qed

lemma client_read_cl: "opftp_client_read io c s = (r, c', s') \<Longrightarrow> \<exists>b. c' = c\<lparr> c_rbuf := b \<rparr>"
proof -
  assume a: "opftp_client_read io c s = (r, c', s')"
  have "c = c\<lparr> c_rbuf := c_rbuf c \<rparr>" by simp
  then have "\<exists>b. c = c\<lparr> c_rbuf := b \<rparr>" ..
  with a show ?thesis
    by (auto simp: opftp_client_read_def Let_def split: if_splits option.splits prod.splits tls_io.splits)
qed

lemma read_loop_esteps:
  assumes "read_loop io tab e h = Some h'" "builtin_only tab (s_allow_stop (h_srv h))" "0 < c_refs (h_cl h)"
  shows "esteps e h h'"
  using assms
proof (induction rule: read_loop.raw_induct [rotated, consumes 1])
  case (1 f io tab e h h')
  obtain r c s where r: "opftp_client_read io (h_cl h) (h_sys h) = (r, c, s)"
    by (cases "opftp_client_read io (h_cl h) (h_sys h)") auto
  define h1 where "h1 = h\<lparr> h_cl := c, h_sys := s \<rparr>"
  obtain b where c: "c = (h_cl h)\<lparr> c_rbuf := b \<rparr>" using client_read_cl [OF r] by blast
  have h1: "esteps e h h1"
  proof -
    have "esteps e h (upd_cl (\<lambda>c. c\<lparr> c_rbuf := b \<rparr>) h)" by (intro r_into_rtranclp Buffer)
    from esteps_then [OF this Command [OF Sys [where s = s]]] show ?thesis by (simp add: h1_def c upd_cl_def)
  qed
  note k = esteps_keeps [OF h1]
  show ?case
  proof (cases r)
    case (Read_bytes n)
    with 1(2) r obtain h2 where l: "line_loop tab e h1 = Some h2" and
      "h' = h2 \<or> f io tab e h2 = Some h'"
      by (auto simp: h1_def Let_def bind_eq_Some_conv split: if_splits)
    moreover have h2: "esteps e h h2" using line_loop_esteps [OF l] k 1(3,4) h1 by (auto intro: rtranclp_trans)
    moreover note esteps_keeps [OF h2]
    ultimately show ?thesis using 1(1) [of io tab e h2 h'] 1(3,4) by (auto intro: rtranclp_trans)
  qed (use 1(2) r h1 esteps_then [OF h1 Command [OF Leave]] in \<open>auto simp: h1_def Let_def\<close>)
qed

lemma events_esteps:
  assumes "handle_client_events hs io tab e ev h = Some h'" "builtin_only tab (s_allow_stop (h_srv h))" "0 < c_refs (h_cl h)"
  shows "esteps e h h'"
proof (cases "c_tls_handshaking (h_cl h)")
  case True
  obtain r s where r: "hs (case c_tls (h_cl h) of Some t \<Rightarrow> t | None \<Rightarrow> 0) (h_sys h) = (r, s)" by fastforce
  have s: "esteps e h (h\<lparr> h_sys := s \<rparr>)" by (intro r_into_rtranclp Command Sys)
  show ?thesis
    using assms(1) True r esteps_then [OF s Command [OF Poll]] esteps_then [OF s Command [OF Leave]]
      esteps_then [OF esteps_then [OF s Secured] Command [OF Poll]]
    by (cases r) (auto simp: handle_client_events_def Let_def)
next
  case False
  define h1 where "h1 = (if ev AND POLLPRI \<noteq> 0 then
     (case opftp_dispatch_call tab (Some ''ABOR'') of Some f \<Rightarrow> f e None h | None \<Rightarrow> h) else h)"
  have "hsteps e h (f e None h)" if "opftp_dispatch_call tab (Some ''ABOR'') = Some f" for f
    using assms(2,3) that by (intro builtin_steps) (auto simp: builtin_only_def dest: map_of_SomeD)
  then have h1: "esteps e h h1" by (auto simp: h1_def intro: hsteps_esteps split: option.split)
  note k = esteps_keeps [OF h1]
  obtain h2 where h2: "(if ev AND POLLIN \<noteq> 0 then read_loop io tab e h1 else Some h1) = Some h2"
    and h': "h' = h2 \<or> h' = upd_cl (\<lambda>c. c\<lparr> c_disconnect_requested := True \<rparr>) h2"
    using assms(1) False unfolding handle_client_events_def Let_def h1_def [symmetric]
    by (auto split: if_splits)
  have "esteps e h h2"
    using h2 h1 read_loop_esteps [of io tab e h1 h2] k assms(2,3) by (auto intro: rtranclp_trans split: if_splits)
  with h' esteps_then [OF this Command [OF Leave]] show ?thesis by auto
qed

end
