(* ===== verification/Loops.thy ===== *)
theory Loops
  imports Main
begin

text \<open>
  Loops with \<open>continue\<close>, \<open>break\<close> and \<open>return\<close>. The body of a loop maps the loop state to a result,
  when it leaves the loop, or to the state of the next pass; it is \<^const>\<open>None\<close> when a loop inside
  it does not end. \<open>iterate\<close> is \<^const>\<open>None\<close> exactly when the loop does not end. The two rules
  are the invariant rule and total correctness by a measure.
\<close>

section \<open>The combinator\<close>

datatype ('r, 's) iter = Return 'r | Continue 's

partial_function (option) iterate :: "('s \<Rightarrow> ('r, 's) iter option) \<Rightarrow> 's \<Rightarrow> 'r option" where
  "iterate body s =
     Option.bind (body s) (\<lambda>x. case x of Return r \<Rightarrow> Some r | Continue s' \<Rightarrow> iterate body s')"

section \<open>Rules\<close>

lemma iterate_return: "body s = Some (Return r) \<Longrightarrow> iterate body s = Some r"
  by (subst iterate.simps) simp

lemma iterate_continue: "body s = Some (Continue s') \<Longrightarrow> iterate body s = iterate body s'"
  by (subst iterate.simps) simp

lemma iterate_code [code]:
  "iterate body s =
     (case body s of
        None \<Rightarrow> None
      | Some x \<Rightarrow> (case x of Return r \<Rightarrow> Some r | Continue s' \<Rightarrow> iterate body s'))"
  by (subst iterate.simps) (simp split: option.split)

lemma iterate_rule:
  assumes "iterate body s = Some r" "I s"
    and "\<And>s s'. I s \<Longrightarrow> body s = Some (Continue s') \<Longrightarrow> I s'"
    and "\<And>s r. I s \<Longrightarrow> body s = Some (Return r) \<Longrightarrow> Q r"
  shows "Q r"
  using assms
proof (induction rule: iterate.raw_induct [rotated, consumes 1])
  case (1 f body s r)
  from 1(2) obtain x where x: "body s = Some x"
    and r: "(case x of Return r \<Rightarrow> Some r | Continue s' \<Rightarrow> f body s') = Some r"
    by (auto simp: bind_eq_Some_conv)
  show ?case
  proof (cases x)
    case (Return r')
    with r x 1(3,5) show ?thesis by auto
  next
    case (Continue s')
    with r have "f body s' = Some r" by simp
    moreover have "I s'" by (rule 1(4) [OF 1(3)]) (simp add: x Continue)
    ultimately show ?thesis using 1(1,4,5) by blast
  qed
qed

lemma iterate_total:
  fixes \<mu> :: "'s \<Rightarrow> nat"
  assumes "I s"
    and "\<And>s. I s \<Longrightarrow> \<exists>x. body s = Some x"
    and "\<And>s s'. I s \<Longrightarrow> body s = Some (Continue s') \<Longrightarrow> I s' \<and> \<mu> s' < \<mu> s"
  shows "\<exists>r. iterate body s = Some r"
  using assms(1)
proof (induction "\<mu> s" arbitrary: s rule: less_induct)
  case less
  from assms(2) [OF less(2)] obtain x where x: "body s = Some x" by blast
  show ?case
  proof (cases x)
    case (Return r)
    with x show ?thesis by (auto intro: iterate_return)
  next
    case (Continue s')
    with x assms(3) [OF less(2)] have "I s'" "\<mu> s' < \<mu> s" by auto
    from less(1) [OF this(2,1)] show ?thesis using x Continue iterate_continue by metis
  qed
qed

end
