(* ===== verification/Reactor.thy ===== *)
theory Reactor
  imports Session_Steps Loops
begin

text \<open>
  The reactor thread of \<^verbatim>\<open>src/src/server.c\<close>: accepting and dropping clients, the queue of replies
  from other threads (\<^verbatim>\<open>src/src/client.c\<close>), completions, runtime root changes, the status snapshot
  and the event loop.

  A world holds the clients, in a store and named by identifiers where the code has pointers, the
  list \<open>s->clients\<close>, the server, the completion and reply lists, and the outside. A client whose
  last reference is released leaves the store; using it later would be a use after free, which the
  ghost field \<open>v_stale\<close> records. The other ghosts are the lines sent, the descriptors closed, and
  the jobs that workers have taken and not yet finished.
\<close>

unbundle bit_operations_syntax

section \<open>Definitions\<close>

subsection \<open>The world\<close>

record pending_reply =
  pr_client :: nat
  pr_generation :: nat
  pr_text :: string

record snapshot_client =
  sc_peer :: string
  sc_user :: string
  sc_cwd :: string
  sc_logged_in :: bool
  sc_xfer :: "(string \<times> string \<times> 64 word \<times> 64 word) option"  \<comment> \<open>operation, path, bytes and total of an active transfer\<close>

record snapshot =
  sn_started :: bool
  sn_port :: "16 word"
  sn_root :: string
  sn_workers :: nat
  sn_num_clients :: nat
  sn_clients :: "snapshot_client list"

record 'x world =
  v_clients :: "nat \<rightharpoonup> client"
  v_list :: "nat list"
  v_next :: nat
  v_srv :: server
  v_sys :: "'x sys"
  v_fs :: "'x opftp_fs"
  v_root_applied :: string
  v_started :: bool
  v_port :: "16 word"
  v_workers :: nat
  v_listen_fd :: int
  v_completions :: "nat list"
  v_replies :: "pending_reply list"
  v_snap :: snapshot
  v_sent :: "(nat \<times> string) list"
  v_closed :: "int list"
  v_running :: "nat list"
  v_stale :: bool

datatype accept_result = Accepted int sockaddr | Accept_interrupted | Accept_none

text \<open>What the reactor calls outside: the handlers' environment, the control transport, the TLS
  handshake, \<open>accept\<close>, \<open>poll\<close> (its result and the \<open>revents\<close> of the slots), the outcomes
  of the poll set's two reallocations, the backend under the root wrapper with the host's \<open>realpath\<close>, \<open>inet_ntop\<close> and the
  application's connect and disconnect hooks.\<close>

record 'x renv =
  rv_env :: "'x env"
  rv_io :: "'x cio"
  rv_hs :: "nat \<Rightarrow> 'x sys \<Rightarrow> handshake_result \<times> 'x sys"
  rv_tab :: "'x handler cmd_table option"
  rv_accept :: "'x sys \<Rightarrow> accept_result \<times> 'x sys"
  rv_poll :: "nat pollset \<Rightarrow> nat \<Rightarrow> 'x sys \<Rightarrow> (int \<times> poll_events list) \<times> 'x sys"
  rv_realloc :: "'x sys \<Rightarrow> bool \<times> bool"
  rv_base :: "'x opftp_fs"
  rv_realpath :: "'x realpath option"
  rv_ntop :: "8 word list \<Rightarrow> string option"
  rv_connect :: "'x hst \<Rightarrow> 'x hst"
  rv_disconnect :: "'x hst \<Rightarrow> 'x hst"

text \<open>The environment of the handlers, with the wrapper in force.\<close>

definition cur_env :: "'x renv \<Rightarrow> 'x world \<Rightarrow> 'x env" where
  "cur_env rv w = (rv_env rv)\<lparr> e_fs := v_fs w \<rparr>"

text \<open>Running code on a client: \<open>get\<close> and \<open>put\<close> move between the world and the handler state. A
  client without references has been freed.\<close>

definition get_hst :: "nat \<Rightarrow> client \<Rightarrow> 'x world \<Rightarrow> 'x hst" where
  "get_hst cid c w =
     \<lparr> h_id = cid, h_cl = c, h_srv = v_srv w, h_sys = v_sys w, h_out = [], h_closed = [] \<rparr>"

definition put_hst :: "'x hst \<Rightarrow> 'x world \<Rightarrow> 'x world" where
  "put_hst h w =
     w\<lparr> v_clients := (v_clients w)(h_id h := if c_refs (h_cl h) = 0 then None else Some (h_cl h)),
        v_srv := h_srv h, v_sys := h_sys h, v_sent := v_sent w @ map (Pair (h_id h)) (h_out h),
        v_closed := v_closed w @ h_closed h \<rparr>"

definition on_client :: "nat \<Rightarrow> ('x hst \<Rightarrow> 'x hst) \<Rightarrow> 'x world \<Rightarrow> 'x world" where
  "on_client cid f w =
     (case v_clients w cid of
        None \<Rightarrow> w\<lparr> v_stale := True \<rparr>
      | Some c \<Rightarrow> put_hst (f (get_hst cid c w)) w)"

definition close_w :: "'x renv \<Rightarrow> int \<Rightarrow> 'x world \<Rightarrow> 'x world" where
  "close_w rv fd w = w\<lparr> v_sys := e_close (rv_env rv) fd (v_sys w), v_closed := v_closed w @ [fd] \<rparr>"

subsection \<open>Clients come and go\<close>

text \<open>The whole of \<open>client_disconnect\<close>: tear down, unlink, tell the application, drop the reference.\<close>

definition disconnect_client :: "'x renv \<Rightarrow> nat \<Rightarrow> 'x world \<Rightarrow> 'x world" where
  "disconnect_client rv cid w =
     (let w = on_client cid (client_disconnect (cur_env rv w) None) w;
          w = w\<lparr> v_list := remove1 cid (v_list w) \<rparr>;
          w = on_client cid (rv_disconnect rv) w
      in on_client cid (release_ref (cur_env rv w)) w)"

definition greet :: "'x hst \<Rightarrow> 'x hst" where
  "greet h =
     (let h = (if s_skip_banner (h_srv h) then h else reply 220 ''OpenPS3FTP ready.'' h)
      in if s_require_tls (h_srv h)
         then upd_cl (\<lambda>c. c\<lparr> c_disconnect_requested := True \<rparr>) (reply 534 ''AUTH TLS required.'' h)
         else h)"

definition accept_one :: "'x renv \<Rightarrow> int \<Rightarrow> sockaddr \<Rightarrow> 'x world \<Rightarrow> 'x world" where
  "accept_one rv fd peer w =
     (case e_calloc (rv_env rv) (v_sys w) of
        (None, s) \<Rightarrow> close_w rv fd (w\<lparr> v_sys := s \<rparr>)
      | (Some _, s) \<Rightarrow>
          let w = w\<lparr> v_sys := s \<rparr>; cid = v_next w; c = opftp_client_new fd peer in
          (case s_pollset (v_srv w) of
             None \<Rightarrow> close_w rv (-1) (close_w rv fd w)
           | Some p \<Rightarrow>
               (case opftp_pollset_add (rv_realloc rv s) fd (POLLIN OR POLLPRI) (Some cid) p of
                  (None, p) \<Rightarrow>
                    close_w rv (-1) (close_w rv fd (w\<lparr> v_srv := (v_srv w)\<lparr> s_pollset := Some p \<rparr> \<rparr>))
                | (Some hndl, p) \<Rightarrow>
                    on_client cid (rv_connect rv)
                      (on_client cid greet
                         (w\<lparr> v_clients := (v_clients w)(cid \<mapsto> c\<lparr> c_poll_handle := int hndl \<rparr>),
                             v_list := cid # v_list w, v_next := cid + 1,
                             v_srv := (v_srv w)\<lparr> s_pollset := Some p \<rparr> \<rparr>)))))"

definition accept_step :: "'x renv \<Rightarrow> 'x world \<Rightarrow> ('x world, 'x world) iter" where
  "accept_step rv w =
     (case rv_accept rv (v_sys w) of
        (r, s) \<Rightarrow>
          let w = w\<lparr> v_sys := s \<rparr> in
          (case r of
             Accept_none \<Rightarrow> Return w
           | Accept_interrupted \<Rightarrow> Continue w
           | Accepted fd peer \<Rightarrow> Continue (accept_one rv fd peer w)))"

definition accept_clients :: "'x renv \<Rightarrow> 'x world \<Rightarrow> 'x world option" where
  "accept_clients rv w = iterate (\<lambda>w. Some (accept_step rv w)) w"

subsection \<open>Replies from other threads\<close>

text \<open>\<open>queue_reply\<close>: a line for the reactor to send, with a reference to the client.\<close>

definition queue_reply :: "bool \<Rightarrow> nat \<Rightarrow> string \<Rightarrow> 'x world \<Rightarrow> 'x world" where
  "queue_reply malloc_ok cid text w =
     (case v_clients w cid of
        None \<Rightarrow> w\<lparr> v_stale := True \<rparr>
      | Some c \<Rightarrow>
          if malloc_ok then
            w\<lparr> v_replies := v_replies w @ [\<lparr> pr_client = cid, pr_generation = c_generation c, pr_text = text \<rparr>],
               v_clients := (v_clients w)(cid \<mapsto> c\<lparr> c_refs := c_refs c + 1 \<rparr>),
               v_srv := (v_srv w)\<lparr> s_pollset := map_option (opftp_pollset_wake True) (s_pollset (v_srv w)) \<rparr> \<rparr>
          else w)"

definition drain_reply :: "'x renv \<Rightarrow> pending_reply \<Rightarrow> 'x world \<Rightarrow> 'x world" where
  "drain_reply rv p w =
     on_client (pr_client p)
       (\<lambda>h. release_ref (cur_env rv w)
              (if c_generation (h_cl h) = pr_generation p then opftp_client_send_raw (pr_text p) h else h)) w"

definition opftp_client_drain_replies :: "'x renv \<Rightarrow> 'x world \<Rightarrow> 'x world" where
  "opftp_client_drain_replies rv w = fold (drain_reply rv) (v_replies w) (w\<lparr> v_replies := [] \<rparr>)"

subsection \<open>Completions\<close>

definition complete_one :: "'x renv \<Rightarrow> nat \<Rightarrow> 'x world \<Rightarrow> 'x world" where
  "complete_one rv jid w =
     (case s_jobs (v_srv w) jid of
        None \<Rightarrow> w\<lparr> v_stale := True \<rparr>
      | Some j \<Rightarrow> on_client (j_client j) (opftp_datachan_complete (cur_env rv w) jid j) w)"

definition drain_completions :: "'x renv \<Rightarrow> 'x world \<Rightarrow> 'x world" where
  "drain_completions rv w = fold (complete_one rv) (v_completions w) (w\<lparr> v_completions := [] \<rparr>)"

subsection \<open>Root changes and the snapshot\<close>

definition opftp_server_set_root_runtime :: "string option \<Rightarrow> 'x world \<Rightarrow> rc \<times> 'x world" where
  "opftp_server_set_root_runtime root w =
     (case root of
        None \<Rightarrow> (Some EINVAL, w)
      | Some r \<Rightarrow>
          if r = [] \<or> hd r \<noteq> slash then (Some EINVAL, w)
          else (None, w\<lparr> v_srv := (v_srv w)\<lparr> s_root := c_snprintf OPFTP_MAX_PATH r \<rparr> \<rparr>))"

definition apply_root_change :: "'x renv \<Rightarrow> 'x world \<Rightarrow> 'x world" where
  "apply_root_change rv w =
     (let want = c_snprintf OPFTP_MAX_PATH (s_root (v_srv w)) in
      if want = v_root_applied w then w
      else
        (case e_calloc (rv_env rv) (v_sys w) of
           (ca, s) \<Rightarrow>
             let w = w\<lparr> v_sys := s \<rparr> in
             (case opftp_fs_rooted (ca \<noteq> None) (rv_realpath rv) (rv_base rv) want of
                None \<Rightarrow> w
              | Some fs \<Rightarrow> w\<lparr> v_fs := fs, v_root_applied := want \<rparr>)))"

fun job_op_name :: "job_op \<Rightarrow> string" where
  "job_op_name OPFTP_JOB_LIST = ''LIST''"
| "job_op_name OPFTP_JOB_RETR = ''RETR''"
| "job_op_name OPFTP_JOB_STOR = ''STOR''"
| "job_op_name OPFTP_JOB_APPE = ''APPE''"
| "job_op_name OPFTP_JOB_COPY = ''COPY''"

definition dotted :: "8 word list \<Rightarrow> string" where
  "dotted b = dec (unat (b ! 0)) @ ''.'' @ dec (unat (b ! 1)) @ ''.'' @ dec (unat (b ! 2)) @ ''.'' @ dec (unat (b ! 3))"

definition format_peer :: "'x renv \<Rightarrow> client \<Rightarrow> nat \<Rightarrow> string" where
  "format_peer rv c n =
     (case c_peer c of
        Sa_in6 a p \<Rightarrow>
          if opftp_is_v4mapped a then c_snprintf n (dotted (drop 12 a))
          else (case rv_ntop rv a of Some s \<Rightarrow> s | None \<Rightarrow> c_snprintf n ''?'')
      | Sa_in a p \<Rightarrow> c_snprintf n (dotted a)
      | Sa_unspec \<Rightarrow> c_snprintf n ''?'')"

definition snapshot_entry :: "'x renv \<Rightarrow> server \<Rightarrow> client \<Rightarrow> snapshot_client" where
  "snapshot_entry rv s c =
     \<lparr> sc_peer = format_peer rv c 64, sc_user = c_snprintf 64 (c_user c), sc_cwd = c_snprintf 1024 (c_cwd c),
       sc_logged_in = c_logged_in c,
       sc_xfer = Option.bind (c_job c) (\<lambda>jid. map_option
         (\<lambda>j. (c_snprintf 8 (job_op_name (j_op j)), c_snprintf 1024 (j_path j), j_bytes j, j_total j)) (s_jobs s jid)) \<rparr>"

abbreviation OPFTP_SNAPSHOT_MAX_CLIENTS :: nat where "OPFTP_SNAPSHOT_MAX_CLIENTS \<equiv> 16"

definition snapshot_refresh :: "'x renv \<Rightarrow> 'x world \<Rightarrow> 'x world" where
  "snapshot_refresh rv w =
     (let cs = List.map_filter (v_clients w) (take OPFTP_SNAPSHOT_MAX_CLIENTS (v_list w)) in
      w\<lparr> v_snap := \<lparr> sn_started = v_started w, sn_port = v_port w, sn_root = c_snprintf 1024 (s_root (v_srv w)),
                     sn_workers = v_workers w, sn_num_clients = length cs,
                     sn_clients = map (snapshot_entry rv (v_srv w)) cs \<rparr> \<rparr>)"

definition opftp_server_snapshot :: "'x world \<Rightarrow> snapshot" where
  "opftp_server_snapshot w = v_snap w"

subsection \<open>The event loop\<close>

text \<open>One ready pair: the listener, or a client's events and, where asked for, its disconnection.\<close>

definition dispatch_event :: "'x renv \<Rightarrow> nat option \<times> poll_events \<Rightarrow> 'x world \<Rightarrow> 'x world option" where
  "dispatch_event rv ue w =
     (case ue of
        (None, ev) \<Rightarrow> if ev AND POLLIN \<noteq> 0 then accept_clients rv w else Some w
      | (Some cid, ev) \<Rightarrow>
          (case v_clients w cid of
             None \<Rightarrow> Some (w\<lparr> v_stale := True \<rparr>)
           | Some c \<Rightarrow>
               map_option
                 (\<lambda>h. let w = put_hst h w
                      in if c_disconnect_requested (h_cl h) then disconnect_client rv cid w else w)
                 (handle_client_events (rv_hs rv) (rv_io rv) (rv_tab rv) (cur_env rv w) ev (get_hst cid c w))))"

fun handle_ready :: "'x renv \<Rightarrow> (nat option \<times> poll_events) list \<Rightarrow> 'x world \<Rightarrow> 'x world option" where
  "handle_ready rv [] w = Some w"
| "handle_ready rv (ue # us) w =
     Option.bind (dispatch_event rv ue w)
       (\<lambda>w. if fst ue \<noteq> None \<and> s_stopping (v_srv w) then Some w else handle_ready rv us w)"

definition poll_timeout :: "'x world \<Rightarrow> nat" where
  "poll_timeout w =
     (if list_ex (\<lambda>cid. case v_clients w cid of Some c \<Rightarrow> c_job c \<noteq> None | None \<Rightarrow> False) (v_list w)
      then 100 else 1000)"

text \<open>One pass of the loop; it returns when the server is to stop or \<open>poll\<close> fails.\<close>

definition reactor_turn :: "'x renv \<Rightarrow> 'x world \<Rightarrow> ('x world, 'x world) iter option" where
  "reactor_turn rv w =
     (if s_stopping (v_srv w) then Some (Return w)
      else
        (case s_pollset (v_srv w) of
           None \<Rightarrow> Some (Return w)
         | Some p \<Rightarrow>
             (case rv_poll rv p (poll_timeout w) (v_sys w) of
                ((r, revents), s) \<Rightarrow>
                  (case opftp_pollset_wait r revents p of
                     (n, p) \<Rightarrow>
                       let w = w\<lparr> v_sys := s, v_srv := (v_srv w)\<lparr> s_pollset := Some p \<rparr> \<rparr>;
                           w = snapshot_refresh rv (apply_root_change rv
                                 (drain_completions rv (opftp_client_drain_replies rv w)))
                       in if n < 0 then Some (Return w)
                          else
                            map_option Continue
                              (handle_ready rv (opftp_pollset_collect (OPFTP_SNAPSHOT_MAX_CLIENTS + 4)
                                 (case s_pollset (v_srv w) of Some p \<Rightarrow> p | None \<Rightarrow> p)) w)))))"

text \<open>Leaving the loop: what is queued is sent, every client is dropped, the listener closed.\<close>

definition drop_step :: "'x renv \<Rightarrow> 'x world \<Rightarrow> ('x world, 'x world) iter" where
  "drop_step rv w =
     (case v_list w of [] \<Rightarrow> Return w | cid # rest \<Rightarrow> Continue (disconnect_client rv cid w))"

definition reactor_teardown :: "'x renv \<Rightarrow> 'x world \<Rightarrow> 'x world option" where
  "reactor_teardown rv w =
     map_option
       (\<lambda>w. let w = opftp_client_drain_replies rv w;
                w = (close_w rv (v_listen_fd w) w)\<lparr> v_listen_fd := -1 \<rparr>
            in w\<lparr> v_snap := (v_snap w)\<lparr> sn_started := False, sn_num_clients := 0 \<rparr> \<rparr>)
       (iterate (\<lambda>w. Some (drop_step rv w)) (drain_completions rv (opftp_client_drain_replies rv w)))"

text \<open>The reactor thread. \<open>wake_r\<close> is the reading end of the wake pipe, \<^const>\<open>None\<close> when the poll set
  cannot be created.\<close>

definition reactor_enter :: "int \<Rightarrow> bool \<times> bool \<Rightarrow> 'x world \<Rightarrow> 'x world" where
  "reactor_enter fd realloc_ok w =
     w\<lparr> v_srv := (v_srv w)\<lparr> s_pollset :=
            Some (snd (opftp_pollset_add realloc_ok (v_listen_fd w) POLLIN None (opftp_pollset_create fd))) \<rparr>,
        v_list := [] \<rparr>"

definition opftp_reactor_loop :: "'x renv \<Rightarrow> int option \<Rightarrow> bool \<times> bool \<Rightarrow> 'x world \<Rightarrow> 'x world option" where
  "opftp_reactor_loop rv wake_r realloc_ok w =
     (case wake_r of
        None \<Rightarrow> Some w
      | Some fd \<Rightarrow>
          Option.bind (iterate (reactor_turn rv) (reactor_enter fd realloc_ok w)) (reactor_teardown rv))"

subsection \<open>Shutdown\<close>

text \<open>\<open>opftp_datachan_shutdown\<close>: the queued jobs are cancelled and the pool stopped; once the workers
  have left, what is still queued is released. The release holds the lock of the queue throughout, so
  that emptying the ring before or after the walk makes no difference.\<close>

definition cancel_queued :: "'x world \<Rightarrow> 'x world" where
  "cancel_queued w =
     w\<lparr> v_srv := (fold cancel_job (ring_list (s_ring (v_srv w))) (v_srv w))
          \<lparr> s_ring := snd (shutdown_begin (s_ring (v_srv w))) \<rparr> \<rparr>"

definition release_job :: "'x renv \<Rightarrow> nat \<Rightarrow> 'x world \<Rightarrow> 'x world" where
  "release_job rv jid w =
     (case s_jobs (v_srv w) jid of
        None \<Rightarrow> w\<lparr> v_stale := True \<rparr>
      | Some j \<Rightarrow>
          on_client (j_client j)
            (\<lambda>h. upd_srv (\<lambda>s. s\<lparr> s_jobs := (s_jobs s)(jid := None) \<rparr>)
                   (release_ref (cur_env rv w)
                      (opftp_close_fd (cur_env rv w) (j_cancel_w j)
                         (opftp_close_fd (cur_env rv w) (j_cancel_r j)
                            (close_if_open (cur_env rv w) (j_pasv_fd j)
                               (close_if_open (cur_env rv w) (j_data_fd j) h)))))) w)"

definition release_queued :: "'x renv \<Rightarrow> 'x world \<Rightarrow> 'x world" where
  "release_queued rv w =
     (let r = s_ring (v_srv w);
          w = w\<lparr> v_srv := (v_srv w)\<lparr> s_ring := r\<lparr> queue_head := 0, queue_tail := 0, queue_count := 0 \<rparr> \<rparr> \<rparr>
      in fold (release_job rv) (ring_list r) w)"

end
