(* ===== verification/Reactor_Steps.thy ===== *)
theory Reactor_Steps
  imports Reactor
begin

text \<open>
  The server as a machine of interleaved threads. The reactor thread advances by one reply, one
  completion, one ready event or one dropped client at a time, with its position and the lists it
  has taken from the shared state in \<open>pc\<close>; between any two of its steps the workers take jobs, run
  them, post completions and queue replies, and other threads change the root or ask for a stop.
  The functions of \<open>Reactor\<close> are runs of the reactor's steps.
\<close>

section \<open>The machine\<close>

datatype stage = In_turn int | Last | Late

datatype pc =
    Wait
  | Polled stage
  | Replies stage "pending_reply list"
  | Completions stage "nat list"
  | Serve "(nat option \<times> poll_events) list"
  | Drop
  | Gone

definition close_listener :: "'x renv \<Rightarrow> 'x world \<Rightarrow> 'x world" where
  "close_listener rv w =
     (let w = (close_w rv (v_listen_fd w) w)\<lparr> v_listen_fd := -1 \<rparr>
      in w\<lparr> v_snap := (v_snap w)\<lparr> sn_started := False, sn_num_clients := 0 \<rparr> \<rparr>)"

inductive rstep :: "'x renv \<Rightarrow> pc \<times> 'x world \<Rightarrow> pc \<times> 'x world \<Rightarrow> bool" for rv where
  Stopped: "s_stopping (v_srv w) \<or> s_pollset (v_srv w) = None \<Longrightarrow> rstep rv (Wait, w) (Polled Last, w)"
| Poll_return: "\<not> s_stopping (v_srv w) \<Longrightarrow> s_pollset (v_srv w) = Some p \<Longrightarrow>
    rv_poll rv p (poll_timeout w) (v_sys w) = ((r, revents), s) \<Longrightarrow> opftp_pollset_wait r revents p = (n, p') \<Longrightarrow>
    rstep rv (Wait, w) (Polled (In_turn n), w\<lparr> v_sys := s, v_srv := (v_srv w)\<lparr> s_pollset := Some p' \<rparr> \<rparr>)"
| Take_replies: "rstep rv (Polled st, w) (Replies st (v_replies w), w\<lparr> v_replies := [] \<rparr>)"
| Send_reply: "rstep rv (Replies st (p # ps), w) (Replies st ps, drain_reply rv p w)"
| Take_completions: "st \<noteq> Late \<Longrightarrow>
    rstep rv (Replies st [], w) (Completions st (v_completions w), w\<lparr> v_completions := [] \<rparr>)"
| Leave_loop: "rstep rv (Replies Late [], w) (Gone, close_listener rv w)"
| Complete: "rstep rv (Completions st (jid # js), w) (Completions st js, complete_one rv jid w)"
| Ready: "w' = snapshot_refresh rv (apply_root_change rv w) \<Longrightarrow> s_pollset (v_srv w') = Some p \<Longrightarrow> 0 \<le> n \<Longrightarrow>
    rstep rv (Completions (In_turn n) [], w)
      (Serve (opftp_pollset_collect (OPFTP_SNAPSHOT_MAX_CLIENTS + 4) p), w')"
| Poll_failed: "n < 0 \<Longrightarrow>
    rstep rv (Completions (In_turn n) [], w) (Polled Last, snapshot_refresh rv (apply_root_change rv w))"
| Drop_all: "rstep rv (Completions Last [], w) (Drop, w)"
| Event: "dispatch_event rv ue w = Some w' \<Longrightarrow>
    rstep rv (Serve (ue # us), w) (if fst ue \<noteq> None \<and> s_stopping (v_srv w') then Wait else Serve us, w')"
| Served: "rstep rv (Serve [], w) (Wait, w)"
| Drop_one: "v_list w = cid # rest \<Longrightarrow> rstep rv (Drop, w) (Drop, disconnect_client rv cid w)"
| Dropped: "v_list w = [] \<Longrightarrow> rstep rv (Drop, w) (Polled Late, w)"

abbreviation rsteps :: "'x renv \<Rightarrow> pc \<times> 'x world \<Rightarrow> pc \<times> 'x world \<Rightarrow> bool" where
  "rsteps rv \<equiv> (rstep rv)\<^sup>*\<^sup>*"

text \<open>The wake of the reactor by another thread.\<close>

definition wake :: "'x world \<Rightarrow> 'x world" where
  "wake w = w\<lparr> v_srv := (v_srv w)\<lparr> s_pollset := map_option (opftp_pollset_wake True) (s_pollset (v_srv w)) \<rparr> \<rparr>"

definition set_job :: "nat \<Rightarrow> job \<Rightarrow> 'x world \<Rightarrow> 'x world" where
  "set_job jid j w = w\<lparr> v_srv := (v_srv w)\<lparr> s_jobs := (s_jobs (v_srv w))(jid \<mapsto> j) \<rparr> \<rparr>"

text \<open>The steps of the other threads: a worker takes a job, works on it (it may write any field of
  the job but the client and the generation, and the outside changes), queues a reply to the job's
  client, and posts the completion; other threads change the root, ask for a stop, or stop the pool.\<close>

inductive wstep :: "'x world \<Rightarrow> 'x world \<Rightarrow> bool" where
  Take_job: "ring_deq (s_ring (v_srv w)) = (Some jid, r) \<Longrightarrow>
    wstep w (w\<lparr> v_srv := (v_srv w)\<lparr> s_ring := r \<rparr>, v_running := jid # v_running w \<rparr>)"
| Work: "jid \<in> set (v_running w) \<Longrightarrow> s_jobs (v_srv w) jid = Some j \<Longrightarrow> j_client j' = j_client j \<Longrightarrow>
    j_generation j' = j_generation j \<Longrightarrow> wstep w ((set_job jid j' w)\<lparr> v_sys := s \<rparr>)"
| Reply_from_worker: "jid \<in> set (v_running w) \<Longrightarrow> s_jobs (v_srv w) jid = Some j \<Longrightarrow>
    wstep w (queue_reply malloc_ok (j_client j) text w)"
| Post: "jid \<in> set (v_running w) \<Longrightarrow>
    wstep w (wake (w\<lparr> v_running := remove1 jid (v_running w), v_completions := jid # v_completions w \<rparr>))"
| Set_root: "opftp_server_set_root_runtime root w = (rc, w') \<Longrightarrow> wstep w w'"
| Ask_stop: "wstep w (wake (w\<lparr> v_srv := (v_srv w)\<lparr> s_stopping := True \<rparr> \<rparr>))"
| Stop_pool: "wstep w (cancel_queued w)"
| Enter_pool: "wstep w (w\<lparr> v_srv := (v_srv w)\<lparr> s_ring := worker_enter (s_ring (v_srv w)) \<rparr> \<rparr>)"
| Leave_pool: "worker_dequeue (s_ring (v_srv w)) = (Exit, r) \<Longrightarrow>
    wstep w (w\<lparr> v_srv := (v_srv w)\<lparr> s_ring := worker_leave r \<rparr> \<rparr>)"

inductive sstep :: "'x renv \<Rightarrow> pc \<times> 'x world \<Rightarrow> pc \<times> 'x world \<Rightarrow> bool" for rv where
  Reactor_step: "rstep rv pw pw' \<Longrightarrow> sstep rv pw pw'"
| Other_step: "wstep w w' \<Longrightarrow> sstep rv (pc, w) (pc, w')"

abbreviation ssteps :: "'x renv \<Rightarrow> pc \<times> 'x world \<Rightarrow> pc \<times> 'x world \<Rightarrow> bool" where
  "ssteps rv \<equiv> (sstep rv)\<^sup>*\<^sup>*"

section \<open>The functions are runs of the machine\<close>

lemma rsteps_then: "rsteps rv x y \<Longrightarrow> rstep rv y z \<Longrightarrow> rsteps rv x z"
  by (rule rtranclp.rtrancl_into_rtrancl)

lemma replies_rsteps: "rsteps rv (Replies st ps, w) (Replies st [], fold (drain_reply rv) ps w)"
  by (induction ps arbitrary: w) (auto intro: converse_rtranclp_into_rtranclp Send_reply)

lemma completions_rsteps: "rsteps rv (Completions st js, w) (Completions st [], fold (complete_one rv) js w)"
  by (induction js arbitrary: w) (auto intro: converse_rtranclp_into_rtranclp Complete)

lemma drain_rsteps:
  assumes "st \<noteq> Late"
  shows "rsteps rv (Polled st, w) (Completions st [], drain_completions rv (opftp_client_drain_replies rv w))"
proof -
  have "rsteps rv (Polled st, w) (Replies st [], opftp_client_drain_replies rv w)"
    unfolding opftp_client_drain_replies_def
    by (rule converse_rtranclp_into_rtranclp [OF Take_replies replies_rsteps])
  moreover have "rsteps rv (Replies st [], w') (Completions st [], drain_completions rv w')" for w'
    unfolding drain_completions_def
    by (rule converse_rtranclp_into_rtranclp [OF Take_completions [OF assms] completions_rsteps])
  ultimately show ?thesis by (rule rtranclp_trans)
qed

lemma ready_rsteps:
  "handle_ready rv us w = Some w' \<Longrightarrow> rsteps rv (Serve us, w) (Wait, w')"
proof (induction us arbitrary: w)
  case Nil
  then show ?case by (auto intro: r_into_rtranclp Served)
next
  case (Cons ue us)
  then obtain w1 where d: "dispatch_event rv ue w = Some w1"
    and r: "(if fst ue \<noteq> None \<and> s_stopping (v_srv w1) then Some w1 else handle_ready rv us w1) = Some w'"
    by (auto simp: bind_eq_Some_conv)
  note e = Event [OF d, of us]
  show ?case
  proof (cases "fst ue \<noteq> None \<and> s_stopping (v_srv w1)")
    case True
    with e r show ?thesis by auto
  next
    case False
    with e have "rstep rv (Serve (ue # us), w) (Serve us, w1)" by (simp only: if_False)
    moreover from False r have "handle_ready rv us w1 = Some w'" by (simp only: if_False)
    ultimately show ?thesis using Cons(1) by (blast intro: converse_rtranclp_into_rtranclp)
  qed
qed

text \<open>Draining leaves the poll set alone.\<close>

abbreviation pollset_of :: "'x world \<Rightarrow> nat pollset option" where
  "pollset_of w \<equiv> s_pollset (v_srv w)"

lemma on_client_srv:
  assumes "\<And>h. P (h_srv h) \<Longrightarrow> P (h_srv (f h))" "P (v_srv w)"
  shows "P (v_srv (on_client cid f w))"
  using assms by (auto simp: on_client_def put_hst_def get_hst_def split: option.split)

lemma drain_reply_srv [simp]: "v_srv (drain_reply rv p w) = v_srv w"
  by (auto simp: drain_reply_def on_client_def put_hst_def get_hst_def split: option.split)

lemma drain_replies_srv [simp]: "v_srv (opftp_client_drain_replies rv w) = v_srv w"
proof -
  have "v_srv (fold (drain_reply rv) ps w) = v_srv w" for ps and w :: "'a world"
    by (induction ps arbitrary: w) simp_all
  then show ?thesis by (simp add: opftp_client_drain_replies_def)
qed

lemma complete_srv [simp]: "h_srv (opftp_datachan_complete e jid j h) = (h_srv h)\<lparr> s_jobs := (s_jobs (h_srv h))(jid := None) \<rparr>"
  by (auto simp: opftp_datachan_complete_def Let_def split: prod.split)

lemma complete_one_pollset [simp]: "pollset_of (complete_one rv jid w) = pollset_of w"
  by (auto simp: complete_one_def on_client_def put_hst_def get_hst_def split: option.split)

lemma drain_completions_pollset [simp]: "pollset_of (drain_completions rv w) = pollset_of w"
proof -
  have "pollset_of (fold (complete_one rv) js w) = pollset_of w" for js and w :: "'a world"
    by (induction js arbitrary: w) simp_all
  then show ?thesis by (simp add: drain_completions_def)
qed

lemma refresh_simps [simp]:
  "v_srv (snapshot_refresh rv w) = v_srv w" "v_clients (snapshot_refresh rv w) = v_clients w"
  "v_list (snapshot_refresh rv w) = v_list w" "v_replies (snapshot_refresh rv w) = v_replies w"
  "v_completions (snapshot_refresh rv w) = v_completions w" "v_running (snapshot_refresh rv w) = v_running w"
  "v_next (snapshot_refresh rv w) = v_next w" "v_stale (snapshot_refresh rv w) = v_stale w"
  by (simp_all add: snapshot_refresh_def Let_def)

lemma root_change_simps [simp]:
  "v_srv (apply_root_change rv w) = v_srv w" "v_clients (apply_root_change rv w) = v_clients w"
  "v_list (apply_root_change rv w) = v_list w" "v_replies (apply_root_change rv w) = v_replies w"
  "v_completions (apply_root_change rv w) = v_completions w" "v_running (apply_root_change rv w) = v_running w"
  "v_next (apply_root_change rv w) = v_next w" "v_stale (apply_root_change rv w) = v_stale w"
  by (simp_all add: apply_root_change_def Let_def split: prod.split option.split)

lemma turn_rsteps:
  assumes "reactor_turn rv w = Some x"
  shows "case x of Continue w' \<Rightarrow> rsteps rv (Wait, w) (Wait, w') | Return w' \<Rightarrow> rsteps rv (Wait, w) (Polled Last, w')"
proof (cases "s_stopping (v_srv w) \<or> pollset_of w = None")
  case True
  with assms have "x = Return w" by (auto simp: reactor_turn_def split: if_splits)
  with Stopped [OF True] show ?thesis by auto
next
  case False
  then obtain p where p: "\<not> s_stopping (v_srv w)" "pollset_of w = Some p" by auto
  obtain r revents s where r: "rv_poll rv p (poll_timeout w) (v_sys w) = ((r, revents), s)" by (metis prod.exhaust)
  obtain n p' where n: "opftp_pollset_wait r revents p = (n, p')" by fastforce
  define w1 where "w1 = w\<lparr> v_sys := s, v_srv := (v_srv w)\<lparr> s_pollset := Some p' \<rparr> \<rparr>"
  define w2 where "w2 = drain_completions rv (opftp_client_drain_replies rv w1)"
  define w3 where "w3 = snapshot_refresh rv (apply_root_change rv w2)"
  have p': "pollset_of w3 = Some p'" by (simp add: w3_def w2_def w1_def)
  have "rstep rv (Wait, w) (Polled (In_turn n), w1)" unfolding w1_def by (rule Poll_return [OF p r n])
  also have "rsteps rv (Polled (In_turn n), w1) (Completions (In_turn n) [], w2)"
    unfolding w2_def by (rule drain_rsteps) simp
  finally have a: "rsteps rv (Wait, w) (Completions (In_turn n) [], w2)" .
  show ?thesis
  proof (cases "n < 0")
    case True
    with assms p r n have "x = Return w3" by (simp add: reactor_turn_def w1_def w2_def w3_def Let_def)
    with rsteps_then [OF a Poll_failed [OF True]] show ?thesis by (simp add: w3_def)
  next
    case False
    with assms p r n p' obtain w' where x: "x = Continue w'"
      and h: "handle_ready rv (opftp_pollset_collect (OPFTP_SNAPSHOT_MAX_CLIENTS + 4) p') w3 = Some w'"
      by (auto simp: reactor_turn_def Let_def w1_def [symmetric] w2_def [symmetric] w3_def [symmetric])
    have "rsteps rv (Wait, w) (Serve (opftp_pollset_collect (OPFTP_SNAPSHOT_MAX_CLIENTS + 4) p'), w3)"
      using a by (rule rsteps_then) (rule Ready; use False p' in \<open>simp add: w3_def\<close>)
    from rtranclp_trans [OF this ready_rsteps [OF h]] x show ?thesis by simp
  qed
qed

lemma teardown_rsteps:
  assumes "reactor_teardown rv w = Some w'"
  shows "rsteps rv (Polled Last, w) (Gone, w')"
proof -
  from assms obtain w1 where
    l: "iterate (\<lambda>w. Some (drop_step rv w)) (drain_completions rv (opftp_client_drain_replies rv w)) = Some w1"
    and w': "w' = close_listener rv (opftp_client_drain_replies rv w1)"
    by (auto simp: reactor_teardown_def close_listener_def Let_def)
  have "rsteps rv (Polled Last, w) (Drop, drain_completions rv (opftp_client_drain_replies rv w))"
    using drain_rsteps [of Last] rsteps_then [OF _ Drop_all] by blast
  with l have "rsteps rv (Polled Last, w) (Polled Late, w1)"
    by (rule iterate_rule [where I = "\<lambda>w1. rsteps rv (Polled Last, w) (Drop, w1)"])
      (auto simp: drop_step_def split: list.splits intro: rsteps_then Drop_one Dropped)
  moreover have "rsteps rv (Polled Late, w1) (Replies Late [], opftp_client_drain_replies rv w1)"
    unfolding opftp_client_drain_replies_def
    by (rule converse_rtranclp_into_rtranclp [OF Take_replies replies_rsteps])
  ultimately show ?thesis unfolding w' by (blast intro: rsteps_then Leave_loop rtranclp_trans)
qed

text \<open>So the reactor thread, when its loop ends, is a run of the machine from the loop's entry to its end.\<close>

lemma reactor_rsteps:
  assumes "opftp_reactor_loop rv (Some fd) ra w = Some w'"
  shows "rsteps rv (Wait, reactor_enter fd ra w) (Gone, w')"
proof -
  from assms obtain w1 where l: "iterate (reactor_turn rv) (reactor_enter fd ra w) = Some w1"
    and t: "reactor_teardown rv w1 = Some w'" by (auto simp: opftp_reactor_loop_def bind_eq_Some_conv)
  have "rsteps rv (Wait, reactor_enter fd ra w) (Polled Last, w1)"
    by (rule iterate_rule [OF l, where I = "\<lambda>w1. rsteps rv (Wait, reactor_enter fd ra w) (Wait, w1)"])
      (auto dest!: turn_rsteps intro: rtranclp_trans)
  with teardown_rsteps [OF t] show ?thesis by (blast intro: rtranclp_trans)
qed

lemma rsteps_ssteps: "rsteps rv x y \<Longrightarrow> ssteps rv x y"
  by (induction rule: rtranclp_induct) (auto intro: rtranclp.rtrancl_into_rtrancl Reactor_step)

end
