(* ===== verification/Reactor_Refs.thy ===== *)
theory Reactor_Refs
  imports Reactor_Steps
begin

text \<open>
  The reference counts of clients and the ownership of jobs. The invariant \<open>world_inv\<close> says that a
  client's count is the number of its holders (the reactor's list, its jobs, the replies queued for
  it and what the reactor has in hand), that every job is in exactly one place, that \<open>c->job\<close> is the
  job of the current generation, and that the poll set names only listed clients. It is shown first
  for the steps on one client and then for the operations of the reactor.
\<close>

section \<open>What a client's jobs look like to it\<close>

text \<open>The generations of a client's jobs, by job.\<close>

definition job_view :: "server \<Rightarrow> nat \<Rightarrow> nat \<rightharpoonup> nat" where
  "job_view s cid jid =
     (case s_jobs s jid of Some j \<Rightarrow> if j_client j = cid then Some (j_generation j) else None | None \<Rightarrow> None)"

definition job_refs :: "server \<Rightarrow> nat \<Rightarrow> nat" where
  "job_refs s cid = card (dom (job_view s cid))"

definition link_iff :: "nat \<Rightarrow> client \<Rightarrow> server \<Rightarrow> bool" where
  "link_iff cid c s \<longleftrightarrow>
     (\<forall>jid. c_job c = Some jid \<longleftrightarrow> job_view s cid jid = Some (c_generation c)) \<and>
     (\<forall>jid g. job_view s cid jid = Some g \<longrightarrow> g \<le> c_generation c)"

definition jobs_held :: "nat list \<Rightarrow> server \<Rightarrow> bool" where
  "jobs_held R s \<longleftrightarrow> ring_ok (s_ring s) \<and> distinct (ring_list (s_ring s) @ R) \<and>
     set (ring_list (s_ring s) @ R) = dom (s_jobs s) \<and> (\<forall>jid \<in> dom (s_jobs s). jid < s_next_job s)"

text \<open>The client \<open>cid\<close> with \<open>k\<close> references that are not those of jobs.\<close>

definition cl_ok :: "nat \<Rightarrow> nat \<Rightarrow> client \<Rightarrow> server \<Rightarrow> bool" where
  "cl_ok k cid c s \<longleftrightarrow> c_refs c = k + job_refs s cid \<and> link_iff cid c s"

definition hok :: "nat \<Rightarrow> nat list \<Rightarrow> 'x hst \<Rightarrow> bool" where
  "hok k R h \<longleftrightarrow> jobs_held R (h_srv h) \<and> cl_ok k (h_id h) (h_cl h) (h_srv h)"

definition poll_users :: "server \<Rightarrow> nat \<rightharpoonup> nat" where
  "poll_users s = (\<lambda>hndl. Option.bind (s_pollset s) (\<lambda>p. Option.bind (poll_view p hndl) (\<lambda>(fd, ev, u). u)))"

definition polls_valid :: "server \<Rightarrow> bool" where
  "polls_valid s \<longleftrightarrow> (case s_pollset s of None \<Rightarrow> True | Some p \<Rightarrow> pollset_ok p)"

text \<open>What code that runs on one client leaves alone: the jobs of the others and the configuration.\<close>

definition others :: "'x hst \<Rightarrow> 'x hst \<Rightarrow> bool" where
  "others h h' \<longleftrightarrow> h_id h' = h_id h \<and> s_allow_stop (h_srv h') = s_allow_stop (h_srv h) \<and>
     (\<forall>cid. cid \<noteq> h_id h \<longrightarrow> job_view (h_srv h') cid = job_view (h_srv h) cid)"

text \<open>And what it leaves alone of the poll set.\<close>

definition same_polls :: "'x hst \<Rightarrow> 'x hst \<Rightarrow> bool" where
  "same_polls h h' \<longleftrightarrow> c_poll_handle (h_cl h') = c_poll_handle (h_cl h) \<and>
     (polls_valid (h_srv h) \<longrightarrow> polls_valid (h_srv h') \<and> poll_users (h_srv h') = poll_users (h_srv h))"

lemma others_refl [simp]: "others h h" and same_polls_refl [simp]: "same_polls h h"
  by (simp_all add: others_def same_polls_def)

lemma others_trans: "others h h' \<Longrightarrow> others h' h'' \<Longrightarrow> others h h''"
  by (simp add: others_def)

lemma same_polls_trans: "same_polls h h' \<Longrightarrow> same_polls h' h'' \<Longrightarrow> same_polls h h''"
  by (simp add: same_polls_def)

lemma job_view_cong: "s_jobs s' = s_jobs s \<Longrightarrow> job_view s' = job_view s"
  by (simp add: job_view_def fun_eq_iff)

lemma polls_cong [simp]:
  "poll_users (s\<lparr> s_jobs := jobs \<rparr>) = poll_users s" "polls_valid (s\<lparr> s_jobs := jobs \<rparr>) = polls_valid s"
  "poll_users (cancel_job jid s) = poll_users s" "polls_valid (cancel_job jid s) = polls_valid s"
  by (simp_all add: poll_users_def polls_valid_def cancel_job_def fun_eq_iff split: option.split)

lemma ring_update [simp]:
  "job_view (s\<lparr> s_ring := q \<rparr>) = job_view s" "poll_users (s\<lparr> s_ring := q \<rparr>) = poll_users s"
  "polls_valid (s\<lparr> s_ring := q \<rparr>) = polls_valid s"
  by (simp_all add: job_view_def poll_users_def polls_valid_def fun_eq_iff)

lemma cancel_simps [simp]:
  "s_ring (cancel_job jid s) = s_ring s" "s_allow_stop (cancel_job jid s) = s_allow_stop s"
  by (simp_all add: cancel_job_def)

lemma dom_job_view: "dom (job_view s cid) \<subseteq> dom (s_jobs s)"
  by (auto simp: job_view_def split: option.splits)

lemma finite_job_view: "jobs_held R s \<Longrightarrow> finite (dom (job_view s cid))"
  by (rule finite_subset [OF dom_job_view]) (metis jobs_held_def List.finite_set)

lemma job_refs_zero: "jobs_held R s \<Longrightarrow> job_refs s cid = 0 \<longleftrightarrow> job_view s cid = Map.empty"
  by (simp add: job_refs_def finite_job_view)

section \<open>Steps on one client\<close>

lemma cl_ok_cong:
  assumes "job_view s' cid = job_view s cid" "c_refs c' = c_refs c" "c_job c' = c_job c"
    "c_generation c' = c_generation c"
  shows "cl_ok k cid c' s' = cl_ok k cid c s"
  using assms by (simp add: cl_ok_def job_refs_def link_iff_def)

text \<open>Most steps concern none of the fields in the invariant.\<close>

definition unrelated :: "'x hst \<Rightarrow> 'x hst \<Rightarrow> bool" where
  "unrelated h h' \<longleftrightarrow> h_id h' = h_id h \<and> s_jobs (h_srv h') = s_jobs (h_srv h) \<and>
     s_ring (h_srv h') = s_ring (h_srv h) \<and> s_next_job (h_srv h') = s_next_job (h_srv h) \<and>
     s_allow_stop (h_srv h') = s_allow_stop (h_srv h) \<and> s_pollset (h_srv h') = s_pollset (h_srv h) \<and>
     c_refs (h_cl h') = c_refs (h_cl h) \<and> c_job (h_cl h') = c_job (h_cl h) \<and>
     c_generation (h_cl h') = c_generation (h_cl h) \<and> c_poll_handle (h_cl h') = c_poll_handle (h_cl h)"

lemma unrelated_hok:
  assumes "unrelated h h'"
  shows "hok k R h' = hok k R h" "others h h'" "same_polls h h'"
proof -
  have j: "job_view (h_srv h') = job_view (h_srv h)" using assms by (intro job_view_cong) (simp add: unrelated_def)
  then have "cl_ok k (h_id h) (h_cl h') (h_srv h') = cl_ok k (h_id h) (h_cl h) (h_srv h)"
    using assms by (intro cl_ok_cong) (simp_all add: unrelated_def)
  with assms show "hok k R h' = hok k R h" by (simp add: hok_def jobs_held_def unrelated_def)
  from assms j show "others h h'" "same_polls h h'"
    by (simp_all add: others_def same_polls_def unrelated_def poll_users_def polls_valid_def)
qed

lemma unrelated_all: "unrelated h h' \<Longrightarrow> hok k R h \<Longrightarrow> hok k R h' \<and> others h h' \<and> same_polls h h'"
  using unrelated_hok by blast

lemma job_view_cancel [simp]: "job_view (cancel_job jid s) = job_view s"
  by (auto simp: job_view_def cancel_job_def fun_eq_iff split: option.split)

lemma cancel_held: "jobs_held R s \<Longrightarrow> jobs_held R (cancel_job jid s)"
proof -
  have "dom (s_jobs (cancel_job jid s)) = dom (s_jobs s)"
    by (auto simp: cancel_job_def split: if_splits option.splits)
  then show "jobs_held R s \<Longrightarrow> jobs_held R (cancel_job jid s)"
    by (simp add: jobs_held_def) (simp add: cancel_job_def split: option.split)
qed

lemma launch_hok:
  assumes "hok k R h" "fresh_job h j" "\<And>c. c_refs (f c) = c_refs c \<and> c_job (f c) = c_job c \<and>
    c_generation (f c) = c_generation c \<and> c_poll_handle (f c) = c_poll_handle c"
  shows "hok k R (launch f j h) \<and> others h (launch f j h) \<and> same_polls h (launch f j h)"
proof -
  let ?s = "h_srv h" and ?n = "s_next_job (h_srv h)" and ?h = "launch f j h" and ?id = "h_id h"
  from assms(1) have jh: "jobs_held R ?s" and c: "cl_ok k ?id (h_cl h) ?s" by (simp_all add: hok_def)
  then have r: "ring_ok (s_ring ?s)" and n: "?n \<notin> dom (s_jobs ?s)" by (auto simp: jobs_held_def)
  have fr: "j_client j = ?id" "j_generation j = c_generation (h_cl h)" "c_job (h_cl h) = None"
    and room: "fst (opftp_job_dispatch ?n (s_ring ?s)) = None" using assms(2) by (simp_all add: fresh_job_def)
  have ring: "ring_list (s_ring (h_srv ?h)) = ring_list (s_ring ?s) @ [?n]"
    using rq.enq_ok [OF r, of ?n] rq.enq_full [OF r, of ?n] room
    by (cases "length (ring_list (s_ring ?s)) < queue_cap (s_ring ?s)") (simp_all add: launch_def Let_def)
  have v: "job_view (h_srv ?h) cid = (if cid = ?id then (job_view ?s ?id)(?n \<mapsto> c_generation (h_cl h)) else job_view ?s cid)" for cid
    using n fr by (auto simp: job_view_def launch_def Let_def fun_eq_iff split: option.split)
  have "jobs_held R (h_srv ?h)"
    using jh n ring dispatch_ring_ok [OF r] unfolding jobs_held_def
    by (auto simp: launch_def Let_def less_Suc_eq)
  moreover have "?n \<notin> dom (job_view ?s ?id)" using n dom_job_view by blast
  then have "job_refs (h_srv ?h) ?id = Suc (job_refs ?s ?id)"
    using finite_job_view [OF jh] by (simp add: job_refs_def v)
  moreover have "c_refs (h_cl ?h) = Suc (c_refs (h_cl h))" "c_job (h_cl ?h) = Some ?n"
    "c_generation (h_cl ?h) = c_generation (h_cl h)"
    using assms(3) by (simp_all add: launch_def Let_def)
  moreover have "h_id ?h = ?id" by (simp add: launch_def Let_def)
  ultimately have "hok k R ?h"
    using c fr by (auto simp: hok_def cl_ok_def link_iff_def v)
  moreover have "others h ?h" "same_polls h ?h"
    using v assms(3) by (auto simp: others_def same_polls_def launch_def Let_def poll_users_def polls_valid_def)
  ultimately show ?thesis by simp
qed

lemma poll_mod_users:
  assumes "polls_valid (h_srv h)"
  shows "polls_valid (h_srv (poll_mod_client ev h)) \<and> poll_users (h_srv (poll_mod_client ev h)) = poll_users (h_srv h)"
proof (cases "c_poll_handle (h_cl h) \<ge> 0 \<and> s_pollset (h_srv h) \<noteq> None")
  case True
  then obtain n p where n: "c_poll_handle (h_cl h) = int n" and p: "s_pollset (h_srv h) = Some p"
    by (metis nonneg_int_cases option.exhaust)
  with assms pollset_mod_view [of p n ev] show ?thesis
    by (cases "poll_view p n")
      (auto simp: poll_mod_client_def polls_valid_def poll_users_def fun_eq_iff)
qed (use assms in \<open>auto simp: poll_mod_client_def polls_valid_def poll_users_def\<close>)

lemma hstep_hok:
  assumes "hstep e h h'" "hok k R h"
  shows "hok k R h' \<and> others h h' \<and> same_polls h h'"
  using assms
proof (induction rule: hstep.induct)
  case (Poll h ev)
  have "job_view (h_srv (poll_mod_client ev h)) = job_view (h_srv h)"
    by (rule job_view_cong) (simp add: poll_mod_client_def)
  with Poll poll_mod_users [of h ev] show ?case
    by (auto simp: hok_def others_def same_polls_def jobs_held_def cl_ok_def job_refs_def link_iff_def poll_mod_client_def)
next
  case (Abor h jid)
  then show ?case
    by (simp add: hok_def cancel_held others_def same_polls_def cl_ok_def job_refs_def link_iff_def)
next
  case (Transfer h j)
  then show ?case by (intro launch_hok) (auto simp: hand_over_def)
next
  case (Copy h j)
  then show ?case by (intro launch_hok) auto
qed (rule unrelated_all; simp add: unrelated_def drop_pasv_def set_data_peer_def Let_def)+

lemma esteps_hok:
  assumes "esteps e h h'" "hok k R h"
  shows "hok k R h' \<and> others h h' \<and> same_polls h h'"
  using assms
proof (induction rule: rtranclp_induct)
  case (step h1 h2)
  from step(3) [OF step(4)] have h1: "hok k R h1" by simp
  from step(2) have "hok k R h2 \<and> others h1 h2 \<and> same_polls h1 h2"
  proof (cases rule: estep.cases)
    case Command
    with h1 show ?thesis by (rule hstep_hok [rotated])
  next
    case (Buffer b)
    then show ?thesis by (intro unrelated_all h1) (simp add: unrelated_def)
  next
    case Secured
    then show ?thesis by (intro unrelated_all h1) (simp add: unrelated_def)
  qed
  with step(3) [OF step(4)] show ?case by (blast intro: others_trans same_polls_trans)
qed simp

end
