(* ===== verification/Reactor_Inv.thy ===== *)
theory Reactor_Inv
  imports Reactor_Refs
begin

text \<open>
  The invariant of the whole server, over the client-level facts of \<open>Reactor_Refs\<close>, and its
  preservation by the reactor's operations: disconnecting, accepting, draining replies and
  completions, serving events, and the shutdown of the queue.
\<close>

section \<open>The invariant\<close>

text \<open>References that are not those of jobs: the reactor's list, the queued replies, and \<open>xs\<close>, what the
  reactor has in hand.\<close>

definition ext :: "nat list \<Rightarrow> 'x world \<Rightarrow> nat \<Rightarrow> nat" where
  "ext xs w cid =
     (if cid \<in> set (v_list w) then 1 else 0) + count_list (map pr_client (v_replies w)) cid + count_list xs cid"

definition client_inv :: "nat list \<Rightarrow> 'x world \<Rightarrow> nat \<Rightarrow> bool" where
  "client_inv xs w cid \<longleftrightarrow>
     (case v_clients w cid of
        None \<Rightarrow> ext xs w cid = 0 \<and> job_view (v_srv w) cid = Map.empty
      | Some c \<Rightarrow> cl_ok (ext xs w cid) cid c (v_srv w) \<and> 0 < c_refs c \<and> cid < v_next w \<and>
          (cid \<in> set (v_list w) \<or> c_job c = None))"

definition polls_inv :: "'x world \<Rightarrow> bool" where
  "polls_inv w \<longleftrightarrow> polls_valid (v_srv w) \<and>
     (\<forall>hndl cid. poll_users (v_srv w) hndl = Some cid \<longrightarrow>
        cid \<in> set (v_list w) \<and> (\<exists>c. v_clients w cid = Some c \<and> c_poll_handle c = int hndl))"

definition world_inv :: "nat list \<Rightarrow> nat list \<Rightarrow> 'x world \<Rightarrow> bool" where
  "world_inv xs js w \<longleftrightarrow> \<not> v_stale w \<and> distinct (v_list w) \<and>
     jobs_held (v_running w @ v_completions w @ js) (v_srv w) \<and> (\<forall>cid. client_inv xs w cid) \<and> polls_inv w"

lemma world_invD:
  assumes "world_inv xs js w"
  shows "client_inv xs w cid" "polls_valid (v_srv w)"
    "jobs_held (v_running w @ v_completions w @ js) (v_srv w)"
    "poll_users (v_srv w) hndl = Some cid \<Longrightarrow>
      cid \<in> set (v_list w) \<and> (\<exists>c. v_clients w cid = Some c \<and> c_poll_handle c = int hndl)"
  using assms unfolding world_inv_def polls_inv_def by blast+

lemma world_inv_client:
  assumes "world_inv xs js w" "0 < ext xs w cid \<or> job_view (v_srv w) cid \<noteq> Map.empty"
  obtains c where "v_clients w cid = Some c"
  using world_invD(1) [OF assms(1), of cid] assms(2) by (auto simp: client_inv_def split: option.splits)

lemma world_inv_held:
  assumes "world_inv xs js w" "cid \<in> set xs \<or> cid \<in> set (v_list w)"
  obtains c where "v_clients w cid = Some c"
proof -
  have "0 < ext xs w cid" using assms(2) by (auto simp: ext_def count_list_0_iff)
  with that show thesis using world_inv_client [OF assms(1)] by blast
qed

lemma world_inv_hok:
  assumes "world_inv xs js w" "v_clients w cid = Some c"
  shows "hok (ext xs w cid) (v_running w @ v_completions w @ js) (get_hst cid c w)" "0 < c_refs c" "cid < v_next w"
    "cid \<in> set (v_list w) \<or> c_job c = None"
  using assms(2) world_invD(1) [OF assms(1), of cid] world_invD(3) [OF assms(1)] by (simp_all add: client_inv_def hok_def get_hst_def)

text \<open>Putting back a client after code that ran on it.\<close>

lemma put_inv:
  assumes inv: "world_inv xs js w" and c: "v_clients w cid = Some c"
    and h: "hok (ext xs' w cid) (v_running w @ v_completions w @ js') h'" "others (get_hst cid c w) h'"
    and xs: "\<And>i. i \<noteq> cid \<Longrightarrow> count_list xs' i = count_list xs i"
    and idle: "cid \<in> set (v_list w) \<or> c_job (h_cl h') = None"
    and pv: "polls_valid (h_srv h')"
    and pu: "\<And>hndl i. poll_users (h_srv h') hndl = Some i \<Longrightarrow>
      poll_users (v_srv w) hndl = Some i \<and> (i = cid \<longrightarrow> c_poll_handle (h_cl h') = int hndl)"
  shows "world_inv xs' js' (put_hst h' w)"
proof -
  let ?w = "put_hst h' w"
  have id: "h_id h' = cid" and o: "i \<noteq> cid \<Longrightarrow> job_view (h_srv h') i = job_view (v_srv w) i" for i
    using h(2) by (auto simp: others_def get_hst_def)
  have cl: "v_clients ?w i = (if i = cid then if c_refs (h_cl h') = 0 then None else Some (h_cl h') else v_clients w i)" for i
    by (simp add: put_hst_def id)
  have e: "ext xs' ?w i = ext xs' w i" "i \<noteq> cid \<Longrightarrow> ext xs' w i = ext xs w i" for i
    using xs by (simp_all add: ext_def put_hst_def)
  from h(1) have k: "cl_ok (ext xs' w cid) cid (h_cl h') (h_srv h')" and jh: "jobs_held (v_running w @ v_completions w @ js') (h_srv h')"
    by (simp_all add: hok_def id)
  have srv: "v_srv ?w = h_srv h'" "v_next ?w = v_next w" "v_list ?w = v_list w" by (simp_all add: put_hst_def)
  note lt = world_inv_hok(3) [OF inv c]
  have "client_inv xs' ?w i" for i
  proof (cases "i = cid")
    case True
    with k lt idle job_refs_zero [OF jh, of cid] show ?thesis
      by (auto simp: client_inv_def cl e srv cl_ok_def)
  next
    case False
    note world_invD(1) [OF inv, of i]
    moreover have "cl_ok n i d (h_srv h') = cl_ok n i d (v_srv w)" for n d
      using o [OF False] by (intro cl_ok_cong) simp_all
    ultimately show ?thesis using False o by (simp add: client_inv_def cl e srv split: option.splits)
  qed
  moreover have "polls_inv ?w"
    unfolding polls_inv_def srv
  proof (intro conjI allI impI pv)
    fix hndl i assume u: "poll_users (h_srv h') hndl = Some i"
    from pu [OF u] have "poll_users (v_srv w) hndl = Some i" ..
    from world_invD(4) [OF inv this]
    have old: "i \<in> set (v_list w)" "\<exists>c. v_clients w i = Some c \<and> c_poll_handle c = int hndl" by simp_all
    then show "i \<in> set (v_list w)" by simp
    have "c_refs (h_cl h') \<noteq> 0" if "i = cid" using that old k by (simp add: cl_ok_def ext_def)
    with old pu [OF u] show "\<exists>c. v_clients ?w i = Some c \<and> c_poll_handle c = int hndl" by (auto simp: cl)
  qed
  ultimately show ?thesis using inv jh by (simp add: world_inv_def put_hst_def)
qed

lemma put_inv_same:
  assumes "world_inv xs js w" "v_clients w cid = Some c" "hok (ext xs' w cid) (v_running w @ v_completions w @ js') h'"
    "others (get_hst cid c w) h'" "same_polls (get_hst cid c w) h'" "\<And>i. i \<noteq> cid \<Longrightarrow> count_list xs' i = count_list xs i"
    "cid \<in> set (v_list w) \<or> c_job (h_cl h') = None"
  shows "world_inv xs' js' (put_hst h' w)"
proof (rule put_inv [OF assms(1-4,6,7)])
  note pv = world_invD(2) [OF assms(1)]
  with assms(5) show "polls_valid (h_srv h')" by (simp add: same_polls_def get_hst_def)
  fix hndl i assume "poll_users (h_srv h') hndl = Some i"
  with assms(5) pv have "poll_users (v_srv w) hndl = Some i" by (simp add: same_polls_def get_hst_def)
  with assms(2,5) show "poll_users (v_srv w) hndl = Some i \<and> (i = cid \<longrightarrow> c_poll_handle (h_cl h') = int hndl)"
    by (auto simp: same_polls_def get_hst_def dest: world_invD(4) [OF assms(1)])
qed

section \<open>The operations\<close>

text \<open>What the application's hooks may do to the client: send to it, ask to disconnect it, log it in,
  but not touch its references, jobs, generation or place in the poll set, nor the server.\<close>

definition hook_ok :: "('x hst \<Rightarrow> 'x hst) \<Rightarrow> bool" where
  "hook_ok f \<longleftrightarrow> (\<forall>h. unrelated h (f h))"

lemma unrelated_inv:
  assumes "world_inv xs js w" "v_clients w cid = Some c" "unrelated (get_hst cid c w) h'"
  shows "world_inv xs js (put_hst h' w)"
  using unrelated_all [OF assms(3) world_inv_hok(1) [OF assms(1,2)]] world_inv_hok(4) [OF assms(1,2)] assms(3)
  by (intro put_inv_same [OF assms(1,2)]) (simp_all add: unrelated_def get_hst_def)

lemma on_client_inv:
  assumes "world_inv xs js w" "0 < ext xs w cid" "\<And>h. unrelated h (f h)"
  shows "world_inv xs js (on_client cid f w)"
proof -
  obtain c where c: "v_clients w cid = Some c" using assms(1,2) by (auto elim: world_inv_client)
  with assms show ?thesis by (simp add: on_client_def unrelated_inv)
qed

lemma events_inv:
  assumes "world_inv xs js w" "v_clients w cid = Some c" "esteps e (get_hst cid c w) h'" "cid \<in> set (v_list w)"
  shows "world_inv xs js (put_hst h' w)"
  using assms(4) esteps_hok [OF assms(3) world_inv_hok(1) [OF assms(1,2)]]
  by (intro put_inv_same [OF assms(1,2)]) simp_all

lemma release_ref_hok: "hok (Suc k) R h \<Longrightarrow> hok k R (release_ref e h)"
  by (simp add: hok_def cl_ok_def link_iff_def)

lemma release_ref_frame: "others h (release_ref e h)" "same_polls h (release_ref e h)"
  by (simp_all add: others_def same_polls_def)

lemma release_inv:
  assumes "world_inv (cid # xs) js w" "v_clients w cid = Some c" "unrelated (get_hst cid c w) h"
  shows "world_inv xs js (put_hst (release_ref e h) w)"
proof -
  have "ext (cid # xs) w cid = Suc (ext xs w cid)" by (simp add: ext_def)
  with unrelated_all [OF assms(3) world_inv_hok(1) [OF assms(1,2)]]
  have h: "hok (Suc (ext xs w cid)) (v_running w @ v_completions w @ js) h"
    "others (get_hst cid c w) h" "same_polls (get_hst cid c w) h" by simp_all
  show ?thesis
    by (rule put_inv_same [OF assms(1,2) release_ref_hok [OF h(1)] others_trans [OF h(2) release_ref_frame(1)]
          same_polls_trans [OF h(3) release_ref_frame(2)]])
      (use world_inv_hok(4) [OF assms(1,2)] assms(3) in \<open>simp_all add: unrelated_def get_hst_def\<close>)
qed

lemma drain_reply_inv:
  assumes "world_inv (pr_client p # xs) js w"
  shows "world_inv xs js (drain_reply rv p w)"
proof -
  obtain c where c: "v_clients w (pr_client p) = Some c" using world_inv_held [OF assms, of "pr_client p"] by auto
  show ?thesis unfolding drain_reply_def on_client_def c option.case
    by (rule release_inv [OF assms c]) (simp add: unrelated_def)
qed

subsection \<open>Disconnecting\<close>

lemma disconnect_fields:
  fixes h :: "'x hst" and e
  defines "h' \<equiv> client_disconnect e None h"
  shows "h_id h' = h_id h" "c_refs (h_cl h') = c_refs (h_cl h)" "c_job (h_cl h') = None"
    "c_generation (h_cl h') = Suc (c_generation (h_cl h))" "c_poll_handle (h_cl h') = -1"
    "s_allow_stop (h_srv h') = s_allow_stop (h_srv h)" "s_next_job (h_srv h') = s_next_job (h_srv h)"
    "s_ring (h_srv h') = s_ring (h_srv h)" "dom (s_jobs (h_srv h')) = dom (s_jobs (h_srv h))"
    "job_view (h_srv h') = job_view (h_srv h)"
    "s_pollset (h_srv h') = (if c_poll_handle (h_cl h) \<ge> 0
       then map_option (opftp_pollset_remove (c_poll_handle (h_cl h))) (s_pollset (h_srv h)) else s_pollset (h_srv h))"
  by (simp_all add: h'_def client_disconnect_def Let_def cancel_active_def poll_remove_client_def drop_pasv_def
      split: option.split)
    (auto simp: cancel_job_def job_view_def fun_eq_iff split: option.splits)

lemma disconnect_hok:
  assumes "hok k R h"
  shows "hok k R (client_disconnect e None h)" "others h (client_disconnect e None h)"
proof -
  have "g < Suc (c_generation (h_cl h))" if "job_view (h_srv h) (h_id h) jid = Some g" for jid g
    using that assms by (auto simp: hok_def cl_ok_def link_iff_def less_Suc_eq_le)
  then show "hok k R (client_disconnect e None h)"
    using assms by (auto simp: hok_def jobs_held_def cl_ok_def job_refs_def link_iff_def disconnect_fields less_imp_le)
  show "others h (client_disconnect e None h)" by (simp add: others_def disconnect_fields)
qed

lemma disconnect_polls:
  assumes "polls_valid (h_srv h)"
  shows "polls_valid (h_srv (client_disconnect e None h))"
    "poll_users (h_srv (client_disconnect e None h)) hndl =
      (if c_poll_handle (h_cl h) = int hndl then None else poll_users (h_srv h) hndl)"
proof -
  have "polls_valid (h_srv (client_disconnect e None h)) \<and>
    poll_users (h_srv (client_disconnect e None h)) hndl =
      (if c_poll_handle (h_cl h) = int hndl then None else poll_users (h_srv h) hndl)"
  proof (cases "c_poll_handle (h_cl h) \<ge> 0 \<and> s_pollset (h_srv h) \<noteq> None")
    case True
    then obtain n p where n: "c_poll_handle (h_cl h) = int n" and p: "s_pollset (h_srv h) = Some p"
      by (metis nonneg_int_cases option.exhaust)
    with assms pollset_remove_view [of p n] show ?thesis
      by (auto simp: disconnect_fields polls_valid_def poll_users_def)
  qed (use assms in \<open>auto simp: disconnect_fields polls_valid_def poll_users_def\<close>)
  then show "polls_valid (h_srv (client_disconnect e None h))"
    "poll_users (h_srv (client_disconnect e None h)) hndl =
      (if c_poll_handle (h_cl h) = int hndl then None else poll_users (h_srv h) hndl)" by auto
qed

lemma disconnect_put:
  fixes e and w :: "'x world" and cid c
  assumes "world_inv xs js w" "v_clients w cid = Some c"
  defines "h' \<equiv> client_disconnect e None (get_hst cid c w)"
  shows "world_inv xs js (put_hst h' w)" "poll_users (h_srv h') hndl \<noteq> Some cid"
proof -
  have pu: "poll_users (h_srv h') hndl = (if c_poll_handle c = int hndl then None else poll_users (v_srv w) hndl)" for hndl
    using disconnect_polls(2) [of "get_hst cid c w"] world_invD(2) [OF assms(1)] by (simp add: h'_def get_hst_def)
  show nu: "poll_users (h_srv h') hndl \<noteq> Some cid" for hndl
    using world_invD(4) [OF assms(1), of hndl cid] assms(2) by (auto simp: pu)
  show "world_inv xs js (put_hst h' w)"
  proof (rule put_inv [OF assms(1,2)])
    show "hok (ext xs w cid) (v_running w @ v_completions w @ js) h'" "others (get_hst cid c w) h'"
      unfolding h'_def by (rule disconnect_hok [OF world_inv_hok(1) [OF assms(1,2)]])+
    show "polls_valid (h_srv h')"
      using disconnect_polls(1) [of "get_hst cid c w"] world_invD(2) [OF assms(1)] by (simp add: h'_def get_hst_def)
    show "poll_users (v_srv w) hndl = Some i \<and> (i = cid \<longrightarrow> c_poll_handle (h_cl h') = int hndl)"
      if "poll_users (h_srv h') hndl = Some i" for hndl i
      using that nu [of hndl] by (auto simp: pu split: if_splits)
  qed (simp_all add: h'_def disconnect_fields)
qed

text \<open>Taken from the list, the client's reference is in hand.\<close>

lemma unlink_inv:
  assumes "world_inv xs js w" "cid \<in> set (v_list w)" "\<And>hndl. poll_users (v_srv w) hndl \<noteq> Some cid"
    "\<And>c. v_clients w cid = Some c \<Longrightarrow> c_job c = None"
  shows "world_inv (cid # xs) js (w\<lparr> v_list := remove1 cid (v_list w) \<rparr>)"
proof -
  let ?w = "w\<lparr> v_list := remove1 cid (v_list w) \<rparr>"
  have d: "distinct (v_list w)" using assms(1) by (simp add: world_inv_def)
  then have e: "ext (cid # xs) ?w i = ext xs w i" for i using assms(2) by (auto simp: ext_def)
  have "client_inv (cid # xs) ?w i" for i
    using world_invD(1) [OF assms(1), of i] assms(4) d by (auto simp: client_inv_def e split: option.splits)
  moreover have "polls_inv ?w"
    using world_invD(2,4) [OF assms(1)] assms(3) d by (fastforce simp: polls_inv_def)
  ultimately show ?thesis using assms(1) by (simp add: world_inv_def)
qed

lemma put_hst_simps [simp]:
  "v_list (put_hst h w) = v_list w" "v_replies (put_hst h w) = v_replies w" "v_srv (put_hst h w) = h_srv h"
  "v_completions (put_hst h w) = v_completions w" "v_running (put_hst h w) = v_running w" "v_stale (put_hst h w) = v_stale w"
  "v_next (put_hst h w) = v_next w"
  by (simp_all add: put_hst_def)

lemma on_client_simps [simp]:
  "v_list (on_client cid f w) = v_list w" "v_replies (on_client cid f w) = v_replies w"
  "v_completions (on_client cid f w) = v_completions w" "v_running (on_client cid f w) = v_running w"
  "v_next (on_client cid f w) = v_next w"
  by (simp_all add: on_client_def split: option.split)

lemma disconnect_client_inv:
  assumes "world_inv xs js w" "cid \<in> set (v_list w)" "hook_ok (rv_disconnect rv)"
  shows "world_inv xs js (disconnect_client rv cid w)"
proof -
  obtain c where c: "v_clients w cid = Some c" using world_inv_held [OF assms(1), of cid] assms(2) by auto
  define w1 where "w1 = on_client cid (client_disconnect (cur_env rv w) None) w"
  define w2 where "w2 = w1\<lparr> v_list := remove1 cid (v_list w1) \<rparr>"
  define w3 where "w3 = on_client cid (rv_disconnect rv) w2"
  have w1: "w1 = put_hst (client_disconnect (cur_env rv w) None (get_hst cid c w)) w" by (simp add: w1_def on_client_def c)
  have "world_inv (cid # xs) js w2"
    unfolding w2_def
    by (rule unlink_inv) (use assms(2) disconnect_put [OF assms(1) c] in
        \<open>auto simp: w1 put_hst_def disconnect_fields get_hst_def split: if_splits\<close>)
  then have w3: "world_inv (cid # xs) js w3" unfolding w3_def
    by (rule on_client_inv) (use assms(3) in \<open>simp_all add: ext_def hook_ok_def\<close>)
  obtain c' where c': "v_clients w3 cid = Some c'" using world_inv_held [OF w3, of cid] by auto
  have "world_inv xs js (on_client cid (release_ref (cur_env rv w3)) w3)"
    using release_inv [OF w3 c', of "get_hst cid c' w3"] by (simp add: on_client_def c' unrelated_def)
  then show ?thesis by (simp add: disconnect_client_def Let_def w1_def w2_def w3_def)
qed

lemma disconnect_client_list: "v_list (disconnect_client rv cid w) = remove1 cid (v_list w)"
  by (simp add: disconnect_client_def Let_def)

subsection \<open>Jobs end\<close>

text \<open>A job leaves with its reference to the client. The client forgets it when it is of the current
  generation.\<close>

lemma drop_job_hok:
  assumes h: "hok k (A @ jid # B) h" and j: "s_jobs (h_srv h) jid = Some j" "j_client j = h_id h"
    and h': "h_id h' = h_id h" "h_srv h' = (h_srv h)\<lparr> s_jobs := (s_jobs (h_srv h))(jid := None) \<rparr>"
      "c_refs (h_cl h') = c_refs (h_cl h) - 1" "c_generation (h_cl h') = c_generation (h_cl h)"
      "c_job (h_cl h') = (if j_generation j = c_generation (h_cl h) then None else c_job (h_cl h))"
      "c_poll_handle (h_cl h') = c_poll_handle (h_cl h)"
  shows "hok k (A @ B) h'" "others h h'" "same_polls h h'"
proof -
  have v: "job_view (h_srv h') cid = (job_view (h_srv h) cid)(jid := None)" for cid
    by (auto simp: h' job_view_def fun_eq_iff)
  have vj: "job_view (h_srv h) (h_id h) jid = Some (j_generation j)" using j by (simp add: job_view_def)
  from h have jh: "jobs_held (A @ jid # B) (h_srv h)" and c: "cl_ok k (h_id h) (h_cl h) (h_srv h)" by (simp_all add: hok_def)
  have "jobs_held (A @ B) (h_srv h')"
    using jh by (auto simp: jobs_held_def h')
  moreover have r: "job_refs (h_srv h) (h_id h) = Suc (job_refs (h_srv h') (h_id h))"
  proof -
    have "jid \<in> dom (job_view (h_srv h) (h_id h))" using vj by auto
    from card.remove [OF finite_job_view [OF jh] this] show ?thesis by (simp add: job_refs_def v)
  qed
  moreover have "link_iff (h_id h) (h_cl h') (h_srv h')"
    using c vj by (auto simp: link_iff_def cl_ok_def v h'(4,5)) (metis option.inject)
  ultimately show "hok k (A @ B) h'" using c by (simp add: hok_def cl_ok_def h')
  show "same_polls h h'" by (simp add: same_polls_def h')
  have "job_view (h_srv h) cid jid = None" if "cid \<noteq> h_id h" for cid
    using that j by (simp add: job_view_def)
  moreover have "s_allow_stop (h_srv h') = s_allow_stop (h_srv h)" by (simp add: h')
  ultimately show "others h h'" by (auto simp: others_def h'(1) v fun_eq_iff)
qed

lemma complete_fields:
  "h_id (opftp_datachan_complete e jid j h) = h_id h"
  "c_refs (h_cl (opftp_datachan_complete e jid j h)) = c_refs (h_cl h) - 1"
  "c_generation (h_cl (opftp_datachan_complete e jid j h)) = c_generation (h_cl h)"
  "c_job (h_cl (opftp_datachan_complete e jid j h)) =
     (if j_generation j = c_generation (h_cl h) then None else c_job (h_cl h))"
  "c_poll_handle (h_cl (opftp_datachan_complete e jid j h)) = c_poll_handle (h_cl h)"
  by (simp_all add: opftp_datachan_complete_def Let_def split: prod.split)

lemma held_job:
  assumes "world_inv xs js w" "jid \<in> set (ring_list (s_ring (v_srv w)) @ v_running w @ v_completions w @ js)"
  obtains j c where "s_jobs (v_srv w) jid = Some j" "v_clients w (j_client j) = Some c"
proof -
  have "jid \<in> dom (s_jobs (v_srv w))" using assms(2) world_invD(3) [OF assms(1)] by (metis jobs_held_def)
  then obtain j where j: "s_jobs (v_srv w) jid = Some j" by blast
  then have "job_view (v_srv w) (j_client j) jid \<noteq> None" by (simp add: job_view_def)
  then have "job_view (v_srv w) (j_client j) \<noteq> Map.empty" by auto
  with that j show thesis using world_inv_client [OF assms(1)] by blast
qed

lemma drop_job_inv:
  assumes inv: "world_inv xs (jid # js) w" and j: "s_jobs (v_srv w) jid = Some j"
    and c: "v_clients w (j_client j) = Some c"
    and h': "h_id h' = j_client j" "h_srv h' = (v_srv w)\<lparr> s_jobs := (s_jobs (v_srv w))(jid := None) \<rparr>"
      "c_refs (h_cl h') = c_refs c - 1" "c_generation (h_cl h') = c_generation c"
      "c_job (h_cl h') = (if j_generation j = c_generation c then None else c_job c)"
      "c_poll_handle (h_cl h') = c_poll_handle c"
  shows "world_inv xs js (put_hst h' w)"
proof -
  let ?h = "get_hst (j_client j) c w" and ?A = "v_running w @ v_completions w"
  have "hok (ext xs w (j_client j)) (?A @ jid # js) ?h" using world_inv_hok(1) [OF inv c] by simp
  from drop_job_hok [OF this, of j h'] j h'
  have "hok (ext xs w (j_client j)) (?A @ js) h'" "others ?h h'" "same_polls ?h h'" by (simp_all add: get_hst_def)
  then show ?thesis
    using world_inv_hok(4) [OF inv c] h' by (intro put_inv_same [OF inv c]) auto
qed

lemma complete_one_inv:
  assumes "world_inv xs (jid # js) w"
  shows "world_inv xs js (complete_one rv jid w)"
proof -
  obtain j c where j: "s_jobs (v_srv w) jid = Some j" and c: "v_clients w (j_client j) = Some c"
    using held_job [OF assms, of jid] by auto
  show ?thesis unfolding complete_one_def j on_client_def option.case c
    by (rule drop_job_inv [OF assms j c]) (simp_all add: complete_fields get_hst_def)
qed

lemma release_job_inv:
  assumes "world_inv xs (jid # js) w" "v_list w = []"
  shows "world_inv xs js (release_job rv jid w)"
proof -
  obtain j c where j: "s_jobs (v_srv w) jid = Some j" and c: "v_clients w (j_client j) = Some c"
    using held_job [OF assms(1), of jid] by auto
  have "c_job c = None" using world_inv_hok(4) [OF assms(1) c] assms(2) by simp
  then show ?thesis unfolding release_job_def j on_client_def option.case c
    by (intro drop_job_inv [OF assms(1) j c]) (simp_all add: get_hst_def)
qed

subsection \<open>Accepting\<close>

lemma inv_sys [simp]:
  "world_inv xs js (w\<lparr> v_sys := s \<rparr>) = world_inv xs js w"
  "world_inv xs js (w\<lparr> v_closed := l \<rparr>) = world_inv xs js w"
  by (simp_all add: world_inv_def client_inv_def ext_def polls_inv_def split: option.split)

lemma close_w_inv [simp]: "world_inv xs js (close_w rv fd w) = world_inv xs js w"
  by (simp add: close_w_def world_inv_def client_inv_def ext_def polls_inv_def split: option.split)

lemma enter_inv:
  assumes inv: "world_inv xs js w" and p: "s_pollset (v_srv w) = Some p"
    and a: "opftp_pollset_add ra fd ev (Some (v_next w)) p = (Some hndl, p')"
    and c: "c_refs c = 1" "c_job c = None" "c_poll_handle c = int hndl"
    and w': "w' = w\<lparr> v_clients := (v_clients w)(v_next w \<mapsto> c), v_list := v_next w # v_list w,
      v_next := v_next w + 1, v_srv := (v_srv w)\<lparr> s_pollset := Some p' \<rparr> \<rparr>"
  shows "world_inv xs js w'"
proof -
  let ?n = "v_next w"
  have n: "v_clients w ?n = None"
    using world_inv_hok(3) [OF inv, of ?n] by (cases "v_clients w ?n") auto
  with world_invD(1) [OF inv, of ?n] have e0: "ext xs w ?n = 0" and v0: "job_view (v_srv w) ?n = Map.empty"
    by (simp_all add: client_inv_def)
  have nl: "?n \<notin> set (v_list w)" using e0 by (auto simp: ext_def split: if_splits)
  have e: "ext xs w' i = (if i = ?n then 1 else ext xs w i)" for i using e0 nl by (auto simp: w' ext_def)
  have f: "v_clients w' = (v_clients w)(?n \<mapsto> c)" "v_list w' = ?n # v_list w" "v_next w' = Suc ?n" by (simp_all add: w')
  have jv: "job_view (v_srv w') = job_view (v_srv w)" by (intro job_view_cong) (simp add: w')
  have cl: "cl_ok k i d (v_srv w') = cl_ok k i d (v_srv w)" for k i d using jv by (intro cl_ok_cong) simp_all
  have "client_inv xs w' i" for i
  proof (cases "i = ?n")
    case True
    with c v0 show ?thesis by (simp add: client_inv_def e f jv cl_ok_def job_refs_def link_iff_def)
  next
    case False
    with world_invD(1) [OF inv, of i] show ?thesis
      by (auto simp: client_inv_def e f jv cl split: option.splits)
  qed
  moreover have "polls_inv w'"
  proof -
    have "pollset_ok p" using world_invD(2) [OF inv] p by (simp add: polls_valid_def)
    from add_cases [OF this a] have pv: "pollset_ok p'" "poll_view p' = (poll_view p)(hndl \<mapsto> (fd, ev, Some ?n))" by auto
    then have u: "poll_users (v_srv w') = (poll_users (v_srv w))(hndl \<mapsto> ?n)"
      by (auto simp: poll_users_def p w' fun_eq_iff)
    have "i \<in> set (v_list w') \<and> (\<exists>c. v_clients w' i = Some c \<and> c_poll_handle c = int k)"
      if "poll_users (v_srv w') k = Some i" for k i
      using that u c world_invD(4) [OF inv, of k i] n by (auto simp: f split: if_splits)
    moreover have "polls_valid (v_srv w')" using pv by (simp add: polls_valid_def w')
    ultimately show ?thesis unfolding polls_inv_def by blast
  qed
  ultimately show ?thesis
    using inv nl world_invD(3) [OF inv] by (simp add: world_inv_def jobs_held_def w')
qed

lemma greet_hook: "hook_ok greet"
  by (simp add: hook_ok_def unrelated_def greet_def Let_def)

text \<open>A connection is refused, and closed, or enters under the next identity and is greeted.\<close>

definition entered :: "int \<Rightarrow> sockaddr \<Rightarrow> nat \<Rightarrow> nat pollset \<Rightarrow> 'x world \<Rightarrow> 'x world" where
  "entered fd peer hndl p w =
     w\<lparr> v_clients := (v_clients w)(v_next w \<mapsto> (opftp_client_new fd peer)\<lparr> c_poll_handle := int hndl \<rparr>),
        v_list := v_next w # v_list w, v_next := v_next w + 1, v_srv := (v_srv w)\<lparr> s_pollset := Some p \<rparr> \<rparr>"

lemma accept_one_cases:
  assumes even: "\<forall>s. realloc_even (rv_realloc rv s)"
  obtains (refused) s fds where "accept_one rv fd peer w = fold (close_w rv) fds (w\<lparr> v_sys := s \<rparr>)"
  | (enters) s p hndl p' where "pollset_of w = Some p"
      "opftp_pollset_add (rv_realloc rv s) fd (POLLIN OR POLLPRI) (Some (v_next w)) p = (Some hndl, p')"
      "accept_one rv fd peer w = on_client (v_next w) (rv_connect rv)
        (on_client (v_next w) greet (entered fd peer hndl p' (w\<lparr> v_sys := s \<rparr>)))"
proof -
  obtain r s where r: "e_calloc (rv_env rv) (v_sys w) = (r, s)" by fastforce
  show thesis
  proof (cases "r = None \<or> pollset_of w = None")
    case True
    with r refused [of "[fd]" s] refused [of "[fd, -1]" s] show thesis
      by (cases r) (auto simp: accept_one_def Let_def)
  next
    case False
    then obtain p where p: "pollset_of w = Some p" "r = Some ()" by auto
    obtain h p' where a: "opftp_pollset_add (rv_realloc rv s) fd (POLLIN OR POLLPRI) (Some (v_next w)) p = (h, p')" by fastforce
    show thesis
    proof (cases h)
      case None
      then have "p' = p" using add_failed [of "rv_realloc rv s" p fd] a even by auto
      with p(1) have "w\<lparr> v_sys := s, v_srv := (v_srv w)\<lparr> s_pollset := Some p' \<rparr> \<rparr> = w\<lparr> v_sys := s \<rparr>" by simp
      with r p a None refused [of "[fd, -1]" s] show thesis by (simp add: accept_one_def Let_def)
    next
      case (Some hndl)
      with r p a enters [of p s hndl p'] show thesis by (simp add: accept_one_def Let_def entered_def)
    qed
  qed
qed

lemma close_all_inv [simp]: "world_inv xs js (fold (close_w rv) fds w) = world_inv xs js w"
  by (induction fds arbitrary: w) simp_all

lemma accept_one_inv:
  assumes inv: "world_inv xs js w" and hook: "hook_ok (rv_connect rv)"
    and even: "\<forall>s. realloc_even (rv_realloc rv s)"
  shows "world_inv xs js (accept_one rv fd peer w)"
proof (cases rule: accept_one_cases [OF even, of fd peer w, case_names refused enters])
  case (enters s p hndl p')
  let ?n = "v_next w" and ?w = "entered fd peer hndl p' (w\<lparr> v_sys := s \<rparr>)"
  have "world_inv xs js (w\<lparr> v_sys := s \<rparr>)" using inv by simp
  from enter_inv [OF this, of p, OF _ _ _ _ _ entered_def] enters have "world_inv xs js ?w"
    by (simp add: opftp_client_new_def)
  moreover have "?n \<in> set (v_list ?w)" by (simp add: entered_def)
  ultimately show ?thesis unfolding enters(3) using hook
    by (intro on_client_inv) (simp_all add: ext_def hook_ok_def greet_hook [unfolded hook_ok_def])
qed (use inv in simp)

end
