(* ===== verification/Reactor_Machine.thy ===== *)
theory Reactor_Machine
  imports Reactor_Inv
begin

text \<open>
  The invariant of the machine: every step of the reactor and of the other threads keeps
  \<open>machine_inv\<close>, which is \<open>world_inv\<close> with the lists the reactor has in hand at its position.
\<close>

section \<open>The invariant\<close>

fun in_hand :: "pc \<Rightarrow> nat list \<times> nat list" where
  "in_hand (Replies st ps) = (map pr_client ps, [])"
| "in_hand (Completions st js) = ([], js)"
| "in_hand pc = ([], [])"

text \<open>The clients still to be served are listed and each comes once.\<close>

definition served :: "(nat option \<times> poll_events) list \<Rightarrow> nat list" where
  "served us = List.map_filter fst us"

fun pc_ok :: "pc \<Rightarrow> 'x world \<Rightarrow> bool" where
  "pc_ok (Serve us) w \<longleftrightarrow> distinct (served us) \<and> set (served us) \<subseteq> set (v_list w)"
| "pc_ok (Polled Late) w \<longleftrightarrow> v_list w = []"
| "pc_ok (Replies Late ps) w \<longleftrightarrow> v_list w = []"
| "pc_ok (Completions Late js) w \<longleftrightarrow> False"
| "pc_ok Gone w \<longleftrightarrow> v_list w = []"
| "pc_ok pc w \<longleftrightarrow> True"

definition machine_inv :: "'x renv \<Rightarrow> pc \<Rightarrow> 'x world \<Rightarrow> bool" where
  "machine_inv rv pc w \<longleftrightarrow> world_inv (fst (in_hand pc)) (snd (in_hand pc)) w \<and> pc_ok pc w \<and>
     builtin_only (rv_tab rv) (s_allow_stop (v_srv w))"

text \<open>What the machine relies on: the application's hooks keep to the public interface, \<open>poll\<close> fills
  in the slots it was given, and the two reallocations of a growing poll set succeed together or
  fail together.\<close>

definition renv_ok :: "'x renv \<Rightarrow> bool" where
  "renv_ok rv \<longleftrightarrow> hook_ok (rv_connect rv) \<and> hook_ok (rv_disconnect rv) \<and>
     (\<forall>p t s r rs s'. rv_poll rv p t s = ((r, rs), s') \<longrightarrow> length rs = ps_count p) \<and>
     (\<forall>s. realloc_even (rv_realloc rv s))"

section \<open>The other threads\<close>

lemma srv_inv:
  assumes "world_inv xs js w" "job_view s' = job_view (v_srv w)" "jobs_held (run @ compl @ js') s'"
    "poll_users s' = poll_users (v_srv w)" "polls_valid s'"
  shows "world_inv xs js' (w\<lparr> v_srv := s', v_running := run, v_completions := compl \<rparr>)"
proof -
  have "cl_ok k i d s' = cl_ok k i d (v_srv w)" for k i d using assms(2) by (intro cl_ok_cong) simp_all
  moreover have "ext xs (w\<lparr> v_srv := s', v_running := run, v_completions := compl \<rparr>) = ext xs w"
    by (simp add: ext_def fun_eq_iff)
  ultimately have "client_inv xs (w\<lparr> v_srv := s', v_running := run, v_completions := compl \<rparr>) i" for i
    using world_invD(1) [OF assms(1), of i] assms(2) by (simp add: client_inv_def split: option.splits)
  with assms show ?thesis by (simp add: world_inv_def polls_inv_def)
qed

lemma wake_view [simp]:
  "poll_view (opftp_pollset_wake b p) = poll_view p" "pollset_ok (opftp_pollset_wake b p) = pollset_ok p"
  by (simp_all add: opftp_pollset_wake_def poll_view_def pollset_ok_def fun_eq_iff)

lemma wake_polls:
  "poll_users (s\<lparr> s_pollset := map_option (opftp_pollset_wake b) (s_pollset s) \<rparr>) = poll_users s"
  "polls_valid (s\<lparr> s_pollset := map_option (opftp_pollset_wake b) (s_pollset s) \<rparr>) = polls_valid s"
  by (cases "s_pollset s"; simp add: poll_users_def polls_valid_def)+

lemma wake_inv: "world_inv xs js w \<Longrightarrow> world_inv xs js (wake w)"
proof -
  assume inv: "world_inv xs js w"
  let ?s = "(v_srv w)\<lparr> s_pollset := map_option (opftp_pollset_wake True) (s_pollset (v_srv w)) \<rparr>"
  have "world_inv xs js (w\<lparr> v_srv := ?s, v_running := v_running w, v_completions := v_completions w \<rparr>)"
    by (rule srv_inv [OF inv job_view_cong])
      (use world_invD(2,3) [OF inv] in \<open>simp_all add: wake_polls jobs_held_def\<close>)
  then show "world_inv xs js (wake w)" by (simp add: wake_def)
qed

lemma queue_reply_inv:
  assumes inv: "world_inv xs js w" and c: "v_clients w cid = Some c"
  shows "world_inv xs js (queue_reply ok cid msg w)"
proof (cases ok)
  case True
  define w' where "w' = w\<lparr> v_replies := v_replies w @ [\<lparr> pr_client = cid, pr_generation = c_generation c, pr_text = msg \<rparr>],
    v_clients := (v_clients w)(cid \<mapsto> c\<lparr> c_refs := c_refs c + 1 \<rparr>) \<rparr>"
  have e: "ext xs w' i = (if i = cid then Suc (ext xs w i) else ext xs w i)" for i by (simp add: ext_def w'_def)
  have f: "v_clients w' = (v_clients w)(cid \<mapsto> c\<lparr> c_refs := c_refs c + 1 \<rparr>)" "v_srv w' = v_srv w"
    "v_next w' = v_next w" "v_list w' = v_list w" "v_running w' = v_running w" "v_completions w' = v_completions w"
    "v_stale w' = v_stale w" by (simp_all add: w'_def)
  have "client_inv xs w' i" for i
    using world_invD(1) [OF inv, of i] c
    by (cases "i = cid") (auto simp: client_inv_def e f cl_ok_def link_iff_def split: option.splits)
  moreover have "polls_inv w'"
    using world_invD(2,4) [OF inv] c by (fastforce simp: polls_inv_def f)
  ultimately have "world_inv xs js w'" using inv by (simp add: world_inv_def f)
  from wake_inv [OF this] True c show ?thesis by (simp add: queue_reply_def w'_def wake_def)
qed (use assms in \<open>simp add: queue_reply_def\<close>)

text \<open>Stopping the pool cancels the queued jobs and leaves them where they are.\<close>

lemma fold_cancel:
  "job_view (fold cancel_job js s) = job_view s" "poll_users (fold cancel_job js s) = poll_users s"
  "polls_valid (fold cancel_job js s) = polls_valid s" "jobs_held R s \<Longrightarrow> jobs_held R (fold cancel_job js s)"
  "s_ring (fold cancel_job js s) = s_ring s" "s_allow_stop (fold cancel_job js s) = s_allow_stop s"
  by (induction js arbitrary: s) (simp_all add: cancel_held)

lemma stop_ring [simp]:
  "ring_list (snd (shutdown_begin r)) = ring_list r" "ring_ok (snd (shutdown_begin r)) = ring_ok r"
  by (simp_all add: shutdown_begin_def ring_list_def ring_ok_def queued_jobs_def)

lemma cancel_queued_inv:
  assumes "world_inv xs js w"
  shows "world_inv xs js (cancel_queued w)"
proof -
  let ?s = "fold cancel_job (ring_list (s_ring (v_srv w))) (v_srv w)"
  have "jobs_held (v_running w @ v_completions w @ js) ?s" by (rule fold_cancel(4) [OF world_invD(3) [OF assms]])
  then have "world_inv xs js (w\<lparr> v_srv := ?s\<lparr> s_ring := snd (shutdown_begin (s_ring (v_srv w))) \<rparr>,
      v_running := v_running w, v_completions := v_completions w \<rparr>)"
    using world_invD(2) [OF assms] fold_cancel(1-3) [of "ring_list (s_ring (v_srv w))" "v_srv w"]
    by (intro srv_inv [OF assms])
      (simp_all add: jobs_held_def fold_cancel(5))
  then show ?thesis by (simp add: cancel_queued_def)
qed

lemma wstep_keeps: "wstep w w' \<Longrightarrow> v_list w' = v_list w \<and> s_allow_stop (v_srv w') = s_allow_stop (v_srv w)"
  by (induction rule: wstep.induct)
    (auto simp: set_job_def queue_reply_def wake_def opftp_server_set_root_runtime_def cancel_queued_def fold_cancel
      split: option.splits if_splits)

lemma pool_ring [simp]:
  "ring_list (worker_enter r) = ring_list r" "ring_ok (worker_enter r) = ring_ok r"
  "ring_list (worker_leave r) = ring_list r" "ring_ok (worker_leave r) = ring_ok r"
  by (simp_all add: worker_enter_def worker_leave_def ring_list_def ring_ok_def queued_jobs_def)

lemma ring_inv:
  assumes "world_inv xs js w" "ring_list r = ring_list (s_ring (v_srv w))" "ring_ok r"
  shows "world_inv xs js (w\<lparr> v_srv := (v_srv w)\<lparr> s_ring := r \<rparr> \<rparr>)"
proof -
  have "world_inv xs js (w\<lparr> v_srv := (v_srv w)\<lparr> s_ring := r \<rparr>, v_running := v_running w, v_completions := v_completions w \<rparr>)"
    by (rule srv_inv [OF assms(1) job_view_cong])
      (use world_invD(2,3) [OF assms(1)] assms(2,3) in \<open>simp_all add: poll_users_def polls_valid_def jobs_held_def\<close>)
  then show ?thesis by simp
qed

lemma ring_ok_inv: "world_inv xs js w \<Longrightarrow> ring_ok (s_ring (v_srv w))"
  by (drule world_invD(3)) (simp add: jobs_held_def)

lemma wstep_inv:
  assumes "wstep w w'" "world_inv xs js w"
  shows "world_inv xs js w'"
  using assms
proof (induction rule: wstep.induct)
  case (Take_job w jid r)
  let ?q = "s_ring (v_srv w)"
  from world_invD(3) [OF Take_job(2)] have jh: "jobs_held (v_running w @ v_completions w @ js) (v_srv w)" .
  then have q: "ring_ok ?q" by (simp add: jobs_held_def)
  then obtain rest where l: "ring_list ?q = jid # rest"
    using rq.deq_empty [OF q] Take_job(1) rq.deq_ok [OF q] by (cases "ring_list ?q") auto
  with rq.deq_ok [OF q l] rq.deq_invar [OF q] Take_job(1) have "ring_list r = rest" "ring_ok r" by auto
  with jh l have "jobs_held ((jid # v_running w) @ v_completions w @ js) ((v_srv w)\<lparr> s_ring := r \<rparr>)"
    by (auto simp: jobs_held_def)
  then have "world_inv xs js (w\<lparr> v_srv := (v_srv w)\<lparr> s_ring := r \<rparr>, v_running := jid # v_running w,
      v_completions := v_completions w \<rparr>)"
    using world_invD(2) [OF Take_job(2)]
    by (intro srv_inv [OF Take_job(2) job_view_cong]) (simp_all add: poll_users_def polls_valid_def)
  then show ?case by simp
next
  case (Work jid w j j' s)
  let ?s = "(v_srv w)\<lparr> s_jobs := (s_jobs (v_srv w))(jid \<mapsto> j') \<rparr>"
  have "job_view ?s = job_view (v_srv w)" using Work(2-4) by (auto simp: job_view_def fun_eq_iff)
  moreover have "jobs_held (v_running w @ v_completions w @ js) ?s"
    using world_invD(3) [OF Work(5)] Work(2) unfolding jobs_held_def by (auto simp: insert_absorb domI)
  ultimately have "world_inv xs js (w\<lparr> v_srv := ?s, v_running := v_running w, v_completions := v_completions w \<rparr>)"
    using world_invD(2) [OF Work(5)] by (intro srv_inv [OF Work(5)]) simp_all
  then show ?case by (simp add: set_job_def)
next
  case (Reply_from_worker jid w j malloc_ok msg)
  then obtain c where "v_clients w (j_client j) = Some c" using held_job [OF Reply_from_worker(3), of jid] by auto
  with Reply_from_worker show ?case by (intro queue_reply_inv)
next
  case (Post jid w)
  have "distinct (v_running w)" using world_invD(3) [OF Post(2)] by (simp add: jobs_held_def)
  with world_invD(3) [OF Post(2)] Post(1)
  have "jobs_held (remove1 jid (v_running w) @ (jid # v_completions w) @ js) (v_srv w)"
    unfolding jobs_held_def by (auto dest: notin_set_remove1)
  then have "world_inv xs js (w\<lparr> v_srv := v_srv w, v_running := remove1 jid (v_running w), v_completions := jid # v_completions w \<rparr>)"
    using world_invD(2) [OF Post(2)] by (intro srv_inv [OF Post(2)]) simp_all
  then show ?case by (intro wake_inv) simp
next
  case (Set_root root w rc w')
  have "world_inv xs js (w\<lparr> v_srv := (v_srv w)\<lparr> s_root := r \<rparr>, v_running := v_running w, v_completions := v_completions w \<rparr>)" for r
    by (rule srv_inv [OF Set_root(2) job_view_cong])
      (use world_invD(2,3) [OF Set_root(2)] in \<open>simp_all add: poll_users_def polls_valid_def jobs_held_def\<close>)
  with Set_root show ?case by (auto simp: opftp_server_set_root_runtime_def split: option.splits if_splits)
next
  case (Ask_stop w)
  have "world_inv xs js (w\<lparr> v_srv := (v_srv w)\<lparr> s_stopping := True \<rparr>, v_running := v_running w, v_completions := v_completions w \<rparr>)"
    by (rule srv_inv [OF Ask_stop job_view_cong])
      (use world_invD(2,3) [OF Ask_stop] in \<open>simp_all add: poll_users_def polls_valid_def jobs_held_def\<close>)
  then show ?case by (intro wake_inv) simp
next
  case (Leave_pool w r)
  then have "r = s_ring (v_srv w)" by (auto simp: worker_dequeue_def split: if_splits)
  with Leave_pool(2) show ?case by (intro ring_inv) (simp_all add: ring_ok_inv)
qed (auto intro!: cancel_queued_inv ring_inv ring_ok_inv)

section \<open>The reactor\<close>

subsection \<open>What is kept beside the invariant\<close>

abbreviation allow_stop :: "'x world \<Rightarrow> bool" where
  "allow_stop w \<equiv> s_allow_stop (v_srv w)"

lemma on_client_allow:
  "(\<And>h. s_allow_stop (h_srv (f h)) = s_allow_stop (h_srv h)) \<Longrightarrow> allow_stop (on_client cid f w) = allow_stop w"
  by (simp add: on_client_def get_hst_def split: option.split)

lemma hook_allow: "hook_ok f \<Longrightarrow> allow_stop (on_client cid f w) = allow_stop w"
  by (rule on_client_allow) (simp add: hook_ok_def unrelated_def)

lemma disconnect_allow: "hook_ok (rv_disconnect rv) \<Longrightarrow> allow_stop (disconnect_client rv cid w) = allow_stop w"
  by (simp add: disconnect_client_def Let_def on_client_allow hook_allow disconnect_fields)

lemma complete_one_keeps [simp]:
  "allow_stop (complete_one rv jid w) = allow_stop w" "v_list (complete_one rv jid w) = v_list w"
  by (simp_all add: complete_one_def on_client_allow split: option.split)

lemma drain_reply_list [simp]: "v_list (drain_reply rv p w) = v_list w"
  by (simp add: drain_reply_def)

lemma close_all_keeps [simp]:
  "v_srv (fold (close_w rv) fds w) = v_srv w" "v_list (fold (close_w rv) fds w) = v_list w"
  by (induction fds arbitrary: w) (simp_all add: close_w_def)

lemma accept_one_keeps:
  assumes "hook_ok (rv_connect rv)" "\<forall>s. realloc_even (rv_realloc rv s)"
  shows "allow_stop (accept_one rv fd peer w) = allow_stop w \<and> set (v_list w) \<subseteq> set (v_list (accept_one rv fd peer w))"
  by (cases rule: accept_one_cases [OF assms(2), of fd peer w])
    (auto simp: hook_allow [OF assms(1)] hook_allow [OF greet_hook] entered_def)

lemma accept_clients_inv:
  fixes rv :: "'x renv"
  assumes "accept_clients rv w = Some w'" "world_inv xs js w" "hook_ok (rv_connect rv)"
    "\<forall>s. realloc_even (rv_realloc rv s)"
  shows "world_inv xs js w' \<and> allow_stop w' = allow_stop w \<and> set (v_list w) \<subseteq> set (v_list w')"
proof (rule iterate_rule [OF assms(1) [unfolded accept_clients_def],
      where I = "\<lambda>w'. world_inv xs js w' \<and> allow_stop w' = allow_stop w \<and> set (v_list w) \<subseteq> set (v_list w')"])
  fix w1 w2 :: "'x world"
  assume I: "world_inv xs js w1 \<and> allow_stop w1 = allow_stop w \<and> set (v_list w) \<subseteq> set (v_list w1)"
  assume "Some (accept_step rv w1) = Some (Continue w2)"
  then consider s where "w2 = w1\<lparr> v_sys := s \<rparr>" | fd peer s where "w2 = accept_one rv fd peer (w1\<lparr> v_sys := s \<rparr>)"
    by (auto simp: accept_step_def Let_def split: prod.splits accept_result.splits)
  then show "world_inv xs js w2 \<and> allow_stop w2 = allow_stop w \<and> set (v_list w) \<subseteq> set (v_list w2)"
  proof cases
    case (2 fd peer s)
    with I accept_one_inv [OF _ assms(3,4), of xs js "w1\<lparr> v_sys := s \<rparr>" fd peer]
      accept_one_keeps [OF assms(3,4), of fd peer "w1\<lparr> v_sys := s \<rparr>"] show ?thesis by auto
  qed (use I in simp)
qed (use assms(2) in \<open>auto simp: accept_step_def Let_def split: prod.splits accept_result.splits\<close>)

subsection \<open>Serving\<close>

lemma served_simps [simp]:
  "served [] = []" "served ((None, ev) # us) = served us" "served ((Some cid, ev) # us) = cid # served us"
  by (simp_all add: served_def List.map_filter_simps)

lemma dispatch_event_inv:
  assumes rv: "renv_ok rv" and tab: "builtin_only (rv_tab rv) (allow_stop w)" and inv: "world_inv [] [] w"
    and ok: "pc_ok (Serve (ue # us)) w" and d: "dispatch_event rv ue w = Some w'"
  shows "world_inv [] [] w' \<and> pc_ok (Serve us) w' \<and> allow_stop w' = allow_stop w"
proof (cases ue)
  case (Pair u ev)
  show ?thesis
  proof (cases u)
    case None
    have "accept_clients rv w = Some w' \<or> w' = w" using d Pair None by (auto simp: dispatch_event_def split: if_splits)
    with accept_clients_inv [of rv w w'] inv rv ok Pair None show ?thesis by (auto simp: renv_ok_def)
  next
    case (Some cid)
    with ok Pair have l: "cid \<in> set (v_list w)" "cid \<notin> set (served us)" by auto
    from l(1) obtain c where c: "v_clients w cid = Some c" using world_inv_held [OF inv] by blast
    from d Pair Some c obtain h where
      h: "handle_client_events (rv_hs rv) (rv_io rv) (rv_tab rv) (cur_env rv w) ev (get_hst cid c w) = Some h"
      and w': "w' = (if c_disconnect_requested (h_cl h) then disconnect_client rv cid (put_hst h w) else put_hst h w)"
      by (auto simp: dispatch_event_def Let_def)
    have e: "esteps (cur_env rv w) (get_hst cid c w) h"
      by (rule events_esteps [OF h]) (use tab world_inv_hok(2) [OF inv c] in \<open>simp_all add: get_hst_def\<close>)
    have p: "world_inv [] [] (put_hst h w)" by (rule events_inv [OF inv c e l(1)])
    have a: "allow_stop (put_hst h w) = allow_stop w" using esteps_keeps [OF e] by (simp add: get_hst_def)
    have hook: "hook_ok (rv_disconnect rv)" using rv by (simp add: renv_ok_def)
    have "distinct (v_list w)" using inv by (simp add: world_inv_def)
    with p a l ok Pair Some disconnect_client_inv [OF p _ hook, of cid] show ?thesis
      by (auto simp: w' disconnect_client_list disconnect_allow [OF hook])
  qed
qed

lemma distinct_map_filter:
  assumes "distinct hs" "\<And>h k c. h \<in> set hs \<Longrightarrow> k \<in> set hs \<Longrightarrow> g h = Some c \<Longrightarrow> g k = Some c \<Longrightarrow> h = k"
  shows "distinct (List.map_filter g hs)"
  using assms
proof (induction hs)
  case (Cons h hs)
  then have "distinct (List.map_filter g hs)" by (meson distinct.simps(2) list.set_intros(2))
  moreover have "c \<notin> set (List.map_filter g hs)" if "g h = Some c" for c
  proof
    assume "c \<in> set (List.map_filter g hs)"
    then obtain k where "k \<in> set hs" "g k = Some c" by (auto simp: List.map_filter_def)
    with Cons(3) [of h k c] that Cons(2) show False by auto
  qed
  ultimately show ?case by (simp add: List.map_filter_simps split: option.split)
qed simp

lemma collect_ok:
  assumes inv: "world_inv [] [] w" and p: "pollset_of w = Some p"
  shows "pc_ok (Serve (opftp_pollset_collect n p)) w"
proof -
  have pk: "pollset_ok p" using world_invD(2) [OF inv] p by (simp add: polls_valid_def)
  define hs where "hs = take n (filter (\<lambda>h. slot_ready (ps_fds p ! h)) [1..<ps_count p])"
  have z: "drop 1 (zip (ps_fds p) (ps_users p)) = map (\<lambda>h. (ps_fds p ! h, ps_users p ! h)) [1..<ps_count p]"
    using pk by (intro nth_equalityI) (auto simp: pollset_ok_def)
  have "opftp_pollset_collect n p = map (\<lambda>h. (ps_users p ! h, pf_revents (ps_fds p ! h))) hs"
    unfolding opftp_pollset_collect_def z collect_loop_eq by (simp add: hs_def filter_map take_map comp_def)
  then have s: "served (opftp_pollset_collect n p) = List.map_filter (\<lambda>h. ps_users p ! h) hs"
    by (simp add: served_def List.map_filter_def filter_map comp_def)
  have u: "poll_users (v_srv w) h = ps_users p ! h" if "h \<in> set hs" for h
    using that in_set_takeD [of h n] by (auto simp: hs_def poll_users_def p poll_view_def slot_ready_def dest!: in_set_takeD)
  have "cid \<in> set (v_list w) \<and> (\<exists>c. v_clients w cid = Some c \<and> c_poll_handle c = int h)"
    if "h \<in> set hs" "ps_users p ! h = Some cid" for h cid
    using that u [OF that(1)] world_invD(4) [OF inv] by simp
  note user = this
  have "distinct (served (opftp_pollset_collect n p))" unfolding s
  proof (rule distinct_map_filter)
    show "distinct hs" by (simp add: hs_def)
    show "h = k" if "h \<in> set hs" "k \<in> set hs" "ps_users p ! h = Some cid" "ps_users p ! k = Some cid" for h k cid
      using user [OF that(1,3)] user [OF that(2,4)] by auto
  qed
  moreover have "set (served (opftp_pollset_collect n p)) \<subseteq> set (v_list w)"
    unfolding s using user by (auto simp: List.map_filter_def)
  ultimately show ?thesis by simp
qed

subsection \<open>Every step\<close>

lemma inv_snap [simp]: "world_inv xs js (snapshot_refresh rv w) = world_inv xs js w"
  by (simp add: world_inv_def client_inv_def ext_def polls_inv_def split: option.split)

lemma inv_root [simp]: "world_inv xs js (apply_root_change rv w) = world_inv xs js w"
  by (simp add: world_inv_def client_inv_def ext_def polls_inv_def split: option.split)

lemma inv_take_replies: "world_inv (map pr_client (v_replies w)) js (w\<lparr> v_replies := [] \<rparr>) = world_inv [] js w"
  by (simp add: world_inv_def client_inv_def ext_def polls_inv_def split: option.split)

lemma inv_take_completions: "world_inv xs (v_completions w) (w\<lparr> v_completions := [] \<rparr>) = world_inv xs [] w"
  by (simp add: world_inv_def client_inv_def ext_def polls_inv_def split: option.split)

lemma inv_close_listener [simp]:
  "world_inv xs js (close_listener rv w) = world_inv xs js w" "v_list (close_listener rv w) = v_list w"
  "v_srv (close_listener rv w) = v_srv w"
  by (simp_all add: close_listener_def close_w_def Let_def world_inv_def client_inv_def ext_def polls_inv_def
      split: option.split)

lemma poll_return_inv:
  assumes inv: "world_inv [] [] w" and p: "pollset_of w = Some p" and l: "length revents = ps_count p"
    and n: "opftp_pollset_wait r revents p = (n, p')"
  shows "world_inv [] [] (w\<lparr> v_sys := s, v_srv := (v_srv w)\<lparr> s_pollset := Some p' \<rparr> \<rparr>)"
proof -
  have "pollset_ok p" using world_invD(2) [OF inv] p by (simp add: polls_valid_def)
  from wait_view [OF this l, of r] n have p': "pollset_ok p'" "poll_view p' = poll_view p" by simp_all
  have "world_inv [] [] (w\<lparr> v_srv := (v_srv w)\<lparr> s_pollset := Some p' \<rparr>, v_running := v_running w, v_completions := v_completions w \<rparr>)"
    by (rule srv_inv [OF inv job_view_cong])
      (use world_invD(3) [OF inv] p p' in \<open>simp_all add: jobs_held_def poll_users_def polls_valid_def\<close>)
  moreover have "w\<lparr> v_sys := s, v_srv := x \<rparr> = (w\<lparr> v_srv := x \<rparr>)\<lparr> v_sys := s \<rparr>" for x by simp
  ultimately show ?thesis by (simp only: inv_sys) simp
qed

lemma rstep_inv:
  assumes "rstep rv x y" "renv_ok rv" "machine_inv rv (fst x) (snd x)"
  shows "machine_inv rv (fst y) (snd y)"
  using assms
proof (induction rule: rstep.induct)
  case (Poll_return w p r revents s n p')
  then have "length revents = ps_count p" unfolding renv_ok_def by blast
  with Poll_return poll_return_inv [of w p revents r n p' s] show ?case by (simp add: machine_inv_def)
next
  case (Take_replies st w)
  then show ?case by (cases st) (simp_all add: machine_inv_def inv_take_replies)
next
  case (Send_reply st p ps w)
  then show ?case by (cases st) (simp_all add: machine_inv_def drain_reply_inv)
next
  case (Take_completions st w)
  then show ?case by (cases st) (simp_all add: machine_inv_def inv_take_completions)
next
  case (Complete st jid js w)
  then show ?case by (cases st) (simp_all add: machine_inv_def complete_one_inv)
next
  case (Ready w' w p n)
  then have "world_inv [] [] w'" by (simp add: machine_inv_def)
  from collect_ok [OF this Ready(2)] this Ready show ?case by (simp add: machine_inv_def)
next
  case (Event ue w w' us)
  then have "world_inv [] [] w' \<and> pc_ok (Serve us) w' \<and> allow_stop w' = allow_stop w"
    by (intro dispatch_event_inv [OF Event(2)]) (simp_all add: machine_inv_def)
  with Event show ?case by (simp add: machine_inv_def)
next
  case (Drop_one w cid rest)
  then show ?case
    by (simp add: machine_inv_def disconnect_client_inv disconnect_allow renv_ok_def)
qed (auto simp: machine_inv_def)

lemma wstep_pc_ok: "pc_ok pc w \<Longrightarrow> v_list w' = v_list w \<Longrightarrow> pc_ok pc w'"
  by (cases "(pc, w)" rule: pc_ok.cases) auto

lemma sstep_inv:
  assumes "sstep rv x y" "renv_ok rv" "machine_inv rv (fst x) (snd x)"
  shows "machine_inv rv (fst y) (snd y)"
  using assms
proof (induction rule: sstep.induct)
  case (Other_step w w' pc)
  with wstep_inv [OF Other_step(1)] wstep_keeps [OF Other_step(1)] show ?case
    by (auto simp: machine_inv_def intro: wstep_pc_ok)
qed (rule rstep_inv)

lemma ssteps_inv:
  assumes "ssteps rv x y" "renv_ok rv" "machine_inv rv (fst x) (snd x)"
  shows "machine_inv rv (fst y) (snd y)"
  using assms by (induction rule: rtranclp_induct) (auto intro: sstep_inv)

section \<open>The start\<close>

text \<open>A server before its reactor runs: no client, no job, nothing queued.\<close>

definition idle_world :: "'x world \<Rightarrow> bool" where
  "idle_world w \<longleftrightarrow> v_clients w = Map.empty \<and> v_list w = [] \<and> v_replies w = [] \<and> v_completions w = [] \<and>
     v_running w = [] \<and> \<not> v_stale w \<and> s_jobs (v_srv w) = Map.empty \<and> ring_ok (s_ring (v_srv w)) \<and>
     ring_list (s_ring (v_srv w)) = []"

lemma reactor_enter_inv:
  assumes "idle_world w" "0 \<le> fd"
  shows "world_inv [] [] (reactor_enter fd ra w)"
proof -
  define w' where "w' = reactor_enter fd ra w"
  obtain h p where a: "opftp_pollset_add ra (v_listen_fd w) POLLIN None (opftp_pollset_create fd :: nat pollset) = (h, p)" by fastforce
  have p: "pollset_ok p \<and> (\<forall>k x y u. poll_view p k = Some (x, y, u) \<longrightarrow> u = None)"
  proof (cases h)
    case None
    then have "p = opftp_pollset_create fd"
      using add_failed [of ra "opftp_pollset_create fd" "v_listen_fd w"] a by (simp add: opftp_pollset_create_def)
    with assms(2) show ?thesis by (simp add: pollset_create_ok poll_view_create)
  next
    case (Some k)
    with add_cases [OF pollset_create_ok [OF assms(2)] a [unfolded Some]] show ?thesis
      by (auto simp: poll_view_create split: if_splits)
  qed
  have u: "poll_users (v_srv w') = Map.empty"
  proof
    show "poll_users (v_srv w') k = None" for k
      using p by (cases "poll_view p k") (auto simp: w'_def reactor_enter_def a poll_users_def)
  qed
  have v: "job_view (v_srv w') cid = Map.empty" for cid
    using assms(1) by (simp add: w'_def reactor_enter_def job_view_def idle_world_def fun_eq_iff)
  have f: "v_clients w' = Map.empty" "v_list w' = []" "v_replies w' = []" "v_completions w' = []" "v_running w' = []"
    "\<not> v_stale w'" "s_jobs (v_srv w') = Map.empty" "s_ring (v_srv w') = s_ring (v_srv w)" "pollset_of w' = Some p"
    using assms(1) by (simp_all add: w'_def reactor_enter_def idle_world_def a)
  then have "client_inv [] w' cid" for cid using v by (simp add: client_inv_def ext_def)
  moreover have "polls_inv w'" using u p by (simp add: polls_inv_def polls_valid_def f)
  moreover have "jobs_held [] (v_srv w')" using assms(1) f by (simp add: jobs_held_def idle_world_def)
  ultimately show ?thesis using f by (simp add: world_inv_def w'_def)
qed

lemma reachable_inv:
  assumes "renv_ok rv" "builtin_only (rv_tab rv) (allow_stop w0)" "idle_world w0" "0 \<le> fd"
    "ssteps rv (Wait, reactor_enter fd ra w0) (pc, w)"
  shows "machine_inv rv pc w"
proof -
  have "machine_inv rv Wait (reactor_enter fd ra w0)"
    using assms(2) reactor_enter_inv [OF assms(3,4)] by (simp add: machine_inv_def reactor_enter_def)
  with ssteps_inv [OF assms(5,1)] show ?thesis by simp
qed

end
