(* ===== verification/Lifecycle.thy ===== *)
theory Lifecycle
  imports Reactor_Machine
begin

text \<open>
  The life of a server object, from \<^verbatim>\<open>src/src/server.c\<close> (\<open>opftp_server_create\<close>, the setters,
  \<open>bind_listener\<close>, \<open>opftp_reactor_init\<close>, \<open>opftp_reactor_shutdown\<close>, \<open>opftp_server_start\<close>,
  \<open>opftp_server_run_loop\<close>, \<open>opftp_server_stop\<close>, \<open>opftp_server_destroy\<close>) and
  \<^verbatim>\<open>src/src/datachan.c\<close> (\<open>opftp_datachan_init\<close>, \<open>opftp_datachan_shutdown\<close>).

  A server is the \<open>world\<close> of its reactor and what surrounds it: the command table, the flags of the
  lifecycle, and for each pointer the lifecycle allocates whether it is set.  Thread creation, the TLS
  library and the application's \<open>after_commands\<close> hook are arguments, the hook as the commands it
  registers.  Where the code sleeps for 10 ms or waits on the condition variable the other threads run:
  \<open>le_tick\<close> is what they do in that time.  The first step of a reactor thread comes after
  \<open>opftp_server_start\<close> has published the server.
\<close>

section \<open>State\<close>

record 'x life =
  l_world :: "'x world"
  l_tab :: "'x handler cmd_table option"
  l_stop_timeout_ms :: int
  l_v4only :: bool
  l_ready :: bool
  l_starting :: bool
  l_reactor_running :: bool
  l_reactor_done :: bool
  l_reactor :: bool  \<comment> \<open>the handle of the reactor thread is set\<close>
  l_fs :: bool  \<comment> \<open>\<open>fs\<close> is set; the wrapper is the world's\<close>
  l_queue :: bool
  l_queue_mutex :: bool
  l_queue_cond :: bool
  l_compl_mutex :: bool
  l_workers :: bool  \<comment> \<open>the array of worker handles\<close>
  l_threads :: nat  \<comment> \<open>handles in it\<close>

record 'x lenv =
  le_rv :: "'x renv"
  le_thread :: "('x, unit) fs_op"
  le_tls_init :: "string \<Rightarrow> string \<Rightarrow> ('x, unit) fs_op"
  le_after :: "(string \<times> 'x handler) list"
  le_tick :: "'x life \<Rightarrow> 'x life"

definition upd_world :: "('x world \<Rightarrow> 'x world) \<Rightarrow> 'x life \<Rightarrow> 'x life" where
  "upd_world f l = l\<lparr> l_world := f (l_world l) \<rparr>"

definition upd_server :: "(server \<Rightarrow> server) \<Rightarrow> 'x life \<Rightarrow> 'x life" where
  "upd_server f l = upd_world (\<lambda>w. w\<lparr> v_srv := f (v_srv w) \<rparr>) l"

definition lcall :: "('x, 'r) fs_op \<Rightarrow> 'x life \<Rightarrow> 'r option \<times> 'x life" where
  "lcall f l = (case f (v_sys (l_world l)) of (r, s) \<Rightarrow> (r, upd_world (\<lambda>w. w\<lparr> v_sys := s \<rparr>) l))"

abbreviation le_env :: "'x lenv \<Rightarrow> 'x env" where
  "le_env lv \<equiv> rv_env (le_rv lv)"

abbreviation l_errno :: "'x life \<Rightarrow> errno" where
  "l_errno l \<equiv> sys_errno (v_sys (l_world l))"

section \<open>Creation and configuration\<close>

text \<open>The zeroed job queue of a server that has not been started.\<close>

definition no_ring :: "nat ring" where
  "no_ring = \<lparr> queue = [], queue_head = 0, queue_tail = 0, queue_count = 0, queue_cap = 0, pool_running = False, workers_alive = 0 \<rparr>"

definition new_life :: "'x lenv \<Rightarrow> bool \<Rightarrow> 'x sys \<Rightarrow> 'x life" where
  "new_life lv skip_banner s =
     \<lparr> l_world =
         \<lparr> v_clients = Map.empty, v_list = [], v_next = 0,
           v_srv = \<lparr> s_root = ''/'', s_allow_stop = False, s_has_tls = False, s_require_tls = False,
                     s_skip_banner = skip_banner, s_allow_foreign_port = False, s_pasv_min = 0, s_pasv_max = 0,
                     s_stopping = False, s_ring = no_ring, s_jobs = Map.empty, s_next_job = 0, s_stou_seq = 0, s_pollset = None \<rparr>,
           v_sys = s, v_fs = rv_base (le_rv lv), v_root_applied = [], v_started = False, v_port = 2121, v_workers = 2,
           v_listen_fd = -1, v_completions = [], v_replies = [],
           v_snap = \<lparr> sn_started = False, sn_port = 0, sn_root = [], sn_workers = 0, sn_num_clients = 0, sn_clients = [] \<rparr>,
           v_sent = [], v_closed = [], v_running = [], v_stale = False \<rparr>,
       l_tab = None, l_stop_timeout_ms = 5000, l_v4only = False, l_ready = False, l_starting = False,
       l_reactor_running = False, l_reactor_done = False, l_reactor = False, l_fs = False, l_queue = False,
       l_queue_mutex = False, l_queue_cond = False, l_compl_mutex = False, l_workers = False, l_threads = 0 \<rparr>"

text \<open>\<open>s\<close>, the two mutexes and the condition variable are allocated in this order.\<close>

definition opftp_server_create :: "'x lenv \<Rightarrow> bool \<Rightarrow> 'x sys \<Rightarrow> 'x life option \<times> 'x sys" where
  "opftp_server_create lv skip_banner s0 =
     (case e_calloc (le_env lv) s0 of
        (None, s0) \<Rightarrow> (None, s0)
      | (Some _, s0) \<Rightarrow>
          (case e_calloc (le_env lv) s0 of
             (life_mutex, s1) \<Rightarrow>
               (case e_calloc (le_env lv) s1 of
                  (life_cond, s2) \<Rightarrow>
                    (case e_calloc (le_env lv) s2 of
                       (snap_mutex, s3) \<Rightarrow>
                         if life_mutex = None \<or> life_cond = None \<or> snap_mutex = None then (None, s3)
                         else (Some (new_life lv skip_banner s3), s3)))))"

definition opftp_server_set_port :: "16 word \<Rightarrow> 'x life \<Rightarrow> 'x life" where
  "opftp_server_set_port port l = upd_world (\<lambda>w. w\<lparr> v_port := port \<rparr>) l"

definition opftp_server_set_root :: "string option \<Rightarrow> 'x life \<Rightarrow> 'x life" where
  "opftp_server_set_root root l =
     (case root of
        None \<Rightarrow> l
      | Some r \<Rightarrow> if r = [] \<or> hd r \<noteq> slash then l else upd_server (\<lambda>s. s\<lparr> s_root := c_snprintf OPFTP_MAX_PATH r \<rparr>) l)"

definition opftp_server_set_workers :: "int \<Rightarrow> 'x life \<Rightarrow> 'x life" where
  "opftp_server_set_workers n l = (if n > 0 \<and> n \<le> 64 then upd_world (\<lambda>w. w\<lparr> v_workers := nat n \<rparr>) l else l)"

definition opftp_server_set_stop_timeout :: "int \<Rightarrow> 'x life \<Rightarrow> 'x life" where
  "opftp_server_set_stop_timeout seconds l = l\<lparr> l_stop_timeout_ms := (if seconds > 0 then seconds * 1000 else 1000) \<rparr>"

definition opftp_server_set_tls :: "'x lenv \<Rightarrow> string option \<Rightarrow> string option \<Rightarrow> 'x life \<Rightarrow> rc \<times> 'x life" where
  "opftp_server_set_tls lv cert key l =
     (case (cert, key) of
        (Some c, Some k) \<Rightarrow>
          (case lcall (le_tls_init lv c k) l of
             (None, l) \<Rightarrow> (Some (l_errno l), l)
           | (Some _, l) \<Rightarrow> (None, upd_server (\<lambda>s. s\<lparr> s_has_tls := True \<rparr>) l))
      | _ \<Rightarrow> (Some EINVAL, l))"

definition opftp_server_set_require_tls :: "bool \<Rightarrow> 'x life \<Rightarrow> 'x life" where
  "opftp_server_set_require_tls on l = upd_server (\<lambda>s. s\<lparr> s_require_tls := on \<rparr>) l"

definition opftp_server_set_allow_stop :: "bool \<Rightarrow> 'x life \<Rightarrow> 'x life" where
  "opftp_server_set_allow_stop on l = upd_server (\<lambda>s. s\<lparr> s_allow_stop := on \<rparr>) l"

definition opftp_server_set_pasv_range :: "16 word \<Rightarrow> 16 word \<Rightarrow> 'x life \<Rightarrow> 'x life" where
  "opftp_server_set_pasv_range min_port max_port l =
     upd_server (\<lambda>s. s\<lparr> s_pasv_min := min_port, s_pasv_max := max_port \<rparr>) l"

definition opftp_server_set_v4only :: "bool \<Rightarrow> 'x life \<Rightarrow> 'x life" where
  "opftp_server_set_v4only on l = l\<lparr> l_v4only := on \<rparr>"

definition opftp_server_bound_port :: "'x life \<Rightarrow> 16 word" where
  "opftp_server_bound_port l = v_port (l_world l)"

section \<open>Coming up\<close>

text \<open>\<open>bind\<close>, \<open>listen\<close> and \<open>getsockname\<close> on one socket; \<open>fd\<close> becomes the listener when they succeed.\<close>

definition listen_on :: "'x lenv \<Rightarrow> int \<Rightarrow> sockaddr \<Rightarrow> 'x life \<Rightarrow> bool \<times> 'x life" where
  "listen_on lv fd addr l =
     (case lcall (e_bind (le_env lv) fd addr) l of
        (None, l) \<Rightarrow> (False, l)
      | (Some _, l) \<Rightarrow>
          (case lcall (e_listen (le_env lv) fd 16) l of
             (None, l) \<Rightarrow> (False, l)
           | (Some _, l) \<Rightarrow>
               (case lcall (e_getsockname (le_env lv) fd) l of
                  (bound, l) \<Rightarrow>
                    (True, upd_world (\<lambda>w. w\<lparr> v_port := sockaddr_port (case bound of Some a \<Rightarrow> a | None \<Rightarrow> addr),
                                            v_listen_fd := fd \<rparr>) l))))"

definition bind_v4 :: "'x lenv \<Rightarrow> 'x life \<Rightarrow> rc \<times> 'x life" where
  "bind_v4 lv l =
     (case lcall (e_socket (le_env lv) AF_INET) l of
        (None, l) \<Rightarrow> (Some (l_errno l), l)
      | (Some fd, l) \<Rightarrow>
          (case listen_on lv fd (Sa_in ipv4_any (v_port (l_world l))) l of
             (True, l) \<Rightarrow> (None, l)
           | (False, l) \<Rightarrow> (Some (l_errno l), upd_world (close_w (le_rv lv) fd) l)))"

definition bind_listener :: "'x lenv \<Rightarrow> 'x life \<Rightarrow> rc \<times> 'x life" where
  "bind_listener lv l =
     (if l_v4only l then bind_v4 lv l
      else
        (case lcall (e_socket (le_env lv) AF_INET6) l of
           (None, l) \<Rightarrow> bind_v4 lv l
         | (Some fd, l) \<Rightarrow>
             (case listen_on lv fd (Sa_in6 (replicate 16 0) (v_port (l_world l))) l of
                (True, l) \<Rightarrow> (None, l)
              | (False, l) \<Rightarrow> bind_v4 lv (upd_world (close_w (le_rv lv) fd) l))))"

text \<open>The workers are created one after the other; the first failure stops the pool.\<close>

fun create_workers :: "'x lenv \<Rightarrow> nat \<Rightarrow> 'x life \<Rightarrow> rc \<times> 'x life" where
  "create_workers lv 0 l = (None, l)"
| "create_workers lv (Suc n) l =
     (case lcall (le_thread lv) l of
        (None, l) \<Rightarrow> (Some ENOMEM, upd_server (\<lambda>s. s\<lparr> s_ring := (s_ring s)\<lparr> pool_running := False \<rparr> \<rparr>) l)
      | (Some _, l) \<Rightarrow> create_workers lv n (l\<lparr> l_threads := l_threads l + 1 \<rparr>))"

definition opftp_datachan_init :: "'x lenv \<Rightarrow> 'x life \<Rightarrow> rc \<times> 'x life" where
  "opftp_datachan_init lv l =
     (let cap = v_workers (l_world l) * 2;
          (q, l) = lcall (e_calloc (le_env lv)) l;
          (qm, l) = lcall (e_calloc (le_env lv)) l;
          (qc, l) = lcall (e_calloc (le_env lv)) l;
          (cm, l) = lcall (e_calloc (le_env lv)) l;
          l = l\<lparr> l_queue := q \<noteq> None, l_queue_mutex := qm \<noteq> None, l_queue_cond := qc \<noteq> None, l_compl_mutex := cm \<noteq> None \<rparr>;
          l = upd_server (\<lambda>s. s\<lparr> s_ring := (s_ring s)\<lparr> queue_cap := cap, queue := replicate cap None \<rparr> \<rparr>) l
      in if q = None \<or> qm = None \<or> qc = None \<or> cm = None then (Some ENOMEM, l)
         else
           (case lcall (e_calloc (le_env lv)) l of
              (None, l) \<Rightarrow> (Some ENOMEM, l\<lparr> l_workers := False \<rparr>)
            | (Some _, l) \<Rightarrow>
                create_workers lv (if v_workers (l_world l) > 0 then v_workers (l_world l) else 2)
                  (upd_server (\<lambda>s. s\<lparr> s_ring := (s_ring s)\<lparr> pool_running := True, workers_alive := 0 \<rparr> \<rparr>)
                     (l\<lparr> l_workers := True, l_threads := 0 \<rparr>))))"

definition opftp_reactor_init :: "'x lenv \<Rightarrow> 'x life \<Rightarrow> rc \<times> 'x life" where
  "opftp_reactor_init lv l =
     (case bind_listener lv l of
        (Some e, l) \<Rightarrow> (Some e, l)
      | (None, l) \<Rightarrow>
          let (ca, l) = (case l_tab l of None \<Rightarrow> lcall (e_calloc (le_env lv)) l | Some _ \<Rightarrow> (Some (), l));
              l = l\<lparr> l_tab := register_all (le_after lv)
                       (opftp_commands_init (s_allow_stop (v_srv (l_world l))) (opftp_dispatch_init (ca \<noteq> None) (l_tab l))) \<rparr>
          in case opftp_datachan_init lv l of
               (Some e, l) \<Rightarrow> (Some e, l)
             | (None, l) \<Rightarrow>
                 (case lcall (e_calloc (le_env lv)) l of
                    (ca, l) \<Rightarrow>
                      (case opftp_fs_rooted (ca \<noteq> None) (rv_realpath (le_rv lv)) (rv_base (le_rv lv)) (s_root (v_srv (l_world l))) of
                         None \<Rightarrow> (Some ENOMEM, l\<lparr> l_fs := False \<rparr>)
                       | Some fs \<Rightarrow>
                           (None, upd_world (\<lambda>w. w\<lparr> v_fs := fs, v_root_applied := c_snprintf OPFTP_MAX_PATH (s_root (v_srv w)) \<rparr>)
                                    (l\<lparr> l_fs := True \<rparr>)))))"

section \<open>Going down\<close>

text \<open>The wait of \<open>opftp_datachan_shutdown\<close> for the workers to leave: whether they did in time.\<close>

function wait_workers :: "'x lenv \<Rightarrow> int \<Rightarrow> 'x life \<Rightarrow> bool \<times> 'x life" where
  "wait_workers lv left l =
     (if workers_alive (s_ring (v_srv (l_world l))) = 0 then (True, l)
      else if left \<le> 0 then (False, l)
      else wait_workers lv (left - 10) (le_tick lv l))"
  by pat_completeness auto
termination by (relation "measure (\<lambda>(lv, left, l). nat left)") auto

declare wait_workers.simps [simp del]

text \<open>Joining the workers lets each of them run to its end; \<open>join\<close> is what they do meanwhile.\<close>

definition opftp_datachan_shutdown :: "'x lenv \<Rightarrow> ('x world \<Rightarrow> 'x world) \<Rightarrow> 'x life \<Rightarrow> 'x life" where
  "opftp_datachan_shutdown lv join l =
     (let r = s_ring (v_srv (l_world l)) in
      if \<not> pool_running r \<and> workers_alive r = 0 then l
      else
        (case wait_workers lv (l_stop_timeout_ms l) (upd_world cancel_queued l) of
           (False, l) \<Rightarrow> l
         | (True, l) \<Rightarrow>
             let l = (upd_world join l)\<lparr> l_workers := False, l_threads := 0 \<rparr>
             in (upd_world (release_queued (le_rv lv)) l)
                  \<lparr> l_queue := False, l_queue_mutex := False, l_queue_cond := False, l_compl_mutex := False \<rparr>))"

definition opftp_reactor_shutdown :: "'x lenv \<Rightarrow> ('x world \<Rightarrow> 'x world) \<Rightarrow> 'x life \<Rightarrow> 'x life" where
  "opftp_reactor_shutdown lv join l =
     (let l = (if l_compl_mutex l then upd_server (\<lambda>s. s\<lparr> s_pollset := None \<rparr>) l else l);
          l = opftp_datachan_shutdown lv join l
      in l\<lparr> l_fs := False, l_tab := opftp_dispatch_free (l_tab l) \<rparr>)"

definition publish_ready :: "'x life \<Rightarrow> 'x life" where
  "publish_ready l =
     (upd_world (\<lambda>w. w\<lparr> v_snap := (v_snap w)\<lparr> sn_started := True, sn_port := v_port w, sn_workers := v_workers w,
          sn_root := c_snprintf 1024 (s_root (v_srv w)), sn_num_clients := 0 \<rparr> \<rparr>) l)\<lparr> l_ready := True, l_starting := False \<rparr>"

definition opftp_server_start :: "'x lenv \<Rightarrow> ('x world \<Rightarrow> 'x world) \<Rightarrow> 'x life \<Rightarrow> rc \<times> 'x life" where
  "opftp_server_start lv join l =
     (if v_started (l_world l) then (Some EALREADY, l)
      else
        (case opftp_reactor_init lv (l\<lparr> l_starting := True \<rparr>) of
           (Some e, l) \<Rightarrow> (Some e, l\<lparr> l_starting := False \<rparr>)
         | (None, l) \<Rightarrow>
             let l = upd_server (\<lambda>s. s\<lparr> s_stopping := False \<rparr>) (upd_world (\<lambda>w. w\<lparr> v_started := True \<rparr>) (l\<lparr> l_reactor_done := False \<rparr>)) in
             (case lcall (le_thread lv) l of
                (None, l) \<Rightarrow>
                  (Some ENOMEM, opftp_reactor_shutdown lv join
                     ((upd_world (\<lambda>w. w\<lparr> v_started := False \<rparr>) l)\<lparr> l_reactor := False, l_starting := False \<rparr>))
              | (Some _, l) \<Rightarrow> (None, publish_ready (l\<lparr> l_reactor := True, l_reactor_running := True \<rparr>)))))"

text \<open>\<open>opftp_server_run_loop\<close> in the pieces between which another thread's \<open>stop\<close> may run: it marks
  the server as starting and initialises it, then publishes that it is ready, then runs the loop.\<close>

definition run_loop_init :: "'x lenv \<Rightarrow> 'x life \<Rightarrow> rc \<times> 'x life" where
  "run_loop_init lv l =
     (if v_started (l_world l) then (Some EALREADY, l)
      else
        (case opftp_reactor_init lv (l\<lparr> l_starting := True \<rparr>) of
           (Some e, l) \<Rightarrow> (Some e, l\<lparr> l_starting := False \<rparr>)
         | (None, l) \<Rightarrow> (None, l)))"

definition run_loop_publish :: "'x life \<Rightarrow> 'x life" where
  "run_loop_publish l =
     publish_ready (upd_server (\<lambda>s. s\<lparr> s_stopping := False \<rparr>)
       (upd_world (\<lambda>w. w\<lparr> v_started := True \<rparr>) (l\<lparr> l_reactor_running := False \<rparr>)))"

definition opftp_server_run_loop ::
  "'x lenv \<Rightarrow> ('x world \<Rightarrow> 'x world) \<Rightarrow> int option \<Rightarrow> bool \<times> bool \<Rightarrow> 'x life \<Rightarrow> (rc \<times> 'x life) option" where
  "opftp_server_run_loop lv join wake_r realloc_ok l =
     (case run_loop_init lv l of
        (Some e, l) \<Rightarrow> Some (Some e, l)
      | (None, l) \<Rightarrow>
          let l = run_loop_publish l in
          map_option
            (\<lambda>w. (None, upd_world (\<lambda>w. w\<lparr> v_started := False \<rparr>) (opftp_reactor_shutdown lv join (l\<lparr> l_world := w \<rparr>))))
            (opftp_reactor_loop ((le_rv lv)\<lparr> rv_tab := l_tab l \<rparr>) wake_r realloc_ok (l_world l)))"

text \<open>The bounded wait of \<open>opftp_server_stop\<close> for the reactor thread.\<close>

function wait_reactor :: "'x lenv \<Rightarrow> int \<Rightarrow> 'x life \<Rightarrow> 'x life" where
  "wait_reactor lv left l =
     (if \<not> l_reactor_done l \<and> left > 0 then wait_reactor lv (left - 10) (le_tick lv l) else l)"
  by pat_completeness auto
termination by (relation "measure (\<lambda>(lv, left, l). nat left)") auto

declare wait_reactor.simps [simp del]

definition stop_request :: "'x life \<Rightarrow> 'x life" where
  "stop_request l =
     upd_server (\<lambda>s. s\<lparr> s_stopping := True, s_pollset := map_option (opftp_pollset_wake True) (s_pollset s) \<rparr>) l"

definition opftp_server_stop :: "'x lenv \<Rightarrow> ('x world \<Rightarrow> 'x world) \<Rightarrow> 'x life \<Rightarrow> (rc \<times> 'x life) option" where
  "opftp_server_stop lv join l =
     map_option
       (\<lambda>l. if \<not> l_ready l then (None, l)
            else
              let l = stop_request l in
              if l_reactor_running l then
                let l = wait_reactor lv (l_stop_timeout_ms l) l in
                if \<not> l_reactor_done l then (Some ETIMEDOUT, l)
                else (None, upd_world (\<lambda>w. w\<lparr> v_started := False \<rparr>)
                       (opftp_reactor_shutdown lv join (l\<lparr> l_reactor := False, l_reactor_running := False \<rparr>)))
              else (None, l))
       (iterate (\<lambda>l. Some (if l_starting l \<and> \<not> l_ready l then Continue (le_tick lv l) else Return l)) l)"

text \<open>\<open>opftp_server_destroy\<close>: the object that is left, if any.\<close>

definition opftp_server_destroy :: "'x lenv \<Rightarrow> ('x world \<Rightarrow> 'x world) \<Rightarrow> 'x life \<Rightarrow> 'x life option option" where
  "opftp_server_destroy lv join l =
     (if v_started (l_world l)
      then map_option (\<lambda>(rc, l). if rc \<noteq> None then Some l else None) (opftp_server_stop lv join l)
      else Some None)"

end
