(* ===== verification/Utf8.thy ===== *)
theory Utf8
  imports Opftp_Prelude
begin

text \<open>
  UTF-8 validation: \<^verbatim>\<open>src/src/utf8.c\<close>. The validator works on the bytes of a C string
  with 32-bit unsigned arithmetic, as the code does. Its correctness is stated against the
  encoding of Unicode scalar values: a byte string is accepted exactly when it is the
  concatenation of the encodings of some scalar values.
\<close>

unbundle bit_operations_syntax

section \<open>Definitions\<close>

subsection \<open>The code\<close>

definition byte :: "char \<Rightarrow> 32 word" where
  "byte c = of_nat (c_code c)"

text \<open>The inner \<open>for\<close> loop: \<open>need\<close> continuation bytes are folded into \<open>cp\<close>. The
  terminating NUL is not a continuation byte.\<close>

fun utf8_cont :: "nat \<Rightarrow> 32 word \<Rightarrow> string \<Rightarrow> (32 word \<times> string) option" where
  "utf8_cont 0 cp p = Some (cp, p)"
| "utf8_cont (Suc need) cp [] = None"
| "utf8_cont (Suc need) cp (b # p) =
     (if byte b AND 0xC0 \<noteq> 0x80 then None
      else utf8_cont need (push_bit 6 cp OR (byte b AND 0x3F)) p)"

text \<open>The lead byte: the initial code point bits and the number of continuation bytes.\<close>

definition utf8_lead :: "32 word \<Rightarrow> (32 word \<times> nat) option" where
  "utf8_lead c =
     (if c AND 0xE0 = 0xC0 then
        (if c AND 0x1F = 0 then None else Some (c AND 0x1F, 1))
      else if c AND 0xF0 = 0xE0 then Some (c AND 0x0F, 2)
      else if c AND 0xF8 = 0xF0 then Some (c AND 0x07, 3)
      else None)"

definition utf8_range_ok :: "nat \<Rightarrow> 32 word \<Rightarrow> bool" where
  "utf8_range_ok need cp \<longleftrightarrow>
     \<not> (need = 1 \<and> cp < 0x80) \<and> \<not> (need = 2 \<and> cp < 0x800) \<and> \<not> (need = 3 \<and> cp < 0x10000) \<and>
     \<not> (cp \<ge> 0xD800 \<and> cp \<le> 0xDFFF) \<and> \<not> cp > 0x10FFFF"

lemma utf8_cont_length: "utf8_cont n cp p = Some (cp', p') \<Longrightarrow> length p' \<le> length p"
  by (induction n cp p rule: utf8_cont.induct) (auto split: if_splits)

function opftp_utf8_valid :: "string \<Rightarrow> bool" where
  "opftp_utf8_valid [] = True"
| "opftp_utf8_valid (c # p) =
     (if byte c < 0x80 then opftp_utf8_valid p
      else case utf8_lead (byte c) of
             None \<Rightarrow> False
           | Some (cp, need) \<Rightarrow>
               (case utf8_cont need cp p of
                  None \<Rightarrow> False
                | Some (cp', p') \<Rightarrow> utf8_range_ok need cp' \<and> opftp_utf8_valid p'))"
  by pat_completeness auto
termination
  by (relation "measure length") (auto dest: utf8_cont_length simp: less_Suc_eq_le)

subsection \<open>The encoding of scalar values\<close>

definition scalar_value :: "nat \<Rightarrow> bool" where
  "scalar_value u \<longleftrightarrow> u < 0x110000 \<and> \<not> (0xD800 \<le> u \<and> u \<le> 0xDFFF)"

definition utf8_encode :: "nat \<Rightarrow> string" where
  "utf8_encode u =
     (if u < 0x80 then [char_of u]
      else if u < 0x800 then [char_of (0xC0 + u div 64), char_of (0x80 + u mod 64)]
      else if u < 0x10000 then
        [char_of (0xE0 + u div 4096), char_of (0x80 + u div 64 mod 64), char_of (0x80 + u mod 64)]
      else
        [char_of (0xF0 + u div 262144), char_of (0x80 + u div 4096 mod 64),
         char_of (0x80 + u div 64 mod 64), char_of (0x80 + u mod 64)])"

section \<open>Bytes as numbers\<close>

lemma and_high_mask: "(n::nat) AND push_bit k (mask j) = n div 2 ^ k mod 2 ^ j * 2 ^ k"
proof -
  have "n AND push_bit k (mask j) = push_bit k (take_bit j (drop_bit k n))"
    by (rule bit_eqI) (auto simp: bit_simps)
  then show ?thesis
    by (simp add: push_bit_eq_mult take_bit_eq_mod drop_bit_eq_div)
qed

lemma byte_and_eq:
  assumes "m < 256" "k < 256"
  shows "byte c AND of_nat m = of_nat k \<longleftrightarrow> c_code c AND m = k"
proof -
  have "take_bit 32 (c_code c AND m) = c_code c AND m" "take_bit 32 k = k"
    using assms c_code_less [of c] by (simp_all add: take_bit_nat_eq_self)
  then show ?thesis
    by (simp add: byte_def of_nat_and_eq [symmetric] word_of_nat_eq_iff del: of_nat_and_eq)
qed

lemma high_bits_eq:
  assumes "0 < k"
  shows "(n::nat) div k * k = a * k \<longleftrightarrow> a * k \<le> n \<and> n < a * k + k"
proof
  assume "n div k * k = a * k"
  then have "a * k + n mod k = n" using div_mult_mod_eq [of n k] by metis
  then show "a * k \<le> n \<and> n < a * k + k"
    using mod_less_divisor [OF assms, of n] by linarith
next
  assume "a * k \<le> n \<and> n < a * k + k"
  then have "n div k = a" by (intro div_nat_eqI) (simp_all add: mult.commute)
  then show "n div k * k = a * k" by simp
qed

lemma byte_masks:
  "byte c AND 0xC0 = 0x80 \<longleftrightarrow> 0x80 \<le> c_code c \<and> c_code c < 0xC0"
  "byte c AND 0xE0 = 0xC0 \<longleftrightarrow> 0xC0 \<le> c_code c \<and> c_code c < 0xE0"
  "byte c AND 0xF0 = 0xE0 \<longleftrightarrow> 0xE0 \<le> c_code c \<and> c_code c < 0xF0"
  "byte c AND 0xF8 = 0xF0 \<longleftrightarrow> 0xF0 \<le> c_code c \<and> c_code c < 0xF8"
proof -
  have n: "c_code c < 256" by (rule c_code_less)
  have m: "c_code c AND 0xC0 = c_code c div 64 * 64" "c_code c AND 0xE0 = c_code c div 32 * 32"
    "c_code c AND 0xF0 = c_code c div 16 * 16" "c_code c AND 0xF8 = c_code c div 8 * 8"
    using and_high_mask [of "c_code c" 6 2] and_high_mask [of "c_code c" 5 3]
      and_high_mask [of "c_code c" 4 4] and_high_mask [of "c_code c" 3 5] n
    by (simp_all add: mask_eq_exp_minus_1 push_bit_eq_mult less_mult_imp_div_less)
  have e: "byte c AND 0xC0 = 0x80 \<longleftrightarrow> c_code c AND 0xC0 = 0x80"
    "byte c AND 0xE0 = 0xC0 \<longleftrightarrow> c_code c AND 0xE0 = 0xC0"
    "byte c AND 0xF0 = 0xE0 \<longleftrightarrow> c_code c AND 0xF0 = 0xE0"
    "byte c AND 0xF8 = 0xF0 \<longleftrightarrow> c_code c AND 0xF8 = 0xF0"
    using byte_and_eq [where c = c and m = "0xC0" and k = "0x80"]
      byte_and_eq [where c = c and m = "0xE0" and k = "0xC0"]
      byte_and_eq [where c = c and m = "0xF0" and k = "0xE0"]
      byte_and_eq [where c = c and m = "0xF8" and k = "0xF0"]
    by simp_all
  show "byte c AND 0xC0 = 0x80 \<longleftrightarrow> 0x80 \<le> c_code c \<and> c_code c < 0xC0"
    using high_bits_eq [of 64 "c_code c" 2] unfolding e m by simp
  show "byte c AND 0xE0 = 0xC0 \<longleftrightarrow> 0xC0 \<le> c_code c \<and> c_code c < 0xE0"
    using high_bits_eq [of 32 "c_code c" 6] unfolding e m by simp
  show "byte c AND 0xF0 = 0xE0 \<longleftrightarrow> 0xE0 \<le> c_code c \<and> c_code c < 0xF0"
    using high_bits_eq [of 16 "c_code c" 14] unfolding e m by simp
  show "byte c AND 0xF8 = 0xF0 \<longleftrightarrow> 0xF0 \<le> c_code c \<and> c_code c < 0xF8"
    using high_bits_eq [of 8 "c_code c" 30] unfolding e m by simp
qed

lemma byte_low_bits:
  "byte c AND 0x1F = of_nat (c_code c mod 32)"
  "byte c AND 0x0F = of_nat (c_code c mod 16)"
  "byte c AND 0x07 = of_nat (c_code c mod 8)"
  "byte c AND 0x3F = of_nat (c_code c mod 64)"
proof -
  have low: "of_nat n AND mask k = (of_nat (n mod 2 ^ k) :: 32 word)" for n k
    by (simp add: take_bit_eq_mask [symmetric] take_bit_of_nat [symmetric] take_bit_eq_mod [of k n, symmetric]
        del: take_bit_of_nat)
  show "byte c AND 0x1F = of_nat (c_code c mod 32)" "byte c AND 0x0F = of_nat (c_code c mod 16)"
    "byte c AND 0x07 = of_nat (c_code c mod 8)" "byte c AND 0x3F = of_nat (c_code c mod 64)"
    using low [of "c_code c" 5] low [of "c_code c" 4] low [of "c_code c" 3] low [of "c_code c" 6]
    by (simp_all add: byte_def mask_numeral)
qed

lemma shift_in: "d < 64 \<Longrightarrow> push_bit 6 (of_nat a) OR of_nat d = (of_nat (64 * a + d) :: 32 word)"
proof -
  assume "d < 64"
  then have d: "of_nat d = take_bit 6 (of_nat d :: 32 word)"
    by (simp add: take_bit_of_nat take_bit_nat_eq_self)
  have "push_bit 6 (of_nat a :: 32 word) AND take_bit 6 (of_nat d) = 0"
    by (rule bit_eqI) (auto simp: bit_simps)
  then have "push_bit 6 (of_nat a :: 32 word) OR take_bit 6 (of_nat d) =
      push_bit 6 (of_nat a) + take_bit 6 (of_nat d)"
    by (simp add: disjunctive_add_eq_or)
  then show ?thesis
    using d by (simp add: push_bit_eq_mult)
qed

lemma byte_less: "byte c < 0x80 \<longleftrightarrow> c_code c < 0x80"
  using c_code_less [of c] 
  by (simp add: byte_def word_less_nat_alt unat_of_nat)

lemma utf8_range_ok_of_nat:
  assumes "u < 2 ^ 32"
  shows "utf8_range_ok need (of_nat u) \<longleftrightarrow>
    \<not> (need = 1 \<and> u < 0x80) \<and> \<not> (need = 2 \<and> u < 0x800) \<and> \<not> (need = 3 \<and> u < 0x10000) \<and>
    scalar_value u"
proof -
  have less: "(of_nat u < (of_nat k :: 32 word)) = (u < k)"
      "(of_nat k < (of_nat u :: 32 word)) = (k < u)" if "k < 2 ^ 32" for k
    using assms that by (simp_all add: of_nat_word_less_iff take_bit_nat_eq_self)
  note c = less [of "0x80"] less [of "0x800"] less [of "0x10000"] less [of "0xD800"] less [of "0xDFFF"]
    less [of "0x10FFFF"]
  have "u < 0x110000 \<longleftrightarrow> \<not> 0x10FFFF < u" by auto
  with c show ?thesis
    unfolding utf8_range_ok_def scalar_value_def
    by (simp add: not_less [symmetric]) blast
qed

section \<open>Continuation bytes\<close>

abbreviation cont_byte :: "nat \<Rightarrow> char" where
  "cont_byte d \<equiv> char_of (0x80 + d)"

definition shift_all :: "nat \<Rightarrow> nat list \<Rightarrow> nat" where
  "shift_all a ds = foldl (\<lambda>a d. 64 * a + d) a ds"

lemma c_code_cont: "d < 64 \<Longrightarrow> c_code (cont_byte d) = 0x80 + d"
  by (simp add: c_code_char_of)

lemma utf8_cont_append:
  "list_all (\<lambda>d. d < 64) ds \<Longrightarrow>
   utf8_cont (length ds) (of_nat a) (map cont_byte ds @ p) = Some (of_nat (shift_all a ds), p)"
proof (induction ds arbitrary: a)
  case (Cons d ds)
  then have d: "d < 64" by simp
  then have "(0x80 + d) mod 64 = d" using mod_mult_self2 [of d 64 2] by (simp add: add.commute)
  with d Cons show ?case
    by (simp add: byte_masks byte_low_bits c_code_cont shift_in shift_all_def del: of_nat_add
        of_nat_mult)
qed (simp add: shift_all_def)

lemma utf8_cont_SomeD:
  "utf8_cont n (of_nat a) p = Some (cp, p') \<Longrightarrow>
   \<exists>ds. length ds = n \<and> list_all (\<lambda>d. d < 64) ds \<and> p = map cont_byte ds @ p' \<and>
        cp = of_nat (shift_all a ds)"
proof (induction n arbitrary: a p)
  case (Suc n)
  then obtain b q where p: "p = b # q" by (cases p) auto
  with Suc.prems have b: "0x80 \<le> c_code b" "c_code b < 0xC0"
    by (auto simp: byte_masks split: if_splits)
  define d where "d = c_code b - 0x80"
  with b have d: "d < 64" "c_code b = 0x80 + d" by simp_all
  then have "b = cont_byte d"
    by (metis c_code_cont c_code_eq_iff)
  have "c_code b mod 64 = d" using mod_mult_self2 [of d 64 2] d by (simp add: add.commute)
  with Suc.prems p b d have "utf8_cont n (of_nat (64 * a + d)) q = Some (cp, p')"
    by (simp add: byte_masks byte_low_bits shift_in del: of_nat_add of_nat_mult)
  from Suc.IH [OF this] obtain ds where "length ds = n" "list_all (\<lambda>d. d < 64) ds"
    "q = map cont_byte ds @ p'" "cp = of_nat (shift_all (64 * a + d) ds)" by blast
  with p d \<open>b = cont_byte d\<close> show ?case
    by (intro exI [of _ "d # ds"]) (simp add: shift_all_def)
qed (simp add: shift_all_def)

section \<open>Soundness and completeness of the validator\<close>

lemma utf8_lead_cases:
  "utf8_lead (byte c) =
     (if 0xC0 < c_code c \<and> c_code c < 0xE0 then Some (of_nat (c_code c - 0xC0), 1)
      else if 0xE0 \<le> c_code c \<and> c_code c < 0xF0 then Some (of_nat (c_code c - 0xE0), 2)
      else if 0xF0 \<le> c_code c \<and> c_code c < 0xF8 then Some (of_nat (c_code c - 0xF0), 3)
      else None)"
proof -
  have m: "c_code c mod 32 = c_code c - 0xC0" if "0xC0 \<le> c_code c" "c_code c < 0xE0"
    using that mod_mult_self2 [of "c_code c - 0xC0" 32 6] by simp
  have "c_code c mod 16 = c_code c - 0xE0" if "0xE0 \<le> c_code c" "c_code c < 0xF0"
    using that mod_mult_self2 [of "c_code c - 0xE0" 16 14] by simp
  moreover have "c_code c mod 8 = c_code c - 0xF0" if "0xF0 \<le> c_code c" "c_code c < 0xF8"
    using that mod_mult_self2 [of "c_code c - 0xF0" 8 30] by simp
  moreover have "(of_nat (c_code c - 0xC0) = (0 :: 32 word)) \<longleftrightarrow> c_code c = 0xC0"
    if "0xC0 \<le> c_code c" "c_code c < 0xE0"
    using that by (auto simp: word_of_nat_eq_0_iff simp del: of_nat_diff dest: dvd_imp_le)
  ultimately show ?thesis
    using m by (auto simp: utf8_lead_def byte_masks byte_low_bits simp del: of_nat_diff)
qed

definition lead_base :: "nat \<Rightarrow> nat" where
  "lead_base need = (if need = 1 then 0xC0 else if need = 2 then 0xE0 else 0xF0)"

definition lead_size :: "nat \<Rightarrow> nat" where
  "lead_size need = (if need = 1 then 32 else if need = 2 then 16 else 8)"

text \<open>\<open>utf8_seq need a ds\<close> is the byte sequence with lead bits \<open>a\<close> and payloads \<open>ds\<close>.\<close>

definition seq_ok :: "nat \<Rightarrow> nat \<Rightarrow> nat list \<Rightarrow> bool" where
  "seq_ok need a ds \<longleftrightarrow> need \<in> {1, 2, 3} \<and> length ds = need \<and> a < lead_size need \<and>
     (need = 1 \<longrightarrow> 0 < a) \<and> list_all (\<lambda>d. d < 64) ds"

definition utf8_seq :: "nat \<Rightarrow> nat \<Rightarrow> nat list \<Rightarrow> string" where
  "utf8_seq need a ds = char_of (lead_base need + a) # map cont_byte ds"

lemmas seq_defs = seq_ok_def utf8_seq_def lead_base_def lead_size_def shift_all_def

lemma utf8_lead_seq:
  "seq_ok need a ds \<Longrightarrow> utf8_lead (byte (char_of (lead_base need + a))) = Some (of_nat a, need)"
  by (auto simp: seq_ok_def lead_base_def lead_size_def utf8_lead_cases c_code_char_of)

lemma utf8_lead_SomeD:
  assumes "utf8_lead (byte c) = Some (cp, need)"
  shows "\<exists>a. c = char_of (lead_base need + a) \<and> cp = of_nat a \<and> need \<in> {1, 2, 3} \<and>
    a < lead_size need \<and> (need = 1 \<longrightarrow> 0 < a)"
proof -
  have "c = char_of (lead_base need + (c_code c - lead_base need))" if "lead_base need \<le> c_code c"
    using that by (metis c_code_eq_iff c_code_char_of c_code_less le_add_diff_inverse)
  moreover have "lead_base need \<le> c_code c \<and> cp = of_nat (c_code c - lead_base need) \<and>
      need \<in> {1, 2, 3} \<and> c_code c - lead_base need < lead_size need \<and>
      (need = 1 \<longrightarrow> 0 < c_code c - lead_base need)"
    using assms by (auto simp: utf8_lead_cases lead_base_def lead_size_def simp del: of_nat_diff
        split: if_splits)
  ultimately show ?thesis by blast
qed

lemma seq_ok_cases:
  assumes "seq_ok need a ds"
  obtains (1) d where "need = 1" "ds = [d]" "d < 64" "a < 32" "0 < a"
    | (2) d e where "need = 2" "ds = [d, e]" "d < 64" "e < 64" "a < 16"
    | (3) d e f where "need = 3" "ds = [d, e, f]" "d < 64" "e < 64" "f < 64" "a < 8"
proof -
  have "length ds = 1 \<Longrightarrow> \<exists>d. ds = [d]" "length ds = 2 \<Longrightarrow> \<exists>d e. ds = [d, e]"
    "length ds = 3 \<Longrightarrow> \<exists>d e f. ds = [d, e, f]"
    by (auto simp: numeral_eq_Suc length_Suc_conv)
  with assms that show thesis
    by (auto simp: seq_ok_def lead_size_def)
qed

lemma shift_all_less: "seq_ok need a ds \<Longrightarrow> shift_all a ds < 2 ^ 32"
  by (erule seq_ok_cases) (simp_all add: shift_all_def)

text \<open>One round of the loop on a sequence of that shape.\<close>

lemma valid_seq:
  assumes "seq_ok need a ds"
  shows "opftp_utf8_valid (utf8_seq need a ds @ r) \<longleftrightarrow>
    utf8_range_ok need (of_nat (shift_all a ds)) \<and> opftp_utf8_valid r"
proof -
  have "\<not> byte (char_of (lead_base need + a)) < 0x80"
    using assms by (auto simp: seq_defs byte_less c_code_char_of)
  moreover have "utf8_cont need (of_nat a) (map cont_byte ds @ r) = Some (of_nat (shift_all a ds), r)"
    using assms utf8_cont_append [of ds a r] by (simp add: seq_ok_def)
  ultimately show ?thesis
    using utf8_lead_seq [OF assms] by (simp add: utf8_seq_def)
qed

lemma valid_step:
  assumes "\<not> byte c < 0x80" "utf8_lead (byte c) = Some (cp, need)"
    "utf8_cont need cp p = Some (cp', p')"
  shows "\<exists>a ds. seq_ok need a ds \<and> c # p = utf8_seq need a ds @ p' \<and> cp' = of_nat (shift_all a ds)"
proof -
  from utf8_lead_SomeD [OF assms(2)] obtain a where a: "c = char_of (lead_base need + a)"
    "cp = of_nat a" "need \<in> {1, 2, 3}" "a < lead_size need" "need = 1 \<longrightarrow> 0 < a" by blast
  with assms(3) obtain ds where "length ds = need" "list_all (\<lambda>d. d < 64) ds"
    "p = map cont_byte ds @ p'" "cp' = of_nat (shift_all a ds)"
    by (blast dest: utf8_cont_SomeD)
  with a show ?thesis
    by (intro exI [of _ a] exI [of _ ds]) (simp add: seq_ok_def utf8_seq_def)
qed

text \<open>The encoding of a scalar value above ASCII has that shape, and conversely.\<close>

lemma encode_seq1:
  "a < 32 \<Longrightarrow> d < 64 \<Longrightarrow> 0x80 \<le> 64 * a + d \<Longrightarrow> utf8_encode (64 * a + d) = utf8_seq 1 a [d]"
  by (simp add: utf8_encode_def utf8_seq_def lead_base_def)

lemma encode_seq2:
  assumes "a < 16" "d < 64" "e < 64" "0x800 \<le> 64 * (64 * a + d) + e"
  shows "utf8_encode (64 * (64 * a + d) + e) = utf8_seq 2 a [d, e]"
proof -
  have "(64 * (64 * a + d) + e) div (64 * 64) = a"
    unfolding div_mult2_eq using assms by (simp del: distrib_left_numeral)
  then show ?thesis
    using assms by (simp add: utf8_encode_def utf8_seq_def lead_base_def del: distrib_left_numeral)
qed

lemma encode_seq3:
  assumes "a < 8" "d < 64" "e < 64" "f < 64" "0x10000 \<le> 64 * (64 * (64 * a + d) + e) + f"
  shows "utf8_encode (64 * (64 * (64 * a + d) + e) + f) = utf8_seq 3 a [d, e, f]"
proof -
  have "(64 * (64 * (64 * a + d) + e) + f) div (64 * 64) = 64 * a + d"
    "(64 * (64 * (64 * a + d) + e) + f) div (64 * 64 * 64) = a"
    unfolding div_mult2_eq using assms by (simp_all del: distrib_left_numeral)
  then show ?thesis
    using assms by (simp add: utf8_encode_def utf8_seq_def lead_base_def del: distrib_left_numeral)
qed

lemma encode_seq:
  assumes "seq_ok need a ds" "utf8_range_ok need (of_nat (shift_all a ds))"
  shows "utf8_encode (shift_all a ds) = utf8_seq need a ds"
proof -
  note r = assms(2) [unfolded utf8_range_ok_of_nat [OF shift_all_less [OF assms(1)]]]
  from assms(1) show ?thesis
  proof (cases rule: seq_ok_cases)
    case (1 d)
    with r encode_seq1 [of a d] show ?thesis
      by (simp add: shift_all_def)
  next
    case (2 d e)
    with r encode_seq2 [of a d e] show ?thesis
      by (simp add: shift_all_def del: distrib_left_numeral)
  next
    case (3 d e f)
    with r encode_seq3 [of a d e f] show ?thesis
      by (simp add: shift_all_def del: distrib_left_numeral)
  qed
qed

lemma scalar_seq:
  assumes u: "scalar_value u" and ge: "0x80 \<le> u"
  shows "\<exists>need a ds. seq_ok need a ds \<and> shift_all a ds = u \<and> utf8_range_ok need (of_nat u)"
proof -
  have u': "u < 0x110000" using u by (simp add: scalar_value_def)
  have a: "64 * (u div 64) + u mod 64 = u" "64 * (u div 4096) + u div 64 mod 64 = u div 64"
    "64 * (u div 262144) + u div 4096 mod 64 = u div 4096"
    using mult_div_mod_eq [of 64 u] mult_div_mod_eq [of 64 "u div 64"]
      mult_div_mod_eq [of 64 "u div 4096"]
    by (simp_all add: div_mult2_eq [symmetric])
  consider "u < 0x800" | "0x800 \<le> u" "u < 0x10000" | "0x10000 \<le> u" by linarith
  then show ?thesis
  proof cases
    case 1
    with ge have "u div 64 < 32" "0 < u div 64" by auto
    with a 1 ge u show ?thesis
      by (intro exI [of _ 1] exI [of _ "u div 64"] exI [of _ "[u mod 64]"])
        (simp add: seq_defs utf8_range_ok_of_nat)
  next
    case 2
    then have "u div 4096 < 16" by auto
    with a 2 u show ?thesis
      by (intro exI [of _ 2] exI [of _ "u div 4096"] exI [of _ "[u div 64 mod 64, u mod 64]"])
        (simp add: seq_defs utf8_range_ok_of_nat)
  next
    case 3
    then have "u div 262144 < 8" using u' by auto
    with a 3 u u' show ?thesis
      by (intro exI [of _ 3] exI [of _ "u div 262144"]
          exI [of _ "[u div 4096 mod 64, u div 64 mod 64, u mod 64]"])
        (simp add: seq_defs utf8_range_ok_of_nat)
  qed
qed

lemma valid_encode_append:
  assumes "scalar_value u"
  shows "opftp_utf8_valid (utf8_encode u @ r) \<longleftrightarrow> opftp_utf8_valid r"
proof (cases "u < 0x80")
  case True
  then show ?thesis by (simp add: utf8_encode_def byte_less c_code_char_of)
next
  case False
  with scalar_seq [OF assms] obtain need a ds where
    s: "seq_ok need a ds" "shift_all a ds = u" "utf8_range_ok need (of_nat u)"
    by (auto simp: not_less)
  with encode_seq [of need a ds] valid_seq [of need a ds r] show ?thesis by simp
qed

lemma valid_decompose:
  "opftp_utf8_valid s \<Longrightarrow> \<exists>us. list_all scalar_value us \<and> s = concat (map utf8_encode us)"
proof (induction s rule: opftp_utf8_valid.induct)
  case 1
  then show ?case by (intro exI [of _ "[]"]) simp
next
  case (2 c p)
  have more: ?case if "scalar_value u" "c # p = utf8_encode u @ p'"
    "\<exists>us. list_all scalar_value us \<and> p' = concat (map utf8_encode us)" for u p'
  proof -
    from that(3) obtain us where "list_all scalar_value us" "p' = concat (map utf8_encode us)"
      by blast
    with that(1,2) show ?thesis by (intro exI [of _ "u # us"]) simp
  qed
  show ?case
  proof (cases "byte c < 0x80")
    case True
    have "c = char_of (c_code c)" by (metis c_code_eq_iff c_code_char_of c_code_less)
    with True have "c # p = utf8_encode (c_code c) @ p" "scalar_value (c_code c)"
      by (simp_all add: byte_less utf8_encode_def scalar_value_def)
    moreover from 2 True have "\<exists>us. list_all scalar_value us \<and> p = concat (map utf8_encode us)"
      by simp
    ultimately show ?thesis using more by blast
  next
    case False
    with 2(3) obtain cp need cp' p' where l: "utf8_lead (byte c) = Some (cp, need)"
      "utf8_cont need cp p = Some (cp', p')" "utf8_range_ok need cp'" "opftp_utf8_valid p'"
      by (auto split: option.splits)
    from valid_step [OF False l(1,2)] obtain a ds where s: "seq_ok need a ds"
      "c # p = utf8_seq need a ds @ p'" "cp' = of_nat (shift_all a ds)" by blast
    with l(3) have "scalar_value (shift_all a ds)"
      using utf8_range_ok_of_nat [OF shift_all_less [OF s(1)]] by blast
    moreover from s l(3) have "c # p = utf8_encode (shift_all a ds) @ p'"
      using encode_seq by simp
    moreover from 2(2) [OF False l(1) refl l(2) refl l(4)]
    have "\<exists>us. list_all scalar_value us \<and> p' = concat (map utf8_encode us)" .
    ultimately show ?thesis using more by blast
  qed
qed

section \<open>Properties\<close>

text \<open>
  C27: The validator accepts a C string exactly when its bytes are the concatenation of the UTF-8
  encodings of some Unicode scalar values: truncated, overlong, surrogate and out-of-range
  sequences are all rejected, and nothing well-formed is.
\<close>

theorem utf8_valid_correct:
  "opftp_utf8_valid s \<longleftrightarrow> (\<exists>us. list_all scalar_value us \<and> s = concat (map utf8_encode us))"
proof
  assume "\<exists>us. list_all scalar_value us \<and> s = concat (map utf8_encode us)"
  then obtain us where us: "list_all scalar_value us" and s: "s = concat (map utf8_encode us)"
    by blast
  from us show "opftp_utf8_valid s"
    unfolding s by (induction us) (simp_all add: valid_encode_append)
qed (rule valid_decompose)

end
