(* ===== verification/Ui.thy ===== *)
theory Ui
  imports Reactor Utf8 Complex_Main
begin

text \<open>
  The user interface model that the on-screen display, the terminal and the web page share:
  \<^verbatim>\<open>src/app/ui.c\<close> and \<^verbatim>\<open>src/app/ui.h\<close>. It turns successive server snapshots into connect and
  disconnect events, a transfer history and per-client tracking, and holds the selection and text
  input state. The smoothed transfer rate, a \<open>double\<close> in the code, is an exact rational here, and the
  formatting of floating point numbers is left out.

  The event strip and the history are rings that promise the most recent entries, the locale
  \<open>recent_log\<close>.
\<close>

unbundle bit_operations_syntax

section \<open>Definitions\<close>

subsection \<open>State\<close>

abbreviation OPFTP_UI_V_STATUS :: int where "OPFTP_UI_V_STATUS \<equiv> 0"
abbreviation OPFTP_UI_V_TRANSFERS :: int where "OPFTP_UI_V_TRANSFERS \<equiv> 1"
abbreviation OPFTP_UI_V_CLIENTS :: int where "OPFTP_UI_V_CLIENTS \<equiv> 2"
abbreviation OPFTP_UI_V_SETTINGS :: int where "OPFTP_UI_V_SETTINGS \<equiv> 3"
abbreviation OPFTP_UI_V_COUNT :: int where "OPFTP_UI_V_COUNT \<equiv> 4"

datatype ui_result = OPFTP_UI_H_OK | OPFTP_UI_H_ABORTED | OPFTP_UI_H_ERROR
datatype ui_detail = OPFTP_UI_D_NONE | OPFTP_UI_D_HIST | OPFTP_UI_D_XFER | OPFTP_UI_D_CLIENT

abbreviation OPFTP_UI_MAX_HIST :: nat where "OPFTP_UI_MAX_HIST \<equiv> 48"
abbreviation OPFTP_UI_MAX_EVENTS :: nat where "OPFTP_UI_MAX_EVENTS \<equiv> 4"
abbreviation OPFTP_UI_MAX_TRACK :: nat where "OPFTP_UI_MAX_TRACK \<equiv> 24"
abbreviation OPFTP_UI_EDIT_NONE :: int where "OPFTP_UI_EDIT_NONE \<equiv> -1"
abbreviation OPFTP_UI_EDIT_COUNT :: int where "OPFTP_UI_EDIT_COUNT \<equiv> 1"
abbreviation OPFTP_UI_SETTINGS_ROWS :: int where "OPFTP_UI_SETTINGS_ROWS \<equiv> 5"
abbreviation OPFTP_UI_EDIT_MAX :: nat where "OPFTP_UI_EDIT_MAX \<equiv> 256"

record ui_hist =
  hi_op :: string
  hi_path :: string
  hi_bytes :: "64 word"
  hi_total :: "64 word"
  hi_hh :: "8 word"
  hi_mm :: "8 word"
  hi_result :: ui_result

record ui_ev =
  ev_text :: string
  ev_hh :: "8 word"
  ev_mm :: "8 word"
  ev_warn :: bool

record ui_trk =
  tk_peer :: string
  tk_present :: bool
  tk_seen :: bool
  tk_logged_in :: bool
  tk_xfer_active :: bool
  tk_xfer_op :: string
  tk_xfer_path :: string
  tk_xfer_bytes :: "64 word"
  tk_xfer_total :: "64 word"
  tk_idle_reset_us :: "64 word"
  tk_xfer_t0_us :: "64 word"
  tk_last_bytes_us :: "64 word"
  tk_rate :: rat

record ui_edit =
  ed_field :: int
  ed_buf :: string
  ed_len :: nat

record ui =
  u_view :: int
  u_sel_status :: int
  u_sel_hist :: int
  u_sel_cli :: int
  u_sel_settings :: int
  u_scroll_hist :: int
  u_scroll_cli :: int
  u_help :: bool
  u_detail_kind :: ui_detail
  u_detail_idx :: int
  u_edit :: ui_edit
  u_t0_us :: "64 word"
  u_snap :: snapshot
  u_events :: "ui_ev list"
  u_ev_head :: nat
  u_ev_count :: nat
  u_hist :: "ui_hist list"
  u_hist_head :: nat
  u_hist_count :: nat
  u_trk :: "ui_trk list"
  u_session_xfers :: "64 word"
  u_session_bytes :: "64 word"
  u_quit :: bool

definition blank_hist :: ui_hist where
  "blank_hist = \<lparr> hi_op = [], hi_path = [], hi_bytes = 0, hi_total = 0, hi_hh = 0, hi_mm = 0, hi_result = OPFTP_UI_H_OK \<rparr>"

definition blank_ev :: ui_ev where
  "blank_ev = \<lparr> ev_text = [], ev_hh = 0, ev_mm = 0, ev_warn = False \<rparr>"

definition blank_trk :: ui_trk where
  "blank_trk =
     \<lparr> tk_peer = [], tk_present = False, tk_seen = False, tk_logged_in = False, tk_xfer_active = False,
       tk_xfer_op = [], tk_xfer_path = [], tk_xfer_bytes = 0, tk_xfer_total = 0, tk_idle_reset_us = 0,
       tk_xfer_t0_us = 0, tk_last_bytes_us = 0, tk_rate = 0 \<rparr>"

definition blank_snapshot :: snapshot where
  "blank_snapshot =
     \<lparr> sn_started = False, sn_port = 0, sn_root = [], sn_workers = 0, sn_num_clients = 0, sn_clients = [] \<rparr>"

definition opftp_ui_init :: "64 word \<Rightarrow> ui" where
  "opftp_ui_init now_us =
     \<lparr> u_view = 0, u_sel_status = -1, u_sel_hist = -1, u_sel_cli = -1, u_sel_settings = -1,
       u_scroll_hist = 0, u_scroll_cli = 0, u_help = False, u_detail_kind = OPFTP_UI_D_NONE, u_detail_idx = 0,
       u_edit = \<lparr> ed_field = OPFTP_UI_EDIT_NONE, ed_buf = [], ed_len = 0 \<rparr>, u_t0_us = now_us,
       u_snap = blank_snapshot, u_events = replicate OPFTP_UI_MAX_EVENTS blank_ev, u_ev_head = 0, u_ev_count = 0,
       u_hist = replicate OPFTP_UI_MAX_HIST blank_hist, u_hist_head = 0, u_hist_count = 0,
       u_trk = replicate OPFTP_UI_MAX_TRACK blank_trk, u_session_xfers = 0, u_session_bytes = 0, u_quit = False \<rparr>"

subsection \<open>Formatting\<close>

text \<open>\<open>%02llu\<close>.\<close>

definition fmt_02 :: "64 word \<Rightarrow> string" where
  "fmt_02 v = zero_pad 2 (dec (unat v))"

definition opftp_ui_fmt_dur :: "nat \<Rightarrow> 64 word \<Rightarrow> string" where
  "opftp_ui_fmt_dur n sec =
     c_snprintf n (fmt_02 (sec div 3600) @ '':'' @ fmt_02 ((sec div 60) mod 60) @ '':'' @ fmt_02 (sec mod 60))"

definition opftp_ui_fmt_idle :: "nat \<Rightarrow> 64 word \<Rightarrow> string" where
  "opftp_ui_fmt_idle n sec = c_snprintf n (fmt_02 (sec div 60) @ '':'' @ fmt_02 (sec mod 60))"

subsection \<open>Event and history rings\<close>

definition clock_hh :: "64 word \<Rightarrow> 8 word" where
  "clock_hh now_us = ucast ((now_us div 1000000 div 3600) mod 24)"

definition clock_mm :: "64 word \<Rightarrow> 8 word" where
  "clock_mm now_us = ucast ((now_us div 1000000 div 60) mod 60)"

definition ev_push :: "string \<Rightarrow> bool \<Rightarrow> 64 word \<Rightarrow> ui \<Rightarrow> ui" where
  "ev_push text warn now_us ui =
     (let k = (u_ev_head ui + 1) mod OPFTP_UI_MAX_EVENTS in
      ui\<lparr> u_ev_head := k,
          u_events := (u_events ui)[k := \<lparr> ev_text = c_snprintf 72 text, ev_hh = clock_hh now_us,
                                            ev_mm = clock_mm now_us, ev_warn = warn \<rparr>],
          u_ev_count := (if u_ev_count ui < OPFTP_UI_MAX_EVENTS then u_ev_count ui + 1 else u_ev_count ui) \<rparr>)"

definition hist_push ::
  "string \<Rightarrow> string \<Rightarrow> 64 word \<Rightarrow> 64 word \<Rightarrow> ui_result \<Rightarrow> 64 word \<Rightarrow> ui \<Rightarrow> ui" where
  "hist_push op path bytes tot result now_us ui =
     (let k = (u_hist_head ui + 1) mod OPFTP_UI_MAX_HIST in
      ui\<lparr> u_hist_head := k,
          u_hist := (u_hist ui)[k := \<lparr> hi_op = c_snprintf 8 op, hi_path = c_snprintf 1024 path, hi_bytes = bytes,
                                        hi_total = tot, hi_hh = clock_hh now_us, hi_mm = clock_mm now_us,
                                        hi_result = result \<rparr>],
          u_hist_count := (if u_hist_count ui < OPFTP_UI_MAX_HIST then u_hist_count ui + 1 else u_hist_count ui),
          u_session_xfers := u_session_xfers ui + 1, u_session_bytes := u_session_bytes ui + bytes \<rparr>)"

definition opftp_ui_event :: "string \<Rightarrow> bool \<Rightarrow> 64 word \<Rightarrow> ui \<Rightarrow> ui" where
  "opftp_ui_event text warn now_us ui = ev_push text warn now_us ui"

subsection \<open>Tracking\<close>

fun find_slot :: "(ui_trk \<Rightarrow> bool) \<Rightarrow> ui_trk list \<Rightarrow> nat option" where
  "find_slot P [] = None"
| "find_slot P (t # ts) = (if P t then Some 0 else map_option Suc (find_slot P ts))"

text \<open>The tracker of a peer: its own, or a free one cleared for it.\<close>

definition trk_find :: "string \<Rightarrow> ui \<Rightarrow> nat option \<times> ui" where
  "trk_find peer ui =
     (case find_slot (\<lambda>t. tk_present t \<and> tk_peer t = peer) (u_trk ui) of
        Some i \<Rightarrow> (Some i, ui)
      | None \<Rightarrow>
          (case find_slot (\<lambda>t. \<not> tk_present t) (u_trk ui) of
             Some i \<Rightarrow> (Some i, ui\<lparr> u_trk := (u_trk ui)[i := blank_trk\<lparr> tk_peer := c_snprintf 64 peer \<rparr>] \<rparr>)
           | None \<Rightarrow> (None, ui)))"

definition upd_trk :: "nat \<Rightarrow> (ui_trk \<Rightarrow> ui_trk) \<Rightarrow> ui \<Rightarrow> ui" where
  "upd_trk i f ui = ui\<lparr> u_trk := (u_trk ui)[i := f (u_trk ui ! i)] \<rparr>"

definition connected_text :: "string \<Rightarrow> string" where
  "connected_text peer = ''CLIENT CONNECTED '' @ [CHR 0xE2, CHR 0x80, CHR 0x94, space] @ peer"

definition disconnected_text :: "string \<Rightarrow> string" where
  "disconnected_text peer = ''CLIENT DISCONNECTED '' @ [CHR 0xE2, CHR 0x80, CHR 0x94, space] @ peer"

definition new_rate :: "64 word \<Rightarrow> 64 word \<Rightarrow> ui_trk \<Rightarrow> rat" where
  "new_rate now_us bytes t =
     (let dt = now_us - tk_last_bytes_us t in
      if dt > 0 \<and> bytes \<ge> tk_xfer_bytes t then
        (let inst = of_nat (unat (bytes - tk_xfer_bytes t)) * 1000000 / of_nat (unat dt)
         in if tk_rate t > 0 then tk_rate t * (1/2) + inst * (1/2) else inst)
      else tk_rate t)"

definition xfer_result :: "ui_trk \<Rightarrow> ui_result" where
  "xfer_result t =
     (if tk_xfer_bytes t \<noteq> 0 \<and> tk_xfer_total t \<noteq> 0 \<and> tk_xfer_bytes t < tk_xfer_total t
      then OPFTP_UI_H_ABORTED else OPFTP_UI_H_OK)"

definition poll_xfer :: "64 word \<Rightarrow> nat \<Rightarrow> snapshot_client \<Rightarrow> ui \<Rightarrow> ui" where
  "poll_xfer now_us i c ui =
     (case sc_xfer c of
        Some (op, path, bytes, tot) \<Rightarrow>
          if \<not> tk_xfer_active (u_trk ui ! i) then
            upd_trk i (\<lambda>t. t\<lparr> tk_xfer_active := True, tk_xfer_op := c_snprintf 8 op, tk_xfer_path := c_snprintf 1024 path,
                              tk_xfer_bytes := bytes, tk_xfer_total := tot, tk_xfer_t0_us := now_us,
                              tk_last_bytes_us := now_us, tk_rate := 0, tk_idle_reset_us := now_us \<rparr>) ui
          else
            upd_trk i (\<lambda>t. t\<lparr> tk_rate := new_rate now_us bytes t, tk_xfer_bytes := bytes, tk_xfer_total := tot,
                              tk_last_bytes_us := now_us \<rparr>) ui
      | None \<Rightarrow>
          if tk_xfer_active (u_trk ui ! i) then
            (let ui = upd_trk i (\<lambda>t. t\<lparr> tk_xfer_active := False \<rparr>) ui;
                 t = u_trk ui ! i;
                 ui = hist_push (tk_xfer_op t) (tk_xfer_path t) (tk_xfer_bytes t) (tk_xfer_total t) (xfer_result t) now_us ui
             in upd_trk i (\<lambda>t. t\<lparr> tk_idle_reset_us := now_us \<rparr>) ui)
          else ui)"

definition poll_client :: "64 word \<Rightarrow> snapshot_client \<Rightarrow> ui \<Rightarrow> ui" where
  "poll_client now_us c ui =
     (case trk_find (sc_peer c) ui of
        (None, ui) \<Rightarrow> ui
      | (Some i, ui) \<Rightarrow>
          let ui = (if tk_present (u_trk ui ! i) then ui
                    else upd_trk i (\<lambda>t. t\<lparr> tk_idle_reset_us := now_us, tk_logged_in := sc_logged_in c \<rparr>)
                           (ev_push (c_snprintf 72 (connected_text (sc_peer c))) False now_us ui));
              ui = upd_trk i (\<lambda>t. t\<lparr> tk_present := True, tk_seen := True \<rparr>) ui;
              ui = (if sc_logged_in c \<noteq> tk_logged_in (u_trk ui ! i)
                    then upd_trk i (\<lambda>t. t\<lparr> tk_logged_in := sc_logged_in c, tk_idle_reset_us := now_us \<rparr>) ui else ui)
          in poll_xfer now_us i c ui)"

definition forget_gone :: "64 word \<Rightarrow> nat \<Rightarrow> ui \<Rightarrow> ui" where
  "forget_gone now_us i ui =
     (let t = u_trk ui ! i in
      if \<not> tk_present t \<or> tk_seen t then ui
      else
        let ui = ev_push (c_snprintf 72 (disconnected_text (tk_peer t))) True now_us ui;
            ui = (if tk_xfer_active t
                  then hist_push (tk_xfer_op t) (tk_xfer_path t) (tk_xfer_bytes t) (tk_xfer_total t) OPFTP_UI_H_ERROR now_us ui
                  else ui)
        in upd_trk i (\<lambda>_. blank_trk) ui)"

definition opftp_ui_poll :: "64 word \<Rightarrow> ui \<Rightarrow> ui" where
  "opftp_ui_poll now_us ui =
     (let ui = ui\<lparr> u_trk := map (\<lambda>t. t\<lparr> tk_seen := False \<rparr>) (u_trk ui) \<rparr>;
          ui = fold (poll_client now_us) (take (sn_num_clients (u_snap ui)) (sn_clients (u_snap ui))) ui
      in fold (forget_gone now_us) [0..<OPFTP_UI_MAX_TRACK] ui)"

subsection \<open>Selection and navigation\<close>

definition xfer_active :: "snapshot_client \<Rightarrow> bool" where
  "xfer_active c \<longleftrightarrow> sc_xfer c \<noteq> None"

definition snap_clients :: "ui \<Rightarrow> snapshot_client list" where
  "snap_clients ui = take (sn_num_clients (u_snap ui)) (sn_clients (u_snap ui))"

definition sel_count :: "ui \<Rightarrow> int" where
  "sel_count ui =
     (if u_view ui = OPFTP_UI_V_STATUS then int (length (filter xfer_active (snap_clients ui)))
      else if u_view ui = OPFTP_UI_V_TRANSFERS then int (u_hist_count ui)
      else if u_view ui = OPFTP_UI_V_CLIENTS then int (sn_num_clients (u_snap ui))
      else if u_view ui = OPFTP_UI_V_SETTINGS then OPFTP_UI_SETTINGS_ROWS
      else 0)"

text \<open>\<open>sel_ptr\<close>: the selection of the current view, as a pair of reading and writing it.\<close>

definition sel_get :: "ui \<Rightarrow> int option" where
  "sel_get ui =
     (if u_view ui = OPFTP_UI_V_STATUS then Some (u_sel_status ui)
      else if u_view ui = OPFTP_UI_V_TRANSFERS then Some (u_sel_hist ui)
      else if u_view ui = OPFTP_UI_V_CLIENTS then Some (u_sel_cli ui)
      else if u_view ui = OPFTP_UI_V_SETTINGS then Some (u_sel_settings ui)
      else None)"

definition sel_set :: "int \<Rightarrow> ui \<Rightarrow> ui" where
  "sel_set s ui =
     (if u_view ui = OPFTP_UI_V_STATUS then ui\<lparr> u_sel_status := s \<rparr>
      else if u_view ui = OPFTP_UI_V_TRANSFERS then ui\<lparr> u_sel_hist := s \<rparr>
      else if u_view ui = OPFTP_UI_V_CLIENTS then ui\<lparr> u_sel_cli := s \<rparr>
      else if u_view ui = OPFTP_UI_V_SETTINGS then ui\<lparr> u_sel_settings := s \<rparr>
      else ui)"

definition opftp_ui_sel_move :: "int \<Rightarrow> ui \<Rightarrow> ui" where
  "opftp_ui_sel_move dir ui =
     (case sel_get ui of
        None \<Rightarrow> ui
      | Some s \<Rightarrow>
          let n = sel_count ui in
          if n \<le> 0 then sel_set (-1) ui
          else
            let s = s + dir;
                s = (if s < 0 then 0 else s);
                s = (if s \<ge> n then n - 1 else s)
            in sel_set s ui)"

definition opftp_ui_clear_sel :: "ui \<Rightarrow> ui" where
  "opftp_ui_clear_sel ui = (case sel_get ui of None \<Rightarrow> ui | Some s \<Rightarrow> sel_set (-1) ui)"

text \<open>The loop of \<open>opftp_ui_sel_to_client\<close>: \<open>i\<close> and \<open>k\<close> are its counters.\<close>

fun sel_scan :: "int \<Rightarrow> int \<Rightarrow> int \<Rightarrow> snapshot_client list \<Rightarrow> int" where
  "sel_scan idx i k [] = -1"
| "sel_scan idx i k (c # cs) =
     (if xfer_active c then (if k = idx then i else sel_scan idx (i + 1) (k + 1) cs)
      else sel_scan idx (i + 1) k cs)"

definition opftp_ui_sel_to_client :: "int \<Rightarrow> ui \<Rightarrow> int" where
  "opftp_ui_sel_to_client idx ui =
     (if u_view ui = OPFTP_UI_V_CLIENTS then idx else sel_scan idx 0 0 (snap_clients ui))"

definition opftp_ui_open_detail :: "ui \<Rightarrow> ui" where
  "opftp_ui_open_detail ui =
     (case sel_get ui of
        None \<Rightarrow> ui
      | Some s \<Rightarrow>
          if s < 0 then ui
          else if u_view ui = OPFTP_UI_V_TRANSFERS then ui\<lparr> u_detail_kind := OPFTP_UI_D_HIST, u_detail_idx := s \<rparr>
          else if u_view ui = OPFTP_UI_V_STATUS then
            (let ci = opftp_ui_sel_to_client s ui
             in if ci \<ge> 0 then ui\<lparr> u_detail_kind := OPFTP_UI_D_XFER, u_detail_idx := ci \<rparr> else ui)
          else if u_view ui = OPFTP_UI_V_CLIENTS then ui\<lparr> u_detail_kind := OPFTP_UI_D_CLIENT, u_detail_idx := s \<rparr>
          else ui)"

text \<open>The remainder of C's \<open>%\<close>, which has the sign of the dividend.\<close>

definition c_rem :: "int \<Rightarrow> int \<Rightarrow> int" where
  "c_rem a b = (if a < 0 then - ((- a) mod b) else a mod b)"

definition opftp_ui_switch_view :: "int \<Rightarrow> ui \<Rightarrow> ui" where
  "opftp_ui_switch_view dir ui =
     ui\<lparr> u_view := c_rem (u_view ui + dir + OPFTP_UI_V_COUNT) OPFTP_UI_V_COUNT,
         u_sel_status := -1, u_sel_hist := -1, u_sel_cli := -1, u_sel_settings := -1,
         u_scroll_hist := 0, u_scroll_cli := 0, u_detail_kind := OPFTP_UI_D_NONE, u_help := False \<rparr>"

definition opftp_ui_clamp_scroll :: "int \<Rightarrow> int \<Rightarrow> int \<Rightarrow> int \<Rightarrow> int" where
  "opftp_ui_clamp_scroll sel scroll visible tot =
     (let sel = (if sel < 0 then 0 else sel);
          sel = (if sel \<ge> tot then tot - 1 else sel);
          scroll = (if sel < scroll then sel else scroll);
          scroll = (if sel \<ge> scroll + visible then sel - visible + 1 else scroll);
          scroll = (if scroll > tot - visible then tot - visible else scroll)
      in if scroll < 0 then 0 else scroll)"

definition opftp_ui_view_name :: "int \<Rightarrow> string" where
  "opftp_ui_view_name view =
     (if view < 0 \<or> view \<ge> OPFTP_UI_V_COUNT then []
      else [''STATUS'', ''TRANSFERS'', ''CLIENTS'', ''SETTINGS''] ! nat view)"

subsection \<open>Text input\<close>

definition opftp_ui_edit_begin :: "int \<Rightarrow> string option \<Rightarrow> ui_edit \<Rightarrow> ui_edit" where
  "opftp_ui_edit_begin field initial ed =
     (if field < 0 \<or> field \<ge> OPFTP_UI_EDIT_COUNT then ed
      else
        (case initial of
           None \<Rightarrow> \<lparr> ed_field = field, ed_buf = [], ed_len = 0 \<rparr>
         | Some s \<Rightarrow>
             let b = c_snprintf OPFTP_UI_EDIT_MAX s in \<lparr> ed_field = field, ed_buf = b, ed_len = length b \<rparr>))"

definition opftp_ui_edit_cancel :: "ui_edit \<Rightarrow> ui_edit" where
  "opftp_ui_edit_cancel ed = \<lparr> ed_field = OPFTP_UI_EDIT_NONE, ed_buf = [], ed_len = 0 \<rparr>"

definition opftp_ui_edit_commit :: "ui_edit \<Rightarrow> string \<times> ui_edit" where
  "opftp_ui_edit_commit ed = (ed_buf ed, ed\<lparr> ed_field := OPFTP_UI_EDIT_NONE \<rparr>)"

definition opftp_ui_edit_type :: "string option \<Rightarrow> ui_edit \<Rightarrow> rc \<times> ui_edit" where
  "opftp_ui_edit_type utf8 ed =
     (case utf8 of
        None \<Rightarrow> (Some EINVAL, ed)
      | Some s \<Rightarrow>
          if ed_field ed = OPFTP_UI_EDIT_NONE then (Some EINVAL, ed)
          else if ed_len ed + length (c_str s) \<ge> OPFTP_UI_EDIT_MAX then (Some ENOSPC, ed)
          else (None, ed\<lparr> ed_buf := take (ed_len ed) (ed_buf ed) @ c_str s, ed_len := ed_len ed + length (c_str s) \<rparr>))"

text \<open>The loop of \<open>opftp_ui_edit_backspace\<close>, from index \<open>i\<close> down over continuation bytes.\<close>

fun lead_index :: "string \<Rightarrow> nat \<Rightarrow> nat" where
  "lead_index b 0 = 0"
| "lead_index b (Suc i) =
     (if byte (b ! Suc i) AND 0xC0 = 0x80 then lead_index b i else Suc i)"

definition opftp_ui_edit_backspace :: "ui_edit \<Rightarrow> ui_edit" where
  "opftp_ui_edit_backspace ed =
     (if ed_field ed = OPFTP_UI_EDIT_NONE \<or> ed_len ed = 0 then ed
      else let i = lead_index (ed_buf ed) (ed_len ed - 1) in ed\<lparr> ed_buf := take i (ed_buf ed), ed_len := i \<rparr>)"

end
