(* ===== verification/Httpd.thy ===== *)
theory Httpd
  imports Lifecycle Ui
begin

text \<open>
  The web console of the plugin: \<^verbatim>\<open>src/plugin/httpd.c\<close>, host build.  One thread polls the status of the
  server into the user interface's model and answers HTTP requests: the state as JSON, three static
  files, and a command to stop the server or to change its root.

  Sockets, the clock, \<open>poll\<close>, files and the formatting of a floating point number are outside the program.
  The blocks handed to \<open>send\<close> and the descriptors closed are recorded in the order of the calls.
\<close>

section \<open>JSON strings\<close>

abbreviation dquote :: char where "dquote \<equiv> CHR 0x22"
abbreviation bslash :: char where "bslash \<equiv> CHR 0x5C"

definition json_char :: "char \<Rightarrow> string" where
  "json_char c =
     (if c = dquote then [bslash, dquote]
      else if c = bslash then [bslash, bslash]
      else if c = CHR 0x0A then [bslash, CHR ''n'']
      else if c = CHR 0x0D then [bslash, CHR ''r'']
      else if c = CHR 0x09 then [bslash, CHR ''t'']
      else if c_code c < 0x20 then ''?''
      else [c])"

text \<open>The loop of \<open>json_escape\<close> with \<open>k\<close> bytes written so far.\<close>

fun json_escape_loop :: "nat \<Rightarrow> nat \<Rightarrow> string \<Rightarrow> string" where
  "json_escape_loop n k [] = []"
| "json_escape_loop n k (c # s) =
     (if k + 6 < n then json_char c @ json_escape_loop n (k + length (json_char c)) s else [])"

definition json_escape :: "nat \<Rightarrow> string \<Rightarrow> string" where
  "json_escape n s = json_escape_loop n 0 s"

text \<open>\<open>strstr\<close>: the haystack from the first occurrence on.\<close>

fun c_strstr :: "string \<Rightarrow> string \<Rightarrow> string option" where
  "c_strstr [] pat = (if pat = [] then Some [] else None)"
| "c_strstr (c # s) pat = (if take (length pat) (c # s) = pat then Some (c # s) else c_strstr s pat)"

text \<open>The loop of \<open>find_json_str\<close>, which leaves room for the terminator in \<open>n\<close> bytes.\<close>

fun json_value :: "nat \<Rightarrow> string \<Rightarrow> string" where
  "json_value n [] = []"
| "json_value n (c # s) =
     (if c = dquote \<or> \<not> 1 < n then []
      else if c = bslash then
        (case s of [] \<Rightarrow> [c] | d # s' \<Rightarrow> d # json_value (n - 1) s')
      else c # json_value (n - 1) s)"

definition find_json_str :: "string \<Rightarrow> string \<Rightarrow> nat \<Rightarrow> string option" where
  "find_json_str body key n =
     (let pat = c_snprintf 64 (dquote # key @ [dquote]) in
      case c_strstr body pat of
        None \<Rightarrow> None
      | Some p \<Rightarrow>
          (case dropWhile (\<lambda>c. c \<noteq> dquote) (drop (length pat) p) of
             [] \<Rightarrow> None
           | _ # p \<Rightarrow> Some (json_value n p)))"

section \<open>State\<close>

abbreviation HTTPD_PORT_DEFAULT :: "16 word" where "HTTPD_PORT_DEFAULT \<equiv> 8080"
abbreviation HTTPD_MAX_REQ :: nat where "HTTPD_MAX_REQ \<equiv> 4096"
abbreviation HTTPD_BUF :: nat where "HTTPD_BUF \<equiv> 16384"
abbreviation HTTPD_MAX_CONN :: nat where "HTTPD_MAX_CONN \<equiv> 16"

record 'x httpd =
  hd_server :: "'x life"
  hd_ui :: ui
  hd_port :: "16 word"
  hd_listen_fd :: int
  hd_poll :: "int pollset"
  hd_version :: string
  hd_stop :: bool
  hd_last_poll_us :: "64 word"
  hd_conn_fd :: "int list"
  hd_conn_hnd :: "int list"
  hd_asset_dir :: string
  hd_sent :: "(int \<times> string) list"
  hd_closed :: "int list"

record 'x henv =
  he_lv :: "'x lenv"
  he_join :: "'x world \<Rightarrow> 'x world"
  he_recv :: "int \<Rightarrow> nat \<Rightarrow> ('x, string) fs_op"
  he_accept :: "('x, nat) fs_op"
  he_now :: "'x sys \<Rightarrow> 64 word \<times> 'x sys"  \<comment> \<open>\<open>opftp_now_ms\<close>\<close>
  he_poll :: "int pollset \<Rightarrow> nat \<Rightarrow> 'x sys \<Rightarrow> (int \<times> poll_events list) \<times> 'x sys"
  he_realloc :: "'x sys \<Rightarrow> bool \<times> bool"
  he_file :: "string \<Rightarrow> 'x sys \<Rightarrow> string option"
  he_malloc :: "'x sys \<Rightarrow> bool"
  he_rate :: "rat \<Rightarrow> string"  \<comment> \<open>\<open>%.1f\<close>\<close>
  he_errno :: "errno \<Rightarrow> nat"

abbreviation hd_sys :: "'x httpd \<Rightarrow> 'x sys" where
  "hd_sys h \<equiv> v_sys (l_world (hd_server h))"

definition hd_set_sys :: "'x sys \<Rightarrow> 'x httpd \<Rightarrow> 'x httpd" where
  "hd_set_sys s h = h\<lparr> hd_server := upd_world (\<lambda>w. w\<lparr> v_sys := s \<rparr>) (hd_server h) \<rparr>"

definition hcall :: "('x sys \<Rightarrow> 'r \<times> 'x sys) \<Rightarrow> 'x httpd \<Rightarrow> 'r \<times> 'x httpd" where
  "hcall f h = (case f (hd_sys h) of (r, s) \<Rightarrow> (r, hd_set_sys s h))"

section \<open>The state as JSON\<close>

text \<open>The macro \<open>PUT\<close>: what the buffer of \<open>n\<close> bytes holds and the length of all that was printed.\<close>

definition PUT :: "nat \<Rightarrow> string \<Rightarrow> string \<times> nat \<Rightarrow> string \<times> nat" where
  "PUT n text b = (case b of (out, k) \<Rightarrow> (if k < n then out @ take (n - k - 1) text else out, k + length text))"

definition jq :: "string \<Rightarrow> string" where
  "jq s = dquote # s @ [dquote]"

definition jfield :: "string \<Rightarrow> string \<Rightarrow> string" where
  "jfield key v = jq key @ '':'' @ v"

definition jbool :: "bool \<Rightarrow> string" where
  "jbool b = (if b then ''true'' else ''false'')"

fun result_code :: "ui_result \<Rightarrow> nat" where
  "result_code OPFTP_UI_H_OK = 0"
| "result_code OPFTP_UI_H_ABORTED = 1"
| "result_code OPFTP_UI_H_ERROR = 2"

definition ui_client_idx :: "string \<Rightarrow> ui \<Rightarrow> nat option" where
  "ui_client_idx peer ui = find_slot (\<lambda>t. tk_present t \<and> tk_peer t = peer) (u_trk ui)"

definition emit_event :: "ui_ev \<Rightarrow> string" where
  "emit_event e =
     ''{'' @ jfield ''hh'' (dec (unat (ev_hh e))) @ '','' @ jfield ''mm'' (dec (unat (ev_mm e))) @ '','' @
     jfield ''text'' (jq (json_escape 144 (ev_text e))) @ '','' @ jfield ''warn'' (jbool (ev_warn e)) @ ''}''"

definition emit_hist :: "ui_hist \<Rightarrow> string" where
  "emit_hist x =
     ''{'' @ jfield ''op'' (jq (hi_op x)) @ '','' @ jfield ''path'' (jq (json_escape 2048 (hi_path x))) @ '','' @
     jfield ''bytes'' (dec (unat (hi_bytes x))) @ '','' @ jfield ''total'' (dec (unat (hi_total x))) @ '','' @
     jfield ''hh'' (dec (unat (hi_hh x))) @ '','' @ jfield ''mm'' (dec (unat (hi_mm x))) @ '','' @
     jfield ''result'' (dec (result_code (hi_result x))) @ ''}''"

definition emit_client :: "(rat \<Rightarrow> string) \<Rightarrow> 64 word \<Rightarrow> ui \<Rightarrow> snapshot_client \<Rightarrow> string" where
  "emit_client fmt now_us ui c =
     (let (rate, idle_s) =
            (case ui_client_idx (sc_peer c) ui of
               None \<Rightarrow> (0, 0)
             | Some t \<Rightarrow>
                 (tk_rate (u_trk ui ! t),
                  (now_us - (if xfer_active c then tk_xfer_t0_us (u_trk ui ! t) else tk_idle_reset_us (u_trk ui ! t))) div 1000000));
          (op, path, bytes, tot) = (case sc_xfer c of Some x \<Rightarrow> x | None \<Rightarrow> ([], [], 0, 0))
      in ''{'' @ jfield ''peer'' (jq (json_escape 128 (sc_peer c))) @ '','' @
         jfield ''user'' (jq (json_escape 128 (sc_user c))) @ '','' @
         jfield ''cwd'' (jq (json_escape 2048 (sc_cwd c))) @ '','' @
         jfield ''logged_in'' (jbool (sc_logged_in c)) @ '','' @ jfield ''xfer_active'' (jbool (xfer_active c)) @ '','' @
         jfield ''op'' (jq op) @ '','' @ jfield ''path'' (jq (json_escape 2048 path)) @ '','' @
         jfield ''bytes'' (dec (unat bytes)) @ '','' @ jfield ''total'' (dec (unat tot)) @ '','' @
         jfield ''rate'' (fmt rate) @ '','' @ jfield ''idle_s'' (dec (unat idle_s)) @ ''}'')"

text \<open>A loop that prints its elements with commas between them.\<close>

definition emit_list :: "string list \<Rightarrow> string list" where
  "emit_list es = (case es of [] \<Rightarrow> [] | e # es \<Rightarrow> e # concat (map (\<lambda>e. ['','', e]) es))"

text \<open>The texts given to \<open>PUT\<close>, in order.\<close>

definition state_texts :: "(rat \<Rightarrow> string) \<Rightarrow> 64 word \<Rightarrow> 'x httpd \<Rightarrow> string list" where
  "state_texts fmt now_us h =
     (let ui = hd_ui h in
      [''{'' @ jfield ''version'' (jq (hd_version h)) @ '','' @ jfield ''running'' (jbool (sn_started (u_snap ui))) @ '','' @
       jfield ''port'' (dec (unat (sn_port (u_snap ui)))) @ '','' @ jq ''root'' @ '':'' @ [dquote],
       json_escape 2048 (sn_root (u_snap ui)),
       [dquote] @ '','' @ jfield ''workers'' (dec (sn_workers (u_snap ui))) @ '','' @
       jfield ''uptime_s'' (dec (unat ((now_us - u_t0_us ui) div 1000000))) @ '','',
       jfield ''session'' (''{'' @ jfield ''xfers'' (dec (unat (u_session_xfers ui))) @ '','' @
         jfield ''bytes'' (dec (unat (u_session_bytes ui))) @ ''}'') @ '','',
       jfield ''events'' ''[''] @
      emit_list (map (\<lambda>i. emit_event (u_events ui ! ((u_ev_head ui + OPFTP_UI_MAX_EVENTS - i) mod OPFTP_UI_MAX_EVENTS)))
        [0..<u_ev_count ui]) @
      [''],'', jfield ''history'' ''[''] @
      emit_list (map (\<lambda>i. emit_hist (u_hist ui ! ((u_hist_head ui + OPFTP_UI_MAX_HIST - i) mod OPFTP_UI_MAX_HIST)))
        [0..<u_hist_count ui]) @
      [''],'', jfield ''clients'' ''[''] @
      emit_list (map (emit_client fmt now_us ui) (snap_clients ui)) @
      ['']}''])"

definition emit_state :: "'x henv \<Rightarrow> nat \<Rightarrow> 'x httpd \<Rightarrow> string \<times> 'x httpd" where
  "emit_state he n h =
     (case hcall (he_now he) h of
        (ms, h) \<Rightarrow> (fst (fold (PUT n) (state_texts (he_rate he) (ms * 1000) h) ([], 0)), h))"

section \<open>Commands\<close>

definition ok_text :: string where
  "ok_text = ''{'' @ jfield ''ok'' ''true'' @ ''}''"

definition error_text :: "string \<Rightarrow> string" where
  "error_text e = ''{'' @ jfield ''ok'' ''false'' @ '','' @ jfield ''error'' (jq e) @ ''}''"

text \<open>\<^const>\<open>None\<close> when \<open>opftp_server_stop\<close> waits for ever.\<close>

definition handle_cmd :: "'x henv \<Rightarrow> string \<Rightarrow> nat \<Rightarrow> 'x httpd \<Rightarrow> (string \<times> 'x httpd) option" where
  "handle_cmd he body n h =
     (let action = (case find_json_str body ''action'' 32 of Some a \<Rightarrow> a | None \<Rightarrow> []) in
      if action = ''stop'' then
        map_option (\<lambda>(rc, l). (c_snprintf n ok_text, h\<lparr> hd_server := l \<rparr>))
          (opftp_server_stop (he_lv he) (he_join he) (hd_server h))
      else if action = ''root'' then
        (case find_json_str body ''path'' 1024 of
           None \<Rightarrow> Some (c_snprintf n (error_text ''path required''), h)
         | Some path \<Rightarrow>
             if path = [] then Some (c_snprintf n (error_text ''path required''), h)
             else
               (case opftp_server_set_root_runtime (Some path) (l_world (hd_server h)) of
                  (rc, w) \<Rightarrow>
                    Some (c_snprintf n (case rc of None \<Rightarrow> ok_text | Some e \<Rightarrow> error_text (''-'' @ dec (he_errno he e))),
                          h\<lparr> hd_server := (hd_server h)\<lparr> l_world := w \<rparr> \<rparr>)))
      else Some (c_snprintf n (error_text ''unknown action''), h))"

section \<open>Requests\<close>

definition http_head :: "string \<Rightarrow> string \<Rightarrow> nat \<Rightarrow> string" where
  "http_head status ctype len =
     ''HTTP/1.0 '' @ status @ crlf @ ''Content-Type: '' @ ctype @ crlf @ ''Content-Length: '' @ dec len @ crlf @
     ''Cache-Control: no-cache'' @ crlf @ ''Connection: close'' @ crlf @ crlf"

text \<open>The head is printed to 256 bytes; the length given to \<open>send\<close> is that of the whole head.\<close>

definition http_send :: "int \<Rightarrow> string \<Rightarrow> string \<Rightarrow> string \<Rightarrow> 'x httpd \<Rightarrow> 'x httpd" where
  "http_send fd status ctype body h =
     h\<lparr> hd_sent := hd_sent h @ [(fd, http_head status ctype (length body))] @ (if body = [] then [] else [(fd, body)]) \<rparr>"

definition assets :: "(string \<times> string \<times> string) list" where
  "assets =
     [([], ''index.html'', ''text/html; charset=utf-8''), (''style.css'', ''style.css'', ''text/css''),
      (''app.js'', ''app.js'', ''application/javascript'')]"

definition serve_asset :: "'x henv \<Rightarrow> int \<Rightarrow> string \<Rightarrow> 'x httpd \<Rightarrow> bool \<times> 'x httpd" where
  "serve_asset he fd path h =
     (case map_of assets path of
        None \<Rightarrow> (False, h)
      | Some (name, ctype) \<Rightarrow>
          (case he_file he (c_snprintf 512 (hd_asset_dir h @ ''/'' @ name)) (hd_sys h) of
             None \<Rightarrow> (False, h)
           | Some buf \<Rightarrow> (True, if he_malloc he (hd_sys h) then http_send fd ''200 OK'' ctype buf h else h)))"

definition blank_line :: "string \<Rightarrow> string option" where
  "blank_line req =
     (case c_strstr req (crlf @ crlf) of
        Some b \<Rightarrow> Some (drop 4 b)
      | None \<Rightarrow> map_option (drop 2) (c_strstr req [CHR 0x0A, CHR 0x0A]))"

text \<open>The loop that reads up to the end of the headers; \<^const>\<open>None\<close> when the connection ends before.\<close>

function read_request :: "'x henv \<Rightarrow> int \<Rightarrow> string \<Rightarrow> 'x httpd \<Rightarrow> string option \<times> 'x httpd" where
  "read_request he fd req h =
     (if length req < HTTPD_MAX_REQ then
        (case hcall (he_recv he fd 512) h of
           (None, h) \<Rightarrow> (None, h)
         | (Some bs, h) \<Rightarrow>
             if bs = [] then (None, h)
             else
               let req = req @ take (HTTPD_MAX_REQ - length req) bs in
               if blank_line (c_str req) \<noteq> None then (Some req, h) else read_request he fd req h)
      else (Some req, h))"
  by pat_completeness auto
termination
  by (relation "measure (\<lambda>(he, fd, req, h). HTTPD_MAX_REQ - length req)")
    (auto simp: min_def simp flip: length_greater_0_conv)

declare read_request.simps [simp del]

text \<open>A conversion \<open>%ns\<close> of \<open>sscanf\<close>.\<close>

definition scan_word :: "nat \<Rightarrow> string \<Rightarrow> (string \<times> string) option" where
  "scan_word n s =
     (let s = dropWhile c_isspace s;
          w = take n (takeWhile (\<lambda>c. \<not> c_isspace c) s)
      in if w = [] then None else Some (w, drop (length w) s))"

definition request_line :: "string \<Rightarrow> (string \<times> string) option" where
  "request_line req =
     Option.bind (scan_word 7 req) (\<lambda>(method, rest). map_option (\<lambda>(path, _). (method, path)) (scan_word 127 rest))"

definition request_body :: "string \<Rightarrow> string \<Rightarrow> string" where
  "request_body method req =
     (if method = ''POST'' then (case blank_line req of Some b \<Rightarrow> c_snprintf 512 b | None \<Rightarrow> []) else [])"

text \<open>The pause after a reply: the poll set is polled, its result ignored.\<close>

definition hd_wait :: "'x henv \<Rightarrow> nat \<Rightarrow> 'x httpd \<Rightarrow> int \<times> 'x httpd" where
  "hd_wait he timeout h =
     (case hcall (he_poll he (hd_poll h) timeout) h of
        ((r, revents), h) \<Rightarrow> (case opftp_pollset_wait r revents (hd_poll h) of (n, p) \<Rightarrow> (n, h\<lparr> hd_poll := p \<rparr>)))"

definition respond :: "'x henv \<Rightarrow> int \<Rightarrow> string \<Rightarrow> string \<Rightarrow> string \<Rightarrow> 'x httpd \<Rightarrow> 'x httpd option" where
  "respond he fd method path body h =
     (if method = ''GET'' then
        if path = ''/api/state'' then
          (case emit_state he HTTPD_BUF h of (buf, h) \<Rightarrow> Some (http_send fd ''200 OK'' ''application/json'' buf h))
        else
          let p = tl path;
              p = (if p = ''index.html'' then [] else p)
          in (case serve_asset he fd p h of
                (True, h) \<Rightarrow> Some h
              | (False, h) \<Rightarrow> Some (http_send fd ''404 Not Found'' ''text/plain'' ''not found'' h))
      else if method = ''POST'' \<and> path = ''/api/cmd'' then
        map_option (\<lambda>(out, h). http_send fd ''200 OK'' ''application/json'' out h) (handle_cmd he body 512 h)
      else Some (http_send fd ''405 Method Not Allowed'' ''text/plain'' ''no'' h))"

definition serve_client :: "'x henv \<Rightarrow> int \<Rightarrow> 'x httpd \<Rightarrow> 'x httpd option" where
  "serve_client he fd h =
     (case read_request he fd [] h of
        (None, h) \<Rightarrow> Some h
      | (Some req, h) \<Rightarrow>
          let req = c_str req in
          (case request_line req of
             None \<Rightarrow> Some h
           | Some (method, path) \<Rightarrow>
               map_option (\<lambda>h. snd (hd_wait he 30 h)) (respond he fd method path (request_body method req) h)))"

text \<open>The body the page posts for a new root, as bytes: quotes are escaped, backslashes are not.\<close>

definition setRoot :: "string \<Rightarrow> string" where
  "setRoot value =
     ''{'' @ jq ''action'' @ '':'' @ jq ''root'' @ '','' @ jq ''path'' @ '':'' @
     jq (concat (map (\<lambda>c. if c = dquote then [bslash, dquote] else [c]) value)) @ ''}''"

section \<open>The thread\<close>

fun conn_slot :: "(int \<Rightarrow> bool) \<Rightarrow> int list \<Rightarrow> nat option" where
  "conn_slot P [] = None"
| "conn_slot P (fd # fds) = (if P fd then Some 0 else map_option Suc (conn_slot P fds))"

lemma conn_slot_Some: "conn_slot P fds = Some k \<Longrightarrow> k < length fds \<and> P (fds ! k)"
  by (induction fds arbitrary: k) (auto split: if_splits)

definition handle_int :: "nat option \<Rightarrow> int" where
  "handle_int r = (case r of Some k \<Rightarrow> int k | None \<Rightarrow> -1)"

lemma slot_used:
  assumes "conn_slot (\<lambda>fd. fd < 0) fds = Some k" "0 \<le> fd"
  shows "length (filter (\<lambda>fd. fd < 0) (fds[k := fd])) < length (filter (\<lambda>fd. fd < 0) fds)"
  using assms by (induction fds arbitrary: k) (auto split: if_splits nat.split)

function accept_conns :: "'x henv \<Rightarrow> 'x httpd \<Rightarrow> 'x httpd" where
  "accept_conns he h =
     (case conn_slot (\<lambda>fd. fd < 0) (hd_conn_fd h) of
        None \<Rightarrow> h
      | Some k \<Rightarrow>
          (case he_accept he (hd_sys h) of
             (None, s) \<Rightarrow> hd_set_sys s h
           | (Some fd, s) \<Rightarrow>
               (case opftp_pollset_add (he_realloc he s) (int fd) POLLIN (Some (int fd)) (hd_poll h) of
                  (r, p) \<Rightarrow>
                    accept_conns he ((hd_set_sys s h)\<lparr> hd_conn_fd := (hd_conn_fd h)[k := int fd],
                      hd_conn_hnd := (hd_conn_hnd h)[k := handle_int r], hd_poll := p \<rparr>))))"
  by pat_completeness auto
termination
  by (relation "measure (\<lambda>(he, h). length (filter (\<lambda>fd. fd < 0) (hd_conn_fd h)))") (auto intro: slot_used)

declare accept_conns.simps [simp del]

definition hd_close :: "'x henv \<Rightarrow> int \<Rightarrow> 'x httpd \<Rightarrow> 'x httpd" where
  "hd_close he fd h = (hd_set_sys (e_close (le_env (he_lv he)) fd (hd_sys h)) h)\<lparr> hd_closed := hd_closed h @ [fd] \<rparr>"

definition serve_conn :: "'x henv \<Rightarrow> int \<Rightarrow> 'x httpd \<Rightarrow> 'x httpd option" where
  "serve_conn he fd h =
     (let slot = conn_slot (\<lambda>x. x = fd) (hd_conn_fd h) in
      map_option
        (\<lambda>h. hd_close he fd
               (case slot of
                  None \<Rightarrow> h
                | Some k \<Rightarrow>
                    h\<lparr> hd_poll := opftp_pollset_remove (hd_conn_hnd h ! k) (hd_poll h),
                       hd_conn_fd := (hd_conn_fd h)[k := -1], hd_conn_hnd := (hd_conn_hnd h)[k := -1] \<rparr>))
        (serve_client he fd h))"

fun hd_events :: "'x henv \<Rightarrow> (int option \<times> poll_events) list \<Rightarrow> 'x httpd \<Rightarrow> 'x httpd option" where
  "hd_events he [] h = Some h"
| "hd_events he ((u, ev) # us) h =
     (let fd = (case u of Some fd \<Rightarrow> fd | None \<Rightarrow> 0) in
      if fd = hd_listen_fd h then hd_events he us (accept_conns he h)
      else Option.bind (serve_conn he fd h) (hd_events he us))"

definition model_poll :: "'x henv \<Rightarrow> 'x httpd \<Rightarrow> 'x httpd" where
  "model_poll he h =
     (case hcall (he_now he) h of
        (ms, h) \<Rightarrow>
          let now_us = ms * 1000 in
          if now_us - hd_last_poll_us h \<ge> 1000000 then
            h\<lparr> hd_ui := opftp_ui_poll now_us ((hd_ui h)\<lparr> u_snap := opftp_server_snapshot (l_world (hd_server h)) \<rparr>),
               hd_last_poll_us := now_us \<rparr>
          else h)"

definition httpd_turn :: "'x henv \<Rightarrow> 'x httpd \<Rightarrow> ('x httpd, 'x httpd) iter option" where
  "httpd_turn he h =
     (if hd_stop h then Some (Return h)
      else
        (case hd_wait he 250 (model_poll he h) of
           (n, h) \<Rightarrow>
             if n \<le> 0 then Some (Continue h)
             else map_option Continue (hd_events he (opftp_pollset_collect 8 (hd_poll h)) h)))"

definition httpd_thread :: "'x henv \<Rightarrow> 'x httpd \<Rightarrow> 'x httpd option" where
  "httpd_thread he h =
     (case hcall (he_now he) h of
        (ms, h) \<Rightarrow>
          let ui = opftp_ui_init (ms * 1000)
          in iterate (httpd_turn he) (h\<lparr> hd_ui := ui, hd_last_poll_us := u_t0_us ui \<rparr>))"

section \<open>Creation and destruction\<close>

text \<open>The web console, or \<^const>\<open>None\<close>, and the server with the outside world after the calls.  Creating the poll
  set fails or succeeds with its pipe.\<close>

definition opftp_httpd_create ::
  "'x henv \<Rightarrow> 'x life \<Rightarrow> string option \<Rightarrow> 16 word \<Rightarrow> string option \<Rightarrow> 'x httpd option \<times> 'x life" where
  "opftp_httpd_create he l version port asset_dir =
     (let env = le_env (he_lv he); port = (if port \<noteq> 0 then port else HTTPD_PORT_DEFAULT) in
      case lcall (e_calloc env) l of
        (None, l) \<Rightarrow> (None, l)
      | (Some _, l) \<Rightarrow>
          (case lcall (e_pipe env) l of
             (None, l) \<Rightarrow> (None, l)
           | (Some (wake_r, wake_w), l) \<Rightarrow>
               (case lcall (e_socket env AF_INET) l of
                  (None, l) \<Rightarrow> (None, l)
                | (Some fd, l) \<Rightarrow>
                    (case lcall (e_bind env fd (Sa_in ipv4_any port)) l of
                       (None, l) \<Rightarrow> (None, upd_world (close_w (le_rv (he_lv he)) fd) l)
                     | (Some _, l) \<Rightarrow>
                         (case lcall (e_listen env fd 4) l of
                            (None, l) \<Rightarrow> (None, upd_world (close_w (le_rv (he_lv he)) fd) l)
                          | (Some _, l) \<Rightarrow>
                              let p = snd (opftp_pollset_add (he_realloc he (v_sys (l_world l))) fd POLLIN (Some fd)
                                             (opftp_pollset_create wake_r))
                              in (case lcall (le_thread (he_lv he)) l of
                                    (None, l) \<Rightarrow> (None, upd_world (close_w (le_rv (he_lv he)) fd) l)
                                  | (Some _, l) \<Rightarrow>
                                      (Some \<lparr> hd_server = l, hd_ui = opftp_ui_init 0, hd_port = port, hd_listen_fd = fd, hd_poll = p,
                                              hd_version = c_snprintf 48 (case version of Some v \<Rightarrow> v | None \<Rightarrow> ''?''),
                                              hd_stop = False, hd_last_poll_us = 0,
                                              hd_conn_fd = replicate HTTPD_MAX_CONN (-1), hd_conn_hnd = replicate HTTPD_MAX_CONN 0,
                                              hd_asset_dir = (case asset_dir of Some d \<Rightarrow> c_snprintf 256 d | None \<Rightarrow> []),
                                              hd_sent = [], hd_closed = [] \<rparr>, l)))))))"

text \<open>\<open>opftp_httpd_destroy\<close> once the thread, which it asks to stop and waits for, has ended.\<close>

definition opftp_httpd_destroy :: "'x henv \<Rightarrow> 'x httpd \<Rightarrow> 'x httpd" where
  "opftp_httpd_destroy he h = hd_close he (hd_listen_fd h) h"

section \<open>The plugin\<close>

text \<open>\<^verbatim>\<open>src/plugin/main.c\<close> but for the notifications on the screen: whether the module stays, the server, and
  its console, which holds the server while it runs.\<close>

definition openps3ftp_module_start :: "'x henv \<Rightarrow> 'x sys \<Rightarrow> (bool \<times> 'x life option \<times> 'x httpd option) option" where
  "openps3ftp_module_start he s =
     (let lv = he_lv he; join = he_join he in
      case opftp_server_create lv False s of
        (None, _) \<Rightarrow> Some (False, None, None)
      | (Some l, _) \<Rightarrow>
          let l = opftp_server_set_v4only True (opftp_server_set_workers 2 (opftp_server_set_root (Some ''/'')
                    (opftp_server_set_port 2121 l)))
          in (case opftp_server_start lv join l of
                (Some e, l) \<Rightarrow> map_option (\<lambda>_. (False, None, None)) (opftp_server_destroy lv join l)
              | (None, l) \<Rightarrow>
                  (case opftp_httpd_create he l (Some ''v4.1-vsh'') 8080 None of
                     (h, l) \<Rightarrow> Some (True, Some l, h))))"

text \<open>The server object that is left, if any, once the module has stopped.\<close>

definition openps3ftp_module_stop :: "'x henv \<Rightarrow> 'x life option \<Rightarrow> 'x httpd option \<Rightarrow> 'x life option option" where
  "openps3ftp_module_stop he server httpd =
     (let server = (case httpd of None \<Rightarrow> server | Some h \<Rightarrow> map_option (\<lambda>_. hd_server (opftp_httpd_destroy he h)) server) in
      case server of
        None \<Rightarrow> Some None
      | Some l \<Rightarrow>
          Option.bind (opftp_server_stop (he_lv he) (he_join he) l)
            (\<lambda>(rc, l). opftp_server_destroy (he_lv he) (he_join he) l))"

end
