(* ===== verification/Reactor_Claims.thy ===== *)
theory Reactor_Claims
  imports Reactor_Machine
begin

text \<open>
  Properties of the running server, over all interleavings of the reactor with the other threads:
  no client is used after it is freed, every job is in one place, the shutdown leaves exactly the
  clients of completions nobody will drain; and of single operations of the reactor: queued replies
  go out in order, leaving the loop terminates, the status snapshot keeps to its arrays.
\<close>

unbundle bit_operations_syntax

section \<open>An instance\<close>

text \<open>A host with one connection waiting on the listener, which is slot 1; \<open>errno\<close> is the script.\<close>

definition demo_renv :: "unit renv" where
  "demo_renv =
     \<lparr> rv_env = void_env, rv_io = idle_io, rv_hs = (\<lambda>t s. (Hs_error, s)), rv_tab = builtin_table False,
       rv_accept = (\<lambda>s. if sys_errno s = EOTHER 0
          then (Accepted 9 (Sa_in [10, 0, 0, 1] 4000), s\<lparr> sys_errno := EAGAIN \<rparr>) else (Accept_none, s)),
       rv_poll = (\<lambda>p t s. ((1, map (\<lambda>i. if i = 1 then POLLIN else 0) [0..<ps_count p]), s)),
       rv_realloc = (\<lambda>s. (True, True)), rv_base = void_fs, rv_realpath = None, rv_ntop = (\<lambda>a. None),
       rv_connect = (\<lambda>h. h), rv_disconnect = (\<lambda>h. h) \<rparr>"

definition demo_world :: "unit world" where
  "demo_world =
     \<lparr> v_clients = Map.empty, v_list = [], v_next = 0, v_srv = default_server,
       v_sys = \<lparr> sys_errno = EOTHER 0, sys_state = () \<rparr>, v_fs = void_fs, v_root_applied = ''/'', v_started = True,
       v_port = 2121, v_workers = 2, v_listen_fd = 4, v_completions = [], v_replies = [],
       v_snap = \<lparr> sn_started = True, sn_port = 2121, sn_root = ''/'', sn_workers = 2, sn_num_clients = 0, sn_clients = [] \<rparr>,
       v_sent = [], v_closed = [], v_running = [], v_stale = False \<rparr>"

text \<open>The world after the first pass of the loop, and after a stop request and the teardown that follows.\<close>

definition demo_turn :: "unit world" where
  "demo_turn =
     (case reactor_turn demo_renv (reactor_enter 5 (True, True) demo_world) of Some (Continue w) \<Rightarrow> w | _ \<Rightarrow> demo_world)"

definition demo_end :: "unit world" where
  "demo_end =
     (case reactor_teardown demo_renv (wake (demo_turn\<lparr> v_srv := (v_srv demo_turn)\<lparr> s_stopping := True \<rparr> \<rparr>)) of
        Some w \<Rightarrow> w | None \<Rightarrow> demo_world)"

lemma demo_ok: "renv_ok demo_renv" "builtin_only (rv_tab demo_renv) (allow_stop demo_world)" "idle_world demo_world"
proof -
  show "renv_ok demo_renv" by (auto simp: renv_ok_def realloc_even_def demo_renv_def hook_ok_def unrelated_def)
  show "builtin_only (rv_tab demo_renv) (allow_stop demo_world)"
    by (simp add: demo_renv_def demo_world_def default_server_def builtin_only_init)
  show "idle_world demo_world"
    by (simp add: idle_world_def demo_world_def default_server_def ring_ok_def ring_list_def queued_jobs_def queue_init_def)
qed

lemma demo_eval:
  "case reactor_turn demo_renv (reactor_enter 5 (True, True) demo_world) of
     Some (Continue w) \<Rightarrow> v_list w = [0] \<and> map_option c_refs (v_clients w 0) = Some 1 \<and>
       v_sent w = [(0, reply_text 220 ''OpenPS3FTP ready.'')] \<and> v_replies w = [] \<and> ring_list (s_ring (v_srv w)) = []
   | _ \<Rightarrow> False"
  by code_simp

lemma demo_run: "reactor_turn demo_renv (reactor_enter 5 (True, True) demo_world) = Some (Continue demo_turn)"
  using demo_eval by (auto simp: demo_turn_def split: option.splits iter.splits)

lemmas demo_facts = demo_eval [unfolded demo_run option.case iter.case]

lemma demo_teardown:
  "case reactor_teardown demo_renv (wake (demo_turn\<lparr> v_srv := (v_srv demo_turn)\<lparr> s_stopping := True \<rparr> \<rparr>)) of
     Some w \<Rightarrow> v_running w = [] \<and> v_replies w = [] \<and> v_completions w = [] \<and> v_closed w = [9, -1, 4]
   | None \<Rightarrow> False"
  by code_simp

lemma demo_end_eval:
  "v_running demo_end = [] \<and> v_replies demo_end = [] \<and> v_completions demo_end = [] \<and> v_closed demo_end = [9, -1, 4] \<and>
   reactor_teardown demo_renv (wake (demo_turn\<lparr> v_srv := (v_srv demo_turn)\<lparr> s_stopping := True \<rparr> \<rparr>)) \<noteq> None"
  using demo_teardown by (auto simp: demo_end_def split: option.splits)

lemma demo_steps: "ssteps demo_renv (Wait, reactor_enter 5 (True, True) demo_world) (Wait, demo_turn)"
  using turn_rsteps [OF demo_run] by (simp add: rsteps_ssteps)

lemma demo_end_steps: "ssteps demo_renv (Wait, reactor_enter 5 (True, True) demo_world) (Gone, demo_end)"
proof -
  let ?w = "wake (demo_turn\<lparr> v_srv := (v_srv demo_turn)\<lparr> s_stopping := True \<rparr> \<rparr>)"
  have "ssteps demo_renv (Wait, reactor_enter 5 (True, True) demo_world) (Wait, ?w)"
    by (rule rtranclp.rtrancl_into_rtrancl [OF demo_steps Other_step [OF Ask_stop]])
  moreover have "sstep demo_renv (Wait, ?w) (Polled Last, ?w)"
    by (intro Reactor_step Stopped) (simp add: wake_def)
  moreover have "reactor_teardown demo_renv ?w = Some demo_end"
    using demo_end_eval by (auto simp: demo_end_def)
  from rsteps_ssteps [OF teardown_rsteps [OF this]] have "ssteps demo_renv (Polled Last, ?w) (Gone, demo_end)" .
  ultimately show ?thesis by (meson rtranclp.rtrancl_into_rtrancl rtranclp_trans)
qed

section \<open>Clients and references\<close>

text \<open>The holders of a client: the reactor's list, its jobs, and replies, queued or in hand.\<close>

definition holders :: "pc \<Rightarrow> 'x world \<Rightarrow> nat \<Rightarrow> nat" where
  "holders pc w cid =
     (if cid \<in> set (v_list w) then 1 else 0) + job_refs (v_srv w) cid +
     count_list (map pr_client (v_replies w)) cid + count_list (fst (in_hand pc)) cid"

lemma holders_exact:
  assumes "world_inv (fst (in_hand pc)) (snd (in_hand pc)) w"
  shows "\<not> v_stale w \<and>
    (case v_clients w cid of Some c \<Rightarrow> c_refs c = holders pc w cid \<and> 0 < c_refs c | None \<Rightarrow> holders pc w cid = 0)"
proof -
  have "holders pc w cid = ext (fst (in_hand pc)) w cid + job_refs (v_srv w) cid"
    by (simp add: holders_def ext_def)
  moreover have "\<not> v_stale w" using assms by (simp add: world_inv_def)
  ultimately show ?thesis using world_invD(1) [OF assms, of cid]
    by (auto simp: client_inv_def cl_ok_def job_refs_def split: option.splits)
qed

text \<open>
  No use after free. From the start of the reactor, under every interleaving of its steps with
  the workers, root changes and stop requests, no client is ever used after it was freed; the
  reference count of a live client is exactly the number of its holders, and a client nobody
  holds has been freed.
\<close>

theorem no_use_after_free:
  assumes "renv_ok rv" "builtin_only (rv_tab rv) (allow_stop w0)" "idle_world w0" "0 \<le> fd"
    "ssteps rv (Wait, reactor_enter fd ra w0) (pc, w)"
  shows "\<not> v_stale w \<and>
    (case v_clients w cid of Some c \<Rightarrow> c_refs c = holders pc w cid \<and> 0 < c_refs c | None \<Rightarrow> holders pc w cid = 0)"
  using reachable_inv [OF assms] by (intro holders_exact) (simp add: machine_inv_def)

theorem no_use_after_free_witness:
  "\<not> v_stale demo_turn \<and> v_list demo_turn = [0] \<and> map_option c_refs (v_clients demo_turn 0) = Some 1 \<and>
   v_sent demo_turn = [(0, reply_text 220 ''OpenPS3FTP ready.'')]"
  using no_use_after_free [OF demo_ok _ demo_steps, of 0] demo_facts by simp

section \<open>Jobs\<close>

text \<open>Where the jobs are: queued, taken by a worker, posted, in the reactor's hand.\<close>

definition job_places :: "pc \<Rightarrow> 'x world \<Rightarrow> nat list" where
  "job_places pc w = ring_list (s_ring (v_srv w)) @ v_running w @ v_completions w @ snd (in_hand pc)"

text \<open>
  C6: Job bookkeeping. In every reachable state each job is in exactly one place: the queue, a
  worker, the completion list or the reactor's hand, so that it is run once and completed once. Each
  job's client is alive. A client's \<open>job\<close> pointer is never dangling: it names a job exactly when that
  job is the client's and of its current generation, so completions of an earlier connection are
  told apart. The environment is that of \<open>renv_ok\<close>: hooks keep to the public interface and growing
  the poll set does not fail by half.
\<close>

theorem jobs_accounted:
  assumes "renv_ok rv" "builtin_only (rv_tab rv) (allow_stop w0)" "idle_world w0" "0 \<le> fd"
    "ssteps rv (Wait, reactor_enter fd ra w0) (pc, w)"
  shows "distinct (job_places pc w) \<and> set (job_places pc w) = dom (s_jobs (v_srv w)) \<and>
    (\<forall>jid j. s_jobs (v_srv w) jid = Some j \<longrightarrow> v_clients w (j_client j) \<noteq> None) \<and>
    (\<forall>cid c jid. v_clients w cid = Some c \<longrightarrow> (c_job c = Some jid \<longleftrightarrow>
       (\<exists>j. s_jobs (v_srv w) jid = Some j \<and> j_client j = cid \<and> j_generation j = c_generation c)))"
proof -
  have inv: "world_inv (fst (in_hand pc)) (snd (in_hand pc)) w"
    using reachable_inv [OF assms] by (simp add: machine_inv_def)
  note jh = world_invD(3) [OF inv]
  have "distinct (job_places pc w)" "set (job_places pc w) = dom (s_jobs (v_srv w))"
    using jh unfolding jobs_held_def job_places_def by blast+
  moreover have "v_clients w (j_client j) \<noteq> None" if "s_jobs (v_srv w) jid = Some j" for jid j
  proof -
    have "jid \<in> set (job_places pc w)" using calculation(2) that by blast
    from held_job [OF inv this [unfolded job_places_def]] that show ?thesis by (metis option.distinct(1) option.inject)
  qed
  moreover have "c_job c = Some jid \<longleftrightarrow>
      (\<exists>j. s_jobs (v_srv w) jid = Some j \<and> j_client j = cid \<and> j_generation j = c_generation c)"
    if "v_clients w cid = Some c" for cid c jid
    using world_invD(1) [OF inv, of cid] that
    by (auto simp: client_inv_def cl_ok_def link_iff_def job_view_def split: option.splits if_splits)
  ultimately show ?thesis by blast
qed

theorem jobs_accounted_witness:
  "distinct (job_places Wait demo_turn) \<and> set (job_places Wait demo_turn) = dom (s_jobs (v_srv demo_turn)) \<and>
   v_list demo_turn = [0]"
  using jobs_accounted [OF demo_ok _ demo_steps] demo_facts by simp

section \<open>Shutdown\<close>

lemma release_job_keeps:
  "s_jobs (v_srv (release_job rv jid w)) = (if s_jobs (v_srv w) jid = None then s_jobs (v_srv w) else
     if v_clients w (j_client (the (s_jobs (v_srv w) jid))) = None then s_jobs (v_srv w)
     else (s_jobs (v_srv w))(jid := None))"
  "v_list (release_job rv jid w) = v_list w" "v_replies (release_job rv jid w) = v_replies w"
  "v_completions (release_job rv jid w) = v_completions w" "v_running (release_job rv jid w) = v_running w"
  "s_ring (v_srv (release_job rv jid w)) = s_ring (v_srv w)"
  by (auto simp: release_job_def on_client_def get_hst_def split: option.split)

lemma release_jobs_inv:
  fixes rv
  assumes "world_inv xs js w" "v_list w = []"
  defines "w' \<equiv> fold (release_job rv) js w"
  shows "world_inv xs [] w'" "\<And>jid. s_jobs (v_srv w') jid = (if jid \<in> set js then None else s_jobs (v_srv w) jid)"
    "v_list w' = []" "v_replies w' = v_replies w" "v_completions w' = v_completions w" "v_running w' = v_running w"
    "s_ring (v_srv w') = s_ring (v_srv w)"
proof -
  have "world_inv xs [] w' \<and> (\<forall>jid. s_jobs (v_srv w') jid = (if jid \<in> set js then None else s_jobs (v_srv w) jid)) \<and>
    v_list w' = [] \<and> v_replies w' = v_replies w \<and> v_completions w' = v_completions w \<and> v_running w' = v_running w \<and>
    s_ring (v_srv w') = s_ring (v_srv w)"
    using assms(1,2) unfolding w'_def
  proof (induction js arbitrary: w)
    case (Cons jid js)
    obtain j c where j: "s_jobs (v_srv w) jid = Some j" "v_clients w (j_client j) = Some c"
      using held_job [OF Cons(2), of jid] by auto
    from Cons(1) [OF release_job_inv [OF Cons(2,3)]] Cons(3) j show ?case by (simp add: release_job_keeps)
  qed simp
  then show "world_inv xs [] w'" "\<And>jid. s_jobs (v_srv w') jid = (if jid \<in> set js then None else s_jobs (v_srv w) jid)"
    "v_list w' = []" "v_replies w' = v_replies w" "v_completions w' = v_completions w" "v_running w' = v_running w"
    "s_ring (v_srv w') = s_ring (v_srv w)" by auto
qed

lemma release_queued_inv:
  fixes rv
  assumes inv: "world_inv [] [] w" and l: "v_list w = []"
  defines "w' \<equiv> release_queued rv w"
  shows "world_inv [] [] w'" "v_list w' = []" "v_replies w' = v_replies w"
    "\<And>jid. s_jobs (v_srv w') jid = (if jid \<in> set (ring_list (s_ring (v_srv w))) then None else s_jobs (v_srv w) jid)"
    "v_completions w' = v_completions w" "v_running w' = v_running w"
    "s_ring (v_srv w') = (s_ring (v_srv w))\<lparr> queue_head := 0, queue_tail := 0, queue_count := 0 \<rparr>"
proof -
  let ?q = "s_ring (v_srv w)"
  let ?s = "(v_srv w)\<lparr> s_ring := ?q\<lparr> queue_head := 0, queue_tail := 0, queue_count := 0 \<rparr> \<rparr>"
  have "jobs_held (v_running w @ v_completions w @ ring_list ?q) ?s"
    using world_invD(3) [OF inv] unfolding jobs_held_def
    by (auto simp: ring_ok_def ring_list_def queued_jobs_def)
  then have "world_inv [] (ring_list ?q) (w\<lparr> v_srv := ?s, v_running := v_running w, v_completions := v_completions w \<rparr>)"
    using world_invD(2) [OF inv] by (intro srv_inv [OF inv]) simp_all
  then have "world_inv [] (ring_list ?q) (w\<lparr> v_srv := ?s \<rparr>)" by simp
  from release_jobs_inv [OF this, where rv = rv] l show "world_inv [] [] w'" "v_list w' = []" "v_replies w' = v_replies w"
    "\<And>jid. s_jobs (v_srv w') jid = (if jid \<in> set (ring_list (s_ring (v_srv w))) then None else s_jobs (v_srv w) jid)"
    "v_completions w' = v_completions w" "v_running w' = v_running w"
    "s_ring (v_srv w') = (s_ring (v_srv w))\<lparr> queue_head := 0, queue_tail := 0, queue_count := 0 \<rparr>"
    by (simp_all add: w'_def release_queued_def Let_def)
qed

text \<open>
  C16: What a shutdown frees. Once the reactor has left its loop and the workers have finished,
  releasing the queue frees every client except exactly those with a reply still queued or with a
  completion that was posted after the reactor's last drain: these are never freed, since nothing
  drains the lists any more. In particular nothing remains when both lists are empty, and nothing
  freed is used on the way. The environment is that of \<open>renv_ok\<close>, as above.
\<close>

theorem shutdown_frees:
  assumes "renv_ok rv" "builtin_only (rv_tab rv) (allow_stop w0)" "idle_world w0" "0 \<le> fd"
    "ssteps rv (Wait, reactor_enter fd ra w0) (Gone, w)" "v_running w = []"
  shows "\<not> v_stale (release_queued rv w) \<and>
    (v_clients (release_queued rv w) cid \<noteq> None \<longleftrightarrow>
       cid \<in> pr_client ` set (v_replies w) \<or>
       (\<exists>jid \<in> set (v_completions w). \<exists>j. s_jobs (v_srv w) jid = Some j \<and> j_client j = cid))"
proof -
  have inv: "world_inv [] [] w" and l: "v_list w = []"
    using reachable_inv [OF assms(1-5)] by (simp_all add: machine_inv_def)
  let ?w = "release_queued rv w"
  note r = release_queued_inv [OF inv l, where rv = rv]
  have d: "dom (s_jobs (v_srv w)) = set (ring_list (s_ring (v_srv w))) \<union> set (v_completions w)"
    "set (ring_list (s_ring (v_srv w))) \<inter> set (v_completions w) = {}"
    using world_invD(3) [OF inv] assms(6) by (auto simp: jobs_held_def)
  have "job_view (v_srv ?w) cid jid = (if jid \<in> set (v_completions w) then job_view (v_srv w) cid jid else None)" for jid
    using d by (auto simp: job_view_def r(4) split: option.splits)
  then have "job_view (v_srv ?w) cid \<noteq> Map.empty \<longleftrightarrow>
      (\<exists>jid \<in> set (v_completions w). \<exists>j. s_jobs (v_srv w) jid = Some j \<and> j_client j = cid)"
    by (auto simp: fun_eq_iff job_view_def split: option.splits if_splits)
  moreover have "v_clients ?w cid \<noteq> None \<longleftrightarrow> 0 < ext [] ?w cid \<or> job_view (v_srv ?w) cid \<noteq> Map.empty"
    using world_invD(1) [OF r(1), of cid] job_refs_zero [OF world_invD(3) [OF r(1)], of cid]
    by (auto simp: client_inv_def cl_ok_def split: option.splits)
  moreover have "0 < ext [] ?w cid \<longleftrightarrow> cid \<in> pr_client ` set (v_replies w)"
    using r(2,3) by (simp add: ext_def count_list_0_iff flip: neq0_conv)
  ultimately show ?thesis using r(1) by (simp add: world_inv_def)
qed

theorem shutdown_frees_witness:
  "\<not> v_stale (release_queued demo_renv demo_end) \<and> v_clients (release_queued demo_renv demo_end) 0 = None \<and>
   v_closed demo_end = [9, -1, 4]"
proof -
  have "v_running demo_end = []" using demo_end_eval by blast
  from shutdown_frees [OF demo_ok _ demo_end_steps this, of 0] show ?thesis using demo_end_eval by simp
qed

section \<open>Leaving the loop\<close>


section \<open>Queued replies\<close>

text \<open>A reply is due when its client still has the generation it had when the reply was queued.\<close>

definition due :: "'x world \<Rightarrow> pending_reply \<Rightarrow> bool" where
  "due w p \<longleftrightarrow> map_option c_generation (v_clients w (pr_client p)) = Some (pr_generation p)"

lemma drain_reply_effect:
  assumes "v_clients w (pr_client p) = Some c"
  shows "v_sent (drain_reply rv p w) = v_sent w @ (if due w p then [(pr_client p, pr_text p)] else [])"
    "v_clients (drain_reply rv p w) q = Some d \<Longrightarrow> map_option c_generation (v_clients w q) = Some (c_generation d)"
  using assms
  by (auto simp: drain_reply_def on_client_def put_hst_def get_hst_def due_def split: if_splits)

lemma drain_fold_sent:
  "world_inv (map pr_client ps) [] w \<Longrightarrow>
   v_sent (fold (drain_reply rv) ps w) = v_sent w @ map (\<lambda>p. (pr_client p, pr_text p)) (filter (due w) ps)"
proof (induction ps arbitrary: w)
  case (Cons p ps)
  let ?w = "drain_reply rv p w"
  obtain c where c: "v_clients w (pr_client p) = Some c" using world_inv_held [OF Cons(2), of "pr_client p"] by auto
  have inv: "world_inv (map pr_client ps) [] ?w" using Cons(2) by (simp add: drain_reply_inv)
  have "due ?w q = due w q" if q: "q \<in> set ps" for q
  proof -
    obtain d where d: "v_clients ?w (pr_client q) = Some d" using world_inv_held [OF inv, of "pr_client q"] q by auto
    from drain_reply_effect(2) [OF c d] d show ?thesis by (auto simp: due_def)
  qed
  then have "filter (due ?w) ps = filter (due w) ps" by (rule filter_cong [OF refl])
  with Cons(1) [OF inv] drain_reply_effect(1) [OF c] show ?case by simp
qed simp

lemma drain_sent:
  assumes "world_inv [] [] w"
  shows "v_sent (opftp_client_drain_replies rv w) =
      v_sent w @ map (\<lambda>p. (pr_client p, pr_text p)) (filter (due w) (v_replies w))"
    "v_replies (opftp_client_drain_replies rv w) = []"
proof -
  have "v_replies (fold (drain_reply rv) ps v) = v_replies v" for ps and v :: "'a world"
    by (induction ps arbitrary: v) (simp_all add: drain_reply_def)
  moreover have "due (w\<lparr> v_replies := [] \<rparr>) = due w" by (simp add: due_def fun_eq_iff)
  ultimately show "v_sent (opftp_client_drain_replies rv w) =
      v_sent w @ map (\<lambda>p. (pr_client p, pr_text p)) (filter (due w) (v_replies w))"
    "v_replies (opftp_client_drain_replies rv w) = []"
    using drain_fold_sent [of "v_replies w" "w\<lparr> v_replies := [] \<rparr>" rv] assms
    by (simp_all add: opftp_client_drain_replies_def inv_take_replies)
qed

text \<open>Threads queue one reply after the other, each for a client that is still there.\<close>

definition queue_replies :: "(nat \<times> string) list \<Rightarrow> 'x world \<Rightarrow> 'x world" where
  "queue_replies ms w = fold (\<lambda>(cid, text). queue_reply True cid text) ms w"

lemma queue_replies_effect:
  assumes "world_inv [] [] w" "\<And>m. m \<in> set ms \<Longrightarrow> v_clients w (fst m) \<noteq> None"
  shows "world_inv [] [] (queue_replies ms w) \<and> v_sent (queue_replies ms w) = v_sent w \<and>
    due (queue_replies ms w) = due w \<and>
    (\<exists>qs. v_replies (queue_replies ms w) = v_replies w @ qs \<and> map (\<lambda>p. (pr_client p, pr_text p)) qs = ms \<and>
      list_all (due w) qs)"
  using assms
proof (induction ms arbitrary: w)
  case (Cons m ms)
  obtain cid msg where m: "m = (cid, msg)" by fastforce
  obtain c where c: "v_clients w cid = Some c" using Cons(3) [of m] by (auto simp: m)
  let ?w = "queue_reply True cid msg w"
  have inv: "world_inv [] [] ?w" by (rule queue_reply_inv [OF Cons(2) c])
  have d: "due ?w = due w" using c by (auto simp: due_def queue_reply_def fun_eq_iff)
  have "v_clients ?w (fst k) \<noteq> None" if "k \<in> set ms" for k
    using Cons(3) [of k] that c by (simp add: queue_reply_def)
  from Cons(1) [OF inv this] obtain qs where q: "world_inv [] [] (queue_replies ms ?w)"
      "v_sent (queue_replies ms ?w) = v_sent ?w" "due (queue_replies ms ?w) = due ?w"
      "v_replies (queue_replies ms ?w) = v_replies ?w @ qs" "map (\<lambda>p. (pr_client p, pr_text p)) qs = ms"
      "list_all (due ?w) qs" by blast
  let ?p = "\<lparr> pr_client = cid, pr_generation = c_generation c, pr_text = msg \<rparr>"
  have s: "queue_replies (m # ms) w = queue_replies ms ?w" by (simp add: queue_replies_def m)
  have r: "v_sent ?w = v_sent w" "v_replies ?w = v_replies w @ [?p]" "due w ?p"
    using c by (simp_all add: queue_reply_def due_def)
  show ?case
    unfolding s using q r d m by (auto intro!: exI [of _ "?p # qs"])
qed (simp add: queue_replies_def)

text \<open>
  C17: Queued replies go out in order. However many replies other threads queue for connected
  clients, the next drain sends, after what was sent before, the replies that were waiting
  already, those left out whose client has been disconnected since, and then the new ones, each
  once and in the order in which they were queued; and it empties the queue.
\<close>

theorem replies_in_order:
  assumes "world_inv [] [] w" "\<And>m. m \<in> set ms \<Longrightarrow> v_clients w (fst m) \<noteq> None"
  shows "v_sent (opftp_client_drain_replies rv (queue_replies ms w)) =
      v_sent w @ map (\<lambda>p. (pr_client p, pr_text p)) (filter (due w) (v_replies w)) @ ms \<and>
    v_replies (opftp_client_drain_replies rv (queue_replies ms w)) = []"
proof -
  from queue_replies_effect [OF assms] obtain qs where q: "world_inv [] [] (queue_replies ms w)"
      "v_sent (queue_replies ms w) = v_sent w" "due (queue_replies ms w) = due w"
      "v_replies (queue_replies ms w) = v_replies w @ qs" "map (\<lambda>p. (pr_client p, pr_text p)) qs = ms"
      "list_all (due w) qs" by blast
  have "filter (due w) qs = qs" using q(6) by (simp add: list_all_iff)
  with q(2-5) drain_sent [OF q(1), of rv] show ?thesis by simp
qed

lemma demo_inv: "world_inv [] [] demo_turn"
  using reachable_inv [OF demo_ok _ demo_steps] by (simp add: machine_inv_def)

theorem replies_in_order_witness:
  "v_sent (opftp_client_drain_replies demo_renv (queue_replies [(0, ''first''), (0, ''second'')] demo_turn)) =
     [(0, reply_text 220 ''OpenPS3FTP ready.''), (0, ''first''), (0, ''second'')]"
proof -
  have "v_replies demo_turn = []" "m \<in> set [(0, ''first''), (0, ''second'')] \<Longrightarrow> v_clients demo_turn (fst m) \<noteq> None" for m
    using demo_facts by auto
  with replies_in_order [OF demo_inv, of "[(0, ''first''), (0, ''second'')]" demo_renv] demo_facts
  show ?thesis by simp
qed

section \<open>The snapshot\<close>

definition snapshot_client_ok :: "snapshot_client \<Rightarrow> bool" where
  "snapshot_client_ok sc \<longleftrightarrow> length (sc_peer sc) < 64 \<and> length (sc_user sc) < 64 \<and> length (sc_cwd sc) < 1024 \<and>
     (case sc_xfer sc of None \<Rightarrow> True
      | Some (op, path, b, t) \<Rightarrow> op \<in> {''LIST'', ''RETR'', ''STOR'', ''APPE'', ''COPY''} \<and> length path < 1024)"

definition snapshot_ok :: "snapshot \<Rightarrow> bool" where
  "snapshot_ok s \<longleftrightarrow> sn_num_clients s \<le> OPFTP_SNAPSHOT_MAX_CLIENTS \<and> length (sn_clients s) = sn_num_clients s \<and>
     length (sn_root s) < 1024 \<and> list_all snapshot_client_ok (sn_clients s)"

lemma snprintf_length: "0 < n \<Longrightarrow> length (c_snprintf n s) < n"
  by (simp add: c_snprintf_def)

lemma format_peer_length:
  assumes "\<And>a s. rv_ntop rv a = Some s \<Longrightarrow> length s < 64"
  shows "length (format_peer rv c 64) < 64"
  using assms by (auto simp: format_peer_def snprintf_length split: sockaddr.split option.split)

lemma snapshot_entry_ok:
  assumes "\<And>a s. rv_ntop rv a = Some s \<Longrightarrow> length s < 64"
  shows "snapshot_client_ok (snapshot_entry rv s c)"
proof -
  have "c_snprintf 8 (job_op_name op) \<in> {''LIST'', ''RETR'', ''STOR'', ''APPE'', ''COPY''}" for op
    by (cases op) (simp_all add: c_snprintf_def)
  then show ?thesis
    using format_peer_length [of rv c, OF assms]
    by (auto simp: snapshot_client_ok_def snapshot_entry_def snprintf_length bind_eq_Some_conv split: option.split)
qed

text \<open>
  C30: The snapshot is well formed. Whatever the connections, a refreshed snapshot stays within the
  arrays of its type: at most 16 clients, as many entries as it counts, every string with its
  terminator inside its field, the operation of a transfer one of the five names; and it shows the
  first 16 clients of the reactor's list, which has the latest connection first, none left out.
\<close>

theorem snapshot_well_formed:
  assumes "world_inv xs js w" "\<And>a s. rv_ntop rv a = Some s \<Longrightarrow> length s < 64"
  shows "snapshot_ok (opftp_server_snapshot (snapshot_refresh rv w)) \<and>
    sn_num_clients (opftp_server_snapshot (snapshot_refresh rv w)) = min OPFTP_SNAPSHOT_MAX_CLIENTS (length (v_list w)) \<and>
    map sc_cwd (sn_clients (opftp_server_snapshot (snapshot_refresh rv w))) =
      map (\<lambda>cid. c_snprintf 1024 (c_cwd (the (v_clients w cid)))) (take OPFTP_SNAPSHOT_MAX_CLIENTS (v_list w))"
proof -
  let ?l = "take OPFTP_SNAPSHOT_MAX_CLIENTS (v_list w)"
  have "v_clients w cid \<noteq> None" if "cid \<in> set ?l" for cid
    using world_inv_held [OF assms(1), of cid] in_set_takeD [OF that] by auto
  then have m: "List.map_filter (v_clients w) ?l = map (\<lambda>cid. the (v_clients w cid)) ?l"
    by (auto simp: List.map_filter_def filter_id_conv)
  have "snapshot_client_ok (snapshot_entry rv (v_srv w) c)" for c by (rule snapshot_entry_ok) (rule assms(2))
  then show ?thesis
    by (simp add: opftp_server_snapshot_def snapshot_refresh_def Let_def m snapshot_ok_def snprintf_length list_all_iff)
      (simp add: snapshot_entry_def)
qed

theorem snapshot_well_formed_witness:
  "sn_num_clients (opftp_server_snapshot (snapshot_refresh demo_renv demo_turn)) = 1 \<and>
   snapshot_ok (opftp_server_snapshot (snapshot_refresh demo_renv demo_turn))"
  using snapshot_well_formed [OF demo_inv, of demo_renv] demo_facts by (simp add: demo_renv_def)

end
