(* ===== verification/Lifecycle_Correct.thy ===== *)
theory Lifecycle_Correct
  imports Lifecycle Reactor_Claims
begin

text \<open>
  The invariants of the lifecycle: what initialisation keeps, that a started server is an idle world to
  which the invariant of the reactor applies, and what a shutdown leaves.
\<close>

section \<open>A stopped server\<close>

text \<open>A server on which nothing runs and nothing waits.\<close>

definition quiet :: "'x world \<Rightarrow> bool" where
  "quiet w \<longleftrightarrow> v_clients w = Map.empty \<and> v_list w = [] \<and> v_replies w = [] \<and> v_completions w = [] \<and>
     v_running w = [] \<and> \<not> v_stale w \<and> s_jobs (v_srv w) = Map.empty \<and> 0 < v_workers w \<and>
     queue_head (s_ring (v_srv w)) = 0 \<and> queue_tail (s_ring (v_srv w)) = 0 \<and> queue_count (s_ring (v_srv w)) = 0"

definition stopped_life :: "'x life \<Rightarrow> bool" where
  "stopped_life l \<longleftrightarrow> quiet (l_world l) \<and> \<not> v_started (l_world l) \<and> l_tab l = None"

lemma upd_simps [simp]:
  "l_world (upd_world f l) = f (l_world l)" "l_world (upd_server g l) = (l_world l)\<lparr> v_srv := g (v_srv (l_world l)) \<rparr>"
  "l_tab (upd_world f l) = l_tab l" "l_tab (upd_server g l) = l_tab l"
  "l_ready (upd_world f l) = l_ready l" "l_ready (upd_server g l) = l_ready l"
  "l_reactor_running (upd_world f l) = l_reactor_running l" "l_reactor_running (upd_server g l) = l_reactor_running l"
  "l_reactor_done (upd_world f l) = l_reactor_done l" "l_reactor_done (upd_server g l) = l_reactor_done l"
  "l_starting (upd_world f l) = l_starting l" "l_starting (upd_server g l) = l_starting l"
  "l_compl_mutex (upd_world f l) = l_compl_mutex l" "l_compl_mutex (upd_server g l) = l_compl_mutex l"
  "l_workers (upd_world f l) = l_workers l" "l_workers (upd_server g l) = l_workers l"
  "l_stop_timeout_ms (upd_world f l) = l_stop_timeout_ms l" "l_stop_timeout_ms (upd_server g l) = l_stop_timeout_ms l"
  by (simp_all add: upd_world_def upd_server_def)

lemma quiet_srv:
  "quiet (w\<lparr> v_srv := s \<rparr>) \<longleftrightarrow> quiet w" if "s_jobs s = s_jobs (v_srv w)"
    "queue_head (s_ring s) = queue_head (s_ring (v_srv w))" "queue_tail (s_ring s) = queue_tail (s_ring (v_srv w))"
    "queue_count (s_ring s) = queue_count (s_ring (v_srv w))"
  using that by (simp add: quiet_def)

lemma quiet_upd [simp]:
  "quiet (w\<lparr> v_sys := x \<rparr>) = quiet w" "quiet (w\<lparr> v_started := b \<rparr>) = quiet w" "quiet (w\<lparr> v_port := p \<rparr>) = quiet w"
  "quiet (w\<lparr> v_listen_fd := fd \<rparr>) = quiet w" "quiet (w\<lparr> v_fs := fs \<rparr>) = quiet w"
  "quiet (w\<lparr> v_root_applied := r \<rparr>) = quiet w" "quiet (w\<lparr> v_snap := sn \<rparr>) = quiet w" "quiet (close_w rv fd w) = quiet w"
  "quiet (w\<lparr> v_closed := cs \<rparr>) = quiet w"
  by (simp_all add: quiet_def close_w_def)

subsection \<open>What initialisation keeps\<close>

text \<open>Everything but the listener and its port, the command table, the job queue, the wrapper and the
  outside world.\<close>

definition same_life :: "'x life \<Rightarrow> 'x life \<Rightarrow> bool" where
  "same_life l l' \<longleftrightarrow> (quiet (l_world l) \<longrightarrow> quiet (l_world l')) \<and> v_started (l_world l') = v_started (l_world l) \<and>
     s_allow_stop (v_srv (l_world l')) = s_allow_stop (v_srv (l_world l)) \<and> l_ready l' = l_ready l \<and>
     l_reactor_running l' = l_reactor_running l \<and> v_workers (l_world l') = v_workers (l_world l)"

lemma same_life_refl [simp]: "same_life l l"
  by (simp add: same_life_def)

lemma same_life_trans [trans]: "same_life l l' \<Longrightarrow> same_life l' l'' \<Longrightarrow> same_life l l''"
  by (simp add: same_life_def)

lemma same_life_fields [simp]:
  "same_life l (l'\<lparr> l_threads := n \<rparr>) = same_life l l'" "same_life l (l'\<lparr> l_workers := b \<rparr>) = same_life l l'"
  "same_life l (l'\<lparr> l_queue := b \<rparr>) = same_life l l'" "same_life l (l'\<lparr> l_queue_mutex := b \<rparr>) = same_life l l'"
  "same_life l (l'\<lparr> l_queue_cond := b \<rparr>) = same_life l l'" "same_life l (l'\<lparr> l_compl_mutex := b \<rparr>) = same_life l l'"
  "same_life (l\<lparr> l_threads := n \<rparr>) l' = same_life l l'"
  "same_life l (l'\<lparr> l_fs := b \<rparr>) = same_life l l'" "same_life l (l'\<lparr> l_tab := t \<rparr>) = same_life l l'"
  by (simp_all add: same_life_def)

lemma same_life_ring [simp]:
  "same_life l (upd_server (\<lambda>s. s\<lparr> s_ring := (s_ring s)\<lparr> pool_running := b \<rparr> \<rparr>) l') = same_life l l'"
  "same_life l (upd_server (\<lambda>s. s\<lparr> s_ring := (s_ring s)\<lparr> pool_running := b, workers_alive := n \<rparr> \<rparr>) l') = same_life l l'"
  "same_life l (upd_server (\<lambda>s. s\<lparr> s_ring := (s_ring s)\<lparr> queue_cap := n, queue := q \<rparr> \<rparr>) l') = same_life l l'"
  by (simp_all add: same_life_def quiet_srv)

lemma lcall_same: "lcall f l = (r, l') \<Longrightarrow> same_life l l' \<and> l_tab l' = l_tab l \<and> v_listen_fd (l_world l') = v_listen_fd (l_world l) \<and>
    v_closed (l_world l') = v_closed (l_world l) \<and> v_srv (l_world l') = v_srv (l_world l) \<and> l_workers l' = l_workers l"
  by (auto simp: lcall_def same_life_def split: prod.splits)

lemma listen_on_same: "listen_on lv fd a l = (b, l') \<Longrightarrow> same_life l l' \<and> l_tab l' = l_tab l"
  by (auto simp: listen_on_def same_life_def lcall_def split: prod.splits option.splits)

lemma close_same: "same_life l (upd_world (close_w rv fd) l)"
  by (simp add: same_life_def close_w_def)

lemma bind_v4_same: "bind_v4 lv l = (rc, l') \<Longrightarrow> same_life l l' \<and> l_tab l' = l_tab l"
  by (auto simp: bind_v4_def dest!: lcall_same listen_on_same intro: same_life_trans close_same
      split: prod.splits option.splits bool.splits)

lemma bind_listener_same:
  assumes "bind_listener lv l = (rc, l')"
  shows "same_life l l' \<and> l_tab l' = l_tab l"
proof -
  have c: "same_life l l'" if "same_life x l'" "same_life l x" for x using that by (rule same_life_trans [rotated])
  show ?thesis
    using assms unfolding bind_listener_def
    by (auto dest!: lcall_same listen_on_same bind_v4_same intro: same_life_trans close_same
        elim!: c split: if_splits prod.splits option.splits bool.splits)
qed

lemma create_workers_same:
  "create_workers lv n l = (rc, l') \<Longrightarrow> same_life l l' \<and> l_tab l' = l_tab l \<and>
     v_listen_fd (l_world l') = v_listen_fd (l_world l) \<and> v_closed (l_world l') = v_closed (l_world l) \<and>
     (rc = None \<longrightarrow> v_srv (l_world l') = v_srv (l_world l)) \<and> l_workers l' = l_workers l"
proof (induction n arbitrary: l)
  case (Suc n)
  obtain r l1 where c: "lcall (le_thread lv) l = (r, l1)" by fastforce
  note s = lcall_same [OF c]
  show ?case
  proof (cases r)
    case None
    with Suc(2) c have "rc = Some ENOMEM" "l' = upd_server (\<lambda>s. s\<lparr> s_ring := (s_ring s)\<lparr> pool_running := False \<rparr> \<rparr>) l1" by simp_all
    with s show ?thesis by simp
  next
    case (Some u)
    with Suc(2) c have "create_workers lv n (l1\<lparr> l_threads := l_threads l1 + 1 \<rparr>) = (rc, l')" by simp
    from Suc(1) [OF this] s show ?thesis by (auto intro: same_life_trans)
  qed
qed auto

lemma datachan_init_same:
  assumes "opftp_datachan_init lv l = (rc, l')"
  shows "same_life l l' \<and> l_tab l' = l_tab l \<and> v_listen_fd (l_world l') = v_listen_fd (l_world l) \<and>
    v_closed (l_world l') = v_closed (l_world l) \<and>
    (rc = None \<and> quiet (l_world l) \<longrightarrow> s_ring (v_srv (l_world l')) = queue_init (v_workers (l_world l))) \<and>
    (rc = None \<longrightarrow> l_workers l')"
proof -
  obtain q l1 where c1: "lcall (e_calloc (le_env lv)) l = (q, l1)" by fastforce
  obtain qm l2 where c2: "lcall (e_calloc (le_env lv)) l1 = (qm, l2)" by fastforce
  obtain qc l3 where c3: "lcall (e_calloc (le_env lv)) l2 = (qc, l3)" by fastforce
  obtain cm l4 where c4: "lcall (e_calloc (le_env lv)) l3 = (cm, l4)" by fastforce
  define l5 where "l5 = upd_server (\<lambda>s. s\<lparr> s_ring := (s_ring s)\<lparr> queue_cap := v_workers (l_world l) * 2,
      queue := replicate (v_workers (l_world l) * 2) None \<rparr> \<rparr>)
    (l4\<lparr> l_queue := q \<noteq> None, l_queue_mutex := qm \<noteq> None, l_queue_cond := qc \<noteq> None, l_compl_mutex := cm \<noteq> None \<rparr>)"
  obtain ws l6 where c5: "lcall (e_calloc (le_env lv)) l5 = (ws, l6)" by fastforce
  note s = lcall_same [OF c1] lcall_same [OF c2] lcall_same [OF c3] lcall_same [OF c4]
  have k4: "same_life l l4" "l_tab l4 = l_tab l" "v_srv (l_world l4) = v_srv (l_world l)"
    "v_listen_fd (l_world l4) = v_listen_fd (l_world l)" "v_closed (l_world l4) = v_closed (l_world l)"
    using s by (auto intro: same_life_trans)
  have k5: "same_life l l5" "l_tab l5 = l_tab l" "v_listen_fd (l_world l5) = v_listen_fd (l_world l)" "v_closed (l_world l5) = v_closed (l_world l)"
    "s_ring (v_srv (l_world l5)) = (s_ring (v_srv (l_world l)))\<lparr> queue_cap := v_workers (l_world l) * 2,
      queue := replicate (v_workers (l_world l) * 2) None \<rparr>"
    using k4 by (simp_all add: l5_def)
  define l7 where "l7 = upd_server (\<lambda>s. s\<lparr> s_ring := (s_ring s)\<lparr> pool_running := True, workers_alive := 0 \<rparr> \<rparr>)
    (l6\<lparr> l_workers := True, l_threads := 0 \<rparr>)"
  have e: "opftp_datachan_init lv l =
      (if q = None \<or> qm = None \<or> qc = None \<or> cm = None then (Some ENOMEM, l5)
       else case ws of None \<Rightarrow> (Some ENOMEM, l6\<lparr> l_workers := False \<rparr>)
         | Some _ \<Rightarrow> create_workers lv (if v_workers (l_world l6) > 0 then v_workers (l_world l6) else 2) l7)"
    unfolding opftp_datachan_init_def Let_def c1 prod.case c2 c3 c4 l5_def [symmetric] c5 l7_def ..
  show ?thesis
  proof (cases "q = None \<or> qm = None \<or> qc = None \<or> cm = None \<or> ws = None")
    case True
    with assms e have "rc = Some ENOMEM \<and> (l' = l5 \<or> l' = l6\<lparr> l_workers := False \<rparr>)"
      by (auto split: if_splits)
    with k5 lcall_same [OF c5] show ?thesis by (auto intro: same_life_trans)
  next
    case False
    with assms e have w: "create_workers lv (if v_workers (l_world l6) > 0 then v_workers (l_world l6) else 2) l7 = (rc, l')"
      by (auto split: if_splits)
    have k7: "l_workers l7" "same_life l l7" "l_tab l7 = l_tab l" "v_listen_fd (l_world l7) = v_listen_fd (l_world l)" "v_closed (l_world l7) = v_closed (l_world l)"
      "quiet (l_world l) \<Longrightarrow> s_ring (v_srv (l_world l7)) = queue_init (v_workers (l_world l))"
      using k5 lcall_same [OF c5] by (auto simp: l7_def queue_init_def quiet_def intro: same_life_trans)
    from create_workers_same [OF w] k7 show ?thesis by (auto intro: same_life_trans)
  qed
qed

lemma reactor_init_bound:
  assumes "opftp_reactor_init lv l = (rc, l')" "bind_listener lv l = (None, lb)"
  shows "same_life lb l'" "v_listen_fd (l_world l') = v_listen_fd (l_world lb)" "v_closed (l_world l') = v_closed (l_world lb)"
    "rc = None \<Longrightarrow> l_workers l'"
    "rc = None \<Longrightarrow> quiet (l_world lb) \<Longrightarrow> s_ring (v_srv (l_world l')) = queue_init (v_workers (l_world lb))"
    "l_tab lb = None \<Longrightarrow> le_after lv = [] \<Longrightarrow> l_tab l' \<noteq> None \<Longrightarrow> l_tab l' = builtin_table (s_allow_stop (v_srv (l_world lb)))"
proof -
  obtain ca l1 where c: "(case l_tab lb of None \<Rightarrow> lcall (e_calloc (le_env lv)) lb | Some _ \<Rightarrow> (Some (), lb)) = (ca, l1)" by fastforce
  define l2 where "l2 = l1\<lparr> l_tab := register_all (le_after lv)
    (opftp_commands_init (s_allow_stop (v_srv (l_world l1))) (opftp_dispatch_init (ca \<noteq> None) (l_tab l1))) \<rparr>"
  obtain rd l3 where d: "opftp_datachan_init lv l2 = (rd, l3)" by fastforce
  obtain cf l4 where f: "lcall (e_calloc (le_env lv)) l3 = (cf, l4)" by fastforce
  have e: "opftp_reactor_init lv l =
      (case rd of Some e \<Rightarrow> (Some e, l3)
       | None \<Rightarrow> (case opftp_fs_rooted (cf \<noteq> None) (rv_realpath (le_rv lv)) (rv_base (le_rv lv)) (s_root (v_srv (l_world l4))) of
           None \<Rightarrow> (Some ENOMEM, l4\<lparr> l_fs := False \<rparr>)
         | Some fs \<Rightarrow> (None, upd_world (\<lambda>w. w\<lparr> v_fs := fs, v_root_applied := c_snprintf OPFTP_MAX_PATH (s_root (v_srv w)) \<rparr>)
             (l4\<lparr> l_fs := True \<rparr>))))"
    unfolding opftp_reactor_init_def assms(2) prod.case option.case Let_def c l2_def [symmetric] d f
    by (simp split: option.split)
  have k1: "same_life lb l1" "l_tab l1 = l_tab lb" "v_listen_fd (l_world l1) = v_listen_fd (l_world lb)"
    "v_closed (l_world l1) = v_closed (l_world lb)" "v_srv (l_world l1) = v_srv (l_world lb)"
    using c lcall_same [of "e_calloc (le_env lv)" lb ca l1] by (auto split: option.splits)
  then have k2: "same_life lb l2" "v_listen_fd (l_world l2) = v_listen_fd (l_world lb)" "v_closed (l_world l2) = v_closed (l_world lb)"
    by (simp_all add: l2_def)
  note k3 = datachan_init_same [OF d]
  note k4 = lcall_same [OF f]
  have x: "same_life l4 l'" "v_listen_fd (l_world l') = v_listen_fd (l_world l4)" "v_closed (l_world l') = v_closed (l_world l4)"
    "v_srv (l_world l') = v_srv (l_world l4)" "l_tab l' = l_tab l4" "l_workers l' = l_workers l4" if "rd = None"
    using assms(1) e that by (auto simp: same_life_def split: option.splits)
  have y: "l' = l3" "rc = rd" if "rd \<noteq> None" using assms(1) e that by auto
  have k: "same_life l2 l' \<and> v_listen_fd (l_world l') = v_listen_fd (l_world l2) \<and> v_closed (l_world l') = v_closed (l_world l2) \<and>
      l_tab l' = l_tab l2"
    using x y k3 k4 by (cases rd) (auto intro: same_life_trans)
  with k2 show "same_life lb l'" "v_listen_fd (l_world l') = v_listen_fd (l_world lb)" "v_closed (l_world l') = v_closed (l_world lb)"
    by (auto intro: same_life_trans)
  show "l_workers l'" if "rc = None"
  proof -
    have "rd = None" using y that by (cases rd) auto
    with x k3 k4 show ?thesis by simp
  qed
  show "s_ring (v_srv (l_world l')) = queue_init (v_workers (l_world lb))" if "rc = None" "quiet (l_world lb)"
  proof -
    have "rd = None" using y that(1) by (cases rd) auto
    moreover have "quiet (l_world l2)" "v_workers (l_world l2) = v_workers (l_world lb)" using k2(1) that(2) by (simp_all add: same_life_def)
    ultimately show ?thesis using x k3 k4 by simp
  qed
  show "l_tab l' = builtin_table (s_allow_stop (v_srv (l_world lb)))" if t: "l_tab lb = None" "le_after lv = []" "l_tab l' \<noteq> None"
  proof -
    have n: "opftp_commands_init b None = (None :: 'a handler cmd_table option)" for b
    proof -
      have "register_all cs None = (None :: 'a handler cmd_table option)" for cs
        by (induction cs) (auto simp: opftp_dispatch_register_def)
      then show ?thesis by (simp add: opftp_commands_init_def)
    qed
    have "l_tab l2 = opftp_commands_init (s_allow_stop (v_srv (l_world lb))) (opftp_dispatch_init (ca \<noteq> None) None)"
      using t k1 by (simp add: l2_def)
    with k t(3) n show ?thesis by (cases ca) (auto simp: opftp_dispatch_init_def empty_table_def)
  qed
qed

lemma reactor_init_same:
  assumes "opftp_reactor_init lv l = (rc, l')"
  shows "same_life l l'"
proof (cases "bind_listener lv l")
  case (Pair r lb)
  show ?thesis
  proof (cases r)
    case None
    with Pair reactor_init_bound(1) [OF assms] bind_listener_same [OF Pair] show ?thesis by (auto intro: same_life_trans)
  next
    case (Some e)
    with Pair assms have "l' = lb" by (simp add: opftp_reactor_init_def)
    with bind_listener_same [OF Pair] show ?thesis by simp
  qed
qed

lemma reactor_init_up:
  assumes "opftp_reactor_init lv l = (None, l')" "quiet (l_world l)"
  shows "quiet (l_world l')" "s_ring (v_srv (l_world l')) = queue_init (v_workers (l_world l))" "l_workers l'"
    "l_tab l = None \<Longrightarrow> le_after lv = [] \<Longrightarrow> l_tab l' \<noteq> None \<Longrightarrow> l_tab l' = builtin_table (s_allow_stop (v_srv (l_world l')))"
proof -
  obtain lb where b: "bind_listener lv l = (None, lb)" using assms(1)
    by (cases "bind_listener lv l"; cases "fst (bind_listener lv l)") (auto simp: opftp_reactor_init_def)
  note s = bind_listener_same [OF b]
  note i = reactor_init_bound [OF assms(1) b]
  from s assms(2) have q: "quiet (l_world lb)" "v_workers (l_world lb) = v_workers (l_world l)" by (simp_all add: same_life_def)
  from q i(1) show "quiet (l_world l')" by (simp add: same_life_def)
  from q i(5) show "s_ring (v_srv (l_world l')) = queue_init (v_workers (l_world l))" by simp
  from i(4) show "l_workers l'" by simp
  show "l_tab l' = builtin_table (s_allow_stop (v_srv (l_world l')))" if "l_tab l = None" "le_after lv = []" "l_tab l' \<noteq> None"
    using i(6) that s i(1) by (simp add: same_life_def)
qed

section \<open>A started server\<close>

definition up_life :: "'x life \<Rightarrow> bool" where
  "up_life l \<longleftrightarrow> idle_world (l_world l) \<and> v_started (l_world l) \<and> sn_started (opftp_server_snapshot (l_world l)) \<and>
     sn_port (opftp_server_snapshot (l_world l)) = opftp_server_bound_port l \<and> \<not> s_stopping (v_srv (l_world l)) \<and> l_ready l \<and> \<not> l_starting l"

lemma quiet_idle:
  assumes "quiet w" "s_ring (v_srv w) = queue_init (v_workers w)"
  shows "idle_world w"
  using assms by (simp add: quiet_def idle_world_def ring_ok_def ring_list_def queued_jobs_def queue_init_def)

lemma started:
  assumes "opftp_server_start lv join l = (None, l')" "stopped_life l"
  shows "up_life l'" "l_reactor_running l'" "l_workers l'" "0 < v_workers (l_world l')"
    "le_after lv = [] \<Longrightarrow> l_tab l' \<noteq> None \<Longrightarrow> l_tab l' = builtin_table (s_allow_stop (v_srv (l_world l')))"
proof -
  obtain rc l1 where i: "opftp_reactor_init lv (l\<lparr> l_starting := True \<rparr>) = (rc, l1)" by fastforce
  have rc: "rc = None" using assms i by (auto simp: opftp_server_start_def stopped_life_def split: option.splits)
  define l2 where "l2 = upd_server (\<lambda>s. s\<lparr> s_stopping := False \<rparr>) (upd_world (\<lambda>w. w\<lparr> v_started := True \<rparr>) (l1\<lparr> l_reactor_done := False \<rparr>))"
  obtain th l3 where th: "lcall (le_thread lv) l2 = (th, l3)" by fastforce
  have ns: "\<not> v_started (l_world l)" using assms(2) by (simp add: stopped_life_def)
  have e: "opftp_server_start lv join l = (case th of
      None \<Rightarrow> (Some ENOMEM, opftp_reactor_shutdown lv join ((upd_world (\<lambda>w. w\<lparr> v_started := False \<rparr>) l3)\<lparr> l_reactor := False, l_starting := False \<rparr>))
    | Some _ \<Rightarrow> (None, publish_ready (l3\<lparr> l_reactor := True, l_reactor_running := True \<rparr>)))"
    using ns unfolding opftp_server_start_def i rc prod.case option.case Let_def l2_def [symmetric] th by simp
  then have l': "l' = publish_ready (l3\<lparr> l_reactor := True, l_reactor_running := True \<rparr>)"
    using assms(1) by (auto split: option.splits)
  have q: "quiet (l_world (l\<lparr> l_starting := True \<rparr>))" "l_tab (l\<lparr> l_starting := True \<rparr>) = None" using assms(2) by (simp_all add: stopped_life_def)
  note u = reactor_init_up [OF i [unfolded rc] q(1)]
  have w: "v_workers (l_world l1) = v_workers (l_world l)" using reactor_init_same [OF i] by (simp add: same_life_def)
  have 2: "l_workers l2" "quiet (l_world l2)" "s_ring (v_srv (l_world l2)) = queue_init (v_workers (l_world l2))" "l_tab l2 = l_tab l1"
    "s_allow_stop (v_srv (l_world l2)) = s_allow_stop (v_srv (l_world l1))" "v_started (l_world l2)" "\<not> s_stopping (v_srv (l_world l2))"
    using u(1,2,3) w by (simp_all add: l2_def quiet_srv)
  note s = lcall_same [OF th]
  from 2 s have 3: "l_workers l3" "quiet (l_world l3)" "s_ring (v_srv (l_world l3)) = queue_init (v_workers (l_world l3))" "l_tab l3 = l_tab l1"
    "s_allow_stop (v_srv (l_world l3)) = s_allow_stop (v_srv (l_world l1))" "v_started (l_world l3)" "\<not> s_stopping (v_srv (l_world l3))"
    by (auto simp: same_life_def)
  have "idle_world (l_world l')" by (rule quiet_idle) (use 3 in \<open>simp_all add: l' publish_ready_def\<close>)
  with 3 show "up_life l'" by (simp add: up_life_def l' publish_ready_def opftp_server_snapshot_def opftp_server_bound_port_def)
  show "l_reactor_running l'" "l_workers l'" "0 < v_workers (l_world l')"
    using 3 by (simp_all add: l' publish_ready_def quiet_def)
  show "l_tab l' = builtin_table (s_allow_stop (v_srv (l_world l')))" if "le_after lv = []" "l_tab l' \<noteq> None"
    using u(4) q(2) that 3 by (simp add: l' publish_ready_def)
qed

text \<open>The calls that configure a server before it is started.\<close>

inductive configure :: "'x lenv \<Rightarrow> 'x life \<Rightarrow> 'x life \<Rightarrow> bool" for lv where
  "configure lv l (opftp_server_set_port p l)"
| "configure lv l (opftp_server_set_root r l)"
| "configure lv l (opftp_server_set_workers n l)"
| "configure lv l (opftp_server_set_stop_timeout n l)"
| "opftp_server_set_tls lv c k l = (rc, l') \<Longrightarrow> configure lv l l'"
| "configure lv l (opftp_server_set_require_tls b l)"
| "configure lv l (opftp_server_set_allow_stop b l)"
| "configure lv l (opftp_server_set_pasv_range p q l)"
| "configure lv l (opftp_server_set_v4only b l)"

lemma configure_stopped: "configure lv l l' \<Longrightarrow> stopped_life l \<Longrightarrow> stopped_life l'"
proof (induction rule: configure.induct)
  case (5 c k l rc l')
  then show ?case
    by (auto simp: opftp_server_set_tls_def stopped_life_def quiet_srv same_life_def dest!: lcall_same split: option.splits prod.splits)
qed (auto simp: stopped_life_def opftp_server_set_port_def opftp_server_set_root_def opftp_server_set_workers_def
    opftp_server_set_stop_timeout_def opftp_server_set_require_tls_def opftp_server_set_allow_stop_def
    opftp_server_set_pasv_range_def opftp_server_set_v4only_def quiet_def split: option.split)

lemma create_stopped:
  assumes "opftp_server_create lv sb s = (Some l, s')"
  shows "stopped_life l"
proof -
  have "\<exists>s. l = new_life lv sb s" using assms by (auto simp: opftp_server_create_def split: prod.splits option.splits if_splits)
  then show ?thesis by (auto simp: new_life_def stopped_life_def quiet_def no_ring_def)
qed

lemma configured_stopped: "(configure lv)\<^sup>*\<^sup>* l l' \<Longrightarrow> stopped_life l \<Longrightarrow> stopped_life l'"
  by (induction rule: rtranclp_induct) (auto intro: configure_stopped)

section \<open>A stopped server again\<close>

lemma on_client_workers [simp]: "v_workers (on_client cid f w) = v_workers w"
  by (simp add: on_client_def put_hst_def split: option.split)

lemma reactor_workers [simp]:
  "v_workers (disconnect_client rv cid w) = v_workers w" "v_workers (close_w rv fd w) = v_workers w"
  "v_workers (drain_reply rv p w) = v_workers w" "v_workers (complete_one rv jid w) = v_workers w"
  "v_workers (apply_root_change rv w) = v_workers w" "v_workers (snapshot_refresh rv w) = v_workers w"
  "v_workers (close_listener rv w) = v_workers w" "v_workers (release_job rv jid w) = v_workers w"
  "v_workers (cancel_queued w) = v_workers w" "v_workers (wake w) = v_workers w"
  by (auto simp: disconnect_client_def close_w_def drain_reply_def complete_one_def apply_root_change_def
      snapshot_refresh_def close_listener_def release_job_def cancel_queued_def wake_def Let_def split: option.split prod.split)

lemma accept_one_workers [simp]: "v_workers (accept_one rv fd peer w) = v_workers w"
  by (auto simp: accept_one_def Let_def split: option.split prod.split)

lemma dispatch_event_workers: "dispatch_event rv ue w = Some w' \<Longrightarrow> v_workers w' = v_workers w"
proof -
  assume d: "dispatch_event rv ue w = Some w'"
  have a: "v_workers x = v_workers w" if "accept_clients rv w = Some x" for x
    using that unfolding accept_clients_def
    by (rule iterate_rule [where I = "\<lambda>x. v_workers x = v_workers w"])
      (auto simp: accept_step_def Let_def split: prod.splits accept_result.splits)
  obtain u ev where "ue = (u, ev)" by fastforce
  with d a show ?thesis
    by (cases u) (auto simp: dispatch_event_def put_hst_def Let_def split: option.splits if_splits)
qed

lemma wstep_workers: "wstep w w' \<Longrightarrow> v_workers w' = v_workers w"
  by (cases rule: wstep.cases)
    (auto simp: set_job_def queue_reply_def opftp_server_set_root_runtime_def split: option.splits if_splits)

lemma sstep_workers:
  assumes "sstep rv x y"
  shows "v_workers (snd y) = v_workers (snd x)"
  using assms
proof cases
  case Reactor_step
  then show ?thesis by cases (simp_all add: dispatch_event_workers)
qed (simp add: wstep_workers)

lemma ssteps_workers: "ssteps rv x y \<Longrightarrow> v_workers (snd y) = v_workers (snd x)"
  by (induction rule: rtranclp_induct) (auto dest: sstep_workers)

text \<open>Once the reactor thread is done, the others are the workers and callers of the API; a join ends when
  every worker has posted the job it ran.\<close>

definition tick_ok :: "'x lenv \<Rightarrow> bool" where
  "tick_ok lv \<longleftrightarrow> (\<forall>l. l_reactor_done l \<longrightarrow> (\<exists>w. le_tick lv l = l\<lparr> l_world := w \<rparr> \<and> wstep\<^sup>*\<^sup>* (l_world l) w))"

definition join_ok :: "('x world \<Rightarrow> 'x world) \<Rightarrow> bool" where
  "join_ok join \<longleftrightarrow> (\<forall>w. wstep\<^sup>*\<^sup>* w (join w) \<and> v_running (join w) = [])"

definition left_world :: "'x world \<Rightarrow> bool" where
  "left_world w \<longleftrightarrow> world_inv [] [] w \<and> v_list w = [] \<and> 0 < v_workers w"

lemma wsteps_left: "wstep\<^sup>*\<^sup>* w w' \<Longrightarrow> left_world w \<Longrightarrow> left_world w'"
proof (induction rule: rtranclp_induct)
  case (step y z)
  with wstep_workers [OF step(2)] step show ?case using wstep_inv [of y z "[]" "[]"] wstep_keeps [of y z] by (simp add: left_world_def)
qed

lemma wait_workers_run:
  "wait_workers lv left l = (b, l') \<Longrightarrow> tick_ok lv \<Longrightarrow> l_reactor_done l \<Longrightarrow>
   \<exists>w. l' = l\<lparr> l_world := w \<rparr> \<and> wstep\<^sup>*\<^sup>* (l_world l) w"
proof (induction lv left l rule: wait_workers.induct)
  case (1 lv left l)
  show ?case
  proof (cases "workers_alive (s_ring (v_srv (l_world l))) = 0 \<or> left \<le> 0")
    case True
    with 1(2) have "l' = l" by (subst (asm) wait_workers.simps) (auto split: if_splits)
    then show ?thesis by (intro exI [of _ "l_world l"]) simp
  next
    case False
    with 1(2) have r: "wait_workers lv (left - 10) (le_tick lv l) = (b, l')" by (subst (asm) wait_workers.simps) simp
    obtain w where w: "le_tick lv l = l\<lparr> l_world := w \<rparr>" "wstep\<^sup>*\<^sup>* (l_world l) w" using 1(3,4) unfolding tick_ok_def by blast
    from 1(1) [OF _ _ r 1(3)] False w 1(4) obtain w' where "l' = l\<lparr> l_world := w' \<rparr>" "wstep\<^sup>*\<^sup>* w w'" by auto
    with w(2) show ?thesis by (auto intro: rtranclp_trans)
  qed
qed

text \<open>The listener: closed when the reactor leaves, and nobody else opens it.\<close>

lemma wstep_listen: "wstep w w' \<Longrightarrow> v_listen_fd w' = v_listen_fd w"
  by (cases rule: wstep.cases)
    (auto simp: set_job_def queue_reply_def opftp_server_set_root_runtime_def wake_def cancel_queued_def
      split: option.splits if_splits)

lemma wsteps_listen: "wstep\<^sup>*\<^sup>* w w' \<Longrightarrow> v_listen_fd w' = v_listen_fd w"
  by (induction rule: rtranclp_induct) (simp_all add: wstep_listen)

lemma sstep_listener_closed:
  assumes "sstep rv x y" "fst x = Gone \<Longrightarrow> v_listen_fd (snd x) = -1" "fst y = Gone"
  shows "v_listen_fd (snd y) = -1"
  using assms(1)
proof cases
  case Reactor_step
  then show ?thesis using assms(2,3) by cases (auto simp: close_listener_def Let_def split: if_splits)
next
  case Other_step
  then show ?thesis using assms(2,3) by (simp add: wstep_listen)
qed

lemma listener_closed:
  assumes "ssteps rv (Wait, w0) (Gone, w)"
  shows "v_listen_fd w = -1"
proof -
  have "fst y = Gone \<longrightarrow> v_listen_fd (snd y) = -1" if "ssteps rv (Wait, w0) y" for y
    using that by (induction rule: rtranclp_induct) (auto dest: sstep_listener_closed)
  with assms show ?thesis by fastforce
qed

lemma release_queued_listen: "v_listen_fd (release_queued rv w) = v_listen_fd w"
proof -
  have "v_listen_fd (release_job rv jid x) = v_listen_fd x" for jid x
    by (simp add: release_job_def on_client_def put_hst_def split: option.split)
  then have "v_listen_fd (fold (release_job rv) js x) = v_listen_fd x" for js x
    by (induction js arbitrary: x) simp_all
  then show ?thesis by (simp add: release_queued_def Let_def)
qed

lemma left_no_poll:
  assumes "left_world w"
  shows "left_world (w\<lparr> v_srv := (v_srv w)\<lparr> s_pollset := None \<rparr> \<rparr>)"
proof -
  have inv: "world_inv [] [] w" using assms by (simp add: left_world_def)
  have "poll_users (v_srv w) = (\<lambda>_. None)"
    using world_invD(4) [OF inv] assms by (auto simp: left_world_def fun_eq_iff intro: option.exhaust)
  then have "world_inv [] [] (w\<lparr> v_srv := (v_srv w)\<lparr> s_pollset := None \<rparr>, v_running := v_running w, v_completions := v_completions w \<rparr>)"
    by (intro srv_inv [OF inv job_view_cong])
      (use world_invD(3) [OF inv] in \<open>simp_all add: poll_users_def polls_valid_def jobs_held_def fun_eq_iff\<close>)
  then show ?thesis using assms by (simp add: left_world_def)
qed

lemma released_quiet:
  assumes "left_world w" "v_running w = []" "v_completions w = []" "v_replies w = []"
  shows "quiet (release_queued rv w)"
proof -
  let ?w = "release_queued rv w"
  have inv: "world_inv [] [] w" "v_list w = []" using assms(1) by (simp_all add: left_world_def)
  note r = release_queued_inv [OF inv, where rv = rv]
  have ring: "ring_list (s_ring (v_srv ?w)) = []" by (simp add: r(7) ring_list_def queued_jobs_def)
  have "dom (s_jobs (v_srv ?w)) = {}"
    using world_invD(3) [OF r(1)] ring assms(2,3) r(5,6) by (simp add: jobs_held_def)
  then have j: "s_jobs (v_srv ?w) = Map.empty" by simp
  have "v_clients ?w cid = None" for cid
  proof -
    have "job_view (v_srv ?w) cid = Map.empty" by (simp add: job_view_def j fun_eq_iff)
    then have "holders Gone ?w cid = 0" using assms(4) r(2,3) by (simp add: holders_def job_refs_def)
    with holders_exact [of Gone ?w cid] r(1) show ?thesis by (auto split: option.splits)
  qed
  moreover have "v_workers ?w = v_workers w"
  proof -
    have "v_workers (fold (release_job rv) js x) = v_workers x" for js x by (induction js arbitrary: x) simp_all
    then show ?thesis by (simp add: release_queued_def Let_def)
  qed
  ultimately show ?thesis
    using assms r j by (auto simp: quiet_def left_world_def world_inv_def fun_eq_iff)
qed

lemma shutdown_result:
  assumes "left_world (l_world l)" "pool_running (s_ring (v_srv (l_world l)))" "l_reactor_done l" "l_workers l" "tick_ok lv" "join_ok join"
  defines "l' \<equiv> opftp_datachan_shutdown lv join l"
  shows "\<not> v_stale (l_world l') \<and>
    (\<not> l_workers l' \<and> v_completions (l_world l') = [] \<and> v_replies (l_world l') = [] \<longrightarrow> quiet (l_world l')) \<and>
    (\<not> l_workers l' \<longrightarrow> \<not> l_queue l' \<and> \<not> l_queue_mutex l' \<and> \<not> l_queue_cond l' \<and> \<not> l_compl_mutex l' \<and> l_threads l' = 0) \<and>
    v_listen_fd (l_world l') = v_listen_fd (l_world l) \<and> l_reactor l' = l_reactor l \<and>
    l_reactor_running l' = l_reactor_running l \<and> l_ready l' = l_ready l"
proof -
  obtain b l1 where w: "wait_workers lv (l_stop_timeout_ms l) (upd_world cancel_queued l) = (b, l1)" by fastforce
  from wait_workers_run [OF w assms(5)] assms(3) obtain w1 where
    l1: "l1 = (upd_world cancel_queued l)\<lparr> l_world := w1 \<rparr>" "wstep\<^sup>*\<^sup>* (cancel_queued (l_world l)) w1" by auto
  have "wstep (l_world l) (cancel_queued (l_world l))" by (rule Stop_pool)
  with l1(2) have left1: "left_world w1" using wsteps_left assms(1) by (meson converse_rtranclp_into_rtranclp)
  have k: "wstep\<^sup>*\<^sup>* w1 (join w1)" "v_running (join w1) = []" using assms(6) by (simp_all add: join_ok_def)
  note left2 = wsteps_left [OF k(1) left1]
  have n: "v_listen_fd w1 = v_listen_fd (l_world l)" "v_listen_fd (join w1) = v_listen_fd (l_world l)"
    using wsteps_listen [OF l1(2)] wsteps_listen [OF k(1)] by (simp_all add: cancel_queued_def)
  have e: "l' = (if b then (upd_world (release_queued (le_rv lv)) ((upd_world join l1)\<lparr> l_workers := False, l_threads := 0 \<rparr>))
                  \<lparr> l_queue := False, l_queue_mutex := False, l_queue_cond := False, l_compl_mutex := False \<rparr> else l1)"
    using assms(2) w by (simp add: l'_def opftp_datachan_shutdown_def Let_def)
  show ?thesis
  proof (cases b)
    case True
    have inv: "world_inv [] [] (join w1)" "v_list (join w1) = []" using left2 by (simp_all add: left_world_def)
    note r = release_queued_inv [OF inv, where rv = "le_rv lv"]
    have f: "l_world l' = release_queued (le_rv lv) (join w1)" by (simp add: e True l1)
    have "\<not> v_stale (l_world l')" using r(1) unfolding f by (simp add: world_inv_def)
    moreover have "quiet (l_world l')" if "v_completions (l_world l') = []" "v_replies (l_world l') = []"
      using released_quiet [OF left2 k(2)] that r(3,5) unfolding f by simp
    moreover have "v_listen_fd (l_world l') = v_listen_fd (l_world l)" by (simp add: f n release_queued_listen)
    ultimately show ?thesis by (simp add: e True l1 upd_world_def)
  next
    case False
    have "l_workers l' = l_workers l" by (simp add: e False l1 upd_world_def)
    with left1 assms(4) n(1) show ?thesis by (simp add: e False l1 upd_world_def left_world_def world_inv_def)
  qed
qed

end
