(* ===== verification/Lifecycle_Claims.thy ===== *)
theory Lifecycle_Claims
  imports Lifecycle_Correct
begin

text \<open>
  What holds over the life of a server: a server that was created, configured and started is an idle
  world to which the invariant of the reactor applies, and stopping it brings it back to where it can be
  started again.  Three things are not as intended: a start that fails keeps the listener, a stop that
  comes during a second start is lost, and a stop whose workers do not leave in time reports success.
\<close>

section \<open>A concrete server\<close>

definition demo_lenv :: "unit lenv" where
  "demo_lenv =
     \<lparr> le_rv = demo_renv\<lparr> rv_env := void_env\<lparr> e_socket := (\<lambda>_ s. (Some 4, s)), e_bind := (\<lambda>_ _ s. (Some (), s)),
           e_listen := (\<lambda>_ _ s. (Some (), s)), e_getsockname := (\<lambda>_ s. (Some (Sa_in ipv4_any 2121), s)) \<rparr> \<rparr>,
       le_thread = (\<lambda>s. (Some (), s)), le_tls_init = (\<lambda>_ _. op_fail ENOTSUP), le_after = [], le_tick = (\<lambda>l. l) \<rparr>"

abbreviation demo_sys :: "unit sys" where
  "demo_sys \<equiv> \<lparr> sys_errno = EOTHER 0, sys_state = () \<rparr>"

abbreviation demo_new :: "unit life" where
  "demo_new \<equiv> new_life demo_lenv False demo_sys"

definition post_job :: "nat \<Rightarrow> 'x world \<Rightarrow> 'x world" where
  "post_job jid w = wake (w\<lparr> v_running := remove1 jid (v_running w), v_completions := jid # v_completions w \<rparr>)"

definition demo_join :: "'x world \<Rightarrow> 'x world" where
  "demo_join w = fold post_job (v_running w) w"

definition demo_up :: "unit life" where
  "demo_up = snd (opftp_server_start demo_lenv demo_join (opftp_server_set_v4only True demo_new))"

abbreviation demo_rv :: "unit renv" where
  "demo_rv \<equiv> (le_rv demo_lenv)\<lparr> rv_tab := l_tab demo_up \<rparr>"

definition demo_asked :: "unit world" where
  "demo_asked = (let w = reactor_enter 5 (True, True) (l_world demo_up) in wake (w\<lparr> v_srv := (v_srv w)\<lparr> s_stopping := True \<rparr> \<rparr>))"

definition demo_left :: "unit world" where
  "demo_left = (case reactor_teardown demo_rv demo_asked of Some w \<Rightarrow> w | None \<Rightarrow> demo_asked)"

lemma demo_create: "opftp_server_create demo_lenv False demo_sys = (Some demo_new, demo_sys)"
  by (simp add: opftp_server_create_def demo_lenv_def void_env_def)

lemma builtin_table_set: "builtin_table b \<noteq> None"
  using builtin_call [of b "''NOOP''"] by (auto simp: opftp_dispatch_call_def builtin_commands_def split: option.splits)

lemmas demo_init = opftp_reactor_init_def bind_listener_def bind_v4_def listen_on_def lcall_def opftp_datachan_init_def
  opftp_fs_rooted_def new_life_def demo_lenv_def demo_renv_def void_env_def upd_world_def upd_server_def
  numeral_2_eq_2 opftp_dispatch_init_def empty_table_simps [symmetric] builtin_table_set Let_def

lemma demo_start:
  "opftp_server_start demo_lenv demo_join (opftp_server_set_v4only True demo_new) = (None, demo_up)" "l_tab demo_up \<noteq> None"
  "s_ring (v_srv (l_world demo_up)) = queue_init 2" "l_compl_mutex demo_up"
proof -
  have s: "fst (opftp_server_start demo_lenv demo_join (opftp_server_set_v4only True demo_new)) = None \<and> l_tab demo_up \<noteq> None \<and>
      s_ring (v_srv (l_world demo_up)) = queue_init 2 \<and> l_compl_mutex demo_up"
    by (simp add: demo_up_def opftp_server_start_def opftp_server_set_v4only_def publish_ready_def
        queue_init_def no_ring_def demo_init)
  then show "opftp_server_start demo_lenv demo_join (opftp_server_set_v4only True demo_new) = (None, demo_up)" "l_tab demo_up \<noteq> None"
    "s_ring (v_srv (l_world demo_up)) = queue_init 2" "l_compl_mutex demo_up"
    by (auto simp: demo_up_def prod_eq_iff)
qed

lemma demo_stopped: "stopped_life (opftp_server_set_v4only True demo_new)"
  by (rule configure_stopped [OF _ create_stopped [OF demo_create]]) (rule configure.intros)

lemma demo_idle: "v_clients (l_world demo_up) = Map.empty" "v_list (l_world demo_up) = []" "v_replies (l_world demo_up) = []"
  "v_completions (l_world demo_up) = []" "v_running (l_world demo_up) = []" "l_ready demo_up" "\<not> l_starting demo_up"
  "l_reactor_running demo_up"
  using started(1,2) [OF demo_start(1) demo_stopped] by (simp_all add: up_life_def idle_world_def)

lemma demo_lenv_ok: "le_after demo_lenv = []" "renv_ok demo_rv" "tick_ok demo_lenv"
proof -
  show "le_after demo_lenv = []" by (simp add: demo_lenv_def)
  show "renv_ok demo_rv" by (auto simp: demo_lenv_def demo_renv_def renv_ok_def realloc_even_def hook_ok_def unrelated_def)
  show "tick_ok demo_lenv" by (auto simp: tick_ok_def demo_lenv_def intro!: exI [of _ "l_world _"])
qed

lemma demo_join_ok: "join_ok demo_join"
proof -
  have "wstep\<^sup>*\<^sup>* w (fold post_job js w) \<and> v_running (fold post_job js w) = []" if "v_running w = js" for js and w :: "'a world"
    using that
  proof (induction js arbitrary: w)
    case (Cons j js)
    have "wstep w (post_job j w)" unfolding post_job_def by (rule Post) (simp add: Cons(2))
    moreover have "v_running (post_job j w) = js" by (simp add: post_job_def wake_def Cons(2))
    ultimately show ?case using Cons(1) [of "post_job j w"] by (auto intro: converse_rtranclp_into_rtranclp)
  qed simp
  then show ?thesis by (simp add: join_ok_def demo_join_def)
qed

lemma idle_teardown:
  assumes "v_replies w = []" "v_completions w = []" "v_list w = []"
  shows "reactor_teardown rv w = Some (close_listener rv (w\<lparr> v_completions := [], v_replies := [] \<rparr>))"
proof -
  have "iterate (\<lambda>w. Some (drop_step rv w)) x = Some x" if "v_list x = []" for x :: "'a world"
    using that by (intro iterate_return) (simp add: drop_step_def)
  with assms show ?thesis
    by (simp add: reactor_teardown_def opftp_client_drain_replies_def drain_completions_def close_listener_def Let_def)
qed

lemma demo_left_eq: "reactor_teardown demo_rv demo_asked = Some demo_left"
  "demo_left = close_listener demo_rv (demo_asked\<lparr> v_completions := [], v_replies := [] \<rparr>)"
proof -
  have "v_replies demo_asked = []" "v_completions demo_asked = []" "v_list demo_asked = []"
    by (simp_all add: demo_asked_def Let_def wake_def reactor_enter_def demo_idle)
  from idle_teardown [OF this, of demo_rv] show "reactor_teardown demo_rv demo_asked = Some demo_left"
    "demo_left = close_listener demo_rv (demo_asked\<lparr> v_completions := [], v_replies := [] \<rparr>)"
    by (simp_all add: demo_left_def)
qed

lemma demo_left_fields: "v_replies demo_left = []" "v_completions demo_left = []" "v_running demo_left = []"
  "s_ring (v_srv demo_left) = queue_init 2"
  by (simp_all add: demo_left_eq(2) close_listener_def close_w_def demo_asked_def Let_def wake_def reactor_enter_def
      demo_idle demo_start(3))

lemma idle_shutdown:
  fixes lv and l :: "'x life"
  assumes "pool_running (s_ring (v_srv (l_world l)))" "workers_alive (s_ring (v_srv (l_world l))) = 0"
    "ring_list (s_ring (v_srv (l_world l))) = []" "v_running (l_world l) = []"
  defines "l' \<equiv> opftp_datachan_shutdown lv demo_join l"
  shows "\<not> l_workers l'" "v_completions (l_world l') = v_completions (l_world l)" "v_replies (l_world l') = v_replies (l_world l)"
proof -
  let ?w = "cancel_queued (l_world l)"
  have c: "s_ring (v_srv ?w) = snd (shutdown_begin (s_ring (v_srv (l_world l))))" "v_running ?w = []"
    "v_completions ?w = v_completions (l_world l)" "v_replies ?w = v_replies (l_world l)"
    using assms(4) by (simp_all add: cancel_queued_def)
  then have "workers_alive (s_ring (v_srv ?w)) = 0" "ring_list (s_ring (v_srv ?w)) = []"
    using assms(2,3) by (simp_all add: shutdown_begin_def ring_list_def queued_jobs_def)
  moreover from this(1) have "wait_workers lv k (upd_world cancel_queued l) = (True, upd_world cancel_queued l)" for k
    by (subst wait_workers.simps) simp
  ultimately show "\<not> l_workers l'" "v_completions (l_world l') = v_completions (l_world l)" "v_replies (l_world l') = v_replies (l_world l)"
    using assms(1) c by (simp_all add: l'_def opftp_datachan_shutdown_def release_queued_def demo_join_def Let_def)
qed

lemma demo_stop:
  assumes "opftp_server_stop demo_lenv demo_join (demo_up\<lparr> l_world := demo_left, l_reactor_done := True \<rparr>) = Some (rc, l)"
  shows "\<not> l_workers l" "v_completions (l_world l) = []" "v_replies (l_world l) = []"
proof -
  let ?l = "demo_up\<lparr> l_world := demo_left, l_reactor_done := True \<rparr>"
  have i: "iterate (\<lambda>l. Some (if l_starting l \<and> \<not> l_ready l then Continue (le_tick demo_lenv l) else Return l)) ?l = Some ?l"
    by (intro iterate_return) (simp add: demo_idle)
  have r: "wait_reactor lv k x = x" if "l_reactor_done x" for lv k and x :: "unit life"
    using that by (subst wait_reactor.simps) simp
  define l3 where "l3 = upd_server (\<lambda>s. s\<lparr> s_pollset := None \<rparr>) ((stop_request ?l)\<lparr> l_reactor := False, l_reactor_running := False \<rparr>)"
  have "pool_running (s_ring (v_srv (l_world l3)))" "workers_alive (s_ring (v_srv (l_world l3))) = 0"
    "ring_list (s_ring (v_srv (l_world l3))) = []" "v_running (l_world l3) = []"
    by (simp_all add: l3_def stop_request_def demo_left_fields queue_init_def ring_list_def queued_jobs_def)
  note d = idle_shutdown [OF this, of demo_lenv]
  have l3: "v_completions (l_world l3) = []" "v_replies (l_world l3) = []"
    by (simp_all add: l3_def stop_request_def demo_left_fields)
  have "l_compl_mutex (stop_request ?l)" "l_reactor_done (stop_request ?l)" "l_reactor_running (stop_request ?l)"
    by (simp_all add: stop_request_def demo_start demo_idle)
  then have "l = upd_world (\<lambda>w. w\<lparr> v_started := False \<rparr>)
      ((opftp_datachan_shutdown demo_lenv demo_join l3)\<lparr> l_fs := False, l_tab := None \<rparr>)"
    using assms by (simp add: opftp_server_stop_def i r demo_idle Let_def opftp_reactor_shutdown_def opftp_dispatch_free_def l3_def)
  then show "\<not> l_workers l" "v_completions (l_world l) = []" "v_replies (l_world l) = []"
    using d l3 by simp_all
qed

lemma demo_left_steps: "ssteps demo_rv (Wait, reactor_enter 5 (True, True) (l_world demo_up)) (Gone, demo_left)"
proof -
  have "sstep demo_rv (Wait, reactor_enter 5 (True, True) (l_world demo_up)) (Wait, demo_asked)"
    unfolding demo_asked_def Let_def by (intro Other_step Ask_stop)
  moreover have "sstep demo_rv (Wait, demo_asked) (Polled Last, demo_asked)"
    by (intro Reactor_step Stopped) (simp add: demo_asked_def wake_def Let_def)
  moreover from rsteps_ssteps [OF teardown_rsteps [OF demo_left_eq(1)]] have "ssteps demo_rv (Polled Last, demo_asked) (Gone, demo_left)" .
  ultimately show ?thesis by (meson converse_rtranclp_into_rtranclp)
qed

section \<open>From creation to stop\<close>

text \<open>C5: from the creation of a server on: create it, configure it in any way, start it; then whatever its clients,
  its workers and the calls of other threads do, no freed client or job is ever used, and every client in memory
  is referenced by exactly the lists, jobs and replies that hold it.  As everywhere (\<open>renv_ok\<close>), the application's
  hooks keep to the public interface and growing the poll set does not fail by half.\<close>

theorem created_server_is_safe:
  assumes "opftp_server_create lv skip_banner s = (Some l0, s')" "(configure lv)\<^sup>*\<^sup>* l0 l"
    "opftp_server_start lv join l = (None, l1)" "le_after lv = []" "l_tab l1 \<noteq> None"
    "renv_ok ((le_rv lv)\<lparr> rv_tab := l_tab l1 \<rparr>)" "0 \<le> fd"
    "ssteps ((le_rv lv)\<lparr> rv_tab := l_tab l1 \<rparr>) (Wait, reactor_enter fd ra (l_world l1)) (pc, w)"
  shows "\<not> v_stale w \<and>
    (case v_clients w cid of Some c \<Rightarrow> c_refs c = holders pc w cid \<and> 0 < c_refs c | None \<Rightarrow> holders pc w cid = 0)"
proof -
  have "stopped_life l" using configured_stopped [OF assms(2) create_stopped [OF assms(1)]] .
  note u = started [OF assms(3) this]
  have "idle_world (l_world l1)" using u(1) by (simp add: up_life_def)
  moreover have "builtin_only (rv_tab ((le_rv lv)\<lparr> rv_tab := l_tab l1 \<rparr>)) (allow_stop (l_world l1))"
    using u(5) [OF assms(4,5)] builtin_only_init by simp
  ultimately have "machine_inv ((le_rv lv)\<lparr> rv_tab := l_tab l1 \<rparr>) pc w"
    using reachable_inv [OF assms(6) _ _ assms(7,8)] by blast
  then show ?thesis by (intro holders_exact) (simp add: machine_inv_def)
qed

text \<open>Witness of \<open>created_server_is_safe\<close>: a server that is created, told to use IPv4, started and asked to
  stop has left its loop with nothing freed in use.\<close>

theorem created_server_is_safe_witness:
  "\<not> v_stale demo_left \<and> (case v_clients demo_left 0 of Some c \<Rightarrow> c_refs c = holders Gone demo_left 0 \<and> 0 < c_refs c
     | None \<Rightarrow> holders Gone demo_left 0 = 0)"
  by (rule created_server_is_safe [OF demo_create _ demo_start(1) demo_lenv_ok(1) demo_start(2) demo_lenv_ok(2) _ demo_left_steps])
    (auto intro: configure.intros)

text \<open>Everything the lifecycle allocates is released, and the listener closed.\<close>

definition released :: "'x life \<Rightarrow> bool" where
  "released l \<longleftrightarrow> l_tab l = None \<and> \<not> l_fs l \<and> \<not> l_queue l \<and> \<not> l_queue_mutex l \<and> \<not> l_queue_cond l \<and>
     \<not> l_compl_mutex l \<and> \<not> l_workers l \<and> l_threads l = 0 \<and> \<not> l_reactor l \<and> \<not> l_reactor_running l \<and>
     v_listen_fd (l_world l) = -1"

text \<open>C18: stopping.  When the reactor has come to its end a stop returns.  If the workers left in time, so that
  they were joined, it returns success, the server counts as stopped, the wrapper, the command table, the queue
  and the handles of all threads are gone, the listener is closed and nothing freed was used; the server stays
  marked as ready.  If moreover no completion and no reply arrived after the reactor's last look, no client and
  no job is left in memory, and a start that succeeds brings the server up again.\<close>

theorem stop_brings_back:
  assumes "stopped_life l" "opftp_server_start lv join l = (None, l1)" "le_after lv = []" "l_tab l1 \<noteq> None"
    "renv_ok ((le_rv lv)\<lparr> rv_tab := l_tab l1 \<rparr>)" "0 \<le> fd"
    "ssteps ((le_rv lv)\<lparr> rv_tab := l_tab l1 \<rparr>) (Wait, reactor_enter fd ra (l_world l1)) (Gone, w)"
    "pool_running (s_ring (v_srv w))" "tick_ok lv" "join_ok join"
  shows "\<exists>rc l2. opftp_server_stop lv join (l1\<lparr> l_world := w, l_reactor_done := True \<rparr>) = Some (rc, l2) \<and>
    (\<not> l_workers l2 \<longrightarrow>
       rc = None \<and> \<not> v_started (l_world l2) \<and> released l2 \<and> \<not> v_stale (l_world l2) \<and> l_ready l2 \<and>
       (v_completions (l_world l2) = [] \<and> v_replies (l_world l2) = [] \<longrightarrow>
          v_clients (l_world l2) = Map.empty \<and> s_jobs (v_srv (l_world l2)) = Map.empty \<and>
          (\<forall>l3. opftp_server_start lv join l2 = (None, l3) \<longrightarrow> up_life l3)))"
proof -
  note u = started [OF assms(2,1)]
  have up: "idle_world (l_world l1)" "l_ready l1" "\<not> l_starting l1" using u(1) by (simp_all add: up_life_def)
  have "builtin_only (rv_tab ((le_rv lv)\<lparr> rv_tab := l_tab l1 \<rparr>)) (allow_stop (l_world l1))"
    using u(5) [OF assms(3,4)] builtin_only_init by simp
  from reachable_inv [OF assms(5) this up(1) assms(6,7)] have "world_inv [] [] w" "v_list w = []"
    by (simp_all add: machine_inv_def)
  moreover have "0 < v_workers w" using ssteps_workers [OF assms(7)] u(4) by (simp add: reactor_enter_def)
  ultimately have left: "left_world w" by (simp add: left_world_def)
  define l' where "l' = stop_request (l1\<lparr> l_world := w, l_reactor_done := True \<rparr>)"
  have f': "l_world l' = wake (w\<lparr> v_srv := (v_srv w)\<lparr> s_stopping := True \<rparr> \<rparr>)" "l_reactor_done l'" "l_reactor_running l'" "l_workers l'"
    using u(2,3) by (simp_all add: l'_def stop_request_def wake_def)
  have left': "left_world (l_world l')" unfolding f' by (rule wsteps_left [OF _ left]) (blast intro: Ask_stop)
  have run': "pool_running (s_ring (v_srv (l_world l')))" using assms(8) by (simp add: f' wake_def)
  define l3 where "l3 = (if l_compl_mutex l' then upd_server (\<lambda>s. s\<lparr> s_pollset := None \<rparr>) else id)
    (l'\<lparr> l_reactor := False, l_reactor_running := False \<rparr>)"
  have l3: "left_world (l_world l3)" "pool_running (s_ring (v_srv (l_world l3)))" "l_reactor_done l3" "l_workers l3"
    using f'(2,4) left' left_no_poll [OF left'] run' by (simp_all add: l3_def)
  have r: "opftp_reactor_shutdown lv join (l'\<lparr> l_reactor := False, l_reactor_running := False \<rparr>) =
      (opftp_datachan_shutdown lv join l3)\<lparr> l_fs := False, l_tab := None \<rparr>"
    by (simp add: opftp_reactor_shutdown_def l3_def Let_def opftp_dispatch_free_def)
  have "iterate (\<lambda>l. Some (if l_starting l \<and> \<not> l_ready l then Continue (le_tick lv l) else Return l))
      (l1\<lparr> l_world := w, l_reactor_done := True \<rparr>) = Some (l1\<lparr> l_world := w, l_reactor_done := True \<rparr>)"
    using up by (intro iterate_return) simp
  moreover have "wait_reactor lv k l' = l'" for k using f' by (subst wait_reactor.simps) simp
  ultimately have "opftp_server_stop lv join (l1\<lparr> l_world := w, l_reactor_done := True \<rparr>) =
      Some (None, upd_world (\<lambda>w. w\<lparr> v_started := False \<rparr>) ((opftp_datachan_shutdown lv join l3)\<lparr> l_fs := False, l_tab := None \<rparr>))"
    using up f' r by (simp add: opftp_server_stop_def l'_def [symmetric])
  moreover define d where "d = opftp_datachan_shutdown lv join l3"
  moreover define l2 where "l2 = upd_world (\<lambda>w. w\<lparr> v_started := False \<rparr>) (d\<lparr> l_fs := False, l_tab := None \<rparr>)"
  ultimately have s: "opftp_server_stop lv join (l1\<lparr> l_world := w, l_reactor_done := True \<rparr>) = Some (None, l2)" by simp
  have n: "v_listen_fd (l_world l3) = -1" "\<not> l_reactor l3" "\<not> l_reactor_running l3" "l_ready l3"
    using listener_closed [OF assms(7)] up(2)
    by (simp_all add: l3_def l'_def stop_request_def upd_server_def upd_world_def)
  note e = shutdown_result [OF l3 assms(9,10), folded d_def]
  have f: "l_world l2 = (l_world d)\<lparr> v_started := False \<rparr>" "l_workers l2 = l_workers d" "l_ready l2 = l_ready d"
    by (simp_all add: l2_def upd_world_def)
  have rel: "released l2" if "\<not> l_workers l2"
    using e that n f(2) by (simp add: released_def l2_def upd_world_def)
  have st: "stopped_life l2" if "\<not> l_workers l2" "v_completions (l_world l2) = []" "v_replies (l_world l2) = []"
    using e that f by (simp add: stopped_life_def l2_def upd_world_def)
  have "\<not> l_workers l2 \<longrightarrow>
       \<not> v_started (l_world l2) \<and> released l2 \<and> \<not> v_stale (l_world l2) \<and> l_ready l2 \<and>
       (v_completions (l_world l2) = [] \<and> v_replies (l_world l2) = [] \<longrightarrow>
          v_clients (l_world l2) = Map.empty \<and> s_jobs (v_srv (l_world l2)) = Map.empty \<and>
          (\<forall>l3. opftp_server_start lv join l2 = (None, l3) \<longrightarrow> up_life l3))"
    using e n(4) f rel st started(1) [OF _ st] by (auto simp: stopped_life_def quiet_def)
  with s show ?thesis by blast
qed

text \<open>Witness of \<open>stop_brings_back\<close>: the stopped server can be started again.\<close>

theorem stop_brings_back_witness:
  "\<exists>l2. opftp_server_stop demo_lenv demo_join (demo_up\<lparr> l_world := demo_left, l_reactor_done := True \<rparr>) = Some (None, l2) \<and>
     released l2 \<and> \<not> v_started (l_world l2) \<and> v_clients (l_world l2) = Map.empty"
proof -
  have "pool_running (s_ring (v_srv demo_left))" by (simp add: demo_left_fields queue_init_def)
  from stop_brings_back [OF demo_stopped demo_start(1) demo_lenv_ok(1) demo_start(2) demo_lenv_ok(2) _ demo_left_steps this demo_lenv_ok(3) demo_join_ok]
  obtain rc l2 where
    s: "opftp_server_stop demo_lenv demo_join (demo_up\<lparr> l_world := demo_left, l_reactor_done := True \<rparr>) = Some (rc, l2)"
    and r: "\<not> l_workers l2 \<longrightarrow> rc = None \<and> \<not> v_started (l_world l2) \<and> released l2 \<and> \<not> v_stale (l_world l2) \<and> l_ready l2 \<and>
       (v_completions (l_world l2) = [] \<and> v_replies (l_world l2) = [] \<longrightarrow>
          v_clients (l_world l2) = Map.empty \<and> s_jobs (v_srv (l_world l2)) = Map.empty \<and>
          (\<forall>l3. opftp_server_start demo_lenv demo_join l2 = (None, l3) \<longrightarrow> up_life l3))" by auto
  from r demo_stop [OF s] s show ?thesis by auto
qed

section \<open>Starting again\<close>

text \<open>A stop can be lost.  A server that has run before is still marked ready while \<open>opftp_server_run_loop\<close>
  initialises it again; a stop that another thread issues then does not wait, returns success, and is undone
  when the loop publishes itself: the loop goes on to run without a stop request.\<close>

lemma stop_during_restart_is_lost:
  assumes "l_ready l" "\<not> l_reactor_running l" "run_loop_init lv l = (None, l1)"
  shows "\<exists>l2. opftp_server_stop lv join l1 = Some (None, l2) \<and> s_stopping (v_srv (l_world l2)) \<and>
    \<not> s_stopping (v_srv (l_world (run_loop_publish l2))) \<and> v_started (l_world (run_loop_publish l2))"
proof -
  have "same_life (l\<lparr> l_starting := True \<rparr>) l1" using assms(3) reactor_init_same
    by (fastforce simp: run_loop_init_def split: if_splits option.splits prod.splits)
  with assms(1,2) have f: "l_ready l1" "\<not> l_reactor_running l1" by (simp_all add: same_life_def)
  then have "iterate (\<lambda>l. Some (if l_starting l \<and> \<not> l_ready l then Continue (le_tick lv l) else Return l)) l1 = Some l1"
    by (intro iterate_return) simp
  with f show ?thesis by (simp add: opftp_server_stop_def Let_def stop_request_def run_loop_publish_def publish_ready_def)
qed

text \<open>An instance of \<open>stop_during_restart_is_lost\<close>: a server that has run before.\<close>

lemma stop_during_restart_example:
  "\<exists>l2. opftp_server_stop demo_lenv demo_join (snd (run_loop_init demo_lenv (demo_new\<lparr> l_ready := True \<rparr>))) = Some (None, l2) \<and>
     s_stopping (v_srv (l_world l2)) \<and> \<not> s_stopping (v_srv (l_world (run_loop_publish l2)))"
proof -
  have "fst (run_loop_init demo_lenv (demo_new\<lparr> l_ready := True \<rparr>)) = None"
    by (simp add: run_loop_init_def demo_init)
  then have "run_loop_init demo_lenv (demo_new\<lparr> l_ready := True \<rparr>) = (None, snd (run_loop_init demo_lenv (demo_new\<lparr> l_ready := True \<rparr>)))"
    by (simp add: prod_eq_iff)
  from stop_during_restart_is_lost [OF _ _ this, of demo_join] show ?thesis by (auto simp: new_life_def)
qed

text \<open>C37: a start that fails after the listener was bound leaves it open, and no later call closes it: the server
  is not started, so a stop returns at once.\<close>

theorem failed_start_keeps_listener:
  assumes "stopped_life l" "\<not> l_ready l" "bind_listener lv (l\<lparr> l_starting := True \<rparr>) = (None, lb)"
    "opftp_reactor_init lv (l\<lparr> l_starting := True \<rparr>) = (Some e, li)"
  shows "opftp_server_start lv join l = (Some e, li\<lparr> l_starting := False \<rparr>) \<and>
    v_listen_fd (l_world li) = v_listen_fd (l_world lb) \<and> v_closed (l_world li) = v_closed (l_world lb) \<and>
    opftp_server_stop lv join (li\<lparr> l_starting := False \<rparr>) = Some (None, li\<lparr> l_starting := False \<rparr>)"
proof -
  have "\<not> l_ready li" using reactor_init_same [OF assms(4)] assms(2) by (simp add: same_life_def)
  moreover have "iterate (\<lambda>l. Some (if l_starting l \<and> \<not> l_ready l then Continue (le_tick lv l) else Return l))
      (li\<lparr> l_starting := False \<rparr>) = Some (li\<lparr> l_starting := False \<rparr>)" by (intro iterate_return) simp
  ultimately show ?thesis
    using assms(1,4) reactor_init_bound(2,3) [OF assms(4,3)]
    by (simp add: opftp_server_start_def opftp_server_stop_def stopped_life_def)
qed

text \<open>Witness of \<open>failed_start_keeps_listener\<close>: no thread can be created; descriptor 4 stays open.\<close>

theorem failed_start_keeps_listener_witness:
  "\<exists>li. opftp_server_start (demo_lenv\<lparr> le_thread := op_fail EAGAIN \<rparr>) demo_join demo_new = (Some ENOMEM, li) \<and>
     v_listen_fd (l_world li) = 4 \<and> v_closed (l_world li) = []"
proof -
  let ?lv = "demo_lenv\<lparr> le_thread := op_fail EAGAIN \<rparr>" and ?l = "demo_new\<lparr> l_starting := True \<rparr>"
  let ?b = "bind_listener ?lv ?l" and ?i = "opftp_reactor_init ?lv ?l"
  have e: "fst ?b = None \<and> v_listen_fd (l_world (snd ?b)) = 4 \<and> v_closed (l_world (snd ?b)) = [] \<and> fst ?i = Some ENOMEM"
    by (simp add: demo_init op_fail_def)
  have "?b = (None, snd ?b)" "?i = (Some ENOMEM, snd ?i)" using e by (simp_all add: prod_eq_iff)
  from failed_start_keeps_listener [OF create_stopped [OF demo_create] _ this, of demo_join] e show ?thesis
    by (auto simp: new_life_def)
qed

section \<open>Workers that do not leave\<close>

abbreviation alive :: "'x life \<Rightarrow> nat" where
  "alive l \<equiv> workers_alive (s_ring (v_srv (l_world l)))"

lemma wait_workers_stuck:
  "(\<And>l. 0 < alive l \<Longrightarrow> 0 < alive (le_tick lv l)) \<Longrightarrow> 0 < alive l \<Longrightarrow> \<exists>l'. wait_workers lv left l = (False, l') \<and> 0 < alive l'"
proof (induction lv left l rule: wait_workers.induct)
  case (1 lv left l)
  show ?case
  proof (cases "left \<le> 0")
    case True
    with 1(3) show ?thesis by (subst wait_workers.simps) simp
  next
    case False
    with 1 have "\<exists>l'. wait_workers lv (left - 10) (le_tick lv l) = (False, l') \<and> 0 < alive l'" by simp
    with 1(3) False show ?thesis by (subst wait_workers.simps) simp
  qed
qed

text \<open>Workers that are still busy when the time to stop has run out do not keep a server from being destroyed:
  the wait for them gives up silently, the stop frees the file system wrapper they use and reports success, and
  \<open>opftp_server_destroy\<close> goes on to free the server.\<close>

lemma destroy_with_live_workers:
  assumes "v_started (l_world l)" "l_ready l" "l_reactor_running l" "l_reactor_done l" "0 < alive l"
    "\<forall>l. 0 < alive l \<longrightarrow> 0 < alive (le_tick lv l)"
  shows "(\<exists>l'. opftp_server_stop lv join l = Some (None, l') \<and> 0 < alive l' \<and> \<not> l_fs l') \<and>
    opftp_server_destroy lv join l = Some None"
proof -
  have i: "iterate (\<lambda>l. Some (if l_starting l \<and> \<not> l_ready l then Continue (le_tick lv l) else Return l)) l = Some l"
    using assms(2) by (intro iterate_return) simp
  define l1 where "l1 = stop_request l"
  have l1: "l_reactor_running l1" "l_reactor_done l1" "0 < alive l1"
    using assms by (simp_all add: l1_def stop_request_def)
  then have r: "wait_reactor lv k l1 = l1" for k by (subst wait_reactor.simps) simp
  have d: "\<exists>l'. opftp_reactor_shutdown lv join x = l'\<lparr> l_fs := False, l_tab := None \<rparr> \<and> 0 < alive l'" if "0 < alive x" for x
  proof -
    define y where "y = (if l_compl_mutex x then upd_server (\<lambda>s. s\<lparr> s_pollset := None \<rparr>) x else x)"
    have "0 < alive (upd_world cancel_queued y)"
      using that by (simp add: y_def cancel_queued_def shutdown_begin_def)
    from wait_workers_stuck [OF _ this, of lv "l_stop_timeout_ms y"] assms(6) obtain l'
      where "wait_workers lv (l_stop_timeout_ms y) (upd_world cancel_queued y) = (False, l')" "0 < alive l'" by blast
    moreover have "0 < alive y" using that by (simp add: y_def)
    ultimately have "opftp_datachan_shutdown lv join y = l'" "0 < alive l'"
      by (simp_all add: opftp_datachan_shutdown_def Let_def)
    then show ?thesis by (auto simp: opftp_reactor_shutdown_def y_def [symmetric] Let_def opftp_dispatch_free_def)
  qed
  from d [of "l1\<lparr> l_reactor := False, l_reactor_running := False \<rparr>"] l1 obtain l'
    where l': "opftp_reactor_shutdown lv join (l1\<lparr> l_reactor := False, l_reactor_running := False \<rparr>) = l'\<lparr> l_fs := False, l_tab := None \<rparr>" "0 < alive l'" by auto
  then have "opftp_server_stop lv join l = Some (None, upd_world (\<lambda>w. w\<lparr> v_started := False \<rparr>) (l'\<lparr> l_fs := False, l_tab := None \<rparr>))"
    using assms(2) l1 by (simp add: opftp_server_stop_def i l1_def [symmetric] r Let_def)
  with l'(2) assms(1) show ?thesis by (simp add: opftp_server_destroy_def upd_world_def)
qed

text \<open>An instance of \<open>destroy_with_live_workers\<close>: one worker that never leaves.\<close>

lemma destroy_with_live_workers_example:
  "opftp_server_destroy demo_lenv demo_join (upd_server (\<lambda>s. s\<lparr> s_ring := worker_enter (s_ring s) \<rparr>) (demo_up\<lparr> l_reactor_done := True \<rparr>)) = Some None"
proof -
  have "v_started (l_world demo_up)" using started(1) [OF demo_start(1) demo_stopped] by (simp add: up_life_def)
  moreover have "le_tick demo_lenv l = l" for l by (simp add: demo_lenv_def)
  ultimately show ?thesis
    using destroy_with_live_workers [of "upd_server (\<lambda>s. s\<lparr> s_ring := worker_enter (s_ring s) \<rparr>) (demo_up\<lparr> l_reactor_done := True \<rparr>)" demo_lenv demo_join]
    by (simp add: demo_idle worker_enter_def)
qed

end
