(* ===== verification/Httpd_Claims.thy ===== *)
theory Httpd_Claims
  imports Httpd Lifecycle_Claims
begin

text \<open>
  What the web console promises its page: a string of the server comes out of the JSON as it went in and cannot
  end its own quotation, the state is printed up to the size of the buffer, the command the page posts to change the
  root sets the path that was typed if the command is short enough, and no other request changes the server.
\<close>

section \<open>JSON strings\<close>

text \<open>A reader of JSON strings: what follows the opening quote, up to the closing one, and the rest.\<close>

definition json_unescape :: "char \<Rightarrow> char option" where
  "json_unescape c =
     (if c \<in> {dquote, bslash, CHR ''/''} then Some c
      else if c = CHR ''n'' then Some (CHR 0x0A)
      else if c = CHR ''r'' then Some (CHR 0x0D)
      else if c = CHR ''t'' then Some (CHR 0x09)
      else None)"

fun json_read :: "string \<Rightarrow> (string \<times> string) option" where
  "json_read [] = None"
| "json_read (c # s) =
     (if c = dquote then Some ([], s)
      else if c = bslash then
        (case s of
           [] \<Rightarrow> None
         | d # s' \<Rightarrow> Option.bind (json_unescape d) (\<lambda>e. map_option (\<lambda>(v, r). (e # v, r)) (json_read s')))
      else if c_code c < 0x20 then None
      else map_option (\<lambda>(v, r). (c # v, r)) (json_read s))"

text \<open>Control characters without a short form are shown as question marks.\<close>

definition json_shown :: "char \<Rightarrow> char" where
  "json_shown c = (if c_code c < 0x20 \<and> c \<notin> {CHR 0x0A, CHR 0x0D, CHR 0x09} then CHR ''?'' else c)"

lemma json_char_length: "length (json_char c) \<le> 2" "0 < length (json_char c)"
  by (auto simp: json_char_def)

lemma json_read_char:
  "json_read (json_char c @ s) = map_option (\<lambda>(v, r). (json_shown c # v, r)) (json_read s)"
  by (auto simp: json_char_def json_unescape_def json_shown_def c_code_def option.map_comp comp_def split: prod.split)

lemma json_escape_loop_read:
  "\<exists>k \<le> length s. json_read (json_escape_loop n j s @ dquote # r) = Some (map json_shown (take k s), r) \<and>
     (j + 2 * length s + 4 < n \<longrightarrow> k = length s)"
proof (induction s arbitrary: j)
  case (Cons c s)
  show ?case
  proof (cases "j + 6 < n")
    case True
    let ?j = "j + length (json_char c)"
    obtain k where k: "k \<le> length s" "json_read (json_escape_loop n ?j s @ dquote # r) = Some (map json_shown (take k s), r)"
      "?j + 2 * length s + 4 < n \<longrightarrow> k = length s" using Cons by blast
    with True json_char_length(1) [of c] show ?thesis
      by (intro exI [of _ "Suc k"]) (auto simp: json_read_char)
  next
    case False
    then show ?thesis by (intro exI [of _ 0]) auto
  qed
qed simp

lemma json_escape_loop_length: "j + length (json_escape_loop n j s) < n \<or> json_escape_loop n j s = []"
proof (induction s arbitrary: j)
  case (Cons c s)
  have "j + length (json_char c) + length (json_escape_loop n (j + length (json_char c)) s) < n" if "j + 6 < n"
    using Cons [of "j + length (json_char c)"] json_char_length(1) [of c] that by auto
  then show ?case by (auto simp: add.assoc)
qed simp

text \<open>C33: escaping is safe and reversible: whatever the string and the size of the buffer, the escaped text
  fits, a JSON reader finds the closing quote exactly where the program writes it, and reads back the string, cut
  only when the buffer is too small, with control characters replaced.\<close>

theorem json_escape_read:
  assumes "0 < n"
  shows "length (json_escape n s) < n \<and>
    (\<exists>k \<le> length s. json_read (json_escape n s @ dquote # r) = Some (map json_shown (take k s), r) \<and>
       (2 * length s + 4 < n \<longrightarrow> k = length s))"
  using json_escape_loop_length [of 0 n s] json_escape_loop_read [of s n 0 r] assms by (auto simp: json_escape_def)

text \<open>Witness of \<open>json_escape_read\<close>: a name with a quote in it.\<close>

theorem json_escape_read_witness:
  "json_read (json_escape 128 [CHR ''a'', dquote, CHR ''b''] @ dquote # ''}'') = Some ([CHR ''a'', dquote, CHR ''b''], ''}'')"
  using json_escape_read [of 128 "[CHR ''a'', dquote, CHR ''b'']" "''}''"] by (auto simp: json_shown_def c_code_def)

section \<open>The state\<close>

lemma put_all: "fst (fold (PUT n) ts (take (n - 1) t, length t)) = take (n - 1) (t @ concat ts)"
proof (induction ts arbitrary: t)
  case (Cons x ts)
  have "PUT n x (take (n - 1) t, length t) = (take (n - 1) (t @ x), length (t @ x))" by (auto simp: PUT_def)
  with Cons [of "t @ x"] show ?case by simp
qed simp

text \<open>What \<open>emit_state\<close> prints is the text of all its parts, cut to the size of the buffer.\<close>

lemma emit_state_text:
  "emit_state he n h =
     (case hcall (he_now he) h of (ms, h) \<Rightarrow> (c_snprintf n (concat (state_texts (he_rate he) (ms * 1000) h)), h))"
  using put_all [of n _ "[]"] by (auto simp: emit_state_def c_snprintf_def split: prod.split)

section \<open>A concrete console\<close>

definition demo_request :: string where
  "demo_request = ''GET / HTTP/1.0'' @ crlf @ crlf"

definition demo_henv :: "unit henv" where
  "demo_henv =
     \<lparr> he_lv = demo_lenv, he_join = demo_join, he_recv = (\<lambda>_ _ s. (Some demo_request, s)), he_accept = (\<lambda>s. (None, s)),
       he_now = (\<lambda>s. (5000, s)), he_poll = (\<lambda>p _ s. ((0, replicate (ps_count p) 0), s)), he_realloc = (\<lambda>_. (True, True)),
       he_file = (\<lambda>_ _. Some ''page''), he_malloc = (\<lambda>_. True), he_rate = (\<lambda>_. ''0.0''), he_errno = (\<lambda>_. 22) \<rparr>"

definition demo_httpd :: "unit httpd" where
  "demo_httpd =
     \<lparr> hd_server = demo_up, hd_ui = opftp_ui_init 0, hd_port = 8080, hd_listen_fd = 6, hd_poll = opftp_pollset_create 7,
       hd_version = ''v4'', hd_stop = False, hd_last_poll_us = 0, hd_conn_fd = replicate HTTPD_MAX_CONN (-1),
       hd_conn_hnd = replicate HTTPD_MAX_CONN 0, hd_asset_dir = ''webui'', hd_sent = [], hd_closed = [] \<rparr>"

section \<open>Requests that change nothing\<close>

text \<open>The server but for the outside world.\<close>

definition same_server :: "'x httpd \<Rightarrow> 'x httpd \<Rightarrow> bool" where
  "same_server h h' \<longleftrightarrow> (\<exists>s. hd_server h' = upd_world (\<lambda>w. w\<lparr> v_sys := s \<rparr>) (hd_server h)) \<and> hd_ui h' = hd_ui h \<and>
     hd_conn_fd h' = hd_conn_fd h \<and> hd_conn_hnd h' = hd_conn_hnd h \<and> hd_listen_fd h' = hd_listen_fd h \<and> hd_closed h' = hd_closed h"

lemma same_server_refl [simp]: "same_server h h"
  by (auto simp: same_server_def upd_world_def intro!: exI [of _ "hd_sys h"])

lemma same_server_trans: "same_server h h' \<Longrightarrow> same_server h' h'' \<Longrightarrow> same_server h h''"
  by (auto simp: same_server_def upd_world_def)

lemma hcall_same: "hcall f h = (r, h') \<Longrightarrow> same_server h h' \<and> hd_sent h' = hd_sent h"
  by (auto simp: hcall_def hd_set_sys_def same_server_def upd_world_def split: prod.splits)

lemma http_send_same [simp]: "same_server h (http_send fd status ctype body h)"
  by (auto simp: same_server_def http_send_def upd_world_def intro!: exI [of _ "hd_sys h"])

lemma hd_wait_same: "same_server h (snd (hd_wait he t h)) \<and> hd_sent (snd (hd_wait he t h)) = hd_sent h"
proof -
  obtain r rs h1 where c: "hcall (he_poll he (hd_poll h) t) h = ((r, rs), h1)" by (metis surj_pair)
  obtain n p where w: "opftp_pollset_wait r rs (hd_poll h1) = (n, p)" by fastforce
  have "snd (hd_wait he t h) = h1\<lparr> hd_poll := p \<rparr>" by (simp add: hd_wait_def c w)
  with hcall_same [OF c] show ?thesis by (simp add: same_server_def)
qed

lemma read_request_same:
  "read_request he fd req h = (r, h') \<Longrightarrow> same_server h h' \<and> hd_sent h' = hd_sent h"
proof (induction he fd req h rule: read_request.induct)
  case (1 he fd req h)
  obtain b h1 where c: "hcall (he_recv he fd 512) h = (b, h1)" by fastforce
  note s = hcall_same [OF c]
  show ?case
  proof (cases "length req < HTTPD_MAX_REQ \<and> b \<noteq> None \<and> b \<noteq> Some [] \<and>
      blank_line (c_str (req @ take (HTTPD_MAX_REQ - length req) (the b))) = None")
    case True
    then obtain bs where b: "b = Some bs" "bs \<noteq> []" by auto
    with True 1(2) c have "read_request he fd (req @ take (HTTPD_MAX_REQ - length req) bs) h1 = (r, h')"
      by (subst (asm) read_request.simps) simp
    then have "same_server h1 h' \<and> hd_sent h' = hd_sent h1"
      by (rule 1(1) [rotated -1]) (use True b c in auto)
    with s show ?thesis by (auto intro: same_server_trans)
  next
    case False
    with 1(2) c have "h' = h \<or> h' = h1"
      by (subst (asm) read_request.simps) (auto split: if_splits option.splits)
    with s show ?thesis by auto
  qed
qed

text \<open>The blocks sent for one request: a head and, unless it is empty, the body.\<close>

definition answered :: "int \<Rightarrow> 'x httpd \<Rightarrow> 'x httpd \<Rightarrow> bool" where
  "answered fd h h' \<longleftrightarrow> (\<exists>status ctype body. hd_sent h' = hd_sent (http_send fd status ctype body h))"

lemma respond_same:
  assumes "\<not> (method = ''POST'' \<and> path = ''/api/cmd'')"
  shows "\<exists>h'. respond he fd method path body h = Some h' \<and> same_server h h' \<and> (answered fd h h' \<or> hd_sent h' = hd_sent h)"
proof -
  have a: "answered fd h (http_send fd st ct b x)" if "hd_sent x = hd_sent h" for st ct b x
    using that by (auto simp: answered_def http_send_def)
  show ?thesis
  proof (cases "method = ''GET'' \<and> path = ''/api/state''")
    case True
    obtain ms h1 where c: "hcall (he_now he) h = (ms, h1)" by fastforce
    with True hcall_same [OF c] a show ?thesis
      by (auto simp: respond_def emit_state_def intro: same_server_trans)
  next
    case False
    with assms a show ?thesis
      by (auto simp: respond_def Let_def serve_asset_def split: option.split prod.split)
  qed
qed

text \<open>C35: reading is harmless: a request that is anything but a POST to the command address is always dealt with,
  gets at most one answer, on its own connection, and leaves the server, its configuration, its clients and jobs as they
  were, as well as the model of the user interface.\<close>

theorem only_commands_change_server:
  assumes "read_request he fd [] h = (Some req, h1)" "request_line (c_str req) = Some (method, path)"
    "\<not> (method = ''POST'' \<and> path = ''/api/cmd'')"
  shows "\<exists>h'. serve_client he fd h = Some h' \<and> same_server h h' \<and> (answered fd h h' \<or> hd_sent h' = hd_sent h)"
proof -
  note r = read_request_same [OF assms(1)]
  obtain h2 where h2: "respond he fd method path (request_body method (c_str req)) h1 = Some h2" "same_server h1 h2"
    "answered fd h1 h2 \<or> hd_sent h2 = hd_sent h1" using respond_same [OF assms(3)] by blast
  note w = hd_wait_same [of h2 he 30]
  have "serve_client he fd h = Some (snd (hd_wait he 30 h2))" by (simp add: serve_client_def assms(1,2) h2(1) Let_def)
  moreover have "same_server h (snd (hd_wait he 30 h2))" using r h2(2) w by (blast intro: same_server_trans)
  moreover have "answered fd h (snd (hd_wait he 30 h2)) \<or> hd_sent (snd (hd_wait he 30 h2)) = hd_sent h"
    using r h2(3) w by (auto simp: answered_def http_send_def)
  ultimately show ?thesis by blast
qed

text \<open>Witness of \<open>only_commands_change_server\<close>: the page is fetched.\<close>

theorem only_commands_change_server_witness:
  "\<exists>h'. serve_client demo_henv 9 demo_httpd = Some h' \<and> same_server demo_httpd h' \<and>
     (answered 9 demo_httpd h' \<or> hd_sent h' = hd_sent demo_httpd)"
proof -
  have e: "\<not> Option.is_none (blank_line (c_str demo_request)) \<and> request_line (c_str demo_request) = Some (''GET'', ''/'') \<and>
      length demo_request < HTTPD_MAX_REQ \<and> demo_request \<noteq> []"
    by code_simp
  obtain h1 where c: "hcall (he_recv demo_henv 9 512) demo_httpd = (Some demo_request, h1)"
    by (simp add: hcall_def demo_henv_def)
  with e have "read_request demo_henv 9 [] demo_httpd = (Some demo_request, h1)"
    by (subst read_request.simps) (simp add: Option.is_none_def)
  from only_commands_change_server [OF this, of "''GET''" "''/''"] e show ?thesis by simp
qed

section \<open>The command that changes the root\<close>

text \<open>The command as a browser posts it: the request line, the header lines, a blank line and the body.\<close>

definition post_cmd :: "string list \<Rightarrow> string \<Rightarrow> string" where
  "post_cmd headers body =
     ''POST /api/cmd HTTP/1.1'' @ crlf @ concat (map (\<lambda>l. l @ crlf) headers) @ crlf @ body"

definition header_line :: "string \<Rightarrow> bool" where
  "header_line l \<longleftrightarrow> l \<noteq> [] \<and> CR \<notin> set l \<and> CHR 0x00 \<notin> set l"

lemma strstr_line:
  "CR \<notin> set l \<Longrightarrow> take 2 x \<noteq> crlf \<Longrightarrow> c_strstr (l @ crlf @ x) (crlf @ crlf) = c_strstr x (crlf @ crlf)"
  by (induction l) (auto simp: numeral_2_eq_2)

lemma strstr_headers:
  assumes "CR \<notin> set l" "\<forall>l \<in> set hs. header_line l"
  shows "c_strstr (l @ crlf @ concat (map (\<lambda>l. l @ crlf) hs) @ crlf @ body) (crlf @ crlf) = Some (crlf @ crlf @ body)"
  using assms
proof (induction hs arbitrary: l)
  case Nil
  then show ?case by (induction l) auto
next
  case (Cons h hs)
  then have h: "h \<noteq> []" "CR \<notin> set h" by (auto simp: header_line_def)
  then have "take 2 (h @ x) \<noteq> crlf" for x by (cases h) auto
  from strstr_line [OF Cons(2) this] Cons(1) [OF h(2)] Cons(3) show ?case by simp
qed

lemma post_cmd_read:
  assumes "\<forall>l \<in> set hs. header_line l" "CHR 0x00 \<notin> set body" "length body < 512"
  shows "c_str (post_cmd hs body) = post_cmd hs body"
    "request_line (post_cmd hs body) = Some (''POST'', ''/api/cmd'')"
    "request_body ''POST'' (post_cmd hs body) = body"
proof -
  show "c_str (post_cmd hs body) = post_cmd hs body"
    using assms by (auto simp: c_str_def takeWhile_eq_all_conv post_cmd_def header_line_def)
  show "request_line (post_cmd hs body) = Some (''POST'', ''/api/cmd'')"
    by (simp add: request_line_def scan_word_def post_cmd_def cstr_defs)
  have "c_strstr (post_cmd hs body) (crlf @ crlf) = Some (crlf @ crlf @ body)"
    using strstr_headers [of "''POST /api/cmd HTTP/1.1''", OF _ assms(1)] unfolding post_cmd_def by simp
  then show "request_body ''POST'' (post_cmd hs body) = body"
    using assms(3) by (simp add: request_body_def blank_line_def c_snprintf_def)
qed

lemma json_value_quoted:
  assumes "length s < n" "bslash \<notin> set s"
  shows "json_value n (concat (map (\<lambda>c. if c = dquote then [bslash, dquote] else [c]) s) @ dquote # r) = s"
  using assms by (induction s arbitrary: n) auto

lemma setRoot_fields:
  "find_json_str (setRoot path) ''action'' 32 = Some ''root''"
  "length path < k \<Longrightarrow> bslash \<notin> set path \<Longrightarrow> find_json_str (setRoot path) ''path'' k = Some path"
  by (simp_all add: setRoot_def find_json_str_def jq_def c_snprintf_def Let_def json_value_quoted)

lemma setRoot_bytes:
  "length path < length (setRoot path)" "CHR 0x00 \<notin> set path \<Longrightarrow> CHR 0x00 \<notin> set (setRoot path)"
proof -
  have "length path \<le> length (concat (map (\<lambda>c. if c = dquote then [bslash, dquote] else [c]) path))"
    by (induction path) auto
  then show "length path < length (setRoot path)" by (simp add: setRoot_def jq_def)
qed (auto simp: setRoot_def jq_def)

lemma root_command:
  assumes "path = slash # p" "length path < OPFTP_MAX_PATH" "bslash \<notin> set path"
  shows "handle_cmd he (setRoot path) 512 h =
    Some (ok_text, h\<lparr> hd_server := upd_server (\<lambda>s. s\<lparr> s_root := path \<rparr>) (hd_server h) \<rparr>)"
proof -
  have k: "c_snprintf 512 ok_text = ok_text" "c_snprintf OPFTP_MAX_PATH path = path"
    using assms(2) by (simp_all add: ok_text_def jfield_def jq_def c_snprintf_def)
  have "path \<noteq> []" "hd path = slash" using assms(1) by simp_all
  then show ?thesis using assms(2,3)
    by (simp add: handle_cmd_def setRoot_fields opftp_server_set_root_runtime_def k upd_server_def upd_world_def)
qed

text \<open>C34: the root the page sets is the root that was typed: for an absolute path without backslashes whose command
  fits in the 511 bytes the console keeps of a body, a request that has arrived with its body is answered once, with the
  text that it was done, and the root of the server becomes that path, quotes included; nothing else of the server
  changes.\<close>

theorem page_sets_root:
  assumes "read_request he fd [] h = (Some (post_cmd headers (setRoot path)), h1)" "\<forall>l \<in> set headers. header_line l"
    "path = slash # p" "length (setRoot path) < 512" "bslash \<notin> set path" "CHR 0x00 \<notin> set path"
  shows "\<exists>h'. serve_client he fd h = Some h' \<and>
    same_server (h\<lparr> hd_server := upd_server (\<lambda>s. s\<lparr> s_root := path \<rparr>) (hd_server h) \<rparr>) h' \<and>
    hd_sent h' = hd_sent h @ [(fd, http_head ''200 OK'' ''application/json'' (length ok_text)), (fd, ok_text)]"
proof -
  note r = read_request_same [OF assms(1)]
  note b = post_cmd_read [OF assms(2) setRoot_bytes(2) [OF assms(6)] assms(4)]
  let ?root = "\<lambda>h. h\<lparr> hd_server := upd_server (\<lambda>s. s\<lparr> s_root := path \<rparr>) (hd_server h) \<rparr>"
  let ?h2 = "http_send fd ''200 OK'' ''application/json'' ok_text (?root h1)"
  have "length path < OPFTP_MAX_PATH" using setRoot_bytes(1) [of path] assms(4) by simp
  from root_command [OF assms(3) this assms(5), of he h1]
  have "respond he fd ''POST'' ''/api/cmd'' (setRoot path) h1 = Some ?h2" by (simp add: respond_def)
  then have "serve_client he fd h = Some (snd (hd_wait he 30 ?h2))" by (simp add: serve_client_def assms(1) b Let_def)
  moreover obtain s where "hd_server h1 = upd_world (\<lambda>w. w\<lparr> v_sys := s \<rparr>) (hd_server h)"
    using r by (auto simp: same_server_def)
  then have "same_server (?root h) (?root h1)"
    using r by (auto simp: same_server_def upd_server_def upd_world_def intro!: exI [of _ s])
  then have "same_server (?root h) (snd (hd_wait he 30 ?h2))"
    using hd_wait_same [of ?h2 he 30] by (blast intro: same_server_trans http_send_same)
  moreover have "hd_sent (snd (hd_wait he 30 ?h2)) = hd_sent h @ [(fd, http_head ''200 OK'' ''application/json'' (length ok_text)), (fd, ok_text)]"
    using hd_wait_same [of ?h2 he 30] r by (simp add: http_send_def ok_text_def)
  ultimately show ?thesis by blast
qed

text \<open>Witness of \<open>page_sets_root\<close>: a directory with a quote in its name.\<close>

definition root_typed :: string where
  "root_typed = ''/a'' @ [dquote]"

definition root_post :: string where
  "root_post = post_cmd [''Host: ps3''] (setRoot root_typed)"

theorem page_sets_root_witness:
  "\<exists>h'. serve_client (demo_henv\<lparr> he_recv := \<lambda>_ _ s. (Some root_post, s) \<rparr>) 9 demo_httpd = Some h' \<and>
     same_server (demo_httpd\<lparr> hd_server := upd_server (\<lambda>s. s\<lparr> s_root := root_typed \<rparr>) (hd_server demo_httpd) \<rparr>) h' \<and>
     hd_sent h' = hd_sent demo_httpd @ [(9, http_head ''200 OK'' ''application/json'' (length ok_text)), (9, ok_text)]"
proof -
  let ?he = "demo_henv\<lparr> he_recv := \<lambda>_ _ s. (Some root_post, s) \<rparr>"
  have e: "\<not> Option.is_none (blank_line (c_str root_post)) \<and> length root_post < HTTPD_MAX_REQ \<and> root_post \<noteq> [] \<and>
      header_line ''Host: ps3'' \<and> length (setRoot root_typed) < 512 \<and> bslash \<notin> set root_typed \<and> CHR 0x00 \<notin> set root_typed"
    by code_simp
  obtain h1 where c: "hcall (he_recv ?he 9 512) demo_httpd = (Some root_post, h1)" by (simp add: hcall_def)
  with e have "read_request ?he 9 [] demo_httpd = (Some root_post, h1)"
    by (subst read_request.simps) (simp add: Option.is_none_def)
  from page_sets_root [OF this [unfolded root_post_def], of "[CHR ''a'', dquote]"] e show ?thesis
    by (simp add: root_post_def root_typed_def)
qed

end
