(* ===== verification/Transfer_Loops.thy ===== *)
theory Transfer_Loops
  imports Data_Channel Client_Io Loops
begin

text \<open>
  The worker side of a transfer, \<^verbatim>\<open>src/src/transfer.c\<close>: waiting on the data connection, sending
  and receiving, the listing, download, upload and copy loops, and the worker's entry
  \<open>opftp_transfer_run\<close> up to posting the completion.

  A worker state holds the job, the byte count, the TLS session, the state of the file system with
  the thread's \<open>errno\<close>, and the state of everything else outside (sockets, the cancel flag that the
  reactor sets, the allocator). Calls on the file system go through the vtable; the other calls are
  the fields of \<open>wenv\<close>. Two ghost fields record the bytes the data connection accepted and gave.
  A loop that never ends has the value \<^const>\<open>None\<close>. The build modelled is the POSIX one, with a
  cancel pipe.
\<close>

unbundle bit_operations_syntax

section \<open>Definitions\<close>

subsection \<open>The worker and its environment\<close>

text \<open>\<open>we_poll\<close> is \<open>poll\<close> on the data descriptor and the cancel pipe: an error, a timeout, or the
  returned events of both.\<close>

record ('x, 'n) wenv =
  we_fs :: "'x opftp_fs"
  we_localtime :: "int \<Rightarrow> tm option"
  we_allow_foreign_port :: bool
  we_has_tls :: bool
  we_conn :: conn_env
  we_malloc :: "'n \<Rightarrow> bool \<times> 'n"
  we_cancelled :: "'n \<Rightarrow> bool \<times> 'n"
  we_poll :: "int \<Rightarrow> poll_events \<Rightarrow> 'n \<Rightarrow> (errno + (poll_events \<times> poll_events) option) \<times> 'n"
  we_send :: "int \<Rightarrow> string \<Rightarrow> 'n \<Rightarrow> (errno + nat) \<times> 'n"
  we_recv :: "int \<Rightarrow> nat \<Rightarrow> 'n \<Rightarrow> (errno + string) \<times> 'n"
  we_tls_create :: "int \<Rightarrow> 'n \<Rightarrow> nat option \<times> 'n"
  we_tls_handshake :: "nat \<Rightarrow> 'n \<Rightarrow> handshake_result \<times> 'n"
  we_tls_write :: "nat \<Rightarrow> string \<Rightarrow> 'n \<Rightarrow> nat tls_io \<times> 'n"
  we_tls_read :: "nat \<Rightarrow> nat \<Rightarrow> 'n \<Rightarrow> string tls_io \<times> 'n"
  we_close_notify :: "nat \<Rightarrow> 'n \<Rightarrow> handshake_result \<times> 'n"
  we_poll_one :: "int \<Rightarrow> poll_events \<Rightarrow> 'n \<Rightarrow> bool \<times> 'n"  \<comment> \<open>ready within 100 ms\<close>

record ('x, 'n) wst =
  w_job :: job
  w_bytes :: "64 word"
  w_tls :: "nat option"
  w_sys :: "'x sys"
  w_net :: 'n
  w_sent :: string
  w_rcvd :: string

definition fs_call :: "('x, 'r) fs_op \<Rightarrow> ('x, 'n) wst \<Rightarrow> 'r option \<times> ('x, 'n) wst" where
  "fs_call f w = (fst (f (w_sys w)), w\<lparr> w_sys := snd (f (w_sys w)) \<rparr>)"

definition net_call :: "('n \<Rightarrow> 'r \<times> 'n) \<Rightarrow> ('x, 'n) wst \<Rightarrow> 'r \<times> ('x, 'n) wst" where
  "net_call f w = (fst (f (w_net w)), w\<lparr> w_net := snd (f (w_net w)) \<rparr>)"

abbreviation w_errno :: "('x, 'n) wst \<Rightarrow> errno" where
  "w_errno w \<equiv> sys_errno (w_sys w)"

abbreviation TRANSFER_BUF :: nat where "TRANSFER_BUF \<equiv> 65536"

definition job_cancelled :: "('x, 'n) wenv \<Rightarrow> ('x, 'n) wst \<Rightarrow> bool \<times> ('x, 'n) wst" where
  "job_cancelled e = net_call (we_cancelled e)"

definition progress_store :: "64 word \<Rightarrow> ('x, 'n) wst \<Rightarrow> ('x, 'n) wst" where
  "progress_store bytes w = w\<lparr> w_job := (w_job w)\<lparr> j_bytes := bytes \<rparr> \<rparr>"

text \<open>The byte count and the published progress after a chunk.\<close>

definition count_bytes :: "nat \<Rightarrow> ('x, 'n) wst \<Rightarrow> ('x, 'n) wst" where
  "count_bytes n w = (let b = w_bytes w + of_nat n in progress_store b (w\<lparr> w_bytes := b \<rparr>))"

subsection \<open>The data connection\<close>

definition wait_fd :: "('x, 'n) wenv \<Rightarrow> poll_events \<Rightarrow> ('x, 'n) wst \<Rightarrow> rc \<times> ('x, 'n) wst" where
  "wait_fd e events w =
     (case net_call (we_poll e (j_data_fd (w_job w)) events) w of
        (Inl err, w) \<Rightarrow> (Some err, w)
      | (Inr None, w) \<Rightarrow>
          (case job_cancelled e w of (c, w) \<Rightarrow> (Some (if c then ECANCELED else EAGAIN), w))
      | (Inr (Some (r0, r1)), w) \<Rightarrow>
          if r1 AND (POLLIN OR POLLERR OR POLLHUP) \<noteq> 0 then
            (case job_cancelled e w of (c, w) \<Rightarrow> (Some (if c then ECANCELED else EAGAIN), w))
          else if r0 AND (POLLERR OR POLLHUP OR POLLNVAL) \<noteq> 0 then (Some EPIPE, w)
          else if r0 AND events \<noteq> 0 then (None, w)
          else (Some EAGAIN, w))"

text \<open>One \<open>send\<close> or \<open>opftp_tls_write\<close>, with the ghost record of what was accepted.\<close>

definition data_send :: "('x, 'n) wenv \<Rightarrow> string \<Rightarrow> ('x, 'n) wst \<Rightarrow> (errno + nat) \<times> ('x, 'n) wst" where
  "data_send e bs w =
     (case net_call (we_send e (j_data_fd (w_job w)) bs) w of
        (Inr n, w) \<Rightarrow> (Inr n, w\<lparr> w_sent := w_sent w @ take n bs \<rparr>)
      | (Inl err, w) \<Rightarrow> (Inl err, w))"

definition tls_send :: "('x, 'n) wenv \<Rightarrow> nat \<Rightarrow> string \<Rightarrow> ('x, 'n) wst \<Rightarrow> nat tls_io \<times> ('x, 'n) wst" where
  "tls_send e t bs w =
     (case net_call (we_tls_write e t bs) w of
        (Tls_done n, w) \<Rightarrow> (Tls_done n, w\<lparr> w_sent := w_sent w @ take n bs \<rparr>)
      | (r, w) \<Rightarrow> (r, w))"

text \<open>One pass of the loop of \<open>send_all\<close>, on the bytes that remain.\<close>

definition send_step ::
  "('x, 'n) wenv \<Rightarrow> string \<times> ('x, 'n) wst \<Rightarrow> (rc \<times> ('x, 'n) wst, string \<times> ('x, 'n) wst) iter" where
  "send_step e =
     (\<lambda>(rest, w).
        if rest = [] then Return (None, w)
        else
          (case job_cancelled e w of
             (True, w) \<Rightarrow> Return (Some ECANCELED, w)
           | (False, w) \<Rightarrow>
               (case w_tls w of
                  Some t \<Rightarrow>
                    (case tls_send e t rest w of
                       (Tls_done n, w) \<Rightarrow>
                         if n > 0 then Continue (drop n rest, w) else Return (Some EPIPE, w)
                     | (Tls_error, w) \<Rightarrow> Return (Some EPIPE, w)
                     | (r, w) \<Rightarrow>
                         (case wait_fd e (if r = Tls_want_write then POLLOUT else POLLIN) w of
                            (x, w) \<Rightarrow>
                              if x = None \<or> x = Some EAGAIN then Continue (rest, w) else Return (x, w)))
                | None \<Rightarrow>
                    (case wait_fd e POLLOUT w of
                       (x, w) \<Rightarrow>
                         if x = Some EAGAIN then Continue (rest, w)
                         else if x \<noteq> None then Return (x, w)
                         else
                           (case data_send e rest w of
                              (Inr n, w) \<Rightarrow>
                                if n > 0 then Continue (drop n rest, w) else Return (Some EPIPE, w)
                            | (Inl err, w) \<Rightarrow>
                                if would_block err then Continue (rest, w) else Return (Some err, w))))))"

definition send_all :: "('x, 'n) wenv \<Rightarrow> string \<Rightarrow> ('x, 'n) wst \<Rightarrow> (rc \<times> ('x, 'n) wst) option" where
  "send_all e bs w = iterate (\<lambda>s. Some (send_step e s)) (bs, w)"

text \<open>\<open>recv_some\<close>: bytes, none of them on a clean end, or an error.\<close>

definition rcvd :: "string \<Rightarrow> ('x, 'n) wst \<Rightarrow> ('x, 'n) wst" where
  "rcvd bs w = w\<lparr> w_rcvd := w_rcvd w @ bs \<rparr>"

definition recv_some :: "('x, 'n) wenv \<Rightarrow> nat \<Rightarrow> ('x, 'n) wst \<Rightarrow> (errno + string) \<times> ('x, 'n) wst" where
  "recv_some e len w =
     (case job_cancelled e w of
        (c, w) \<Rightarrow>
          if c then (Inl ECANCELED, w)
          else
            (case w_tls w of
               Some t \<Rightarrow>
                 (case net_call (we_tls_read e t len) w of
                    (r, w) \<Rightarrow>
                      (case r of
                         Tls_done bs \<Rightarrow> (Inr bs, rcvd bs w)
                       | Tls_error \<Rightarrow> (Inl EPIPE, w)
                       | _ \<Rightarrow>
                           (case wait_fd e (if r = Tls_want_write then POLLOUT else POLLIN) w of
                              (x, w) \<Rightarrow>
                                (case x of
                                   Some err \<Rightarrow> (Inl (if err = EAGAIN then EAGAIN else err), w)
                                 | None \<Rightarrow> (Inl EAGAIN, w)))))
             | None \<Rightarrow>
                 (case wait_fd e POLLIN w of
                    (x, w) \<Rightarrow>
                      (case x of
                         Some err \<Rightarrow> (Inl err, w)
                       | None \<Rightarrow>
                           (case net_call (we_recv e (j_data_fd (w_job w)) len) w of
                              (r, w) \<Rightarrow>
                                (case r of
                                   Inr bs \<Rightarrow> (Inr bs, rcvd bs w)
                                 | Inl err \<Rightarrow> (Inl (if would_block err then EAGAIN else err), w)))))))"

text \<open>The TLS handshake on the data connection.\<close>

definition tls_setup_step ::
  "('x, 'n) wenv \<Rightarrow> nat \<Rightarrow> ('x, 'n) wst \<Rightarrow> (rc \<times> ('x, 'n) wst, ('x, 'n) wst) iter" where
  "tls_setup_step e t w =
     (case job_cancelled e w of
        (True, w) \<Rightarrow> Return (Some ECANCELED, w)
      | (False, w) \<Rightarrow>
          (case net_call (we_tls_handshake e t) w of
             (Hs_done, w) \<Rightarrow> Return (None, w)
           | (Hs_error, w) \<Rightarrow> Return (Some EPIPE, w)
           | (r, w) \<Rightarrow>
               (case wait_fd e (if r = Hs_want_write then POLLOUT else POLLIN) w of
                  (x, w) \<Rightarrow> if x = None \<or> x = Some EAGAIN then Continue w else Return (x, w))))"

definition data_tls_setup :: "('x, 'n) wenv \<Rightarrow> ('x, 'n) wst \<Rightarrow> (rc \<times> ('x, 'n) wst) option" where
  "data_tls_setup e w =
     (if \<not> we_has_tls e then Some (Some ENOTSUP, w)
      else
        (case net_call (we_tls_create e (j_data_fd (w_job w))) w of
           (None, w) \<Rightarrow> Some (Some EPIPE, w)
         | (Some t, w) \<Rightarrow> iterate (\<lambda>w. Some (tls_setup_step e t w)) (w\<lparr> w_tls := Some t \<rparr>)))"

subsection \<open>LIST, NLST and MLSD\<close>

abbreviation LIST_BATCH :: nat where "LIST_BATCH \<equiv> 8192"

text \<open>The macro \<open>LIST_FLUSH\<close>: the result is that of sending when there was something to send, and
  the one before otherwise.\<close>

definition list_flush ::
  "('x, 'n) wenv \<Rightarrow> string \<Rightarrow> rc \<Rightarrow> ('x, 'n) wst \<Rightarrow> (rc \<times> ('x, 'n) wst) option" where
  "list_flush e batch rc w =
     (if batch = [] then Some (rc, w)
      else Option.bind (send_all e batch w)
             (\<lambda>rw. Some (fst rw, if fst rw = None then count_bytes (length batch) (snd rw) else snd rw)))"

text \<open>The line of an entry, cut to what \<open>line[1024]\<close> holds, with the length \<open>snprintf\<close> returns.\<close>

definition list_line :: "('x, 'n) wenv \<Rightarrow> job \<Rightarrow> opftp_dirent \<Rightarrow> nat \<times> string" where
  "list_line e j de =
     (if j_nlst j then (let l = de_name de @ crlf in (length l, c_snprintf 1024 l))
      else if j_mlsd j then opftp_listing_format_mlsd 1024 de
      else opftp_listing_format (we_localtime e) 1024 de None)"

definition list_step ::
  "('x, 'n) wenv \<Rightarrow> nat \<Rightarrow> string \<times> ('x, 'n) wst \<Rightarrow>
     (rc \<times> string \<times> ('x, 'n) wst, string \<times> ('x, 'n) wst) iter option" where
  "list_step e dir =
     (\<lambda>(batch, w).
        case job_cancelled e w of
          (True, w) \<Rightarrow> Some (Return (Some ECANCELED, batch, w))
        | (False, w) \<Rightarrow>
            (case fs_call (fs_readdir (we_fs e) dir) w of
               (None, w) \<Rightarrow> Some (Return (Some (w_errno w), batch, w))
             | (Some None, w) \<Rightarrow> Some (Return (None, batch, w))
             | (Some (Some de), w) \<Rightarrow>
                 (case list_line e (w_job w) de of
                    (n, line) \<Rightarrow>
                      if n > LIST_BATCH - length batch then
                        map_option (\<lambda>(rc, w). if rc \<noteq> None then Return (rc, [], w)
                                               else Continue (take n line, w))
                          (list_flush e batch None w)
                      else Some (Continue (batch @ take n line, w)))))"

text \<open>The entry of a listing of a single file.\<close>

definition file_entry :: "string \<Rightarrow> opftp_stat \<Rightarrow> opftp_dirent" where
  "file_entry path st =
     \<lparr> de_name = c_snprintf 256 (base_name path), de_mode = st_mode st, de_size = st_size st,
       de_mtime = st_mtime st, de_uid = st_uid st, de_gid = st_gid st \<rparr>"

definition transfer_list :: "('x, 'n) wenv \<Rightarrow> ('x, 'n) wst \<Rightarrow> (rc \<times> ('x, 'n) wst) option" where
  "transfer_list e w =
     (let path = j_path (w_job w) in
      case fs_call (fs_stat (we_fs e) path) w of
        (None, w) \<Rightarrow> Some (Some (w_errno w), w)
      | (Some st, w) \<Rightarrow>
          if \<not> mode_is_dir (st_mode st) then
            (case list_line e ((w_job w)\<lparr> j_nlst := False \<rparr>) (file_entry path st) of
               (n, line) \<Rightarrow> list_flush e (take n line) None w)
          else
            (case fs_call (fs_opendir (we_fs e) path) w of
               (None, w) \<Rightarrow> Some (Some (w_errno w), w)
             | (Some dir, w) \<Rightarrow>
                 Option.bind (iterate (list_step e dir) ([], w))
                   (\<lambda>(rc, batch, w). Option.bind (list_flush e batch rc w)
                      (\<lambda>(rc, w). Some (rc, snd (fs_call (fs_closedir (we_fs e) dir) w))))))"

subsection \<open>RETR\<close>

definition retr_step ::
  "('x, 'n) wenv \<Rightarrow> int \<Rightarrow> ('x, 'n) wst \<Rightarrow> (rc \<times> ('x, 'n) wst, ('x, 'n) wst) iter option" where
  "retr_step e fd w =
     (case job_cancelled e w of
        (True, w) \<Rightarrow> Some (Return (Some ECANCELED, w))
      | (False, w) \<Rightarrow>
          (case fs_call (fs_read (we_fs e) fd TRANSFER_BUF) w of
             (None, w) \<Rightarrow> Some (Return (Some (w_errno w), w))
           | (Some buf, w) \<Rightarrow>
               if buf = [] then Some (Return (None, w))
               else map_option (\<lambda>(rc, w). if rc \<noteq> None then Return (rc, w)
                                           else Continue (count_bytes (length buf) w))
                      (send_all e buf w)))"

definition fs_close_w :: "('x, 'n) wenv \<Rightarrow> int \<Rightarrow> ('x, 'n) wst \<Rightarrow> ('x, 'n) wst" where
  "fs_close_w e fd w = snd (fs_call (fs_close (we_fs e) fd) w)"

text \<open>Seeking to the restart point, and allocating the buffer.\<close>

definition seek_rest :: "('x, 'n) wenv \<Rightarrow> int \<Rightarrow> ('x, 'n) wst \<Rightarrow> bool \<times> ('x, 'n) wst" where
  "seek_rest e fd w =
     (case fs_call (fs_seek (we_fs e) fd (sint (j_rest (w_job w))) SEEK_SET) w of
        (r, w) \<Rightarrow> (r \<noteq> None, w))"

definition retr_total :: "('x, 'n) wenv \<Rightarrow> int \<Rightarrow> ('x, 'n) wst \<Rightarrow> ('x, 'n) wst" where
  "retr_total e fd w =
     (case fs_call (fs_fstat (we_fs e) fd) w of
        (Some st, w) \<Rightarrow>
          if mode_is_reg (st_mode st) then w\<lparr> w_job := (w_job w)\<lparr> j_total := st_size st \<rparr> \<rparr> else w
      | (None, w) \<Rightarrow> w)"

definition transfer_retr :: "('x, 'n) wenv \<Rightarrow> ('x, 'n) wst \<Rightarrow> (rc \<times> ('x, 'n) wst) option" where
  "transfer_retr e w =
     (case fs_call (fs_open (we_fs e) (j_path (w_job w)) OPFTP_O_RDONLY 0) w of
        (None, w) \<Rightarrow> Some (Some (w_errno w), w)
      | (Some fd, w) \<Rightarrow>
          let w = retr_total e fd w in
          (case (if j_rest (w_job w) > 0 then seek_rest e fd w else (True, w)) of
             (False, w) \<Rightarrow> Some (Some (w_errno w), fs_close_w e fd w)
           | (True, w) \<Rightarrow>
               (case net_call (we_malloc e) w of
                  (False, w) \<Rightarrow> Some (Some ENOMEM, fs_close_w e fd w)
                | (True, w) \<Rightarrow>
                    Option.bind (iterate (retr_step e fd) w) (\<lambda>(rc, w). Some (rc, fs_close_w e fd w)))))"

subsection \<open>STOR and APPE\<close>

text \<open>Writing a chunk; every pass writes something or ends.\<close>

function fs_write_all :: "('x, 'n) wenv \<Rightarrow> int \<Rightarrow> string \<Rightarrow> ('x, 'n) wst \<Rightarrow> rc \<times> ('x, 'n) wst" where
  "fs_write_all e fd buf w =
     (if buf = [] then (None, w)
      else
        (case fs_call (fs_write (we_fs e) fd buf) w of
           (None, w) \<Rightarrow> (Some (w_errno w), w)
         | (Some n, w) \<Rightarrow> if n = 0 then (Some EIO, w) else fs_write_all e fd (drop n buf) w))"
  by pat_completeness auto
termination
  by (relation "measure (\<lambda>(e, fd, buf, w). length buf)") auto

declare fs_write_all.simps [simp del]

definition stor_step ::
  "('x, 'n) wenv \<Rightarrow> int \<Rightarrow> ('x, 'n) wst \<Rightarrow> (rc \<times> ('x, 'n) wst, ('x, 'n) wst) iter" where
  "stor_step e fd w =
     (case job_cancelled e w of
        (True, w) \<Rightarrow> Return (Some ECANCELED, w)
      | (False, w) \<Rightarrow>
          (case recv_some e TRANSFER_BUF w of
             (Inl err, w) \<Rightarrow> if err = EAGAIN then Continue w else Return (Some err, w)
           | (Inr buf, w) \<Rightarrow>
               if buf = [] then Return (None, w)
               else
                 (case fs_write_all e fd buf w of
                    (rc, w) \<Rightarrow>
                      if rc \<noteq> None then Return (rc, w) else Continue (count_bytes (length buf) w))))"

definition stor_flags :: "job \<Rightarrow> 32 word" where
  "stor_flags j =
     OPFTP_O_WRONLY OR OPFTP_O_CREAT OR
     (if j_op j = OPFTP_JOB_STOR \<and> j_rest j = 0 then OPFTP_O_TRUNC else 0) OR
     (if j_op j = OPFTP_JOB_APPE then OPFTP_O_APPEND else 0)"

definition transfer_stor :: "('x, 'n) wenv \<Rightarrow> ('x, 'n) wst \<Rightarrow> (rc \<times> ('x, 'n) wst) option" where
  "transfer_stor e w =
     (let j = w_job w in
      case fs_call (fs_open (we_fs e) (j_path j) (stor_flags j) 0x1A4) w of
        (None, w) \<Rightarrow> Some (Some (w_errno w), w)
      | (Some fd, w) \<Rightarrow>
          (case (if j_rest j > 0 \<and> j_op j = OPFTP_JOB_STOR then seek_rest e fd w else (True, w)) of
             (False, w) \<Rightarrow> Some (Some (w_errno w), fs_close_w e fd w)
           | (True, w) \<Rightarrow>
               (case net_call (we_malloc e) w of
                  (False, w) \<Rightarrow> Some (Some ENOMEM, fs_close_w e fd w)
                | (True, w) \<Rightarrow>
                    Option.bind (iterate (\<lambda>w. Some (stor_step e fd w)) w) (\<lambda>(rc, w). Some (rc, fs_close_w e fd w)))))"

subsection \<open>Server-side copy\<close>

abbreviation COPY_MAX_DEPTH :: nat where "COPY_MAX_DEPTH \<equiv> 32"

definition copy_step ::
  "('x, 'n) wenv \<Rightarrow> int \<Rightarrow> int \<Rightarrow> ('x, 'n) wst \<Rightarrow> (rc \<times> ('x, 'n) wst, ('x, 'n) wst) iter" where
  "copy_step e inp out w =
     (case job_cancelled e w of
        (True, w) \<Rightarrow> Return (Some ECANCELED, w)
      | (False, w) \<Rightarrow>
          (case fs_call (fs_read (we_fs e) inp TRANSFER_BUF) w of
             (None, w) \<Rightarrow> Return (Some (w_errno w), w)
           | (Some buf, w) \<Rightarrow>
               if buf = [] then Return (None, w)
               else
                 (case fs_write_all e out buf w of
                    (rc, w) \<Rightarrow>
                      if rc \<noteq> None then Return (rc, w) else Continue (count_bytes (length buf) w))))"

definition unlink_new :: "('x, 'n) wenv \<Rightarrow> bool \<Rightarrow> string \<Rightarrow> ('x, 'n) wst \<Rightarrow> ('x, 'n) wst" where
  "unlink_new e existed dst w = (if existed then w else snd (fs_call (fs_unlink (we_fs e) dst) w))"

definition copy_file :: "('x, 'n) wenv \<Rightarrow> string \<Rightarrow> string \<Rightarrow> ('x, 'n) wst \<Rightarrow> (rc \<times> ('x, 'n) wst) option" where
  "copy_file e src dst w =
     (case fs_call (fs_open (we_fs e) src OPFTP_O_RDONLY 0) w of
        (None, w) \<Rightarrow> Some (Some (w_errno w), w)
      | (Some inp, w) \<Rightarrow>
          (case fs_call (fs_stat (we_fs e) dst) w of
             (st, w) \<Rightarrow>
               let existed = (st \<noteq> None) in
               (case fs_call (fs_open (we_fs e) dst (OPFTP_O_WRONLY OR OPFTP_O_CREAT OR OPFTP_O_TRUNC) 0x1A4) w of
                  (None, w) \<Rightarrow> Some (Some (w_errno w), fs_close_w e inp w)
                | (Some out, w) \<Rightarrow>
                    (case net_call (we_malloc e) w of
                       (False, w) \<Rightarrow>
                         Some (Some ENOMEM, unlink_new e existed dst (fs_close_w e out (fs_close_w e inp w)))
                     | (True, w) \<Rightarrow>
                         Option.bind (iterate (\<lambda>w. Some (copy_step e inp out w)) w)
                           (\<lambda>(rc, w).
                              let w = fs_close_w e out (fs_close_w e inp w)
                              in Some (rc, if rc \<noteq> None then unlink_new e existed dst w else w))))))"

text \<open>\<open>copy_join\<close>: the path, or \<^const>\<open>None\<close> for \<open>-ENAMETOOLONG\<close>.\<close>

definition copy_join :: "nat \<Rightarrow> string \<Rightarrow> string \<Rightarrow> string option" where
  "copy_join outsz root rel =
     (let p = (if rel = [] then root
               else if root = [slash] then slash # rel
               else root @ [slash] @ rel)
      in if length p \<ge> outsz then None else Some p)"

text \<open>The path of an entry relative to the copy roots.\<close>

definition child_rel :: "string \<Rightarrow> string \<Rightarrow> string option" where
  "child_rel rel name =
     (let p = (if rel \<noteq> [] then rel @ [slash] @ name else name)
      in if length p \<ge> OPFTP_MAX_PATH then None else Some p)"

type_synonym copy_stack = "(string \<times> nat) list"

text \<open>One entry of the directory \<open>rel\<close>.\<close>

definition copy_entry ::
  "('x, 'n) wenv \<Rightarrow> nat \<Rightarrow> string \<Rightarrow> nat \<Rightarrow> copy_stack \<times> ('x, 'n) wst \<Rightarrow>
     (rc \<times> copy_stack \<times> ('x, 'n) wst, copy_stack \<times> ('x, 'n) wst) iter option" where
  "copy_entry e dir rel depth =
     (\<lambda>(stack, w).
        case job_cancelled e w of
          (True, w) \<Rightarrow> Some (Return (Some ECANCELED, stack, w))
        | (False, w) \<Rightarrow>
            (case fs_call (fs_readdir (we_fs e) dir) w of
               (None, w) \<Rightarrow> Some (Return (Some (w_errno w), stack, w))
             | (Some None, w) \<Rightarrow> Some (Return (None, stack, w))
             | (Some (Some de), w) \<Rightarrow>
                 if de_name de = ''.'' \<or> de_name de = ''..'' then Some (Continue (stack, w))
                 else
                   (case child_rel rel (de_name de) of
                      None \<Rightarrow> Some (Return (Some ENAMETOOLONG, stack, w))
                    | Some crel \<Rightarrow>
                        if mode_is_dir (de_mode de) then
                          if depth + 1 \<ge> COPY_MAX_DEPTH then Some (Return (Some ELOOP, stack, w))
                          else
                            (case net_call (we_malloc e) w of
                               (True, w) \<Rightarrow> Some (Continue ((crel, depth + 1) # stack, w))
                             | (False, w) \<Rightarrow> Some (Return (Some ENOMEM, stack, w)))
                        else if mode_is_reg (de_mode de) then
                          (case (copy_join OPFTP_MAX_PATH (j_path (w_job w)) crel,
                                 copy_join OPFTP_MAX_PATH (j_dst (w_job w)) crel) of
                             (Some cs, Some cd) \<Rightarrow>
                               map_option (\<lambda>(rc, w). if rc \<noteq> None then Return (rc, stack, w)
                                                      else Continue (stack, w))
                                 (copy_file e cs cd w)
                           | _ \<Rightarrow> Some (Return (Some ENAMETOOLONG, stack, w)))
                        else Some (Continue (stack, w)))))"

text \<open>A destination directory that is missing is created.\<close>

definition ensure_dir :: "('x, 'n) wenv \<Rightarrow> string \<Rightarrow> ('x, 'n) wst \<Rightarrow> bool \<times> ('x, 'n) wst" where
  "ensure_dir e dst w =
     (case fs_call (fs_stat (we_fs e) dst) w of
        (Some st, w) \<Rightarrow> (True, w)
      | (None, w) \<Rightarrow> (case fs_call (fs_mkdir (we_fs e) dst 0x1ED) w of (r, w) \<Rightarrow> (r \<noteq> None, w)))"

text \<open>The directory on top of the stack.\<close>

definition copy_dir ::
  "('x, 'n) wenv \<Rightarrow> copy_stack \<times> ('x, 'n) wst \<Rightarrow>
     (rc \<times> ('x, 'n) wst, copy_stack \<times> ('x, 'n) wst) iter option" where
  "copy_dir e =
     (\<lambda>(stack, w).
        case stack of
          [] \<Rightarrow> Some (Return (None, w))
        | (rel, depth) # stack \<Rightarrow>
            (case job_cancelled e w of
               (True, w) \<Rightarrow> Some (Return (Some ECANCELED, w))
             | (False, w) \<Rightarrow>
                 (case (copy_join OPFTP_MAX_PATH (j_path (w_job w)) rel,
                        copy_join OPFTP_MAX_PATH (j_dst (w_job w)) rel) of
                    (Some srcp, Some dstp) \<Rightarrow>
                      (case ensure_dir e dstp w of
                         (False, w) \<Rightarrow> Some (Return (Some (w_errno w), w))
                       | (True, w) \<Rightarrow>
                           (case fs_call (fs_opendir (we_fs e) srcp) w of
                              (None, w) \<Rightarrow> Some (Return (Some (w_errno w), w))
                            | (Some dir, w) \<Rightarrow>
                                map_option
                                  (\<lambda>(rc, stack, w).
                                     let w = snd (fs_call (fs_closedir (we_fs e) dir) w)
                                     in if rc \<noteq> None then Return (rc, w) else Continue (stack, w))
                                  (iterate (copy_entry e dir rel depth) (stack, w))))
                  | _ \<Rightarrow> Some (Return (Some ENAMETOOLONG, w)))))"

definition copy_tree :: "('x, 'n) wenv \<Rightarrow> ('x, 'n) wst \<Rightarrow> (rc \<times> ('x, 'n) wst) option" where
  "copy_tree e w =
     (case net_call (we_malloc e) w of
        (False, w) \<Rightarrow> Some (Some ENOMEM, w)
      | (True, w) \<Rightarrow> iterate (copy_dir e) ([([], 0)], w))"

definition transfer_copy :: "('x, 'n) wenv \<Rightarrow> ('x, 'n) wst \<Rightarrow> (rc \<times> ('x, 'n) wst) option" where
  "transfer_copy e w =
     (let j = w_job w in
      if j_path j = j_dst j then Some (Some EINVAL, w)
      else
        (case fs_call (fs_stat (we_fs e) (j_path j)) w of
           (None, w) \<Rightarrow> Some (Some (w_errno w), w)
         | (Some st, w) \<Rightarrow>
             if mode_is_dir (st_mode st) then copy_tree e w
             else copy_file e (j_path j) (j_dst j) (w\<lparr> w_job := (w_job w)\<lparr> j_total := st_size st \<rparr> \<rparr>)))"

subsection \<open>The worker's entry\<close>

fun close_notify_loop :: "nat \<Rightarrow> ('x, 'n) wenv \<Rightarrow> nat \<Rightarrow> ('x, 'n) wst \<Rightarrow> ('x, 'n) wst" where
  "close_notify_loop 0 e t w = w"
| "close_notify_loop (Suc i) e t w =
     (case net_call (we_close_notify e t) w of
        (r, w) \<Rightarrow>
          if r = Hs_done \<or> r = Hs_error then w
          else
            (case net_call (we_poll_one e (j_data_fd (w_job w)) (if r = Hs_want_write then POLLOUT else POLLIN)) w of
               (ready, w) \<Rightarrow> if ready then close_notify_loop i e t w else w))"

definition transfer_switch :: "('x, 'n) wenv \<Rightarrow> ('x, 'n) wst \<Rightarrow> (rc \<times> ('x, 'n) wst) option" where
  "transfer_switch e w =
     (case j_op (w_job w) of
        OPFTP_JOB_LIST \<Rightarrow> transfer_list e w
      | OPFTP_JOB_RETR \<Rightarrow> transfer_retr e w
      | OPFTP_JOB_STOR \<Rightarrow> transfer_stor e w
      | OPFTP_JOB_APPE \<Rightarrow> transfer_stor e w
      | OPFTP_JOB_COPY \<Rightarrow> transfer_copy e w)"

definition transfer_finish :: "('x, 'n) wenv \<Rightarrow> rc \<Rightarrow> ('x, 'n) wst \<Rightarrow> ('x, 'n) wst" where
  "transfer_finish e rc w =
     (let w = (case w_tls w of
                 None \<Rightarrow> w
               | Some t \<Rightarrow> (if rc = None then close_notify_loop 50 e t w else w)\<lparr> w_tls := None \<rparr>)
      in w\<lparr> w_job := (w_job w)\<lparr> j_bytes := w_bytes w, j_result := rc \<rparr> \<rparr>)"

text \<open>\<open>opftp_transfer_run\<close> up to putting the job on the completion list. The worker starts with an
  empty byte count and no TLS session.\<close>

definition worker_start :: "job \<Rightarrow> 'x sys \<Rightarrow> 'n \<Rightarrow> ('x, 'n) wst" where
  "worker_start j s n = \<lparr> w_job = j, w_bytes = 0, w_tls = None, w_sys = s, w_net = n, w_sent = [], w_rcvd = [] \<rparr>"

definition opftp_transfer_run :: "('x, 'n) wenv \<Rightarrow> job \<Rightarrow> 'x sys \<Rightarrow> 'n \<Rightarrow> ('x, 'n) wst option" where
  "opftp_transfer_run e j s n =
     (let w = worker_start j s n;
          (rc, w) = (if j_op j \<noteq> OPFTP_JOB_COPY then
                       (case opftp_datachan_connect_job (we_conn e) (we_allow_foreign_port e) j of
                          (rc, j) \<Rightarrow> (rc, w\<lparr> w_job := j \<rparr>))
                     else (None, w))
      in if rc \<noteq> None then Some (transfer_finish e rc w)
         else
           Option.bind (if j_need_tls j then data_tls_setup e w else Some (None, w))
             (\<lambda>(rc, w).
                if rc \<noteq> None then Some (transfer_finish e rc w)
                else Option.bind (transfer_switch e w) (\<lambda>(rc, w). Some (transfer_finish e rc w))))"

end
