(* ===== verification/Fs_Contract.thy ===== *)
theory Fs_Contract
  imports Fs_Vtable
begin

text \<open>
  What the transfer code relies on when it reads and writes files through the vtable: an open
  descriptor is a cursor into the contents of the file it was opened for. The laws speak about
  successful calls only; short reads and writes are allowed. A backend keeps a well-formedness
  predicate of its own.
\<close>

section \<open>Cursors\<close>

text \<open>Writing \<open>bs\<close> into \<open>d\<close> at a position, filling a gap with zero bytes.\<close>

definition write_at :: "string \<Rightarrow> nat \<Rightarrow> string \<Rightarrow> string" where
  "write_at d pos bs =
     (if bs = [] then d
      else take pos d @ replicate (pos - length d) (CHR 0x00) @ bs @ drop (pos + length bs) d)"

lemma write_at_nil [simp]: "write_at d pos [] = d"
  by (simp add: write_at_def)

lemma write_at_end [simp]: "write_at d (length d) bs = d @ bs"
  by (simp add: write_at_def)

lemma write_at_empty [simp]: "write_at [] 0 bs = bs"
  using write_at_end [of "[]" bs] by simp

lemma length_write_at: "bs \<noteq> [] \<Longrightarrow> length (write_at d pos bs) = max (length d) (pos + length bs)"
  by (auto simp: write_at_def max_def min_def)

text \<open>Writing two chunks one after the other is writing them at once.\<close>

lemma write_at_append: "write_at (write_at d pos bs) (pos + length bs) cs = write_at d pos (bs @ cs)"
proof (cases "bs = [] \<or> cs = []")
  case False
  let ?a = "take pos d @ replicate (pos - length d) (CHR 0x00) @ bs"
  have l: "length ?a = pos + length bs" by simp
  have sp: "write_at d pos bs = ?a @ drop (pos + length bs) d" using False by (simp add: write_at_def)
  have "take (pos + length bs) (write_at d pos bs) = ?a" unfolding sp using l by (metis append_eq_conv_conj)
  moreover have "drop (pos + length bs + length cs) (write_at d pos bs) = drop (pos + length bs + length cs) d"
    unfolding sp drop_append l by (simp add: ac_simps)
  moreover have "pos + length bs \<le> length (write_at d pos bs)" using False by (simp add: length_write_at)
  ultimately show ?thesis
    using False by (simp add: write_at_def [of "write_at d pos bs"]) (simp add: write_at_def ac_simps)
qed auto

section \<open>Calls as data\<close>

datatype fs_req =
    Req_open string "32 word" "16 word" | Req_close int | Req_read int nat | Req_write int string
  | Req_seek int int seek_whence | Req_fstat int | Req_stat string | Req_opendir string | Req_readdir nat
  | Req_closedir nat | Req_mkdir string "16 word" | Req_rmdir string | Req_unlink string
  | Req_rename string string | Req_chmod string "16 word" | Req_utimes string int

fun fs_apply :: "'x opftp_fs \<Rightarrow> fs_req \<Rightarrow> 'x sys \<Rightarrow> 'x sys" where
  "fs_apply fs (Req_open p fl md) s = snd (fs_open fs p fl md s)"
| "fs_apply fs (Req_close fd) s = snd (fs_close fs fd s)"
| "fs_apply fs (Req_read fd n) s = snd (fs_read fs fd n s)"
| "fs_apply fs (Req_write fd bs) s = snd (fs_write fs fd bs s)"
| "fs_apply fs (Req_seek fd off wh) s = snd (fs_seek fs fd off wh s)"
| "fs_apply fs (Req_fstat fd) s = snd (fs_fstat fs fd s)"
| "fs_apply fs (Req_stat p) s = snd (fs_stat fs p s)"
| "fs_apply fs (Req_opendir p) s = snd (fs_opendir fs p s)"
| "fs_apply fs (Req_readdir d) s = snd (fs_readdir fs d s)"
| "fs_apply fs (Req_closedir d) s = snd (fs_closedir fs d s)"
| "fs_apply fs (Req_mkdir p md) s = snd (fs_mkdir fs p md s)"
| "fs_apply fs (Req_rmdir p) s = snd (fs_rmdir fs p s)"
| "fs_apply fs (Req_unlink p) s = snd (fs_unlink fs p s)"
| "fs_apply fs (Req_rename p q) s = snd (fs_rename fs p q s)"
| "fs_apply fs (Req_chmod p md) s = snd (fs_chmod fs p md s)"
| "fs_apply fs (Req_utimes p t) s = snd (fs_utimes fs p t s)"

text \<open>The paths at which a call may create something.\<close>

fun req_targets :: "fs_req \<Rightarrow> string list" where
  "req_targets (Req_open p fl md) = [p]"
| "req_targets (Req_mkdir p md) = [p]"
| "req_targets (Req_rename p q) = [q]"
| "req_targets r = []"

text \<open>All the paths a call looks up.\<close>

fun req_paths :: "fs_req \<Rightarrow> string list" where
  "req_paths (Req_open p fl md) = [p]"
| "req_paths (Req_stat p) = [p]"
| "req_paths (Req_opendir p) = [p]"
| "req_paths (Req_mkdir p md) = [p]"
| "req_paths (Req_rmdir p) = [p]"
| "req_paths (Req_unlink p) = [p]"
| "req_paths (Req_rename p q) = [p, q]"
| "req_paths (Req_chmod p md) = [p]"
| "req_paths (Req_utimes p t) = [p]"
| "req_paths r = []"

section \<open>The contract\<close>

text \<open>\<open>cur\<close> gives contents and position of an open descriptor, \<open>contents\<close> the contents of the regular
  file at a path, and \<open>names s p fd\<close> says that \<open>p\<close> is the file open as \<open>fd\<close>; \<open>path_ok\<close> are the paths
  the backend is meant for.\<close>

locale file_backend =
  fixes fs :: "'x opftp_fs"
    and ok :: "'x \<Rightarrow> bool"
    and path_ok :: "string \<Rightarrow> bool"
    and cur :: "'x \<Rightarrow> int \<Rightarrow> (string \<times> nat) option"
    and contents :: "'x \<Rightarrow> string \<Rightarrow> string option"
    and names :: "'x \<Rightarrow> string \<Rightarrow> int \<Rightarrow> bool"
  assumes names_contents:
      "ok x \<Longrightarrow> names x p fd \<Longrightarrow> \<exists>d pos. cur x fd = Some (d, pos) \<and> contents x p = Some d"
    and open_read:
      "ok (sys_state s) \<Longrightarrow> path_ok p \<Longrightarrow> fs_open fs p OPFTP_O_RDONLY m s = (Some fd, s') \<Longrightarrow>
       ok (sys_state s') \<and> names (sys_state s') p fd \<and>
       (\<exists>d. contents (sys_state s) p = Some d \<and> cur (sys_state s') fd = Some (d, 0))"
    and open_trunc:
      "ok (sys_state s) \<Longrightarrow> path_ok p \<Longrightarrow>
       fs_open fs p (OPFTP_O_WRONLY OR OPFTP_O_CREAT OR OPFTP_O_TRUNC) m s = (Some fd, s') \<Longrightarrow>
       ok (sys_state s') \<and> names (sys_state s') p fd \<and> cur (sys_state s') fd = Some ([], 0)"
    and open_append:
      "ok (sys_state s) \<Longrightarrow> path_ok p \<Longrightarrow>
       fs_open fs p (OPFTP_O_WRONLY OR OPFTP_O_CREAT OR OPFTP_O_APPEND) m s = (Some fd, s') \<Longrightarrow>
       ok (sys_state s') \<and> names (sys_state s') p fd \<and>
       (\<exists>d. cur (sys_state s') fd = Some (d, length d) \<and>
         d = (case contents (sys_state s) p of Some d \<Rightarrow> d | None \<Rightarrow> []))"
    and open_update:
      "ok (sys_state s) \<Longrightarrow> path_ok p \<Longrightarrow>
       fs_open fs p (OPFTP_O_WRONLY OR OPFTP_O_CREAT) m s = (Some fd, s') \<Longrightarrow>
       ok (sys_state s') \<and> names (sys_state s') p fd \<and>
       (\<exists>d. cur (sys_state s') fd = Some (d, 0) \<and>
         d = (case contents (sys_state s) p of Some d \<Rightarrow> d | None \<Rightarrow> []))"
    and open_other:
      "ok (sys_state s) \<Longrightarrow> path_ok p \<Longrightarrow> path_ok q \<Longrightarrow> p \<noteq> q \<Longrightarrow> names (sys_state s) q fd' \<Longrightarrow>
       fs_open fs p flags m s = (Some fd, s') \<Longrightarrow>
       fd \<noteq> fd' \<and> names (sys_state s') q fd' \<and> cur (sys_state s') fd' = cur (sys_state s) fd'"
    and read_law:
      "ok (sys_state s) \<Longrightarrow> cur (sys_state s) fd = Some (d, pos) \<Longrightarrow> fs_read fs fd n s = (Some bs, s') \<Longrightarrow>
       ok (sys_state s') \<and> (\<exists>k. bs = take k (drop pos d)) \<and> (bs = [] \<and> 0 < n \<longrightarrow> length d \<le> pos) \<and>
       cur (sys_state s') fd = Some (d, pos + length bs)"
    and read_other:
      "ok (sys_state s) \<Longrightarrow> fs_read fs fd n s = (Some bs, s') \<Longrightarrow>
       (\<forall>q fd'. names (sys_state s) q fd' \<longrightarrow> names (sys_state s') q fd') \<and>
       (\<forall>fd'. fd' \<noteq> fd \<longrightarrow> cur (sys_state s') fd' = cur (sys_state s) fd')"
    and write_law:
      "ok (sys_state s) \<Longrightarrow> cur (sys_state s) fd = Some (d, pos) \<Longrightarrow> names (sys_state s) p fd \<Longrightarrow>
       bs \<noteq> [] \<Longrightarrow> fs_write fs fd bs s = (Some n, s') \<Longrightarrow>
       ok (sys_state s') \<and> names (sys_state s') p fd \<and> n \<le> length bs \<and>
       cur (sys_state s') fd = Some (write_at d pos (take n bs), pos + n)"
    and write_other:
      "ok (sys_state s) \<Longrightarrow> path_ok p \<Longrightarrow> path_ok q \<Longrightarrow> p \<noteq> q \<Longrightarrow> names (sys_state s) p fd \<Longrightarrow>
       names (sys_state s) q fd' \<Longrightarrow> bs \<noteq> [] \<Longrightarrow> fs_write fs fd bs s = (Some n, s') \<Longrightarrow>
       names (sys_state s') q fd' \<and> cur (sys_state s') fd' = cur (sys_state s) fd'"
    and seek_law:
      "ok (sys_state s) \<Longrightarrow> cur (sys_state s) fd = Some (d, pos) \<Longrightarrow>
       fs_seek fs fd off SEEK_SET s = (Some k, s') \<Longrightarrow>
       ok (sys_state s') \<and> 0 \<le> off \<and> cur (sys_state s') fd = Some (d, nat off) \<and>
       (\<forall>p. names (sys_state s) p fd \<longrightarrow> names (sys_state s') p fd)"
    and stat_law: "ok (sys_state s) \<Longrightarrow> sys_state (snd (fs_stat fs p s)) = sys_state s"
    and fstat_law: "ok (sys_state s) \<Longrightarrow> cur (sys_state s) fd = Some c \<Longrightarrow> sys_state (snd (fs_fstat fs fd s)) = sys_state s"
    and close_law:
      "ok (sys_state s) \<Longrightarrow> fs_close fs fd s = (r, s') \<Longrightarrow>
       ok (sys_state s') \<and> contents (sys_state s') = contents (sys_state s)"

end
