(* ===== verification/Transfer_Correct.thy ===== *)
theory Transfer_Correct
  imports Transfer_Loops Fs_Contract
begin

text \<open>
  What the transfer loops do to the data connection and to files. The lemmas on the data connection
  hold for every transport; those on files are proved once over the contract \<open>file_backend\<close>.
\<close>

section \<open>Frames\<close>

text \<open>What each call changes of the worker state, as an update of it.\<close>

lemma cancelled_upd: "job_cancelled e w = (c, w') \<Longrightarrow> \<exists>n. w' = w\<lparr> w_net := n \<rparr>"
  by (auto simp: job_cancelled_def net_call_def)

lemma net_call_upd: "net_call f w = (c, w') \<Longrightarrow> \<exists>n. w' = w\<lparr> w_net := n \<rparr>"
  by (auto simp: net_call_def)

lemma wait_fd_upd: "wait_fd e ev w = (x, w') \<Longrightarrow> \<exists>n. w' = w\<lparr> w_net := n \<rparr>"
  by (auto simp: wait_fd_def split: prod.splits sum.splits option.splits if_splits
      dest!: net_call_upd cancelled_upd)

lemma data_send_upd:
  "data_send e bs w = (r, w') \<Longrightarrow>
     \<exists>n. w' = w\<lparr> w_net := n, w_sent := w_sent w @ (case r of Inr k \<Rightarrow> take k bs | Inl err \<Rightarrow> []) \<rparr>"
  by (auto simp: data_send_def net_call_def split: sum.splits)

lemma tls_send_upd:
  "tls_send e t bs w = (r, w') \<Longrightarrow>
     \<exists>n. w' = w\<lparr> w_net := n, w_sent := w_sent w @ (case r of Tls_done k \<Rightarrow> take k bs | _ \<Rightarrow> []) \<rparr>"
  by (auto simp: tls_send_def net_call_def split: tls_io.splits)

lemma recv_some_upd:
  "recv_some e k w = (r, w') \<Longrightarrow>
     \<exists>n. w' = w\<lparr> w_net := n, w_rcvd := w_rcvd w @ (case r of Inr bs \<Rightarrow> bs | Inl err \<Rightarrow> []) \<rparr>"
  by (auto simp: recv_some_def rcvd_def split: prod.splits sum.splits option.splits if_splits tls_io.splits
      dest!: net_call_upd cancelled_upd wait_fd_upd)

lemma fs_call_upd: "fs_call f w = (r, w') \<Longrightarrow> \<exists>s. w' = w\<lparr> w_sys := s \<rparr> \<and> f (w_sys w) = (r, s)"
  by (auto simp: fs_call_def)

lemmas call_upds = cancelled_upd net_call_upd wait_fd_upd data_send_upd tls_send_upd recv_some_upd fs_call_upd

section \<open>Sending\<close>

text \<open>Only the connection and the record of sent bytes have changed.\<close>

definition sent_more :: "string \<Rightarrow> ('x, 'n) wst \<Rightarrow> ('x, 'n) wst \<Rightarrow> bool" where
  "sent_more bs w w' \<longleftrightarrow> (\<exists>n. w' = w\<lparr> w_net := n, w_sent := w_sent w @ bs \<rparr>)"

lemma sent_more_trans: "sent_more bs w w1 \<Longrightarrow> sent_more cs w1 w2 \<Longrightarrow> sent_more (bs @ cs) w w2"
  by (auto simp: sent_more_def)

lemma sent_more_intros [simp]:
  "sent_more [] w w" "sent_more [] w (w\<lparr> w_net := n \<rparr>)"
  "sent_more bs w (w\<lparr> w_net := n, w_sent := w_sent w @ bs \<rparr>)"
  unfolding sent_more_def by (rule exI [of _ "w_net w"] exI [of _ n], simp)+

lemma send_step_return:
  assumes "send_step e (bs, w) = Return (rc, w')"
  shows "sent_more [] w w' \<and> (rc = None \<longrightarrow> bs = [])"
  using assms
  by (auto simp: send_step_def
      split: if_splits prod.splits bool.splits option.splits tls_io.splits sum.splits dest!: call_upds)

lemma send_step_continue:
  assumes "send_step e (bs, w) = Continue (bs', w')"
  shows "(sent_more [] w w' \<and> bs' = bs) \<or> (\<exists>n > 0. sent_more (take n bs) w w' \<and> bs' = drop n bs)"
proof -
  obtain c n where c: "job_cancelled e w = (c, w\<lparr> w_net := n \<rparr>)"
    using cancelled_upd [of e w] by (cases "job_cancelled e w") auto
  with assms have c': "bs \<noteq> []" "\<not> c" by (auto simp: send_step_def split: if_splits bool.splits)
  show ?thesis
  proof (cases "w_tls w")
    case None
    with assms c c' show ?thesis
      by (auto simp: send_step_def split: if_splits prod.splits sum.splits dest!: wait_fd_upd data_send_upd)
  next
    case (Some t)
    with assms c c' show ?thesis
      by (auto simp: send_step_def split: if_splits prod.splits tls_io.splits dest!: wait_fd_upd tls_send_upd)
  qed
qed

lemma send_step_rest:
  assumes "send_step e (bs, w) = Continue (bs', w')"
  obtains n where "sent_more (take n bs) w w'" "bs' = drop n bs"
  using send_step_continue [OF assms] that [of 0] that by auto

lemma send_all_result:
  assumes "send_all e bs w = Some (rc, w')"
  shows "\<exists>k. sent_more (take k bs) w w' \<and> (rc = None \<longrightarrow> sent_more bs w w')"
proof -
  let ?I = "\<lambda>(r, w1). \<exists>k. sent_more (take k bs) w w1 \<and> r = drop k bs"
  have "(\<lambda>(rc, w1). \<exists>k. sent_more (take k bs) w w1 \<and> (rc = None \<longrightarrow> sent_more bs w w1)) (rc, w')"
  proof (rule iterate_rule [where I = ?I, OF assms [unfolded send_all_def]], goal_cases start step final)
    case start
    show ?case by (auto intro: exI [of _ 0])
  next
    case (step s s')
    then obtain r w1 k r' w2 n where s: "s = (r, w1)" "s' = (r', w2)" "sent_more (take k bs) w w1" "r = drop k bs"
      "sent_more (take n r) w1 w2" "r' = drop n r"
      by (cases s; cases s') (auto elim: send_step_rest)
    then have "sent_more (take (k + n) bs) w w2"
      using sent_more_trans [OF s(3,5)] by (simp add: take_add)
    with s show ?case by (auto simp: add.commute intro!: exI [of _ "k + n"])
  next
    case (final s r)
    then obtain bs1 w1 k rc1 w2 where s: "s = (bs1, w1)" "r = (rc1, w2)" "sent_more (take k bs) w w1" "bs1 = drop k bs"
      "sent_more [] w1 w2" "rc1 = None \<longrightarrow> bs1 = []"
      by (cases s; cases r) (auto dest: send_step_return)
    then have "sent_more (take k bs) w w2" using sent_more_trans [OF s(3,5)] by simp
    with s show ?case by (auto intro!: exI [of _ k])
  qed
  then show ?thesis by simp
qed

section \<open>Downloads\<close>

abbreviation fsx :: "('x, 'n) wst \<Rightarrow> 'x" where
  "fsx w \<equiv> sys_state (w_sys w)"

lemma count_bytes_simps [simp]:
  "w_bytes (count_bytes n w) = w_bytes w + of_nat n" "w_sent (count_bytes n w) = w_sent w"
  "w_rcvd (count_bytes n w) = w_rcvd w" "w_sys (count_bytes n w) = w_sys w"
  "w_tls (count_bytes n w) = w_tls w" "w_net (count_bytes n w) = w_net w"
  "w_job (count_bytes n w) = (w_job w)\<lparr> j_bytes := w_bytes w + of_nat n \<rparr>"
  by (simp_all add: count_bytes_def progress_store_def Let_def)

context file_backend
begin

lemma retr_step_cases:
  assumes "we_fs e = fs" "ok (fsx w)" "cur (fsx w) fd = Some (d, pos)"
    "retr_step e fd w = Some x"
  obtains (stop) rc w' k where "x = Return (rc, w')" "rc \<noteq> None \<or> length d \<le> pos"
      "w_sent w' = w_sent w @ take k (drop pos d)" "rc = None \<longrightarrow> w_sent w' = w_sent w"
      "w_bytes w' = w_bytes w" "ok (fsx w') \<or> rc \<noteq> None"
    | (again) w' k where "x = Continue w'" "ok (fsx w')" "cur (fsx w') fd = Some (d, pos + k)" "0 < k"
      "k \<le> length d - pos" "w_sent w' = w_sent w @ take k (drop pos d)" "w_bytes w' = w_bytes w + of_nat k"
proof -
  obtain c n where c: "job_cancelled e w = (c, w\<lparr> w_net := n \<rparr>)"
    using cancelled_upd [of e w] by (cases "job_cancelled e w") auto
  obtain r s1 where r: "fs_read fs fd TRANSFER_BUF (w_sys w) = (r, s1)" by fastforce
  let ?w1 = "w\<lparr> w_net := n, w_sys := s1 \<rparr>"
  have f: "fs_call (fs_read (we_fs e) fd TRANSFER_BUF) (w\<lparr> w_net := n \<rparr>) = (r, ?w1)"
    by (simp add: fs_call_def assms(1) r)
  show thesis
  proof (cases "c \<or> r = None")
    case True
    with assms(4) c f stop [of _ _ 0] show thesis by (cases c) (auto simp: retr_step_def)
  next
    case False
    then obtain bs where bs: "r = Some bs" by auto
    have law: "ok (sys_state s1) \<and> (\<exists>k. bs = take k (drop pos d)) \<and>
        (bs = [] \<and> 0 < TRANSFER_BUF \<longrightarrow> length d \<le> pos) \<and> cur (sys_state s1) fd = Some (d, pos + length bs)"
      by (rule read_law [OF assms(2,3)]) (simp add: r bs)
    then obtain k where k: "bs = take k (drop pos d)" by blast
    then have kb: "bs = take (length bs) (drop pos d)" by (simp add: min_def)
    from law have ok1: "ok (sys_state s1)" and e: "bs = [] \<Longrightarrow> length d \<le> pos"
      and c1: "cur (sys_state s1) fd = Some (d, pos + length bs)" by simp_all
    show thesis
    proof (cases "bs = []")
      case True
      with assms(4) c f False bs e ok1 stop [of None ?w1 0] show thesis by (auto simp: retr_step_def)
    next
      case ne: False
      with assms(4) c f False bs obtain rc w2 where w2: "send_all e bs ?w1 = Some (rc, w2)"
        and x: "x = (if rc \<noteq> None then Return (rc, w2) else Continue (count_bytes (length bs) w2))"
        by (auto simp: retr_step_def)
      from send_all_result [OF w2] obtain m where
        m: "sent_more (take m bs) ?w1 w2" "rc = None \<longrightarrow> sent_more bs ?w1 w2" by blast
      show thesis
      proof (cases rc)
        case None
        with m have "sent_more bs ?w1 w2" by simp
        then show thesis
          using None x ne ok1 c1 k kb [symmetric]
          by (intro again [of "count_bytes (length bs) w2" "length bs"]) (auto simp: sent_more_def)
      next
        case (Some err)
        with x m(1) show thesis
          by (intro stop [of rc w2 "min m k"]) (auto simp: sent_more_def k take_take)
      qed
    qed
  qed
qed

lemma retr_loop_result:
  assumes "we_fs e = fs" "ok (fsx w)" "cur (fsx w) fd = Some (d, pos)"
    "iterate (retr_step e fd) w = Some (rc, w')"
  shows "(\<exists>k. w_sent w' = w_sent w @ take k (drop pos d)) \<and>
    (rc = None \<longrightarrow> w_sent w' = w_sent w @ drop pos d \<and> w_bytes w' = w_bytes w + of_nat (length d - pos))"
proof -
  let ?I = "\<lambda>w1. ok (fsx w1) \<and> (\<exists>k \<le> length d - pos. cur (fsx w1) fd = Some (d, pos + k) \<and>
      w_sent w1 = w_sent w @ take k (drop pos d) \<and> w_bytes w1 = w_bytes w + of_nat k)"
  let ?Q = "\<lambda>(rc, w'). (\<exists>k. w_sent w' = w_sent w @ take k (drop pos d)) \<and>
    (rc = None \<longrightarrow> w_sent w' = w_sent w @ drop pos d \<and> w_bytes w' = w_bytes w + of_nat (length d - pos))"
  have "?Q (rc, w')"
  proof (rule iterate_rule [where I = ?I and Q = ?Q, OF assms(4)], goal_cases start step final)
    case start
    show ?case using assms(2,3) by (auto intro: exI [of _ 0])
  next
    case (step w1 w2)
    then obtain k where k: "k \<le> length d - pos" "ok (fsx w1)" "cur (fsx w1) fd = Some (d, pos + k)"
      "w_sent w1 = w_sent w @ take k (drop pos d)" "w_bytes w1 = w_bytes w + of_nat k" by blast
    from assms(1) k(2,3) step(2) show ?case
    proof (cases rule: retr_step_cases)
      case (again w' m)
      with k have "take k (drop pos d) @ take m (drop (pos + k) d) = take (k + m) (drop pos d)"
        by (simp add: take_add add.commute)
      with again k show ?thesis by (auto simp: ac_simps intro!: exI [of _ "k + m"])
    qed simp
  next
    case (final w1 r)
    then obtain k where k: "k \<le> length d - pos" "ok (fsx w1)" "cur (fsx w1) fd = Some (d, pos + k)"
      "w_sent w1 = w_sent w @ take k (drop pos d)" "w_bytes w1 = w_bytes w + of_nat k" by blast
    from assms(1) k(2,3) final(2) show ?case
    proof (cases rule: retr_step_cases)
      case (stop rc' w' m)
      have "take k (drop pos d) @ take m (drop (pos + k) d) = take (k + m) (drop pos d)"
        by (simp add: take_add add.commute)
      moreover have "take k (drop pos d) = drop pos d" "k = length d - pos" if "length d \<le> pos + k"
        using that k(1) by simp_all
      ultimately show ?thesis using stop k by auto
    qed simp
  qed
  then show ?thesis by simp
qed


lemma seek_rest_result:
  assumes "we_fs e = fs" "ok (fsx w)" "cur (fsx w) fd = Some (d, pos)" "seek_rest e fd w = (True, w')"
  obtains s where "w' = w\<lparr> w_sys := s \<rparr>" "ok (sys_state s)"
    "cur (sys_state s) fd = Some (d, unat (j_rest (w_job w)))"
    "\<And>p. names (fsx w) p fd \<Longrightarrow> names (sys_state s) p fd"
proof -
  let ?off = "sint (j_rest (w_job w))"
  obtain r s where r: "fs_seek fs fd ?off SEEK_SET (w_sys w) = (r, s)" by fastforce
  with assms(1,4) obtain k where k: "r = Some k" and w': "w' = w\<lparr> w_sys := s \<rparr>"
    by (auto simp: seek_rest_def fs_call_def)
  have law: "ok (sys_state s) \<and> 0 \<le> ?off \<and> cur (sys_state s) fd = Some (d, nat ?off) \<and>
      (\<forall>p. names (fsx w) p fd \<longrightarrow> names (sys_state s) p fd)"
    by (rule seek_law [OF assms(2,3)]) (simp add: r k)
  have "nat ?off = unat (j_rest (w_job w))"
    using law by (intro sint_nonneg) simp
  with law w' that show thesis by simp
qed

lemma retr_total_result:
  assumes "we_fs e = fs" "ok (fsx w)" "cur (fsx w) fd = Some c"
  obtains s j where "retr_total e fd w = w\<lparr> w_sys := s, w_job := j \<rparr>" "sys_state s = fsx w"
    "j_rest j = j_rest (w_job w)" "j_path j = j_path (w_job w)"
proof -
  obtain r s where r: "fs_fstat fs fd (w_sys w) = (r, s)" by fastforce
  then have "sys_state s = fsx w" using fstat_law [OF assms(2,3)] by simp
  moreover have "retr_total e fd w = w\<lparr> w_sys := s, w_job := (case r of Some st \<Rightarrow>
      if mode_is_reg (st_mode st) then (w_job w)\<lparr> j_total := st_size st \<rparr> else w_job w | None \<Rightarrow> w_job w) \<rparr>"
    using r assms by (auto simp: retr_total_def fs_call_def split: option.split)
  ultimately show thesis using that by (simp split: option.splits if_splits)
qed

lemma close_result:
  assumes "we_fs e = fs" "ok (fsx w)"
  obtains s where "fs_close_w e fd w = w\<lparr> w_sys := s \<rparr>" "ok (sys_state s)" "contents (sys_state s) = contents (fsx w)"
proof -
  obtain r s where r: "fs_close fs fd (w_sys w) = (r, s)" by fastforce
  with close_law [OF assms(2), of fd] have "ok (sys_state s)" "contents (sys_state s) = contents (fsx w)" by auto
  moreover have "fs_close_w e fd w = w\<lparr> w_sys := s \<rparr>" using r assms(1) by (simp add: fs_close_w_def fs_call_def)
  ultimately show thesis using that by blast
qed

lemma close_frame: "w_sent (fs_close_w e fd w) = w_sent w" "w_bytes (fs_close_w e fd w) = w_bytes w"
  "w_rcvd (fs_close_w e fd w) = w_rcvd w" "w_job (fs_close_w e fd w) = w_job w"
  by (simp_all add: fs_close_w_def fs_call_def)

lemma transfer_retr_result:
  assumes "we_fs e = fs" "ok (fsx w)" "path_ok (j_path (w_job w))" "transfer_retr e w = Some (rc, w')"
  shows "w_sent w' = w_sent w \<and> rc \<noteq> None \<or>
    (\<exists>d k. contents (fsx w) (j_path (w_job w)) = Some d \<and>
       w_sent w' = w_sent w @ take k (drop (unat (j_rest (w_job w))) d) \<and>
       (rc = None \<longrightarrow> w_sent w' = w_sent w @ drop (unat (j_rest (w_job w))) d \<and>
          w_bytes w' = w_bytes w + of_nat (length d - unat (j_rest (w_job w)))))"
proof -
  let ?p = "j_path (w_job w)" and ?n = "unat (j_rest (w_job w))"
  obtain r s1 where r: "fs_open fs ?p OPFTP_O_RDONLY 0 (w_sys w) = (r, s1)" by fastforce
  have f: "fs_call (fs_open (we_fs e) ?p OPFTP_O_RDONLY 0) w = (r, w\<lparr> w_sys := s1 \<rparr>)"
    using r assms(1) by (simp add: fs_call_def)
  show ?thesis
  proof (cases r)
    case None
    with assms(4) f show ?thesis by (auto simp: transfer_retr_def)
  next
    case (Some fd)
    with r open_read [OF assms(2,3), of 0 fd s1] obtain d where
      o: "ok (sys_state s1)" "contents (fsx w) ?p = Some d" "cur (sys_state s1) fd = Some (d, 0)" by auto
    obtain s2 j where t: "retr_total e fd (w\<lparr> w_sys := s1 \<rparr>) = w\<lparr> w_sys := s2, w_job := j \<rparr>" and
      s2: "sys_state s2 = sys_state s1" "j_rest j = j_rest (w_job w)"
      by (rule retr_total_result [OF assms(1), of "w\<lparr> w_sys := s1 \<rparr>" fd "(d, 0)"]) (auto simp: o)
    let ?w2 = "w\<lparr> w_sys := s2, w_job := j \<rparr>"
    obtain b w3 where b: "(if j_rest j > 0 then seek_rest e fd ?w2 else (True, ?w2)) = (b, w3)" by fastforce
    obtain m w4 where m: "net_call (we_malloc e) w3 = (m, w4)" by fastforce
    have fr: "w_sent w3 = w_sent w" "w_bytes w3 = w_bytes w" "w_sent w4 = w_sent w" "w_bytes w4 = w_bytes w"
      using b m by (auto simp: seek_rest_def fs_call_def net_call_def split: if_splits)
    show ?thesis
    proof (cases "b \<and> m")
      case False
      then show ?thesis
        using assms(4) f Some t b m fr
        by (auto simp: transfer_retr_def close_frame split: bool.splits)
    next
      case True
      have w3: "ok (fsx w3) \<and> cur (fsx w3) fd = Some (d, ?n)"
      proof (cases "j_rest j > 0")
        case True
        with b \<open>b \<and> m\<close> have "seek_rest e fd ?w2 = (True, w3)" by simp
        then show ?thesis
          using o s2 by (elim seek_rest_result [OF assms(1), of ?w2 fd d 0, rotated 2]) auto
      next
        case False
        with b o s2 show ?thesis by (auto simp: word_gt_0)
      qed
      then have w4: "ok (fsx w4)" "cur (fsx w4) fd = Some (d, ?n)" using m by (auto simp: net_call_def)
      from assms(4) f Some t b m True obtain w5 where l: "iterate (retr_step e fd) w4 = Some (rc, w5)"
        and w': "w' = fs_close_w e fd w5"
        by (auto simp: transfer_retr_def bind_eq_Some_conv)
      show ?thesis
        using retr_loop_result [OF assms(1) w4 l] o(2) fr by (simp add: w' close_frame)
    qed
  qed
qed


end

section \<open>Uploads\<close>

text \<open>The contents an upload leaves behind: \<open>APPE\<close> appends, \<open>STOR\<close> replaces, and \<open>STOR\<close> after \<open>REST\<close>
  overwrites from the offset.\<close>

definition stored :: "job \<Rightarrow> string \<Rightarrow> string \<Rightarrow> string" where
  "stored j old bs =
     (if j_op j = OPFTP_JOB_APPE then old @ bs
      else if j_rest j = 0 then bs
      else write_at old (unat (j_rest j)) bs)"

lemma fs_write_all_frame:
  "fs_write_all e fd buf w = (rc, w') \<Longrightarrow> \<exists>s. w' = w\<lparr> w_sys := s \<rparr>"
proof (induction e fd buf w arbitrary: rc w' rule: fs_write_all.induct)
  case (1 e fd buf w)
  obtain r s where f: "fs_call (fs_write (we_fs e) fd buf) w = (r, w\<lparr> w_sys := s \<rparr>)"
    by (simp add: fs_call_def)
  show ?case
  proof (cases "buf \<noteq> [] \<and> (\<exists>n. r = Some n \<and> n \<noteq> 0)")
    case True
    then obtain n where n: "buf \<noteq> []" "r = Some n" "n \<noteq> 0" by blast
    with 1(2) f have "fs_write_all e fd (drop n buf) (w\<lparr> w_sys := s \<rparr>) = (rc, w')"
      by (subst (asm) fs_write_all.simps) simp
    from 1(1) [OF n(1) f [symmetric] n(2,3) this] show ?thesis by auto
  next
    case False
    have "\<exists>s. w = w\<lparr> w_sys := s \<rparr>" by (rule exI [of _ "w_sys w"]) simp
    with False 1(2) f show ?thesis
      by (subst (asm) fs_write_all.simps) (cases "buf = []"; cases r; auto)
  qed
qed

context file_backend
begin

lemma fs_write_all_result:
  assumes "fs_write_all e fd buf w = (None, w')" "we_fs e = fs" "ok (fsx w)" "names (fsx w) p fd"
    "cur (fsx w) fd = Some (d, pos)"
  shows "ok (fsx w') \<and> names (fsx w') p fd \<and> cur (fsx w') fd = Some (write_at d pos buf, pos + length buf)"
  using assms
proof (induction e fd buf w arbitrary: d pos w' rule: fs_write_all.induct)
  case (1 e fd buf w)
  obtain r s where r: "fs_write fs fd buf (w_sys w) = (r, s)" by fastforce
  then have f: "fs_call (fs_write (we_fs e) fd buf) w = (r, w\<lparr> w_sys := s \<rparr>)"
    using 1(3) by (simp add: fs_call_def)
  show ?case
  proof (cases "buf = []")
    case True
    with 1 show ?thesis by (subst (asm) fs_write_all.simps) simp
  next
    case False
    with 1(2) f obtain n where n: "r = Some n" "n \<noteq> 0"
      and rest: "fs_write_all e fd (drop n buf) (w\<lparr> w_sys := s \<rparr>) = (None, w')"
      by (subst (asm) fs_write_all.simps) (auto split: option.splits if_splits)
    have law: "ok (sys_state s)" "names (sys_state s) p fd" "n \<le> length buf"
      "cur (sys_state s) fd = Some (write_at d pos (take n buf), pos + n)"
      using write_law [OF 1(4,6,5) False, of n s] r n by auto
    have "ok (fsx w') \<and> names (fsx w') p fd \<and>
      cur (fsx w') fd = Some (write_at (write_at d pos (take n buf)) (pos + n) (drop n buf), pos + n + length (drop n buf))"
      using 1(1) [OF False f [symmetric] n rest 1(3)] law by simp
    moreover have "write_at (write_at d pos (take n buf)) (pos + n) (drop n buf) = write_at d pos buf"
      using write_at_append [of d pos "take n buf" "drop n buf"] law(3) by (simp add: min.absorb2)
    ultimately show ?thesis using law(3) by simp
  qed
qed

lemma stor_step_cases:
  assumes "we_fs e = fs" "ok (fsx w)" "names (fsx w) p fd" "cur (fsx w) fd = Some (d, pos)"
    "stor_step e fd w = x"
  obtains (fail) rc w' where "x = Return (Some rc, w')"
    | (eof) w' where "x = Return (None, w')" "w_rcvd w' = w_rcvd w" "w_bytes w' = w_bytes w" "fsx w' = fsx w"
        "w_job w' = w_job w"
    | (again) w' bs where "x = Continue w'" "ok (fsx w')" "names (fsx w') p fd"
      "cur (fsx w') fd = Some (write_at d pos bs, pos + length bs)" "w_rcvd w' = w_rcvd w @ bs"
      "w_bytes w' = w_bytes w + of_nat (length bs)"
proof -
  obtain c n where c: "job_cancelled e w = (c, w\<lparr> w_net := n \<rparr>)"
    using cancelled_upd [of e w] by (cases "job_cancelled e w") auto
  obtain r w1 where r: "recv_some e TRANSFER_BUF (w\<lparr> w_net := n \<rparr>) = (r, w1)" by fastforce
  from recv_some_upd [OF r] obtain m where
    w1: "w1 = w\<lparr> w_net := m, w_rcvd := w_rcvd w @ (case r of Inr bs \<Rightarrow> bs | Inl err \<Rightarrow> []) \<rparr>" by auto
  show thesis
  proof (cases "c \<or> (\<exists>err. r = Inl err) \<or> r = Inr []")
    case True
    then consider "c" | err where "\<not> c" "r = Inl err" | "\<not> c" "r = Inr []" by blast
    then show thesis
    proof cases
      case 1
      with assms(5) c fail show thesis by (auto simp: stor_step_def)
    next
      case (2 err)
      with assms c r w1 fail again [of w1 "[]"] show thesis by (auto simp: stor_step_def split: if_splits)
    next
      case 3
      with assms(5) c r w1 eof [of w1] show thesis by (auto simp: stor_step_def)
    qed
  next
    case False
    then obtain bs where bs: "r = Inr bs" "bs \<noteq> []" "\<not> c" by (cases r) auto
    obtain rc w2 where w2: "fs_write_all e fd bs w1 = (rc, w2)" by fastforce
    obtain s2 where s2: "w2 = w1\<lparr> w_sys := s2 \<rparr>" using fs_write_all_frame [OF w2] by blast
    show thesis
    proof (cases rc)
      case None
      then have x: "x = Continue (count_bytes (length bs) w2)"
        using assms(5) c r bs w2 by (auto simp: stor_step_def)
      have "ok (fsx w2) \<and> names (fsx w2) p fd \<and> cur (fsx w2) fd = Some (write_at d pos bs, pos + length bs)"
        using fs_write_all_result [OF w2 [unfolded None] assms(1)] assms(2-4) by (simp add: w1)
      with x bs(1) show thesis by (intro again [of "count_bytes (length bs) w2" bs]) (simp_all add: s2 w1)
    next
      case (Some err)
      with assms(5) c r bs w2 fail show thesis by (auto simp: stor_step_def)
    qed
  qed
qed

lemma stor_loop_result:
  fixes w w' :: "('x, 'n) wst"
  assumes "we_fs e = fs" "ok (fsx w)" "names (fsx w) p fd" "cur (fsx w) fd = Some (d, pos)"
    "iterate (\<lambda>w. Some (stor_step e fd w)) w = Some (None, w')"
  shows "\<exists>bs. w_rcvd w' = w_rcvd w @ bs \<and> ok (fsx w') \<and> contents (fsx w') p = Some (write_at d pos bs) \<and>
    w_bytes w' = w_bytes w + of_nat (length bs)"
proof -
  let ?I = "\<lambda>w1 :: ('x, 'n) wst. \<exists>bs. ok (fsx w1) \<and> names (fsx w1) p fd \<and> cur (fsx w1) fd = Some (write_at d pos bs, pos + length bs) \<and>
      w_rcvd w1 = w_rcvd w @ bs \<and> w_bytes w1 = w_bytes w + of_nat (length bs)"
  let ?Q = "\<lambda>(rc :: rc, w' :: ('x, 'n) wst). rc = None \<longrightarrow> (\<exists>bs. w_rcvd w' = w_rcvd w @ bs \<and> ok (fsx w') \<and>
      contents (fsx w') p = Some (write_at d pos bs) \<and> w_bytes w' = w_bytes w + of_nat (length bs))"
  have "?Q (None, w')"
  proof (rule iterate_rule [where I = ?I and Q = ?Q, OF assms(5)], goal_cases start step final)
    case start
    show ?case using assms(2-4) by (auto intro: exI [of _ "[]"])
  next
    case (step w1 w2)
    then obtain bs where bs: "ok (fsx w1)" "names (fsx w1) p fd" "cur (fsx w1) fd = Some (write_at d pos bs, pos + length bs)"
      "w_rcvd w1 = w_rcvd w @ bs" "w_bytes w1 = w_bytes w + of_nat (length bs)" by blast
    from assms(1) bs(1-3) step(2) [simplified option.inject] show ?case
    proof (cases rule: stor_step_cases)
      case (again w' cs)
      with bs show ?thesis
        by (intro exI [of _ "bs @ cs"]) (auto simp: write_at_append add.assoc)
    qed simp_all
  next
    case (final w1 r)
    then obtain bs where bs: "ok (fsx w1)" "names (fsx w1) p fd" "cur (fsx w1) fd = Some (write_at d pos bs, pos + length bs)"
      "w_rcvd w1 = w_rcvd w @ bs" "w_bytes w1 = w_bytes w + of_nat (length bs)" by blast
    from assms(1) bs(1-3) final(2) [simplified option.inject] show ?case
    proof (cases rule: stor_step_cases)
      case (eof w')
      with bs names_contents [OF bs(1,2)] show ?thesis by (auto intro!: exI [of _ bs])
    qed auto
  qed
  then show ?thesis by simp
qed

text \<open>Where an upload writes: what of the old contents is kept, and from which position.\<close>

lemma transfer_stor_result:
  fixes w w' :: "('x, 'n) wst"
  assumes "we_fs e = fs" "ok (fsx w)" "path_ok (j_path (w_job w))" "j_op (w_job w) \<in> {OPFTP_JOB_STOR, OPFTP_JOB_APPE}"
    "transfer_stor e w = Some (None, w')"
  shows "\<exists>bs. w_rcvd w' = w_rcvd w @ bs \<and> ok (fsx w') \<and>
    contents (fsx w') (j_path (w_job w)) =
      Some (stored (w_job w) (case contents (fsx w) (j_path (w_job w)) of Some d \<Rightarrow> d | None \<Rightarrow> []) bs) \<and>
    w_bytes w' = w_bytes w + of_nat (length bs)"
proof -
  let ?j = "w_job w"
  let ?p = "j_path ?j" and ?old = "case contents (fsx w) (j_path (w_job w)) of Some d \<Rightarrow> d | None \<Rightarrow> []"
  obtain r s1 where r: "fs_open fs ?p (stor_flags ?j) 0x1A4 (w_sys w) = (r, s1)" by fastforce
  have f: "fs_call (fs_open (we_fs e) ?p (stor_flags ?j) 0x1A4) w = (r, w\<lparr> w_sys := s1 \<rparr>)"
    using r assms(1) by (simp add: fs_call_def)
  from assms(5) f obtain fd where fd: "r = Some fd" by (cases r) (auto simp: transfer_stor_def)
  let ?w1 = "w\<lparr> w_sys := s1 \<rparr>"
  define base where "base = (if stor_flags ?j AND OPFTP_O_TRUNC \<noteq> 0 then [] else ?old)"
  define pos where "pos = (if j_op ?j = OPFTP_JOB_APPE then length base else 0)"
  have o: "ok (sys_state s1) \<and> names (sys_state s1) ?p fd \<and> cur (sys_state s1) fd = Some (base, pos)"
    using open_trunc [OF assms(2,3), of "0x1A4" fd s1] open_append [OF assms(2,3), of "0x1A4" fd s1]
      open_update [OF assms(2,3), of "0x1A4" fd s1] r fd assms(4)
    by (auto simp: stor_flags_def base_def pos_def split: if_splits)
  let ?seek = "j_rest ?j > 0 \<and> j_op ?j = OPFTP_JOB_STOR"
  obtain b w2 where b: "(if ?seek then seek_rest e fd ?w1 else (True, ?w1)) = (b, w2)" by fastforce
  from assms(5) f fd b have "b" by (cases b) (auto simp: transfer_stor_def)
  obtain m w3 where m: "net_call (we_malloc e) w2 = (m, w3)" by fastforce
  from assms(5) f fd b \<open>b\<close> m have "m" by (cases m) (auto simp: transfer_stor_def)
  obtain w4 where l: "iterate (\<lambda>w. Some (stor_step e fd w)) w3 = Some (None, w4)" and w': "w' = fs_close_w e fd w4"
    using assms(5) f fd b \<open>b\<close> m \<open>m\<close> by (auto simp: transfer_stor_def bind_eq_Some_conv)
  have w2: "ok (fsx w2) \<and> names (fsx w2) ?p fd \<and> cur (fsx w2) fd = Some (base, if ?seek then unat (j_rest ?j) else pos) \<and>
      w_rcvd w2 = w_rcvd w \<and> w_bytes w2 = w_bytes w"
  proof (cases ?seek)
    case True
    with b \<open>b\<close> have "seek_rest e fd ?w1 = (True, w2)" by simp
    with o True show ?thesis
      by (elim seek_rest_result [OF assms(1), of ?w1 fd base pos, rotated 2]) auto
  next
    case False
    with b o show ?thesis by auto
  qed
  have w3: "fsx w3 = fsx w2" "w_rcvd w3 = w_rcvd w2" "w_bytes w3 = w_bytes w2" using m by (auto simp: net_call_def)
  obtain bs where bs: "w_rcvd w4 = w_rcvd w @ bs" "ok (fsx w4)" "w_bytes w4 = w_bytes w + of_nat (length bs)"
    "contents (fsx w4) ?p = Some (write_at base (if ?seek then unat (j_rest ?j) else pos) bs)"
    using stor_loop_result [OF assms(1) _ _ _ l, where p = ?p and d = base and pos = "if ?seek then unat (j_rest ?j) else pos"] w2
    by (auto simp: w3)
  obtain s5 where "fs_close_w e fd w4 = w4\<lparr> w_sys := s5 \<rparr>" "ok (sys_state s5)" "contents (sys_state s5) = contents (fsx w4)"
    by (rule close_result [OF assms(1) bs(2)])
  then have s5: "w' = w4\<lparr> w_sys := s5 \<rparr>" "ok (sys_state s5)" "contents (sys_state s5) = contents (fsx w4)"
    by (simp_all add: w')
  have "write_at base (if ?seek then unat (j_rest ?j) else pos) bs = stored ?j ?old bs"
    using assms(4) by (auto simp: stored_def base_def pos_def stor_flags_def word_gt_0)
  with bs s5 show ?thesis by auto
qed

lemma fs_write_all_other:
  assumes "fs_write_all e fd buf w = (None, w')" "we_fs e = fs" "ok (fsx w)" "path_ok p" "path_ok q" "p \<noteq> q"
    "names (fsx w) p fd" "names (fsx w) q fd'"
  shows "names (fsx w') q fd' \<and> cur (fsx w') fd' = cur (fsx w) fd'"
  using assms
proof (induction e fd buf w arbitrary: w' rule: fs_write_all.induct)
  case (1 e fd buf w)
  obtain r s where r: "fs_write fs fd buf (w_sys w) = (r, s)" by fastforce
  then have f: "fs_call (fs_write (we_fs e) fd buf) w = (r, w\<lparr> w_sys := s \<rparr>)"
    using 1(3) by (simp add: fs_call_def)
  show ?case
  proof (cases "buf = []")
    case True
    with 1 show ?thesis by (subst (asm) fs_write_all.simps) simp
  next
    case False
    with 1(2) f obtain n where n: "r = Some n" "n \<noteq> 0"
      and rest: "fs_write_all e fd (drop n buf) (w\<lparr> w_sys := s \<rparr>) = (None, w')"
      by (subst (asm) fs_write_all.simps) (auto split: option.splits if_splits)
    obtain d pos where c: "cur (fsx w) fd = Some (d, pos)" using names_contents [OF 1(4,8)] by blast
    have law: "ok (sys_state s)" "names (sys_state s) p fd"
      using write_law [OF 1(4) c 1(8) False, of n s] r n by auto
    have "names (sys_state s) q fd'" "cur (sys_state s) fd' = cur (fsx w) fd'"
      using write_other [OF 1(4-9) False, of n s] r n by auto
    with 1(1) [OF False f [symmetric] n rest 1(3)] law 1(5-7) show ?thesis by simp
  qed
qed

section \<open>Copies\<close>

text \<open>Both files are open and the first \<open>k\<close> bytes are copied.\<close>

definition copying :: "string \<Rightarrow> string \<Rightarrow> int \<Rightarrow> int \<Rightarrow> string \<Rightarrow> nat \<Rightarrow> 'x \<Rightarrow> bool" where
  "copying p q inp out d k x \<longleftrightarrow>
     ok x \<and> path_ok p \<and> path_ok q \<and> p \<noteq> q \<and> inp \<noteq> out \<and> names x p inp \<and> names x q out \<and>
     cur x inp = Some (d, k) \<and> cur x out = Some (take k d, k) \<and> k \<le> length d"

lemma copy_step_cases:
  assumes "we_fs e = fs" "copying p q inp out d k (fsx w)" "copy_step e inp out w = x"
  obtains (fail) rc w' where "x = Return (Some rc, w')"
    | (eof) w' where "x = Return (None, w')" "k = length d" "copying p q inp out d k (fsx w')" "w_bytes w' = w_bytes w"
    | (again) w' k' where "x = Continue w'" "copying p q inp out d k' (fsx w')" "k \<le> k'"
      "w_bytes w' = w_bytes w + of_nat (k' - k)"
proof -
  have cp: "ok (fsx w)" "path_ok p" "path_ok q" "p \<noteq> q" "inp \<noteq> out" "names (fsx w) p inp" "names (fsx w) q out"
    "cur (fsx w) inp = Some (d, k)" "cur (fsx w) out = Some (take k d, k)" "k \<le> length d"
    using assms(2) by (simp_all add: copying_def)
  obtain c n where c: "job_cancelled e w = (c, w\<lparr> w_net := n \<rparr>)"
    using cancelled_upd [of e w] by (cases "job_cancelled e w") auto
  obtain r s where r: "fs_read fs inp TRANSFER_BUF (w_sys w) = (r, s)" by fastforce
  let ?w1 = "w\<lparr> w_net := n, w_sys := s \<rparr>"
  have f: "fs_call (fs_read (we_fs e) inp TRANSFER_BUF) (w\<lparr> w_net := n \<rparr>) = (r, ?w1)"
    using r assms(1) by (simp add: fs_call_def)
  show thesis
  proof (cases "c \<or> r = None")
    case True
    with assms(3) c f fail show thesis by (cases c) (auto simp: copy_step_def)
  next
    case False
    then obtain bs where bs: "r = Some bs" "\<not> c" by auto
    have rl: "ok (sys_state s)" "\<exists>m. bs = take m (drop k d)" "bs = [] \<longrightarrow> length d \<le> k"
      "cur (sys_state s) inp = Some (d, k + length bs)"
      using read_law [OF cp(1,8), of TRANSFER_BUF bs s] r bs by auto
    have ro: "names (sys_state s) p inp" "names (sys_state s) q out" "cur (sys_state s) out = Some (take k d, k)"
      using read_other [OF cp(1), of inp TRANSFER_BUF bs s] r bs cp(5-7,9) by auto
    have tk: "take k d @ bs = take (k + length bs) d" "k + length bs \<le> length d"
      using rl(2) cp(10) by (auto simp: take_add min_def)
    show thesis
    proof (cases "bs = []")
      case True
      with rl ro cp have "copying p q inp out d k (sys_state s)" "k = length d" by (auto simp: copying_def)
      with assms(3) c f bs True eof [of ?w1] show thesis by (auto simp: copy_step_def)
    next
      case False
      obtain rc w2 where w2: "fs_write_all e out bs ?w1 = (rc, w2)" by fastforce
      show thesis
      proof (cases rc)
        case None
        obtain s2 where s2: "w2 = ?w1\<lparr> w_sys := s2 \<rparr>" using fs_write_all_frame [OF w2] by blast
        have x: "x = Continue (count_bytes (length bs) w2)"
          using assms(3) c f bs False w2 None by (auto simp: copy_step_def)
        have "ok (fsx w2) \<and> names (fsx w2) q out \<and> cur (fsx w2) out = Some (write_at (take k d) k bs, k + length bs)"
          by (rule fs_write_all_result [OF w2 [unfolded None] assms(1)]) (simp_all add: rl ro)
        moreover have "names (fsx w2) p inp \<and> cur (fsx w2) inp = cur (fsx ?w1) inp"
          by (rule fs_write_all_other [OF w2 [unfolded None] assms(1) _ cp(3,2) cp(4) [symmetric]]) (simp_all add: rl ro)
        moreover have "write_at (take k d) k bs = take (k + length bs) d"
          using write_at_end [of "take k d" bs] cp(10) tk by (simp add: min_absorb2)
        ultimately have "copying p q inp out d (k + length bs) (fsx w2)"
          using cp(2-5) rl(4) tk(2) by (simp add: copying_def)
        with x again [of "count_bytes (length bs) w2" "k + length bs"] show thesis by (simp add: s2)
      next
        case (Some err)
        with assms(3) c f bs False w2 fail show thesis by (auto simp: copy_step_def)
      qed
    qed
  qed
qed

lemma copy_loop_result:
  fixes w w' :: "('x, 'n) wst"
  assumes "we_fs e = fs" "copying p q inp out d 0 (fsx w)"
    "iterate (\<lambda>w. Some (copy_step e inp out w)) w = Some (None, w')"
  shows "copying p q inp out d (length d) (fsx w') \<and> w_bytes w' = w_bytes w + of_nat (length d)"
proof -
  let ?I = "\<lambda>w1 :: ('x, 'n) wst. \<exists>k. copying p q inp out d k (fsx w1) \<and> w_bytes w1 = w_bytes w + of_nat k"
  let ?Q = "\<lambda>(rc :: rc, w' :: ('x, 'n) wst). rc = None \<longrightarrow>
      copying p q inp out d (length d) (fsx w') \<and> w_bytes w' = w_bytes w + of_nat (length d)"
  have "?Q (None, w')"
  proof (rule iterate_rule [where I = ?I and Q = ?Q, OF assms(3)], goal_cases start step final)
    case start
    show ?case using assms(2) by (auto intro: exI [of _ 0])
  next
    case (step w1 w2)
    then obtain k where k: "copying p q inp out d k (fsx w1)" "w_bytes w1 = w_bytes w + of_nat k" by blast
    from assms(1) k(1) step(2) [simplified option.inject] show ?case
    proof (cases rule: copy_step_cases)
      case (again w' k')
      with k(2) show ?thesis by (intro exI [of _ k']) auto
    qed simp_all
  next
    case (final w1 r)
    then obtain k where k: "copying p q inp out d k (fsx w1)" "w_bytes w1 = w_bytes w + of_nat k" by blast
    from assms(1) k(1) final(2) [simplified option.inject] show ?case
      by (cases rule: copy_step_cases) (auto simp: k(2))
  qed
  then show ?thesis by simp
qed

lemma copy_file_result:
  fixes w w' :: "('x, 'n) wst"
  assumes "we_fs e = fs" "ok (fsx w)" "path_ok p" "path_ok q" "p \<noteq> q" "copy_file e p q w = Some (None, w')"
  shows "\<exists>d. contents (fsx w) p = Some d \<and> contents (fsx w') p = Some d \<and> contents (fsx w') q = Some d \<and>
    ok (fsx w') \<and> w_bytes w' = w_bytes w + of_nat (length d)"
proof -
  let ?flags = "OPFTP_O_WRONLY OR OPFTP_O_CREAT OR OPFTP_O_TRUNC"
  obtain r1 s1 where r1: "fs_open fs p OPFTP_O_RDONLY 0 (w_sys w) = (r1, s1)" by fastforce
  have f1: "fs_call (fs_open (we_fs e) p OPFTP_O_RDONLY 0) w = (r1, w\<lparr> w_sys := s1 \<rparr>)"
    using r1 assms(1) by (simp add: fs_call_def)
  from assms(6) f1 obtain inp where inp: "r1 = Some inp" by (cases r1) (auto simp: copy_file_def)
  obtain d where o1: "ok (sys_state s1)" "names (sys_state s1) p inp" "contents (fsx w) p = Some d"
    "cur (sys_state s1) inp = Some (d, 0)" using open_read [OF assms(2,3), of 0 inp s1] r1 inp by auto
  obtain st s2 where st: "fs_stat fs q s1 = (st, s2)" by fastforce
  have s2: "sys_state s2 = sys_state s1" using stat_law [OF o1(1), of q] st by simp
  have f2: "fs_call (fs_stat (we_fs e) q) (w\<lparr> w_sys := s1 \<rparr>) = (st, w\<lparr> w_sys := s2 \<rparr>)"
    using st assms(1) by (simp add: fs_call_def)
  obtain r3 s3 where r3: "fs_open fs q ?flags 0x1A4 s2 = (r3, s3)" by fastforce
  have f3: "fs_call (fs_open (we_fs e) q ?flags 0x1A4) (w\<lparr> w_sys := s2 \<rparr>) = (r3, w\<lparr> w_sys := s3 \<rparr>)"
    using r3 assms(1) by (simp add: fs_call_def)
  from assms(6) f1 inp f2 f3 obtain out where out: "r3 = Some out" by (cases r3) (auto simp: copy_file_def)
  have ok2: "ok (sys_state s2)" "names (sys_state s2) p inp" "cur (sys_state s2) inp = Some (d, 0)" by (simp_all add: s2 o1)
  have o3: "ok (sys_state s3) \<and> names (sys_state s3) q out \<and> cur (sys_state s3) out = Some ([], 0)"
    by (rule open_trunc [OF ok2(1) assms(4)]) (use r3 out in simp)
  have "out \<noteq> inp \<and> names (sys_state s3) p inp \<and> cur (sys_state s3) inp = cur (sys_state s2) inp"
    by (rule open_other [OF ok2(1) assms(4,3) assms(5) [symmetric] ok2(2)]) (use r3 out in simp)
  with o3 have cp: "copying p q inp out d 0 (sys_state s3)" using assms(3-5) by (auto simp: copying_def ok2(3))
  obtain m n where m: "net_call (we_malloc e) (w\<lparr> w_sys := s3 \<rparr>) = (m, w\<lparr> w_sys := s3, w_net := n \<rparr>)"
    by (simp add: net_call_def split: prod.split)
  from assms(6) f1 inp f2 f3 out m have "m" by (cases m) (auto simp: copy_file_def Let_def)
  with assms(6) f1 inp f2 f3 out m obtain w4 where
    l: "iterate (\<lambda>w. Some (copy_step e inp out w)) (w\<lparr> w_sys := s3, w_net := n \<rparr>) = Some (None, w4)"
    and w': "w' = fs_close_w e out (fs_close_w e inp w4)"
    by (auto simp: copy_file_def Let_def bind_eq_Some_conv)
  have w4: "copying p q inp out d (length d) (fsx w4) \<and> w_bytes w4 = w_bytes w + of_nat (length d)"
    using copy_loop_result [OF assms(1) _ l, of p q d] cp by simp
  then have c4: "ok (fsx w4)" "contents (fsx w4) p = Some d" "contents (fsx w4) q = Some d"
    using names_contents [of "fsx w4" p inp] names_contents [of "fsx w4" q out] by (auto simp: copying_def)
  obtain s5 where s5: "fs_close_w e inp w4 = w4\<lparr> w_sys := s5 \<rparr>" "ok (sys_state s5)" "contents (sys_state s5) = contents (fsx w4)"
    by (rule close_result [OF assms(1) c4(1)])
  obtain s6 where "fs_close_w e out (w4\<lparr> w_sys := s5 \<rparr>) = w4\<lparr> w_sys := s6 \<rparr>" "ok (sys_state s6)"
    "contents (sys_state s6) = contents (sys_state s5)"
    using s5(2) by (elim close_result [OF assms(1), of "w4\<lparr> w_sys := s5 \<rparr>" out, simplified])
  with s5 c4 w4 o1(3) show ?thesis by (auto simp: w')
qed

end

end
