(* ===== verification/Fs_Mem.thy ===== *)
theory Fs_Mem
  imports Fs_Contract Path_Resolve Loops
begin

text \<open>
  The in-memory backend, \<^verbatim>\<open>src/src/fs_mem.c\<close>. Nodes live in a store and are named by addresses
  where the code has pointers. The children of a node, a list linked through \<open>next\<close> with the newest
  first, are a list of addresses; \<open>next\<close> of a node is its successor in the list of its parent. A
  freed node leaves the store; a descriptor or directory handle may still hold its address, and
  using it then is recorded in the ghost field \<open>m_dangling\<close> (the C behaviour is undefined).

  Every operation runs under the backend's mutex, so operations are atomic. The outcome of an
  allocation is a parameter of the backend, \<open>me_alloc\<close>, by its size; the wall clock is a field of the
  state. File positions and sizes, which no feasible run brings near \<open>2^64\<close>, are natural numbers.
\<close>

unbundle bit_operations_syntax

section \<open>Definitions\<close>

subsection \<open>Nodes, descriptors and the context\<close>

record mnode =
  n_name :: string
  n_mode :: "16 word"
  n_mtime :: int
  n_uid :: "32 word"
  n_gid :: "32 word"
  n_data :: string
  n_children :: "nat list"
  n_parent :: "nat option"

record mfd =
  f_node :: nat
  f_pos :: nat
  f_flags :: "32 word"

record mem =
  m_root :: nat
  m_nodes :: "nat \<rightharpoonup> mnode"
  m_next :: nat  \<comment> \<open>the next address the allocator gives out\<close>
  m_fds :: "nat \<rightharpoonup> mfd"  \<comment> \<open>the open slots of \<open>fds[64]\<close>\<close>
  m_dirs :: "nat \<rightharpoonup> nat option"  \<comment> \<open>\<open>struct mdir\<close>: the next node\<close>
  m_next_dir :: nat
  m_clock :: int
  m_dangling :: bool

type_synonym mem_env = "nat \<Rightarrow> bool"  \<comment> \<open>does an allocation of so many bytes succeed\<close>

abbreviation MNODE_SIZE :: nat where "MNODE_SIZE \<equiv> 320"
abbreviation MDIR_SIZE :: nat where "MDIR_SIZE \<equiv> 8"

definition node_create :: "mem_env \<Rightarrow> string \<Rightarrow> 16 word \<Rightarrow> mem \<Rightarrow> mnode option" where
  "node_create al name mode m =
     (if al MNODE_SIZE then
        Some \<lparr> n_name = c_snprintf 256 name, n_mode = mode, n_mtime = m_clock m, n_uid = 0, n_gid = 0,
               n_data = [], n_children = [], n_parent = None \<rparr>
      else None)"

subsection \<open>Lookup\<close>

text \<open>\<open>split_path\<close> yields the non-empty components; \<open>comps\<close> holds 256 of them, and longer paths
  are outside the model.\<close>

definition split_path :: "string \<Rightarrow> string list" where
  "split_path path = split_loop path"

definition node_find_child :: "mem \<Rightarrow> nat \<Rightarrow> string \<Rightarrow> nat option" where
  "node_find_child m d name =
     (case m_nodes m d of
        None \<Rightarrow> None
      | Some node \<Rightarrow> List.find (\<lambda>c. map_option n_name (m_nodes m c) = Some name) (n_children node))"

fun walk :: "mem \<Rightarrow> nat \<Rightarrow> string list \<Rightarrow> nat option" where
  "walk m cur [] = Some cur"
| "walk m cur (c # cs) =
     (case node_find_child m cur c of None \<Rightarrow> None | Some n \<Rightarrow> walk m n cs)"

text \<open>\<open>node_lookup\<close>; the only error is \<open>ENOENT\<close>.\<close>

definition node_lookup :: "mem \<Rightarrow> string \<Rightarrow> nat option" where
  "node_lookup m path =
     (if path = [slash] then Some (m_root m) else walk m (m_root m) (split_path path))"

definition node_is_dir :: "mem \<Rightarrow> nat \<Rightarrow> bool" where
  "node_is_dir m n \<longleftrightarrow> (case m_nodes m n of Some node \<Rightarrow> mode_is_dir (n_mode node) | None \<Rightarrow> False)"

text \<open>The walk of \<open>node_lookup_parent\<close>, which insists on directories.\<close>

fun walk_dirs :: "mem \<Rightarrow> nat \<Rightarrow> string list \<Rightarrow> errno + nat" where
  "walk_dirs m cur [] = Inr cur"
| "walk_dirs m cur (c # cs) =
     (case node_find_child m cur c of
        None \<Rightarrow> Inl ENOENT
      | Some n \<Rightarrow> if node_is_dir m n then walk_dirs m n cs else Inl ENOTDIR)"

text \<open>The tail of a path from its last component on: the name a new node gets.\<close>

definition path_tail :: "string \<Rightarrow> string" where
  "path_tail path = last (split_path path) @ takeWhile (\<lambda>c. c = slash) (rev path)"

definition node_lookup_parent :: "mem \<Rightarrow> string \<Rightarrow> errno + nat \<times> string" where
  "node_lookup_parent m path =
     (if path = [slash] then Inl EEXIST
      else if split_path path = [] then Inl ENOENT
      else
        (case walk_dirs m (m_root m) (butlast (split_path path)) of
           Inl err \<Rightarrow> Inl err
         | Inr p \<Rightarrow> Inr (p, path_tail path)))"

subsection \<open>The store\<close>

definition upd_node :: "nat \<Rightarrow> (mnode \<Rightarrow> mnode) \<Rightarrow> mem \<Rightarrow> mem" where
  "upd_node n f m = m\<lparr> m_nodes := (m_nodes m)(n := map_option f (m_nodes m n)) \<rparr>"

text \<open>A new node as the first child of \<open>p\<close>.\<close>

definition add_child :: "nat \<Rightarrow> mnode \<Rightarrow> mem \<Rightarrow> nat \<times> mem" where
  "add_child p node m =
     (let n = m_next m in
      (n, upd_node p (\<lambda>d. d\<lparr> n_children := n # n_children d \<rparr>)
            (m\<lparr> m_nodes := (m_nodes m)(n \<mapsto> node\<lparr> n_parent := Some p \<rparr>), m_next := n + 1 \<rparr>)))"

definition unlink_child :: "nat \<Rightarrow> nat \<Rightarrow> mem \<Rightarrow> mem" where
  "unlink_child p n = upd_node p (\<lambda>d. d\<lparr> n_children := remove1 n (n_children d) \<rparr>)"

definition free_node :: "nat \<Rightarrow> mem \<Rightarrow> mem" where
  "free_node n m = m\<lparr> m_nodes := (m_nodes m)(n := None) \<rparr>"

definition sys_mem :: "(mem \<Rightarrow> mem) \<Rightarrow> mem sys \<Rightarrow> mem sys" where
  "sys_mem f s = s\<lparr> sys_state := f (sys_state s) \<rparr>"

definition dangling :: "mem \<Rightarrow> mem" where
  "dangling m = m\<lparr> m_dangling := True \<rparr>"

subsection \<open>Files\<close>

definition free_fd :: "mem \<Rightarrow> nat option" where
  "free_fd m = List.find (\<lambda>i. m_fds m i = None) [1..<64]"

text \<open>The second half of \<open>mem_open\<close>, on the node.\<close>

definition open_node :: "32 word \<Rightarrow> nat \<Rightarrow> (mem, int) fs_op" where
  "open_node flags n s =
     (if node_is_dir (sys_state s) n then (None, set_errno EISDIR s)
      else
        let s = (if flags AND OPFTP_O_TRUNC \<noteq> 0
                 then sys_mem (upd_node n (\<lambda>d. d\<lparr> n_data := [] \<rparr>)) s else s);
            m = sys_state s
        in case free_fd m of
             None \<Rightarrow> (None, set_errno EMFILE s)
           | Some slot \<Rightarrow>
               let pos = (if flags AND OPFTP_O_APPEND \<noteq> 0
                          then (case m_nodes m n of Some d \<Rightarrow> length (n_data d) | None \<Rightarrow> 0) else 0)
               in (Some (int slot),
                   sys_mem (\<lambda>m. m\<lparr> m_fds := (m_fds m)(slot \<mapsto> \<lparr> f_node = n, f_pos = pos, f_flags = flags AND 3 \<rparr>) \<rparr>) s))"

definition mem_open :: "mem_env \<Rightarrow> string \<Rightarrow> 32 word \<Rightarrow> 16 word \<Rightarrow> (mem, int) fs_op" where
  "mem_open al path flags mode s =
     (let m = sys_state s in
      case node_lookup m path of
        Some n \<Rightarrow> open_node flags n s
      | None \<Rightarrow>
          if flags AND OPFTP_O_CREAT = 0 then (None, set_errno ENOENT s)
          else
            (case node_lookup_parent m path of
               Inl err \<Rightarrow> (None, set_errno err s)
             | Inr (p, name) \<Rightarrow>
                 if \<not> node_is_dir m p then (None, set_errno ENOTDIR s)
                 else
                   (case node_create al name (S_IFREG OR (if mode \<noteq> 0 then mode else 0x1A4)) m of
                      None \<Rightarrow> (None, set_errno ENOMEM s)
                    | Some node \<Rightarrow>
                        open_node flags (fst (add_child p node m)) (sys_mem (\<lambda>m. snd (add_child p node m)) s))))"

text \<open>The open slot of a descriptor, \<^const>\<open>None\<close> where the code fails with \<open>EBADF\<close>.\<close>

definition fd_slot :: "mem \<Rightarrow> int \<Rightarrow> mfd option" where
  "fd_slot m fd = (if fd \<le> 0 \<or> fd \<ge> 64 then None else m_fds m (nat fd))"

definition upd_fd :: "int \<Rightarrow> (mfd \<Rightarrow> mfd) \<Rightarrow> mem \<Rightarrow> mem" where
  "upd_fd fd f m = m\<lparr> m_fds := (m_fds m)(nat fd := map_option f (m_fds m (nat fd))) \<rparr>"

definition mem_close :: "int \<Rightarrow> (mem, unit) fs_op" where
  "mem_close fd s =
     (case fd_slot (sys_state s) fd of
        None \<Rightarrow> (None, set_errno EBADF s)
      | Some f \<Rightarrow> (Some (), sys_mem (\<lambda>m. m\<lparr> m_fds := (m_fds m)(nat fd := None) \<rparr>) s))"

definition mem_read :: "int \<Rightarrow> nat \<Rightarrow> (mem, string) fs_op" where
  "mem_read fd n s =
     (case fd_slot (sys_state s) fd of
        None \<Rightarrow> (None, set_errno EBADF s)
      | Some f \<Rightarrow>
          if f_flags f AND 3 = OPFTP_O_WRONLY then (None, set_errno EBADF s)
          else
            (case m_nodes (sys_state s) (f_node f) of
               None \<Rightarrow> (None, sys_mem dangling s)
             | Some node \<Rightarrow>
                 let bs = take n (drop (f_pos f) (n_data node))
                 in (Some bs, sys_mem (upd_fd fd (\<lambda>f. f\<lparr> f_pos := f_pos f + length bs \<rparr>)) s)))"

text \<open>\<open>mem_write\<close>; an empty write behind the end also extends the file.\<close>

definition mem_write :: "mem_env \<Rightarrow> int \<Rightarrow> string \<Rightarrow> (mem, nat) fs_op" where
  "mem_write al fd bs s =
     (case fd_slot (sys_state s) fd of
        None \<Rightarrow> (None, set_errno EBADF s)
      | Some f \<Rightarrow>
          if f_flags f AND 3 = OPFTP_O_RDONLY then (None, set_errno EBADF s)
          else
            (case m_nodes (sys_state s) (f_node f) of
               None \<Rightarrow> (None, sys_mem dangling s)
             | Some node \<Rightarrow>
                 let need = f_pos f + length bs;
                     grown = n_data node @ replicate (need - length (n_data node)) (CHR 0x00)
                 in if need > length (n_data node) \<and> \<not> al need then (None, set_errno ENOMEM s)
                    else
                      (Some (length bs),
                       sys_mem (\<lambda>m. upd_fd fd (\<lambda>f. f\<lparr> f_pos := need \<rparr>)
                          (upd_node (f_node f)
                             (\<lambda>d. d\<lparr> n_data := take (f_pos f) grown @ bs @ drop need grown, n_mtime := m_clock m \<rparr>) m)) s)))"

definition mem_seek :: "int \<Rightarrow> int \<Rightarrow> seek_whence \<Rightarrow> (mem, int) fs_op" where
  "mem_seek fd off whence s =
     (case fd_slot (sys_state s) fd of
        None \<Rightarrow> (None, set_errno EBADF s)
      | Some f \<Rightarrow>
          if whence = SEEK_END \<and> m_nodes (sys_state s) (f_node f) = None then (None, sys_mem dangling s)
          else
            let base = (case whence of
                          SEEK_SET \<Rightarrow> 0
                        | SEEK_CUR \<Rightarrow> int (f_pos f)
                        | SEEK_END \<Rightarrow> (case m_nodes (sys_state s) (f_node f) of
                                         Some d \<Rightarrow> int (length (n_data d)) | None \<Rightarrow> 0))
            in if base + off < 0 then (None, set_errno EINVAL s)
               else (Some (base + off), sys_mem (upd_fd fd (\<lambda>f. f\<lparr> f_pos := nat (base + off) \<rparr>)) s))"

definition node_to_stat :: "mnode \<Rightarrow> opftp_stat" where
  "node_to_stat n =
     \<lparr> st_mode = n_mode n, st_size = of_nat (length (n_data n)), st_mtime = n_mtime n,
       st_uid = n_uid n, st_gid = n_gid n \<rparr>"

definition mem_fstat :: "int \<Rightarrow> (mem, opftp_stat) fs_op" where
  "mem_fstat fd s =
     (case fd_slot (sys_state s) fd of
        None \<Rightarrow> (None, set_errno EBADF s)
      | Some f \<Rightarrow>
          (case m_nodes (sys_state s) (f_node f) of
             None \<Rightarrow> (None, sys_mem dangling s)
           | Some node \<Rightarrow> (Some (node_to_stat node), s)))"

definition mem_stat :: "string \<Rightarrow> (mem, opftp_stat) fs_op" where
  "mem_stat path s =
     (case node_lookup (sys_state s) path of
        None \<Rightarrow> (None, set_errno ENOENT s)
      | Some n \<Rightarrow>
          (case m_nodes (sys_state s) n of
             None \<Rightarrow> (None, sys_mem dangling s)
           | Some node \<Rightarrow> (Some (node_to_stat node), s)))"

subsection \<open>Directories\<close>

text \<open>The \<open>next\<close> pointer of a node.\<close>

definition next_sibling :: "mem \<Rightarrow> nat \<Rightarrow> nat option" where
  "next_sibling m n =
     (case Option.bind (m_nodes m n) n_parent of
        None \<Rightarrow> None
      | Some p \<Rightarrow>
          (case m_nodes m p of
             None \<Rightarrow> None
           | Some d \<Rightarrow>
               (case drop 1 (dropWhile (\<lambda>c. c \<noteq> n) (n_children d)) of [] \<Rightarrow> None | c # cs \<Rightarrow> Some c)))"

definition first_child :: "mnode \<Rightarrow> nat option" where
  "first_child d = (case n_children d of [] \<Rightarrow> None | c # cs \<Rightarrow> Some c)"

definition mem_opendir :: "mem_env \<Rightarrow> string \<Rightarrow> (mem, nat) fs_op" where
  "mem_opendir al path s =
     (let m = sys_state s in
      case Option.bind (node_lookup m path) (m_nodes m) of
        None \<Rightarrow> (None, set_errno ENOENT s)
      | Some d \<Rightarrow>
          if \<not> mode_is_dir (n_mode d) then (None, set_errno ENOTDIR s)
          else if \<not> al MDIR_SIZE then (None, set_errno ENOMEM s)
          else
            (Some (m_next_dir m),
             sys_mem (\<lambda>m. m\<lparr> m_dirs := (m_dirs m)(m_next_dir m \<mapsto> first_child d), m_next_dir := m_next_dir m + 1 \<rparr>) s))"

definition node_entry :: "mnode \<Rightarrow> opftp_dirent" where
  "node_entry n =
     \<lparr> de_name = c_snprintf 256 (n_name n), de_mode = n_mode n, de_size = of_nat (length (n_data n)),
       de_mtime = n_mtime n, de_uid = n_uid n, de_gid = n_gid n \<rparr>"

definition mem_readdir :: "nat \<Rightarrow> (mem, opftp_dirent option) fs_op" where
  "mem_readdir dir s =
     (let m = sys_state s in
      case m_dirs m dir of
        None \<Rightarrow> (None, sys_mem dangling s)
      | Some None \<Rightarrow> (Some None, s)
      | Some (Some n) \<Rightarrow>
          (case m_nodes m n of
             None \<Rightarrow> (None, sys_mem dangling s)
           | Some node \<Rightarrow>
               (Some (Some (node_entry node)),
                sys_mem (\<lambda>m. m\<lparr> m_dirs := (m_dirs m)(dir \<mapsto> next_sibling m n) \<rparr>) s)))"

definition mem_closedir :: "nat \<Rightarrow> (mem, unit) fs_op" where
  "mem_closedir dir s =
     (if m_dirs (sys_state s) dir = None then (None, sys_mem dangling s)
      else (Some (), sys_mem (\<lambda>m. m\<lparr> m_dirs := (m_dirs m)(dir := None) \<rparr>) s))"

definition mem_mkdir :: "mem_env \<Rightarrow> string \<Rightarrow> 16 word \<Rightarrow> (mem, unit) fs_op" where
  "mem_mkdir al path mode s =
     (let m = sys_state s in
      case node_lookup_parent m path of
        Inl err \<Rightarrow> (None, set_errno err s)
      | Inr (p, name) \<Rightarrow>
          if node_find_child m p name \<noteq> None then (None, set_errno EEXIST s)
          else
            (case node_create al name (S_IFDIR OR (if mode \<noteq> 0 then mode else 0x1ED)) m of
               None \<Rightarrow> (None, set_errno ENOMEM s)
             | Some node \<Rightarrow> (Some (), sys_mem (\<lambda>m. snd (add_child p node m)) s)))"

definition mem_rmdir :: "string \<Rightarrow> (mem, unit) fs_op" where
  "mem_rmdir path s =
     (let m = sys_state s in
      case node_lookup m path of
        None \<Rightarrow> (None, set_errno ENOENT s)
      | Some n \<Rightarrow>
          (case m_nodes m n of
             None \<Rightarrow> (None, sys_mem dangling s)
           | Some node \<Rightarrow>
               if \<not> mode_is_dir (n_mode node) then (None, set_errno ENOTDIR s)
               else if n_children node \<noteq> [] then (None, set_errno ENOTEMPTY s)
               else
                 (case n_parent node of
                    None \<Rightarrow> (None, set_errno EBUSY s)
                  | Some p \<Rightarrow> (Some (), sys_mem (\<lambda>m. free_node n (unlink_child p n m)) s))))"

subsection \<open>Names\<close>

definition mem_unlink :: "string \<Rightarrow> (mem, unit) fs_op" where
  "mem_unlink path s =
     (let m = sys_state s in
      case node_lookup m path of
        None \<Rightarrow> (None, set_errno ENOENT s)
      | Some n \<Rightarrow>
          (case m_nodes m n of
             None \<Rightarrow> (None, sys_mem dangling s)
           | Some node \<Rightarrow>
               if mode_is_dir (n_mode node) then (None, set_errno EISDIR s)
               else
                 (Some (), sys_mem (\<lambda>m. free_node n
                    (case n_parent node of None \<Rightarrow> m | Some p \<Rightarrow> unlink_child p n m)) s)))"

text \<open>The loop over the ancestors of the new parent. A chain of parents has no repetition, so it
  is no longer than the number of nodes ever created.\<close>

fun in_subtree :: "nat \<Rightarrow> mem \<Rightarrow> nat \<Rightarrow> nat \<Rightarrow> bool" where
  "in_subtree 0 m n p = False"
| "in_subtree (Suc k) m n p =
     (p = n \<or> (case Option.bind (m_nodes m p) n_parent of None \<Rightarrow> False | Some q \<Rightarrow> in_subtree k m n q))"

text \<open>Moving \<open>n\<close> from its parent to \<open>np\<close> under a new name.\<close>

definition move_node :: "nat \<Rightarrow> nat \<Rightarrow> nat \<Rightarrow> string \<Rightarrow> mem \<Rightarrow> mem" where
  "move_node n p np nn m =
     upd_node np (\<lambda>d. d\<lparr> n_children := n # n_children d \<rparr>)
       (upd_node n (\<lambda>d. d\<lparr> n_name := c_snprintf 256 nn, n_parent := Some np \<rparr>) (unlink_child p n m))"

definition mem_rename :: "string \<Rightarrow> string \<Rightarrow> (mem, unit) fs_op" where
  "mem_rename oldp newp s =
     (let m = sys_state s in
      case node_lookup m oldp of
        None \<Rightarrow> (None, set_errno ENOENT s)
      | Some n \<Rightarrow>
          (case Option.bind (m_nodes m n) n_parent of
             None \<Rightarrow> (None, set_errno EBUSY s)
           | Some p \<Rightarrow>
               (case node_lookup_parent m newp of
                  Inl err \<Rightarrow> (None, set_errno err s)
                | Inr (np, nn) \<Rightarrow>
                    if in_subtree (m_next m) m n np then (None, set_errno EINVAL s)
                    else
                      (case node_find_child m np nn of
                         None \<Rightarrow> (Some (), sys_mem (move_node n p np nn) s)
                       | Some ex \<Rightarrow>
                           if ex = n then (Some (), s)
                           else if node_is_dir m ex \<or> node_is_dir m n then (None, set_errno EISDIR s)
                           else (Some (), sys_mem (\<lambda>m. move_node n p np nn (free_node ex (unlink_child np ex m))) s)))))"

definition mem_chmod :: "string \<Rightarrow> 16 word \<Rightarrow> (mem, unit) fs_op" where
  "mem_chmod path mode s =
     (case node_lookup (sys_state s) path of
        None \<Rightarrow> (None, set_errno ENOENT s)
      | Some n \<Rightarrow>
          (Some (), sys_mem (upd_node n (\<lambda>d. d\<lparr> n_mode := (n_mode d AND S_IFMT) OR (mode AND 0xFFF) \<rparr>)) s))"

definition mem_utimes :: "string \<Rightarrow> int \<Rightarrow> (mem, unit) fs_op" where
  "mem_utimes path mtime s =
     (case node_lookup (sys_state s) path of
        None \<Rightarrow> (None, set_errno ENOENT s)
      | Some n \<Rightarrow> (Some (), sys_mem (upd_node n (\<lambda>d. d\<lparr> n_mtime := mtime \<rparr>)) s))"

subsection \<open>The backend\<close>

definition mem_vtable :: "mem_env \<Rightarrow> mem opftp_fs" where
  "mem_vtable al =
     \<lparr> fs_open = mem_open al, fs_close = mem_close, fs_read = mem_read, fs_write = mem_write al,
       fs_seek = mem_seek, fs_fstat = mem_fstat, fs_stat = mem_stat, fs_opendir = mem_opendir al,
       fs_readdir = mem_readdir, fs_closedir = mem_closedir, fs_mkdir = mem_mkdir al,
       fs_rmdir = mem_rmdir, fs_unlink = mem_unlink, fs_rename = mem_rename, fs_chmod = mem_chmod,
       fs_utimes = mem_utimes \<rparr>"

text \<open>A fresh context; \<open>now\<close> is the time of its creation.\<close>

definition mem_create :: "int \<Rightarrow> mem" where
  "mem_create now =
     \<lparr> m_root = 0,
       m_nodes = [0 \<mapsto> \<lparr> n_name = ''/'', n_mode = S_IFDIR OR 0x1ED, n_mtime = now, n_uid = 0, n_gid = 0,
                        n_data = [], n_children = [], n_parent = None \<rparr>],
       m_next = 1, m_fds = Map.empty, m_dirs = Map.empty, m_next_dir = 0, m_clock = now, m_dangling = False \<rparr>"

text \<open>\<open>opftp_fs_mem_create\<close>: the sizes are those of \<open>struct mctx\<close> and of the vtable copy.\<close>

definition opftp_fs_mem_create :: "mem_env \<Rightarrow> bool \<Rightarrow> int \<Rightarrow> mem option" where
  "opftp_fs_mem_create al mutex_ok now =
     (if al 1552 \<and> al MNODE_SIZE \<and> mutex_ok \<and> al 136 then Some (mem_create now) else None)"

text \<open>\<open>opftp_fs_mem_destroy\<close>: nodes still to visit are on a stack of 512; a child that does not
  fit is freed at once, and its own children are then out of reach.\<close>

definition push_children :: "nat list \<Rightarrow> nat list \<times> (nat \<rightharpoonup> mnode) \<Rightarrow> nat list \<times> (nat \<rightharpoonup> mnode)" where
  "push_children cs =
     fold (\<lambda>c (stack, nodes). if length stack < 512 then (c # stack, nodes) else (stack, nodes(c := None))) cs"

definition destroy_step ::
  "nat list \<times> (nat \<rightharpoonup> mnode) \<Rightarrow> (nat \<rightharpoonup> mnode, nat list \<times> (nat \<rightharpoonup> mnode)) iter" where
  "destroy_step =
     (\<lambda>(stack, nodes).
        case stack of
          [] \<Rightarrow> Return nodes
        | n # stack \<Rightarrow>
            (case push_children (case nodes n of Some d \<Rightarrow> n_children d | None \<Rightarrow> []) (stack, nodes) of
               (stack, nodes) \<Rightarrow> Continue (stack, nodes(n := None))))"

definition opftp_fs_mem_destroy :: "mem \<Rightarrow> (nat \<rightharpoonup> mnode) option" where
  "opftp_fs_mem_destroy m = iterate (\<lambda>s. Some (destroy_step s)) ([m_root m], m_nodes m)"

end
