(* ===== verification/Fs_Mem_Tree.thy ===== *)
theory Fs_Mem_Tree
  imports Fs_Mem
begin

text \<open>
  The nodes of the in-memory backend form a tree of uniquely named paths: the invariant \<open>mem_ok\<close>,
  uniqueness of paths, and what adding, removing and moving a node does to every path.
\<close>

section \<open>The invariant\<close>

text \<open>Parent pointers and child lists agree, only directories have children, siblings have
  different names, and only the root has no parent.\<close>

definition node_ok :: "mem \<Rightarrow> nat \<Rightarrow> mnode \<Rightarrow> bool" where
  "node_ok m n d \<longleftrightarrow>
     n < m_next m \<and> distinct (n_children d) \<and> (n_children d \<noteq> [] \<longrightarrow> mode_is_dir (n_mode d)) \<and>
     (n_parent d = None \<longleftrightarrow> n = m_root m) \<and> (\<forall>p. n_parent d = Some p \<longrightarrow> m_nodes m p \<noteq> None) \<and>
     (\<forall>c. c \<in> set (n_children d) \<longleftrightarrow> (\<exists>cd. m_nodes m c = Some cd \<and> n_parent cd = Some n))"

definition tree_ok :: "mem \<Rightarrow> bool" where
  "tree_ok m \<longleftrightarrow>
     (\<exists>r. m_nodes m (m_root m) = Some r \<and> mode_is_dir (n_mode r)) \<and>
     (\<forall>n d. m_nodes m n = Some d \<longrightarrow> node_ok m n d) \<and>
     (\<forall>a an b bn. m_nodes m a = Some an \<longrightarrow> m_nodes m b = Some bn \<longrightarrow> n_parent an = n_parent bn \<longrightarrow>
        n_name an = n_name bn \<longrightarrow> a = b)"

definition mem_ok :: "mem \<Rightarrow> bool" where
  "mem_ok m \<longleftrightarrow> tree_ok m \<and> (\<forall>n. m_nodes m n \<noteq> None \<longrightarrow> (\<exists>cs. walk m (m_root m) cs = Some n))"

lemma tree_okD: "tree_ok m \<Longrightarrow> m_nodes m n = Some d \<Longrightarrow> node_ok m n d"
  by (simp add: tree_ok_def)

lemma tree_siblings:
  "tree_ok m \<Longrightarrow> m_nodes m a = Some an \<Longrightarrow> m_nodes m b = Some bn \<Longrightarrow> n_parent an = n_parent bn \<Longrightarrow>
   n_name an = n_name bn \<Longrightarrow> a = b"
  unfolding tree_ok_def by blast

lemma mem_okD: "mem_ok m \<Longrightarrow> tree_ok m" "mem_ok m \<Longrightarrow> m_nodes m n \<noteq> None \<Longrightarrow> \<exists>cs. walk m (m_root m) cs = Some n"
  by (auto simp: mem_ok_def)

lemma root_live: "tree_ok m \<Longrightarrow> \<exists>r. m_nodes m (m_root m) = Some r \<and> n_parent r = None \<and> mode_is_dir (n_mode r)"
  by (auto simp: tree_ok_def node_ok_def)

lemma option_eqI: "(\<And>c. x = Some c \<longleftrightarrow> y = Some c) \<Longrightarrow> x = y"
  by (cases x; cases y) auto

section \<open>Paths\<close>

lemma parent_live: "tree_ok m \<Longrightarrow> m_nodes m c = Some cn \<Longrightarrow> n_parent cn = Some d \<Longrightarrow> \<exists>dn. m_nodes m d = Some dn"
  using tree_okD [of m c cn] by (auto simp: node_ok_def)

text \<open>The child found by name is the node with that parent and name.\<close>

lemma find_child_iff:
  assumes "tree_ok m"
  shows "node_find_child m d name = Some c \<longleftrightarrow>
    (\<exists>cn. m_nodes m c = Some cn \<and> n_parent cn = Some d \<and> n_name cn = name)"
proof (cases "m_nodes m d")
  case None
  then show ?thesis by (auto simp: node_find_child_def dest: parent_live [OF assms])
next
  case (Some dn)
  have ch: "x \<in> set (n_children dn) \<longleftrightarrow> (\<exists>xn. m_nodes m x = Some xn \<and> n_parent xn = Some d)" for x
    using tree_okD [OF assms Some] by (simp add: node_ok_def)
  let ?P = "\<lambda>c. map_option n_name (m_nodes m c) = Some name"
  have f: "node_find_child m d name = List.find ?P (n_children dn)" by (simp add: node_find_child_def Some)
  show ?thesis
  proof
    assume "node_find_child m d name = Some c"
    then have "c \<in> set (n_children dn)" "?P c" unfolding f by (auto simp: find_Some_iff)
    then show "\<exists>cn. m_nodes m c = Some cn \<and> n_parent cn = Some d \<and> n_name cn = name" by (auto simp: ch)
  next
    assume "\<exists>cn. m_nodes m c = Some cn \<and> n_parent cn = Some d \<and> n_name cn = name"
    then obtain cn where cn: "m_nodes m c = Some cn" "n_parent cn = Some d" "n_name cn = name" by blast
    then have "c \<in> set (n_children dn)" "?P c" by (auto simp: ch)
    then obtain c' where c': "List.find ?P (n_children dn) = Some c'"
      by (cases "List.find ?P (n_children dn)") (auto simp: find_None_iff)
    then have "c' \<in> set (n_children dn)" "?P c'" by (auto simp: find_Some_iff)
    then obtain xn where xn: "m_nodes m c' = Some xn" "n_parent xn = Some d" "n_name xn = name" by (auto simp: ch)
    have "c' = c" by (rule tree_siblings [OF assms xn(1) cn(1)]) (simp_all add: xn cn)
    with c' f show "node_find_child m d name = Some c" by simp
  qed
qed

lemma find_child_None:
  "tree_ok m \<Longrightarrow> node_find_child m d name = None \<longleftrightarrow>
     \<not> (\<exists>c cn. m_nodes m c = Some cn \<and> n_parent cn = Some d \<and> n_name cn = name)"
  using find_child_iff [of m d name] by (metis not_Some_eq)

lemma walk_append: "walk m n (cs @ ds) = Option.bind (walk m n cs) (\<lambda>x. walk m x ds)"
  by (induction cs arbitrary: n) (auto split: option.split)

lemma walk_snoc: "walk m n (cs @ [c]) = Option.bind (walk m n cs) (\<lambda>x. node_find_child m x c)"
  by (cases "walk m n cs") (simp_all add: walk_append split: option.split)

lemma walk_live:
  assumes "tree_ok m" "m_nodes m n \<noteq> None" "walk m n cs = Some x"
  shows "m_nodes m x \<noteq> None"
  using assms
proof (induction cs arbitrary: n)
  case (Cons c cs)
  then obtain n' where n': "node_find_child m n c = Some n'" "walk m n' cs = Some x"
    by (auto split: option.splits)
  then have "m_nodes m n' \<noteq> None" by (auto simp: find_child_iff [OF assms(1)])
  with Cons n' show ?case by blast
qed simp

text \<open>Walks depend on the children found alone.\<close>

lemma walk_cong:
  assumes "\<And>d name. node_find_child m' d name = node_find_child m d name"
  shows "walk m' n cs = walk m n cs"
  by (induction cs arbitrary: n) (simp_all add: assms split: option.split)

lemma walk_mono:
  assumes "walk m n cs = Some x"
    and "\<And>d name c. node_find_child m d name = Some c \<Longrightarrow> node_find_child m' d name = Some c"
  shows "walk m' n cs = Some x"
  using assms(1) by (induction cs arbitrary: n) (auto simp: assms(2) split: option.splits)

text \<open>A node has one path from the root.\<close>

lemma root_no_parent: "tree_ok m \<Longrightarrow> node_find_child m d name \<noteq> Some (m_root m)"
  using root_live by (fastforce simp: find_child_iff)

lemma walk_unique:
  assumes "tree_ok m" "walk m (m_root m) cs = Some x" "walk m (m_root m) ds = Some x"
  shows "cs = ds"
  using assms(2,3)
proof (induction cs arbitrary: x ds rule: rev_induct)
  case Nil
  then show ?case
    using root_no_parent [OF assms(1)] by (cases ds rule: rev_cases) (auto simp: walk_snoc bind_eq_Some_conv)
next
  case (snoc c cs)
  note prems = snoc.prems and IH = snoc.IH
  from prems(1) obtain y where y: "walk m (m_root m) cs = Some y" "node_find_child m y c = Some x"
    by (auto simp: walk_snoc bind_eq_Some_conv)
  have "ds \<noteq> []" using y(2) prems(2) root_no_parent [OF assms(1)] by auto
  then obtain ds' d where ds: "ds = ds' @ [d]" by (cases ds rule: rev_cases) auto
  with prems(2) obtain z where z: "walk m (m_root m) ds' = Some z" "node_find_child m z d = Some x"
    by (auto simp: walk_snoc bind_eq_Some_conv)
  from y(2) z(2) have "z = y" "d = c" by (auto simp: find_child_iff [OF assms(1)])
  with IH [OF y(1)] z(1) ds show ?case by simp
qed

section \<open>Changing a node in place\<close>

lemma upd_node_simps [simp]:
  "m_root (upd_node n f m) = m_root m" "m_next (upd_node n f m) = m_next m" "m_fds (upd_node n f m) = m_fds m"
  "m_dirs (upd_node n f m) = m_dirs m" "m_clock (upd_node n f m) = m_clock m"
  "m_next_dir (upd_node n f m) = m_next_dir m" "m_dangling (upd_node n f m) = m_dangling m"
  "m_nodes (upd_node n f m) x = (if x = n then map_option f (m_nodes m n) else m_nodes m x)"
  by (simp_all add: upd_node_def)

text \<open>Two stores that differ in data, times and permissions only.\<close>

definition same_node :: "mnode \<Rightarrow> mnode \<Rightarrow> bool" where
  "same_node d e \<longleftrightarrow> n_name d = n_name e \<and> n_children d = n_children e \<and> n_parent d = n_parent e \<and>
     mode_is_dir (n_mode d) = mode_is_dir (n_mode e)"

definition same_shape :: "mem \<Rightarrow> mem \<Rightarrow> bool" where
  "same_shape m m' \<longleftrightarrow> m_root m' = m_root m \<and> m_next m' = m_next m \<and>
     (\<forall>x. rel_option same_node (m_nodes m x) (m_nodes m' x))"

lemma same_shape_nodes:
  assumes "same_shape m m'"
  shows "m_nodes m' x = None \<longleftrightarrow> m_nodes m x = None"
    "m_nodes m' x = Some d' \<Longrightarrow> \<exists>d. m_nodes m x = Some d \<and> same_node d d'"
    "m_nodes m x = Some d \<Longrightarrow> \<exists>d'. m_nodes m' x = Some d' \<and> same_node d d'"
proof -
  have "rel_option same_node (m_nodes m x) (m_nodes m' x)" using assms by (simp add: same_shape_def)
  then show "m_nodes m' x = None \<longleftrightarrow> m_nodes m x = None"
    "m_nodes m' x = Some d' \<Longrightarrow> \<exists>d. m_nodes m x = Some d \<and> same_node d d'"
    "m_nodes m x = Some d \<Longrightarrow> \<exists>d'. m_nodes m' x = Some d' \<and> same_node d d'"
    by (cases "m_nodes m x"; cases "m_nodes m' x"; auto)+
qed

lemma same_shape_find:
  assumes "same_shape m m'"
  shows "node_find_child m' = node_find_child m" "walk m' = walk m" "node_is_dir m' = node_is_dir m"
proof -
  have nm: "map_option n_name (m_nodes m' c) = map_option n_name (m_nodes m c)" for c
    using same_shape_nodes [OF assms, of c]
    by (cases "m_nodes m c"; cases "m_nodes m' c") (auto simp: same_node_def)
  show f: "node_find_child m' = node_find_child m"
  proof (intro ext)
    fix d name show "node_find_child m' d name = node_find_child m d name"
      using same_shape_nodes [OF assms, of d] unfolding node_find_child_def nm
      by (cases "m_nodes m d"; cases "m_nodes m' d") (auto simp: same_node_def)
  qed
  show "walk m' = walk m" by (intro ext walk_cong) (simp add: f)
  show "node_is_dir m' = node_is_dir m"
  proof
    fix d show "node_is_dir m' d = node_is_dir m d"
      using same_shape_nodes [OF assms, of d] unfolding node_is_dir_def
      by (cases "m_nodes m d"; cases "m_nodes m' d") (auto simp: same_node_def)
  qed
qed

lemma same_shape_ok:
  assumes "same_shape m m'" "mem_ok m"
  shows "mem_ok m'"
proof -
  note ex = same_shape_nodes [OF assms(1)]
  have t: "tree_ok m" by (rule mem_okD [OF assms(2)])
  have cfg: "m_root m' = m_root m" "m_next m' = m_next m" using assms(1) by (simp_all add: same_shape_def)
  have ch: "(\<exists>cd. m_nodes m' c = Some cd \<and> n_parent cd = Some n) = (\<exists>cd. m_nodes m c = Some cd \<and> n_parent cd = Some n)" for c n
    using ex [of c] by (cases "m_nodes m c"; cases "m_nodes m' c") (auto simp: same_node_def)
  have "tree_ok m'"
    unfolding tree_ok_def
  proof (intro conjI allI impI)
    show "\<exists>r. m_nodes m' (m_root m') = Some r \<and> mode_is_dir (n_mode r)"
      using root_live [OF t] ex(3) [of "m_root m"] by (auto simp: cfg(1) same_node_def)
    show "node_ok m' n d'" if nd: "m_nodes m' n = Some d'" for n d'
    proof -
      from ex(2) [OF nd] obtain d where d: "m_nodes m n = Some d" "same_node d d'" by blast
      with tree_okD [OF t d(1)] show ?thesis by (simp add: node_ok_def same_node_def cfg ch ex(1) del: not_None_eq)
    qed
    show "a = b" if ab: "m_nodes m' a = Some an" "m_nodes m' b = Some bn" "n_parent an = n_parent bn" "n_name an = n_name bn"
      for a an b bn
    proof -
      obtain an' bn' where x: "m_nodes m a = Some an'" "same_node an' an" "m_nodes m b = Some bn'" "same_node bn' bn"
        using ex(2) [OF ab(1)] ex(2) [OF ab(2)] by blast
      with ab(3,4) show ?thesis by (intro tree_siblings [OF t x(1,3)]) (simp_all add: same_node_def)
    qed
  qed
  with assms(2) show ?thesis
    by (simp add: mem_ok_def same_shape_find(2) [OF assms(1)] cfg(1) ex(1) del: not_None_eq)
qed

lemma same_shape_upd:
  assumes "\<And>d. same_node d (f d)"
  shows "same_shape m (upd_node n f m)"
proof -
  have "same_node d d" for d by (simp add: same_node_def)
  with assms show ?thesis by (auto simp: same_shape_def option.rel_map intro!: option.rel_refl)
qed

lemma same_shape_eq:
  "m_root m' = m_root m \<Longrightarrow> m_next m' = m_next m \<Longrightarrow> m_nodes m' = m_nodes m \<Longrightarrow> same_shape m m'"
  by (auto simp: same_shape_def same_node_def intro: option.rel_refl)

lemma same_node_trans: "same_node d e \<Longrightarrow> same_node e f \<Longrightarrow> same_node d f"
  by (simp add: same_node_def)

lemma same_shape_trans:
  assumes "same_shape a b" "same_shape b c"
  shows "same_shape a c"
proof -
  have "rel_option same_node (m_nodes a x) (m_nodes c x)" for x
    using same_shape_nodes [OF assms(1), of x] same_shape_nodes [OF assms(2), of x]
    by (cases "m_nodes a x"; cases "m_nodes b x"; cases "m_nodes c x") (auto intro: same_node_trans)
  with assms show ?thesis by (simp add: same_shape_def)
qed

section \<open>Adding a node\<close>

lemma add_child_simps [simp]:
  "fst (add_child p node m) = m_next m" "m_root (snd (add_child p node m)) = m_root m"
  "m_next (snd (add_child p node m)) = m_next m + 1" "m_fds (snd (add_child p node m)) = m_fds m"
  "m_dirs (snd (add_child p node m)) = m_dirs m" "m_dangling (snd (add_child p node m)) = m_dangling m"
  by (simp_all add: add_child_def Let_def)

lemma fresh_address: "tree_ok m \<Longrightarrow> m_nodes m (m_next m) = None"
  using tree_okD [of m "m_next m"] by (cases "m_nodes m (m_next m)") (auto simp: node_ok_def)

lemma add_child_nodes:
  assumes "tree_ok m" "m_nodes m p = Some pd"
  shows "m_nodes (snd (add_child p node m)) x =
    (if x = m_next m then Some (node\<lparr> n_parent := Some p \<rparr>)
     else if x = p then Some (pd\<lparr> n_children := m_next m # n_children pd \<rparr>) else m_nodes m x)"
  using assms fresh_address [OF assms(1)] by (auto simp: add_child_def Let_def)

lemma add_child_tree:
  assumes "tree_ok m" "m_nodes m p = Some pd" "mode_is_dir (n_mode pd)" "n_children node = []"
    "node_find_child m p (n_name node) = None"
  shows "tree_ok (snd (add_child p node m))"
proof -
  let ?m = "snd (add_child p node m)" and ?n = "m_next m"
  note nodes = add_child_nodes [OF assms(1,2), of node]
  note fresh = fresh_address [OF assms(1)]
  have new: "\<not> (\<exists>c cn. m_nodes m c = Some cn \<and> n_parent cn = Some p \<and> n_name cn = n_name node)"
    using assms(5) find_child_None [OF assms(1)] by blast
  have pn: "p \<noteq> ?n" using fresh assms(2) by auto
  have np: "n_parent cd \<noteq> Some ?n" if "m_nodes m c = Some cd" for c cd
    using parent_live [OF assms(1) that] fresh by auto
  show ?thesis
    unfolding tree_ok_def
  proof (intro conjI allI impI)
    show "\<exists>r. m_nodes ?m (m_root ?m) = Some r \<and> mode_is_dir (n_mode r)"
      using root_live [OF assms(1)] fresh assms(2,3) by (auto simp: nodes)
  next
    fix x d assume d: "m_nodes ?m x = Some d"
    show "node_ok ?m x d"
    proof (cases "x = ?n")
      case True
      with d assms(2,4) root_live [OF assms(1)] fresh pn show ?thesis
        by (auto simp: node_ok_def nodes dest: np split: if_splits)
    next
      case False
      then obtain d0 where d0: "m_nodes m x = Some d0" "d = (if x = p then pd\<lparr> n_children := ?n # n_children pd \<rparr> else d0)"
        using d assms(2) by (auto simp: nodes split: if_splits)
      with tree_okD [OF assms(1) d0(1)] False assms(2,3) fresh pn show ?thesis
        by (auto simp: node_ok_def nodes less_Suc_eq split: if_splits)
    qed
  next
    fix a an b bn
    assume ab: "m_nodes ?m a = Some an" "m_nodes ?m b = Some bn" "n_parent an = n_parent bn" "n_name an = n_name bn"
    have old: "\<exists>d. m_nodes m y = Some d \<and> n_parent d = n_parent d' \<and> n_name d = n_name d'"
      if "m_nodes ?m y = Some d'" "y \<noteq> ?n" for y d'
      using that assms(2) by (auto simp: nodes split: if_splits)
    have one: "y = ?n" if "m_nodes ?m y = Some d'" "n_parent d' = Some p" "n_name d' = n_name node" for y d'
      using old [OF that(1)] that(2,3) new by (cases "y = ?n") auto
    show "a = b"
    proof (cases "a = ?n \<or> b = ?n")
      case True
      with ab(1,2) have "an = node\<lparr> n_parent := Some p \<rparr> \<or> bn = node\<lparr> n_parent := Some p \<rparr>"
        by (auto simp: nodes split: if_splits)
      with ab(3,4) have "n_parent an = Some p" "n_name an = n_name node" "n_parent bn = Some p" "n_name bn = n_name node"
        by auto
      with one [OF ab(1)] one [OF ab(2)] show ?thesis by simp
    next
      case False
      then obtain ad bd where "m_nodes m a = Some ad" "n_parent ad = n_parent an" "n_name ad = n_name an"
        "m_nodes m b = Some bd" "n_parent bd = n_parent bn" "n_name bd = n_name bn"
        using old [OF ab(1)] old [OF ab(2)] by blast
      then show ?thesis using tree_siblings [OF assms(1)] ab(3,4) by simp
    qed
  qed
qed

lemma add_child_find:
  assumes "tree_ok m" "m_nodes m p = Some pd" "tree_ok (snd (add_child p node m))"
  shows "node_find_child (snd (add_child p node m)) d name =
    (if d = p \<and> name = n_name node then Some (m_next m) else node_find_child m d name)"
proof -
  let ?m = "snd (add_child p node m)" and ?n = "m_next m"
  note nodes = add_child_nodes [OF assms(1,2), of node]
  have "node_find_child ?m d name = Some c \<longleftrightarrow>
      (if d = p \<and> name = n_name node then Some ?n else node_find_child m d name) = Some c" for c
  proof (cases "d = p \<and> name = n_name node")
    case True
    then have "node_find_child ?m d name = Some ?n"
      by (simp add: find_child_iff [OF assms(3)] nodes)
    with True show ?thesis by auto
  next
    case False
    then show ?thesis
      using fresh_address [OF assms(1)] assms(2)
      by (auto simp: find_child_iff [OF assms(1)] find_child_iff [OF assms(3)] nodes)
  qed
  then show ?thesis by (rule option_eqI)
qed

lemma add_child_ok:
  assumes "mem_ok m" "m_nodes m p = Some pd" "mode_is_dir (n_mode pd)" "n_children node = []"
    "node_find_child m p (n_name node) = None"
  shows "mem_ok (snd (add_child p node m))"
    "walk m n cs = Some x \<Longrightarrow> walk (snd (add_child p node m)) n cs = Some x"
    "node_find_child (snd (add_child p node m)) p (n_name node) = Some (m_next m)"
proof -
  let ?m = "snd (add_child p node m)"
  have t: "tree_ok m" by (rule mem_okD [OF assms(1)])
  have t': "tree_ok ?m" by (rule add_child_tree [OF t assms(2-5)])
  note f = add_child_find [OF t assms(2) t']
  show w: "walk m n cs = Some x \<Longrightarrow> walk ?m n cs = Some x" for n cs x
    using assms(5) by (elim walk_mono) (auto simp: f)
  show s: "node_find_child ?m p (n_name node) = Some (m_next m)" by (simp add: f)
  have "\<exists>cs. walk ?m (m_root ?m) cs = Some y" if "m_nodes ?m y \<noteq> None" for y
  proof (cases "y = m_next m")
    case True
    from mem_okD(2) [OF assms(1), of p] assms(2) obtain cs where "walk m (m_root m) cs = Some p" by auto
    then have "walk ?m (m_root ?m) (cs @ [n_name node]) = Some (m_next m)" using w s by (simp add: walk_snoc)
    with True show ?thesis by blast
  next
    case False
    with that assms(2) have "m_nodes m y \<noteq> None" by (auto simp: add_child_nodes [OF t assms(2)] split: if_splits)
    from mem_okD(2) [OF assms(1) this] w show ?thesis by auto
  qed
  with t' show "mem_ok ?m" by (simp add: mem_ok_def del: add_child_simps(2))
qed

section \<open>Removing a leaf\<close>

lemma no_children:
  assumes "tree_ok m" "m_nodes m n = Some nd" "n_children nd = []"
  shows "node_find_child m n name = None" "m_nodes m c = Some cn \<Longrightarrow> n_parent cn \<noteq> Some n"
  using tree_okD [OF assms(1,2)] assms(2,3) by (auto simp: node_find_child_def node_ok_def)

lemma own_parent: "tree_ok m \<Longrightarrow> m_nodes m n = Some nd \<Longrightarrow> n_children nd = [] \<Longrightarrow> n_parent nd \<noteq> Some n"
  using no_children(2) by blast

lemma remove_nodes:
  assumes "m_nodes m p = Some pd" "n \<noteq> p"
  shows "m_nodes (free_node n (unlink_child p n m)) x =
    (if x = n then None else if x = p then Some (pd\<lparr> n_children := remove1 n (n_children pd) \<rparr>) else m_nodes m x)"
  using assms by (simp add: free_node_def unlink_child_def)

lemma free_simps [simp]:
  "m_root (free_node n m) = m_root m" "m_next (free_node n m) = m_next m" "m_fds (free_node n m) = m_fds m"
  "m_root (unlink_child p n m) = m_root m" "m_next (unlink_child p n m) = m_next m"
  "m_fds (unlink_child p n m) = m_fds m"
  by (simp_all add: free_node_def unlink_child_def)

lemma remove_tree:
  assumes "tree_ok m" "m_nodes m n = Some nd" "n_children nd = []" "n_parent nd = Some p"
  shows "tree_ok (free_node n (unlink_child p n m))"
proof -
  let ?m = "free_node n (unlink_child p n m)"
  obtain pd where pd: "m_nodes m p = Some pd" using parent_live [OF assms(1,2,4)] by blast
  have np: "n \<noteq> p" using own_parent [OF assms(1-3)] assms(4) by auto
  note nodes = remove_nodes [OF pd np] and no = no_children(2) [OF assms(1-3)]
  have root: "n \<noteq> m_root m" using root_live [OF assms(1)] assms(2,4) by auto
  have old: "\<exists>d. m_nodes m y = Some d \<and> n_parent d = n_parent d' \<and> n_name d = n_name d'"
    if "m_nodes ?m y = Some d'" for y d'
    using that pd by (auto simp: nodes split: if_splits)
  show ?thesis
    unfolding tree_ok_def
  proof (intro conjI allI impI)
    show "\<exists>r. m_nodes ?m (m_root ?m) = Some r \<and> mode_is_dir (n_mode r)"
      using root_live [OF assms(1)] root pd by (auto simp: nodes)
  next
    fix x d assume d: "m_nodes ?m x = Some d"
    then have "x \<noteq> n" by (auto simp: nodes)
    then obtain d0 where d0: "m_nodes m x = Some d0" "d = (if x = p then pd\<lparr> n_children := remove1 n (n_children pd) \<rparr> else d0)"
      using d pd by (auto simp: nodes split: if_splits)
    have x: "node_ok m x d0" by (rule tree_okD [OF assms(1) d0(1)])
    have ch: "c \<in> set (n_children d) \<longleftrightarrow> c \<in> set (n_children d0) \<and> c \<noteq> n" for c
      using d0 x pd assms(2,4) by (auto simp: node_ok_def)
    have "(\<exists>cd. m_nodes ?m c = Some cd \<and> n_parent cd = Some x) \<longleftrightarrow>
        c \<noteq> n \<and> (\<exists>cd. m_nodes m c = Some cd \<and> n_parent cd = Some x)" for c
      using pd by (auto simp: nodes)
    then have "c \<in> set (n_children d) \<longleftrightarrow> (\<exists>cd. m_nodes ?m c = Some cd \<and> n_parent cd = Some x)" for c
      using x by (auto simp: ch node_ok_def)
    moreover have "m_nodes ?m q \<noteq> None" if "n_parent d = Some q" for q
      using x d0 that no [OF d0(1)] pd by (auto simp: node_ok_def nodes split: if_splits)
    moreover have "n_parent d = n_parent d0" "mode_is_dir (n_mode d) = mode_is_dir (n_mode d0)" "distinct (n_children d)"
      "n_children d \<noteq> [] \<longrightarrow> n_children d0 \<noteq> []"
      using d0 x pd by (auto simp: node_ok_def)
    ultimately show "node_ok ?m x d" using x by (simp add: node_ok_def del: not_None_eq)
  next
    fix a an b bn
    assume ab: "m_nodes ?m a = Some an" "m_nodes ?m b = Some bn" "n_parent an = n_parent bn" "n_name an = n_name bn"
    obtain ad bd where "m_nodes m a = Some ad" "n_parent ad = n_parent an" "n_name ad = n_name an"
      "m_nodes m b = Some bd" "n_parent bd = n_parent bn" "n_name bd = n_name bn"
      using old [OF ab(1)] old [OF ab(2)] by blast
    then show "a = b" using tree_siblings [OF assms(1)] ab(3,4) by simp
  qed
qed

lemma remove_ok:
  assumes "mem_ok m" "m_nodes m n = Some nd" "n_children nd = []" "n_parent nd = Some p"
  shows "mem_ok (free_node n (unlink_child p n m))"
    "x \<noteq> n \<Longrightarrow> walk m a cs = Some x \<Longrightarrow> walk (free_node n (unlink_child p n m)) a cs = Some x"
    "node_find_child (free_node n (unlink_child p n m)) d name =
       (if node_find_child m d name = Some n then None else node_find_child m d name)"
proof -
  let ?m = "free_node n (unlink_child p n m)"
  have t: "tree_ok m" by (rule mem_okD [OF assms(1)])
  have t': "tree_ok ?m" by (rule remove_tree [OF t assms(2-4)])
  obtain pd where pd: "m_nodes m p = Some pd" using parent_live [OF t assms(2,4)] by blast
  have np: "n \<noteq> p" using own_parent [OF t assms(2,3)] assms(4) by auto
  note nodes = remove_nodes [OF pd np]
  show f: "node_find_child ?m d name = (if node_find_child m d name = Some n then None else node_find_child m d name)"
    for d name
  proof -
    have "node_find_child ?m d name = Some c \<longleftrightarrow> c \<noteq> n \<and> node_find_child m d name = Some c" for c
      using pd by (auto simp: find_child_iff [OF t] find_child_iff [OF t'] nodes)
    then show ?thesis by (intro option_eqI) auto
  qed
  show w: "walk ?m a cs = Some x" if "x \<noteq> n" "walk m a cs = Some x" for a cs x
    using that
  proof (induction cs arbitrary: a)
    case (Cons c cs)
    then obtain y where y: "node_find_child m a c = Some y" "walk m y cs = Some x" by (auto split: option.splits)
    have "y \<noteq> n" using y(2) Cons(2) no_children(1) [OF t assms(2,3)] by (cases cs) auto
    with y Cons show ?case by (simp add: f)
  qed simp
  have "\<exists>cs. walk ?m (m_root ?m) cs = Some y" if "m_nodes ?m y \<noteq> None" for y
  proof -
    from that pd have "m_nodes m y \<noteq> None" "y \<noteq> n" by (auto simp: nodes split: if_splits)
    with mem_okD(2) [OF assms(1)] w show ?thesis by fastforce
  qed
  with t' show "mem_ok ?m" by (simp add: mem_ok_def del: free_simps)
qed

section \<open>Subtrees\<close>

definition sub :: "mem \<Rightarrow> nat \<Rightarrow> nat \<Rightarrow> bool" where
  "sub m n x \<longleftrightarrow> (\<exists>cs. walk m n cs = Some x)"

lemma sub_refl [simp]: "sub m n n"
  unfolding sub_def by (rule exI [of _ "[]"]) simp

lemma sub_step: "sub m n x \<Longrightarrow> node_find_child m x c = Some y \<Longrightarrow> sub m n y"
  unfolding sub_def by (metis Option.bind.bind_lunit walk_snoc)

lemma sub_walk: "sub m n x \<Longrightarrow> walk m x cs = Some y \<Longrightarrow> sub m n y"
  unfolding sub_def by (metis Option.bind.bind_lunit walk_append)

text \<open>No node is below one of its children.\<close>

lemma no_cycle:
  assumes "mem_ok m" "m_nodes m n \<noteq> None" "sub m n a"
  shows "node_find_child m a c \<noteq> Some n"
proof
  assume a: "node_find_child m a c = Some n"
  from mem_okD(2) [OF assms(1,2)] obtain ds where ds: "walk m (m_root m) ds = Some n" by blast
  from assms(3) obtain es where "walk m n es = Some a" by (auto simp: sub_def)
  with ds a have "walk m (m_root m) (ds @ es @ [c]) = Some n" by (simp add: walk_append)
  from walk_unique [OF mem_okD(1) [OF assms(1)] this ds] show False by simp
qed

text \<open>Paths are shorter than the number of nodes ever created.\<close>

lemma walk_length:
  assumes "mem_ok m" "walk m (m_root m) cs = Some x"
  shows "length cs < m_next m"
proof -
  have t: "tree_ok m" by (rule mem_okD [OF assms(1)])
  let ?f = "\<lambda>i. the (walk m (m_root m) (take i cs))"
  have w: "\<exists>y. walk m (m_root m) (take i cs) = Some y \<and> m_nodes m y \<noteq> None" for i
  proof -
    have "walk m (m_root m) (take i cs @ drop i cs) = Some x" using assms(2) by simp
    then obtain y where y: "walk m (m_root m) (take i cs) = Some y" unfolding walk_append by (auto simp: bind_eq_Some_conv)
    have "m_nodes m (m_root m) \<noteq> None" using root_live [OF t] by auto
    from walk_live [OF t this y] y show ?thesis by blast
  qed
  have "inj_on ?f {..length cs}"
  proof (rule inj_onI)
    fix i j assume ij: "i \<in> {..length cs}" "j \<in> {..length cs}" "?f i = ?f j"
    obtain y z where "walk m (m_root m) (take i cs) = Some y" "walk m (m_root m) (take j cs) = Some z" using w by blast
    with ij(3) walk_unique [OF t] have "take i cs = take j cs" by (metis option.sel)
    then have "min (length cs) i = min (length cs) j" by (metis length_take)
    with ij show "i = j" by simp
  qed
  moreover have "?f ` {..length cs} \<subseteq> {..<m_next m}"
  proof (rule image_subsetI)
    fix i obtain y yd where y: "walk m (m_root m) (take i cs) = Some y" "m_nodes m y = Some yd" using w by blast
    with tree_okD [OF t y(2)] show "?f i \<in> {..<m_next m}" by (simp add: node_ok_def)
  qed
  ultimately have "card {..length cs} \<le> card {..<m_next m}" by (metis card_inj_on_le finite_lessThan)
  then show ?thesis by simp
qed

lemma in_subtree_sub:
  assumes "tree_ok m" "in_subtree k m n p"
  shows "sub m n p"
  using assms(2)
proof (induction k arbitrary: p)
  case (Suc k)
  show ?case
  proof (cases "p = n")
    case False
    with Suc(2) obtain pn q where q: "m_nodes m p = Some pn" "n_parent pn = Some q" "in_subtree k m n q"
      by (auto split: option.splits simp: bind_eq_Some_conv)
    then have "node_find_child m q (n_name pn) = Some p" by (simp add: find_child_iff [OF assms(1)])
    with Suc(1) [OF q(3)] show ?thesis by (rule sub_step)
  qed simp
qed simp

lemma sub_in_subtree:
  assumes "tree_ok m" "walk m n cs = Some p" "length cs < k"
  shows "in_subtree k m n p"
  using assms(2,3)
proof (induction cs arbitrary: p k rule: rev_induct)
  case Nil
  then show ?case by (cases k) auto
next
  case (snoc c cs)
  then obtain q where q: "walk m n cs = Some q" "node_find_child m q c = Some p"
    by (auto simp: walk_snoc bind_eq_Some_conv)
  then obtain pn where pn: "m_nodes m p = Some pn" "n_parent pn = Some q" by (auto simp: find_child_iff [OF assms(1)])
  from snoc(3) obtain k' where k: "k = Suc k'" "length cs < k'" by (cases k) auto
  from snoc(1) [OF q(1) k(2)] pn show ?case by (simp add: k(1))
qed

text \<open>The code's walk up the parents decides whether the new parent lies in the moved subtree.\<close>

lemma in_subtree_iff:
  assumes "mem_ok m" "m_nodes m n \<noteq> None"
  shows "in_subtree (m_next m) m n p \<longleftrightarrow> sub m n p"
proof
  assume "sub m n p"
  then obtain cs where cs: "walk m n cs = Some p" by (auto simp: sub_def)
  from mem_okD(2) [OF assms] obtain ds where "walk m (m_root m) ds = Some n" by blast
  with cs have "walk m (m_root m) (ds @ cs) = Some p" by (simp add: walk_append)
  from walk_length [OF assms(1) this] have "length cs < m_next m" by simp
  then show "in_subtree (m_next m) m n p" by (rule sub_in_subtree [OF mem_okD(1) [OF assms(1)] cs])
qed (rule in_subtree_sub [OF mem_okD(1) [OF assms(1)]])

section \<open>Moving a node\<close>

lemma move_simps [simp]:
  "m_root (move_node n p np nn m) = m_root m" "m_next (move_node n p np nn m) = m_next m"
  "m_fds (move_node n p np nn m) = m_fds m"
  by (simp_all add: move_node_def)

text \<open>The node gets its new name and parent; its address leaves the old child list and heads the new one.\<close>

lemma move_nodes:
  assumes "m_nodes m n = Some nd" "n \<noteq> p" "n \<noteq> np" "length nn < 256"
  shows "m_nodes (move_node n p np nn m) x =
    (if x = n then Some (nd\<lparr> n_name := nn, n_parent := Some np \<rparr>)
     else map_option (\<lambda>d. d\<lparr> n_children := (if x = np then Cons n else id) ((if x = p then remove1 n else id) (n_children d)) \<rparr>)
       (m_nodes m x))"
  using assms by (auto simp: move_node_def unlink_child_def c_snprintf_def option.map_comp comp_def map_option.id [unfolded id_def])

lemma moved_names:
  assumes "m_nodes m n = Some nd" "n \<noteq> p" "n \<noteq> np" "length nn < 256" "m_nodes (move_node n p np nn m) x = Some d'"
  shows "if x = n then n_parent d' = Some np \<and> n_name d' = nn
    else \<exists>d. m_nodes m x = Some d \<and> n_parent d' = n_parent d \<and> n_name d' = n_name d"
  using assms(5) by (auto simp: move_nodes [OF assms(1-4)] assms(1))

lemma moved_child:
  assumes "m_nodes m n = Some nd" "n \<noteq> p" "n \<noteq> np" "length nn < 256"
  shows "(\<exists>cd. m_nodes (move_node n p np nn m) c = Some cd \<and> n_parent cd = Some x) \<longleftrightarrow>
    (if c = n then x = np else (\<exists>cd. m_nodes m c = Some cd \<and> n_parent cd = Some x))"
  by (auto simp: move_nodes [OF assms])

lemma move_tree:
  assumes "tree_ok m" "m_nodes m n = Some nd" "n_parent nd = Some p" "n \<noteq> p" "n \<noteq> np"
    "m_nodes m np = Some npd" "mode_is_dir (n_mode npd)" "node_find_child m np nn = None" "length nn < 256"
  shows "tree_ok (move_node n p np nn m)"
proof -
  let ?m = "move_node n p np nn m"
  note hyps = assms(2,4,5,9)
  note nodes = move_nodes [OF hyps] and names = moved_names [OF hyps] and child = moved_child [OF hyps]
  have root: "n \<noteq> m_root m" using root_live [OF assms(1)] assms(2,3) by auto
  have live: "m_nodes ?m x = None \<longleftrightarrow> m_nodes m x = None" for x using assms(2) by (simp add: nodes)
  show ?thesis
    unfolding tree_ok_def
  proof (intro conjI allI impI)
    show "\<exists>r. m_nodes ?m (m_root ?m) = Some r \<and> mode_is_dir (n_mode r)"
      using root_live [OF assms(1)] root by (auto simp: nodes)
  next
    fix x d' assume d': "m_nodes ?m x = Some d'"
    then obtain d where d: "m_nodes m x = Some d" using live [of x] by fastforce
    have x: "node_ok m x d" by (rule tree_okD [OF assms(1) d])
    have old: "n \<in> set (n_children d) \<longleftrightarrow> x = p" "distinct (n_children d)" using x assms(2,3) by (auto simp: node_ok_def)
    have kids: "n_children d' = (if x = np then Cons n else id) ((if x = p then remove1 n else id) (n_children d))"
      using d' d assms(2,4,5) by (auto simp: nodes split: if_splits)
    have ch: "c \<in> set (n_children d') \<longleftrightarrow> (if c = n then x = np else c \<in> set (n_children d))" for c
      using old by (auto simp: kids)
    have "distinct (n_children d')" using old by (simp add: kids)
    moreover have "n_children d' \<noteq> [] \<longrightarrow> mode_is_dir (n_mode d')"
    proof (cases "x = np")
      case True
      with d' d assms(5-7) show ?thesis by (auto simp: nodes)
    next
      case False
      then have "set (n_children d') \<subseteq> set (n_children d)" using set_remove1_subset [of n "n_children d"] by (simp add: kids)
      moreover have "n_mode d' = n_mode d" using d' d assms(2) by (auto simp: nodes split: if_splits)
      ultimately show ?thesis using x by (auto simp: node_ok_def)
    qed
    moreover have "c \<in> set (n_children d') \<longleftrightarrow> (\<exists>cd. m_nodes ?m c = Some cd \<and> n_parent cd = Some x)" for c
      unfolding ch child using x by (auto simp: node_ok_def)
    moreover have "n_parent d' = None \<longleftrightarrow> x = m_root m" using names [OF d'] d x root by (auto simp: node_ok_def split: if_splits)
    moreover have "m_nodes ?m q \<noteq> None" if "n_parent d' = Some q" for q
      using names [OF d'] d x that assms(6) unfolding live by (auto simp: node_ok_def split: if_splits)
    ultimately show "node_ok ?m x d'" using x by (simp add: node_ok_def del: not_None_eq)
  next
    fix a an b bn
    assume ab: "m_nodes ?m a = Some an" "m_nodes ?m b = Some bn" "n_parent an = n_parent bn" "n_name an = n_name bn"
    have free: "m_nodes m c = Some cn \<Longrightarrow> n_parent cn = Some np \<Longrightarrow> n_name cn = nn \<Longrightarrow> False" for c cn
      using assms(8) find_child_None [OF assms(1)] by blast
    show "a = b"
    proof (cases "a = n \<or> b = n")
      case True
      with names [OF ab(1)] names [OF ab(2)] ab(3,4) show ?thesis by (auto split: if_splits dest: free)
    next
      case False
      with names [OF ab(1)] names [OF ab(2)] obtain ad bd where
        "m_nodes m a = Some ad" "n_parent an = n_parent ad" "n_name an = n_name ad"
        "m_nodes m b = Some bd" "n_parent bn = n_parent bd" "n_name bn = n_name bd" by auto
      then show ?thesis using tree_siblings [OF assms(1)] ab(3,4) by simp
    qed
  qed
qed

lemma move_find:
  assumes "tree_ok m" "m_nodes m n = Some nd" "n \<noteq> p" "n \<noteq> np" "node_find_child m np nn = None" "length nn < 256"
    "tree_ok (move_node n p np nn m)"
  shows "node_find_child (move_node n p np nn m) d name =
    (if d = np \<and> name = nn then Some n
     else if node_find_child m d name = Some n then None else node_find_child m d name)"
proof (rule option_eqI)
  fix c
  have "node_find_child (move_node n p np nn m) d name = Some c \<longleftrightarrow>
      (if c = n then d = np \<and> name = nn else node_find_child m d name = Some c)"
    by (auto simp: find_child_iff [OF assms(1)] find_child_iff [OF assms(7)] move_nodes [OF assms(2,3,4,6)])
  with assms(5) show "node_find_child (move_node n p np nn m) d name = Some c \<longleftrightarrow>
     (if d = np \<and> name = nn then Some n
      else if node_find_child m d name = Some n then None else node_find_child m d name) = Some c"
    by (auto split: if_splits)
qed

text \<open>After the move every path outside the subtree of \<open>n\<close> still leads where it did, every path from
  \<open>n\<close> downwards too, and \<open>n\<close> hangs under its new parent.\<close>

lemma move_ok:
  assumes "mem_ok m" "m_nodes m n = Some nd" "n_parent nd = Some p"
    "m_nodes m np = Some npd" "mode_is_dir (n_mode npd)" "node_find_child m np nn = None" "length nn < 256"
    "\<not> sub m n np"
  shows "mem_ok (move_node n p np nn m)"
    "\<not> sub m n x \<Longrightarrow> walk m a cs = Some x \<Longrightarrow> walk (move_node n p np nn m) a cs = Some x"
    "sub m n b \<Longrightarrow> walk m b cs = Some x \<Longrightarrow> walk (move_node n p np nn m) b cs = Some x"
    "node_find_child (move_node n p np nn m) np nn = Some n"
proof -
  let ?m = "move_node n p np nn m"
  have t: "tree_ok m" by (rule mem_okD [OF assms(1)])
  have np: "n \<noteq> np" using assms(8) by auto
  have pn: "n \<noteq> p"
  proof
    assume "n = p"
    with assms(2,3) have "node_find_child m n (n_name nd) = Some n" by (simp add: find_child_iff [OF t])
    with no_cycle [OF assms(1), of n n] assms(2) show False by simp
  qed
  have t': "tree_ok ?m" by (rule move_tree [OF t assms(2,3) pn np assms(4-7)])
  note f = move_find [OF t assms(2) pn np assms(6,7) t']
  show out: "walk ?m a cs = Some x" if "\<not> sub m n x" "walk m a cs = Some x" for a cs x
    using that
  proof (induction cs arbitrary: a)
    case (Cons c cs)
    then obtain y where y: "node_find_child m a c = Some y" "walk m y cs = Some x" by (auto split: option.splits)
    have "y \<noteq> n" using y(2) Cons(2) by (auto simp: sub_def)
    with y Cons assms(6) show ?case by (auto simp: f)
  qed simp
  show ins: "walk ?m b cs = Some x" if "sub m n b" "walk m b cs = Some x" for b cs x
    using that
  proof (induction cs arbitrary: b)
    case (Cons c cs)
    then obtain y where y: "node_find_child m b c = Some y" "walk m y cs = Some x" by (auto split: option.splits)
    have "y \<noteq> n" using no_cycle [OF assms(1) _ Cons(2)] assms(2) y(1) by auto
    with y Cons assms(6) sub_step [OF Cons(2) y(1)] show ?case by (auto simp: f)
  qed simp
  show s: "node_find_child ?m np nn = Some n" by (simp add: f)
  have "\<exists>cs. walk ?m (m_root ?m) cs = Some y" if "m_nodes ?m y \<noteq> None" for y
  proof -
    from that assms(2) have y: "m_nodes m y \<noteq> None" by (auto simp: move_nodes [OF assms(2) pn np assms(7)] split: if_splits)
    show ?thesis
    proof (cases "sub m n y")
      case True
      then obtain es where "walk ?m n es = Some y" using ins [OF sub_refl] unfolding sub_def by blast
      moreover obtain cs where "walk ?m (m_root m) cs = Some np"
        using mem_okD(2) [OF assms(1), of np] assms(4) out [OF assms(8)] by auto
      ultimately have "walk ?m (m_root ?m) (cs @ nn # es) = Some y" by (simp add: walk_append s)
      then show ?thesis by blast
    next
      case False
      with mem_okD(2) [OF assms(1) y] out show ?thesis by auto
    qed
  qed
  with t' show "mem_ok ?m" by (simp add: mem_ok_def del: move_simps)
qed

end
