(* ===== verification/Fs_Mem_Correct.thy ===== *)
theory Fs_Mem_Correct
  imports Fs_Mem_Tree
begin

text \<open>
  The in-memory backend meets the contract of \<open>Fs_Contract\<close>: descriptors are cursors into the
  files they were opened for. Every operation keeps the tree invariant, for canonical paths whose
  components fit the name field, which are the paths the server resolves.
\<close>

unbundle bit_operations_syntax

section \<open>Paths of the backend\<close>

definition mem_path :: "string \<Rightarrow> bool" where
  "mem_path p \<longleftrightarrow> canonical p \<and> list_all (\<lambda>c. length c < 256) (split_path p) \<and> length (split_path p) \<le> 256"

text \<open>What is open as \<open>fd\<close>, and the contents of the file at a path.\<close>

definition mem_cur :: "mem \<Rightarrow> int \<Rightarrow> (string \<times> nat) option" where
  "mem_cur m fd =
     Option.bind (fd_slot m fd) (\<lambda>f. map_option (\<lambda>d. (n_data d, f_pos f)) (m_nodes m (f_node f)))"

definition mem_file :: "mem \<Rightarrow> nat \<Rightarrow> string option" where
  "mem_file m n = (if node_is_dir m n then None else map_option n_data (m_nodes m n))"

definition mem_contents :: "mem \<Rightarrow> string \<Rightarrow> string option" where
  "mem_contents m p = Option.bind (node_lookup m p) (mem_file m)"

definition mem_names :: "mem \<Rightarrow> string \<Rightarrow> int \<Rightarrow> bool" where
  "mem_names m p fd \<longleftrightarrow>
     (case fd_slot m fd of
        None \<Rightarrow> False
      | Some f \<Rightarrow> node_lookup m p = Some (f_node f) \<and> \<not> node_is_dir m (f_node f))"

lemma node_lookup_walk: "node_lookup m p = walk m (m_root m) (split_path p)"
  by (simp add: node_lookup_def split_path_def)

lemma lookup_live:
  assumes "mem_ok m" "node_lookup m p = Some n"
  obtains d where "m_nodes m n = Some d"
proof -
  have t: "tree_ok m" by (rule mem_okD [OF assms(1)])
  have "m_nodes m (m_root m) \<noteq> None" using root_live [OF t] by auto
  from walk_live [OF t this assms(2) [unfolded node_lookup_walk]] that show thesis by blast
qed

lemma lookup_inj:
  assumes "mem_ok m" "mem_path p" "mem_path q" "node_lookup m p = Some n" "node_lookup m q = Some n"
  shows "p = q"
proof -
  from walk_unique [OF mem_okD(1) [OF assms(1)]] assms(4,5) have "split_path p = split_path q"
    by (simp add: node_lookup_walk)
  with assms(2,3) show ?thesis by (simp add: mem_path_def canonical_def split_path_def)
qed

lemma path_tail_last:
  assumes "mem_path p" "p \<noteq> [slash]"
  shows "path_tail p = last (split_path p)" "split_path p \<noteq> []" "length (last (split_path p)) < 256"
proof -
  have c: "canonical p" using assms(1) by (simp add: mem_path_def)
  have l: "last p \<noteq> slash" using canonical_last [OF c] assms(2) by simp
  moreover have "p \<noteq> []" using canonical_hd [OF c] by simp
  ultimately have "takeWhile (\<lambda>c. c = slash) (rev p) = []" by (cases p rule: rev_cases) auto
  then show "path_tail p = last (split_path p)" by (simp add: path_tail_def)
  show ne: "split_path p \<noteq> []"
  proof
    assume "split_path p = []"
    with c have "p = [slash]" unfolding canonical_def split_path_def by (metis join_path.simps(1))
    with assms(2) show False by simp
  qed
  show "length (last (split_path p)) < 256" using assms(1) ne by (simp add: mem_path_def list_all_iff)
qed

lemma walk_dirs_walk:
  "walk_dirs m n cs = Inr p \<Longrightarrow> walk m n cs = Some p \<and> (node_is_dir m n \<longrightarrow> node_is_dir m p)"
  by (induction cs arbitrary: n) (auto split: option.splits if_splits)

text \<open>The parent of a path is a directory, and the path is looked up in it.\<close>

lemma lookup_parent:
  assumes "mem_ok m" "mem_path p" "node_lookup_parent m p = Inr (par, name)"
  obtains pd where "m_nodes m par = Some pd" "mode_is_dir (n_mode pd)" "length name < 256"
    "node_lookup m p = node_find_child m par name"
    "\<And>m'. m_root m' = m_root m \<Longrightarrow> walk m' (m_root m) (butlast (split_path p)) = Some par \<Longrightarrow>
       node_lookup m' p = node_find_child m' par name"
    "walk m (m_root m) (butlast (split_path p)) = Some par"
proof -
  from assms(3) have p: "p \<noteq> [slash]" and w: "walk_dirs m (m_root m) (butlast (split_path p)) = Inr par"
    and name: "name = path_tail p" by (auto simp: node_lookup_parent_def split: if_splits sum.splits)
  note pt = path_tail_last [OF assms(2) p]
  have "node_is_dir m (m_root m)" using root_live [OF mem_okD(1) [OF assms(1)]] by (auto simp: node_is_dir_def)
  with walk_dirs_walk [OF w] have wk: "walk m (m_root m) (butlast (split_path p)) = Some par" "node_is_dir m par" by auto
  then obtain pd where pd: "m_nodes m par = Some pd" "mode_is_dir (n_mode pd)"
    by (auto simp: node_is_dir_def split: option.splits)
  have "split_path p = butlast (split_path p) @ [name]" using pt(1,2) name by simp
  then have l: "node_lookup m' p = Option.bind (walk m' (m_root m') (butlast (split_path p))) (\<lambda>x. node_find_child m' x name)" for m'
    unfolding node_lookup_walk by (metis walk_snoc)
  show thesis
    by (rule that [OF pd]) (use pt(1,3) name wk(1) in \<open>simp_all add: l\<close>)
qed

section \<open>Opening\<close>

lemma sys_mem_state [simp]: "sys_state (sys_mem f s) = f (sys_state s)" "sys_errno (sys_mem f s) = sys_errno s"
  by (simp_all add: sys_mem_def)

lemma reg_not_dir [simp]: "\<not> mode_is_dir (S_IFREG OR x)"
proof
  assume "mode_is_dir (S_IFREG OR x)"
  then have "bit ((S_IFREG OR x) AND S_IFMT) 15 = bit S_IFDIR 15" by (simp add: mode_is_dir_def)
  then show False by (simp add: bit_simps)
qed

lemma free_fd_Some: "free_fd m = Some slot \<Longrightarrow> 1 \<le> slot \<and> slot < 64 \<and> m_fds m slot = None"
  by (auto simp: free_fd_def find_Some_iff)

lemma free_fd_upd [simp]: "free_fd (upd_node n f m) = free_fd m"
  by (simp add: free_fd_def)

lemma same_shape_fds [simp]: "same_shape m (m'\<lparr> m_fds := f \<rparr>) = same_shape m m'" "same_shape m m"
  by (simp_all add: same_shape_def same_shape_eq) (simp add: same_node_def option.rel_refl)

text \<open>Opening a node changes its data at most, and takes a free slot.\<close>

lemma open_node_result:
  assumes "open_node flags n s = (Some fd, s')" "m_nodes (sys_state s) n = Some d"
  shows "same_shape (sys_state s) (sys_state s')" "\<not> node_is_dir (sys_state s) n" "fd_slot (sys_state s) fd = None"
    "m_nodes (sys_state s') = (m_nodes (sys_state s))(n \<mapsto> d\<lparr> n_data := if flags AND OPFTP_O_TRUNC \<noteq> 0 then [] else n_data d \<rparr>)"
    "fd_slot (sys_state s') fd' =
      (if fd' = fd then Some \<lparr> f_node = n, f_pos = if flags AND OPFTP_O_APPEND = 0 then 0
          else if flags AND OPFTP_O_TRUNC \<noteq> 0 then 0 else length (n_data d), f_flags = flags AND 3 \<rparr>
       else fd_slot (sys_state s) fd')"
proof -
  let ?m = "sys_state s"
  let ?m1 = "if flags AND OPFTP_O_TRUNC \<noteq> 0 then upd_node n (\<lambda>d. d\<lparr> n_data := [] \<rparr>) ?m else ?m"
  have dir: "\<not> node_is_dir ?m n" using assms(1) by (auto simp: open_node_def)
  from assms(1) obtain slot where slot: "free_fd ?m = Some slot"
    by (auto simp: open_node_def Let_def split: option.splits if_splits)
  note fs = free_fd_Some [OF slot]
  let ?f = "\<lparr> f_node = n, f_pos = if flags AND OPFTP_O_APPEND = 0 then 0
          else if flags AND OPFTP_O_TRUNC \<noteq> 0 then 0 else length (n_data d), f_flags = flags AND 3 \<rparr>"
  have r: "fd = int slot" "sys_state s' = ?m1\<lparr> m_fds := (m_fds ?m)(slot \<mapsto> ?f) \<rparr>"
    using assms slot dir by (auto simp: open_node_def Let_def split: if_splits)
  show "same_shape ?m (sys_state s')"
    using same_shape_upd [of "\<lambda>d. d\<lparr> n_data := [] \<rparr>" ?m n] by (auto simp: r(2) same_node_def)
  show "\<not> node_is_dir ?m n" by (rule dir)
  show "fd_slot ?m fd = None" using fs r(1) by (simp add: fd_slot_def)
  show "m_nodes (sys_state s') = (m_nodes ?m)(n \<mapsto> d\<lparr> n_data := if flags AND OPFTP_O_TRUNC \<noteq> 0 then [] else n_data d \<rparr>)"
    using assms(2) by (auto simp: r(2) upd_node_def)
  show "fd_slot (sys_state s') fd' = (if fd' = fd then Some ?f else fd_slot ?m fd')"
    using fs r by (auto simp: fd_slot_def)
qed

lemma node_create_Some:
  "node_create al name mode m = Some node \<Longrightarrow> length name < 256 \<Longrightarrow>
     n_name node = name \<and> n_children node = [] \<and> n_data node = [] \<and> n_mode node = mode"
  by (auto simp: node_create_def c_snprintf_def split: if_splits)

text \<open>Opening a path is opening a node of the store, to which a new empty file may have been added.\<close>

lemma mem_open_cases:
  assumes "mem_ok (sys_state s)" "mem_path path" "mem_open al path flags mode s = (Some fd, s')"
  obtains (old) n d where "node_lookup (sys_state s) path = Some n" "m_nodes (sys_state s) n = Some d"
      "open_node flags n s = (Some fd, s')"
    | (new) p pd node where "flags AND OPFTP_O_CREAT \<noteq> 0" "node_lookup (sys_state s) path = None" "m_nodes (sys_state s) p = Some pd"
      "mode_is_dir (n_mode pd)" "node_find_child (sys_state s) p (n_name node) = None" "n_children node = []"
      "n_data node = []" "\<not> mode_is_dir (n_mode node)"
      "node_lookup (snd (add_child p node (sys_state s))) path = Some (m_next (sys_state s))"
      "open_node flags (m_next (sys_state s)) (sys_mem (\<lambda>m. snd (add_child p node m)) s) = (Some fd, s')"
proof (cases "node_lookup (sys_state s) path")
  case (Some n)
  then obtain d where d: "m_nodes (sys_state s) n = Some d" by (rule lookup_live [OF assms(1)])
  from Some assms(3) have "open_node flags n s = (Some fd, s')" by (simp add: mem_open_def)
  from old [OF Some d this] show thesis .
next
  case None
  let ?m = "sys_state s" and ?mode = "S_IFREG OR (if mode \<noteq> 0 then mode else 0x1A4)"
  from None assms(3) obtain p name node where fl: "flags AND OPFTP_O_CREAT \<noteq> 0" and p: "node_lookup_parent ?m path = Inr (p, name)"
    and node: "node_create al name ?mode ?m = Some node"
    and op: "open_node flags (m_next ?m) (sys_mem (\<lambda>m. snd (add_child p node m)) s) = (Some fd, s')"
    by (auto simp: mem_open_def Let_def split: sum.splits if_splits option.splits)
  obtain pd where pd: "m_nodes ?m p = Some pd" "mode_is_dir (n_mode pd)" "length name < 256"
    "node_lookup ?m path = node_find_child ?m p name"
    "\<And>m'. m_root m' = m_root ?m \<Longrightarrow> walk m' (m_root ?m) (butlast (split_path path)) = Some p \<Longrightarrow>
       node_lookup m' path = node_find_child m' p name"
    "walk ?m (m_root ?m) (butlast (split_path path)) = Some p"
    using lookup_parent [OF assms(1,2) p] by blast
  note nc = node_create_Some [OF node pd(3)]
  have find: "node_find_child ?m p (n_name node) = None" using pd(4) None nc by simp
  have kids: "n_children node = []" using nc by simp
  note ad = add_child_ok [OF assms(1) pd(1,2) kids find]
  have "node_lookup (snd (add_child p node ?m)) path = Some (m_next ?m)"
    using pd(5) [of "snd (add_child p node ?m)"] ad(2) [OF pd(6)] ad(3) nc by simp
  from new [OF fl None pd(1,2) find kids _ _ this op] nc show thesis by simp
qed

lemma same_shape_lookup: "same_shape m m' \<Longrightarrow> node_lookup m' = node_lookup m"
  by (intro ext) (simp add: node_lookup_walk same_shape_find(2), simp add: same_shape_def)

lemma mem_file_Some: "mem_file m n = Some x \<longleftrightarrow> (\<exists>d. m_nodes m n = Some d \<and> \<not> mode_is_dir (n_mode d) \<and> x = n_data d)"
  by (auto simp: mem_file_def node_is_dir_def)

lemma open_node_law:
  assumes "mem_ok (sys_state s)" "node_lookup (sys_state s) p = Some n" "m_nodes (sys_state s) n = Some d"
    "open_node flags n s = (Some fd, s')"
  shows "mem_ok (sys_state s')" "mem_names (sys_state s') p fd" "mem_file (sys_state s) n = Some (n_data d)"
    "mem_cur (sys_state s') fd =
      (let base = if flags AND OPFTP_O_TRUNC \<noteq> 0 then [] else n_data d
       in Some (base, if flags AND OPFTP_O_APPEND = 0 then 0 else length base))"
proof -
  note on = open_node_result [OF assms(4,3)]
  show "mem_ok (sys_state s')" by (rule same_shape_ok [OF on(1) assms(1)])
  show "mem_names (sys_state s') p fd"
    using on(2) assms(2) by (simp add: mem_names_def on(5) same_shape_lookup [OF on(1)] same_shape_find(3) [OF on(1)])
  show "mem_file (sys_state s) n = Some (n_data d)" using on(2) assms(3) by (simp add: mem_file_def)
  show "mem_cur (sys_state s') fd = (let base = if flags AND OPFTP_O_TRUNC \<noteq> 0 then [] else n_data d
       in Some (base, if flags AND OPFTP_O_APPEND = 0 then 0 else length base))"
    by (simp add: mem_cur_def on(4,5) Let_def)
qed

lemma open_node_other:
  assumes "m_nodes (sys_state s) n = Some d" "open_node flags n s = (Some fd, s')"
    "mem_names (sys_state s) q fd'" "node_lookup (sys_state s) q \<noteq> Some n"
  shows "fd \<noteq> fd' \<and> mem_names (sys_state s') q fd' \<and> mem_cur (sys_state s') fd' = mem_cur (sys_state s) fd'"
proof -
  note on = open_node_result [OF assms(2,1)]
  obtain f where f: "fd_slot (sys_state s) fd' = Some f" "node_lookup (sys_state s) q = Some (f_node f)"
    "\<not> node_is_dir (sys_state s) (f_node f)"
    using assms(3) by (auto simp: mem_names_def split: option.splits)
  have "fd \<noteq> fd'" using f(1) on(3) by auto
  with f assms(4) show ?thesis
    by (auto simp: mem_names_def mem_cur_def on(4,5) same_shape_lookup [OF on(1)] same_shape_find(3) [OF on(1)])
qed

text \<open>What is created leaves the open files and their names alone.\<close>

lemma add_child_names:
  assumes "mem_ok m" "m_nodes m p = Some pd" "mode_is_dir (n_mode pd)" "n_children node = []"
    "node_find_child m p (n_name node) = None" "mem_names m q fd"
  shows "mem_names (snd (add_child p node m)) q fd \<and> mem_cur (snd (add_child p node m)) fd = mem_cur m fd \<and>
    node_lookup (snd (add_child p node m)) q \<noteq> Some (m_next m)"
proof -
  let ?m = "snd (add_child p node m)"
  obtain f where f: "fd_slot m fd = Some f" "node_lookup m q = Some (f_node f)" "\<not> node_is_dir m (f_node f)"
    using assms(6) by (auto simp: mem_names_def split: option.splits)
  obtain d where d: "m_nodes m (f_node f) = Some d" using f(2) by (rule lookup_live [OF assms(1)])
  note nodes = add_child_nodes [OF mem_okD(1) [OF assms(1)] assms(2), of node]
  have "f_node f \<noteq> m_next m" using d fresh_address [OF mem_okD(1) [OF assms(1)]] by auto
  moreover have "f_node f \<noteq> p" using f(3) assms(2,3) by (auto simp: node_is_dir_def)
  moreover have "node_lookup ?m q = Some (f_node f)"
    using f(2) add_child_ok(2) [OF assms(1-5)] by (simp add: node_lookup_walk)
  moreover have "fd_slot ?m fd = Some f" using f(1) by (auto simp: fd_slot_def split: if_splits)
  ultimately show ?thesis using f d by (simp add: mem_names_def mem_cur_def node_is_dir_def nodes)
qed

lemma mem_open_law:
  assumes "mem_ok (sys_state s)" "mem_path p" "mem_open al p flags mode s = (Some fd, s')"
  defines "old \<equiv> case mem_contents (sys_state s) p of Some d \<Rightarrow> d | None \<Rightarrow> []"
  shows "mem_ok (sys_state s') \<and> mem_names (sys_state s') p fd \<and>
    mem_cur (sys_state s') fd =
      (let base = if flags AND OPFTP_O_TRUNC \<noteq> 0 then [] else old
       in Some (base, if flags AND OPFTP_O_APPEND = 0 then 0 else length base)) \<and>
    (flags AND OPFTP_O_CREAT = 0 \<longrightarrow> mem_contents (sys_state s) p = Some old)"
  using assms(1-3)
proof (cases rule: mem_open_cases)
  case (old n d)
  note law = open_node_law [OF assms(1) old]
  have "mem_contents (sys_state s) p = Some (n_data d)" using old(1) law(3) by (simp add: mem_contents_def)
  with law show ?thesis by (simp add: assms(4))
next
  case (new par pd node)
  let ?s = "sys_mem (\<lambda>m. snd (add_child par node m)) s"
  have "mem_ok (sys_state ?s)" using add_child_ok(1) [OF assms(1) new(3,4,6,5)] by simp
  moreover have "node_lookup (sys_state ?s) p = Some (m_next (sys_state s))" using new(9) by simp
  moreover have "m_nodes (sys_state ?s) (m_next (sys_state s)) = Some (node\<lparr> n_parent := Some par \<rparr>)"
    by (simp add: add_child_nodes [OF mem_okD(1) [OF assms(1)] new(3)])
  ultimately have law: "mem_ok (sys_state s')" "mem_names (sys_state s') p fd"
    "mem_cur (sys_state s') fd = (let base = if flags AND OPFTP_O_TRUNC \<noteq> 0 then [] else n_data node
     in Some (base, if flags AND OPFTP_O_APPEND = 0 then 0 else length base))"
    using open_node_law [OF _ _ _ new(10)] by simp_all
  have "old = []" using new(2) by (simp add: assms(4) mem_contents_def)
  with law new(1,7) show ?thesis by simp
qed

lemma mem_open_other:
  assumes "mem_ok (sys_state s)" "mem_path p" "mem_path q" "p \<noteq> q" "mem_names (sys_state s) q fd'"
    "mem_open al p flags mode s = (Some fd, s')"
  shows "fd \<noteq> fd' \<and> mem_names (sys_state s') q fd' \<and> mem_cur (sys_state s') fd' = mem_cur (sys_state s) fd'"
  using assms(1,2,6)
proof (cases rule: mem_open_cases)
  case (old n d)
  have "node_lookup (sys_state s) q \<noteq> Some n" using lookup_inj [OF assms(1-3) old(1)] assms(4) by auto
  with open_node_other [OF old(2,3) assms(5)] show ?thesis by blast
next
  case (new par pd node)
  let ?s = "sys_mem (\<lambda>m. snd (add_child par node m)) s"
  have "m_nodes (sys_state ?s) (m_next (sys_state s)) = Some (node\<lparr> n_parent := Some par \<rparr>)"
    by (simp add: add_child_nodes [OF mem_okD(1) [OF assms(1)] new(3)])
  note on = open_node_other [OF this new(10)]
  note ad = add_child_names [OF assms(1) new(3,4,6,5) assms(5)]
  have "fd \<noteq> fd' \<and> mem_names (sys_state s') q fd' \<and> mem_cur (sys_state s') fd' = mem_cur (sys_state ?s) fd'"
    by (rule on) (use ad in simp_all)
  with ad show ?thesis by simp
qed

section \<open>Reading, writing and closing\<close>

lemma fd_slot_upd:
  "fd_slot (upd_fd fd g m) fd' = (if fd' = fd then map_option g (fd_slot m fd) else fd_slot m fd')"
  by (auto simp: fd_slot_def upd_fd_def)

lemma upd_fd_simps [simp]:
  "m_nodes (upd_fd fd g m) = m_nodes m" "m_root (upd_fd fd g m) = m_root m" "m_next (upd_fd fd g m) = m_next m"
  "fd_slot (upd_node n h m) fd' = fd_slot m fd'"
  by (simp_all add: upd_fd_def fd_slot_def)

lemma upd_fd_shape [simp]: "same_shape m (upd_fd fd g m)"
  by (rule same_shape_eq) simp_all

lemma same_shape_names:
  assumes "same_shape m m'" "map_option f_node (fd_slot m' fd) = map_option f_node (fd_slot m fd)"
  shows "mem_names m' p fd = mem_names m p fd"
  using assms(2)
  by (cases "fd_slot m fd"; cases "fd_slot m' fd")
    (auto simp: mem_names_def same_shape_lookup [OF assms(1)] same_shape_find(3) [OF assms(1)])

lemma mem_cur_Some:
  "mem_cur m fd = Some (d, pos) \<longleftrightarrow>
     (\<exists>f n. fd_slot m fd = Some f \<and> m_nodes m (f_node f) = Some n \<and> d = n_data n \<and> pos = f_pos f)"
  by (auto simp: mem_cur_def bind_eq_Some_conv)

lemma mem_read_result:
  assumes "mem_read fd n s = (Some bs, s')"
  shows "\<exists>f d. fd_slot (sys_state s) fd = Some f \<and> m_nodes (sys_state s) (f_node f) = Some d \<and>
    bs = take n (drop (f_pos f) (n_data d)) \<and>
    sys_state s' = upd_fd fd (\<lambda>f. f\<lparr> f_pos := f_pos f + length bs \<rparr>) (sys_state s)"
  using assms by (auto simp: mem_read_def Let_def split: option.splits if_splits)

lemma mem_read_law:
  assumes "mem_ok (sys_state s)" "mem_cur (sys_state s) fd = Some (d, pos)" "mem_read fd n s = (Some bs, s')"
  shows "mem_ok (sys_state s') \<and> (\<exists>k. bs = take k (drop pos d)) \<and> (bs = [] \<and> 0 < n \<longrightarrow> length d \<le> pos) \<and>
    mem_cur (sys_state s') fd = Some (d, pos + length bs)"
  using mem_read_result [OF assms(3)] assms(1,2) same_shape_ok [OF upd_fd_shape]
  by (auto simp: mem_cur_Some fd_slot_upd)

lemma mem_read_other:
  assumes "mem_ok (sys_state s)" "mem_read fd n s = (Some bs, s')"
  shows "(\<forall>q fd'. mem_names (sys_state s) q fd' \<longrightarrow> mem_names (sys_state s') q fd') \<and>
    (\<forall>fd'. fd' \<noteq> fd \<longrightarrow> mem_cur (sys_state s') fd' = mem_cur (sys_state s) fd')"
proof -
  obtain g where g: "sys_state s' = upd_fd fd g (sys_state s)" "\<And>f. f_node (g f) = f_node f"
    using mem_read_result [OF assms(2)] by fastforce
  have "mem_names (sys_state s') q fd' = mem_names (sys_state s) q fd'" for q fd'
    unfolding g(1) by (rule same_shape_names [OF upd_fd_shape]) (simp add: fd_slot_upd option.map_comp comp_def g(2))
  then show ?thesis by (simp add: g(1) mem_cur_def fd_slot_upd)
qed

lemma mem_write_data:
  assumes "bs \<noteq> []"
  shows "take pos (d @ replicate (pos + length bs - length d) z) @ bs @ drop (pos + length bs) (d @ replicate (pos + length bs - length d) z)
    = take pos d @ replicate (pos - length d) z @ bs @ drop (pos + length bs) d"
  by (auto simp: min_def)

lemma mem_write_result:
  assumes "mem_write al fd bs s = (Some n, s')" "bs \<noteq> []"
  shows "\<exists>f d. fd_slot (sys_state s) fd = Some f \<and> m_nodes (sys_state s) (f_node f) = Some d \<and> n = length bs \<and>
    sys_state s' = upd_fd fd (\<lambda>f'. f'\<lparr> f_pos := f_pos f + length bs \<rparr>)
      (upd_node (f_node f) (\<lambda>e. e\<lparr> n_data := write_at (n_data d) (f_pos f) bs, n_mtime := m_clock (sys_state s) \<rparr>) (sys_state s))"
proof -
  obtain f where f: "fd_slot (sys_state s) fd = Some f" "f_flags f AND 3 \<noteq> OPFTP_O_RDONLY"
    using assms(1) by (auto simp: mem_write_def split: option.splits if_splits)
  obtain d where d: "m_nodes (sys_state s) (f_node f) = Some d"
    using assms(1) f by (auto simp: mem_write_def split: option.splits if_splits)
  show ?thesis
    using assms f d by (auto simp: mem_write_def mem_write_data write_at_def Let_def split: if_splits)
qed

lemma write_shape: "same_shape m (upd_fd fd g (upd_node n (\<lambda>e. e\<lparr> n_data := x, n_mtime := t \<rparr>) m))"
  by (rule same_shape_trans [OF same_shape_upd upd_fd_shape]) (simp add: same_node_def)

lemma mem_write_law:
  assumes "mem_ok (sys_state s)" "mem_cur (sys_state s) fd = Some (d, pos)" "mem_names (sys_state s) p fd"
    "bs \<noteq> []" "mem_write al fd bs s = (Some n, s')"
  shows "mem_ok (sys_state s') \<and> mem_names (sys_state s') p fd \<and> n \<le> length bs \<and>
    mem_cur (sys_state s') fd = Some (write_at d pos (take n bs), pos + n)"
proof -
  obtain f e where w: "fd_slot (sys_state s) fd = Some f" "m_nodes (sys_state s) (f_node f) = Some e" "n = length bs"
    and s': "sys_state s' = upd_fd fd (\<lambda>f'. f'\<lparr> f_pos := f_pos f + length bs \<rparr>)
      (upd_node (f_node f) (\<lambda>e'. e'\<lparr> n_data := write_at (n_data e) (f_pos f) bs, n_mtime := m_clock (sys_state s) \<rparr>) (sys_state s))"
    using mem_write_result [OF assms(5,4)] by blast
  have sh: "same_shape (sys_state s) (sys_state s')" unfolding s' by (rule write_shape)
  have "mem_names (sys_state s') p fd"
    using assms(3) same_shape_names [OF sh, of fd p] w(1) by (simp add: s' fd_slot_upd)
  moreover have "mem_cur (sys_state s') fd = Some (write_at d pos bs, pos + n)"
    using w assms(2) by (auto simp: s' mem_cur_Some fd_slot_upd)
  ultimately show ?thesis using same_shape_ok [OF sh assms(1)] w(3) by simp
qed

lemma mem_write_other:
  assumes "mem_ok (sys_state s)" "mem_path p" "mem_path q" "p \<noteq> q" "mem_names (sys_state s) p fd"
    "mem_names (sys_state s) q fd'" "bs \<noteq> []" "mem_write al fd bs s = (Some n, s')"
  shows "mem_names (sys_state s') q fd' \<and> mem_cur (sys_state s') fd' = mem_cur (sys_state s) fd'"
proof -
  obtain f e where w: "fd_slot (sys_state s) fd = Some f" "m_nodes (sys_state s) (f_node f) = Some e"
    and s': "sys_state s' = upd_fd fd (\<lambda>f'. f'\<lparr> f_pos := f_pos f + length bs \<rparr>)
      (upd_node (f_node f) (\<lambda>e'. e'\<lparr> n_data := write_at (n_data e) (f_pos f) bs, n_mtime := m_clock (sys_state s) \<rparr>) (sys_state s))"
    using mem_write_result [OF assms(8,7)] by blast
  have sh: "same_shape (sys_state s) (sys_state s')" unfolding s' by (rule write_shape)
  obtain f' where f': "fd_slot (sys_state s) fd' = Some f'" "node_lookup (sys_state s) q = Some (f_node f')"
    using assms(6) by (auto simp: mem_names_def split: option.splits)
  have "node_lookup (sys_state s) p = Some (f_node f)" using assms(5) w(1) by (simp add: mem_names_def)
  with lookup_inj [OF assms(1-3)] f'(2) assms(4) have "f_node f' \<noteq> f_node f" by auto
  moreover from this w(1) f'(1) have fd: "fd' \<noteq> fd" by auto
  moreover have "mem_names (sys_state s') q fd'"
    using assms(6) same_shape_names [OF sh, of fd' q] fd by (simp add: s' fd_slot_upd)
  ultimately show ?thesis using f'(1) by (simp add: s' mem_cur_def fd_slot_upd)
qed

lemma mem_seek_law:
  assumes "mem_ok (sys_state s)" "mem_cur (sys_state s) fd = Some (d, pos)" "mem_seek fd off SEEK_SET s = (Some k, s')"
  shows "mem_ok (sys_state s') \<and> 0 \<le> off \<and> mem_cur (sys_state s') fd = Some (d, nat off) \<and>
    (\<forall>p. mem_names (sys_state s) p fd \<longrightarrow> mem_names (sys_state s') p fd)"
proof -
  from assms(3) have r: "0 \<le> off" "sys_state s' = upd_fd fd (\<lambda>f. f\<lparr> f_pos := nat off \<rparr>) (sys_state s)"
    by (auto simp: mem_seek_def split: option.splits if_splits)
  have "mem_names (sys_state s') p fd = mem_names (sys_state s) p fd" for p
    unfolding r(2) by (rule same_shape_names [OF upd_fd_shape]) (simp add: fd_slot_upd option.map_comp comp_def)
  moreover have "mem_cur (sys_state s') fd = Some (d, nat off)" using assms(2) by (auto simp: r(2) mem_cur_Some fd_slot_upd)
  ultimately show ?thesis using r same_shape_ok [OF upd_fd_shape assms(1)] by simp
qed

lemma same_nodes_contents:
  assumes "m_nodes m' = m_nodes m" "m_root m' = m_root m"
  shows "mem_contents m' = mem_contents m"
proof -
  have "node_find_child m' = node_find_child m" by (intro ext) (simp add: node_find_child_def assms(1) split: option.split)
  then have "walk m' = walk m" by (intro ext walk_cong) simp
  moreover have "mem_file m' = mem_file m" by (intro ext) (simp add: mem_file_def node_is_dir_def assms)
  ultimately show ?thesis by (intro ext) (simp add: mem_contents_def node_lookup_walk assms)
qed

lemma mem_close_law:
  assumes "mem_ok (sys_state s)" "mem_close fd s = (r, s')"
  shows "mem_ok (sys_state s') \<and> mem_contents (sys_state s') = mem_contents (sys_state s)"
proof -
  from assms(2) have "sys_state s' = sys_state s \<or> (\<exists>f. sys_state s' = (sys_state s)\<lparr> m_fds := f \<rparr>)"
    by (auto simp: mem_close_def split: option.splits)
  then obtain f where "sys_state s' = (sys_state s)\<lparr> m_fds := f \<rparr>" by (metis mem.surjective mem.update_convs(4))
  with assms(1) same_shape_ok [of "sys_state s" "sys_state s'"] same_nodes_contents [of "sys_state s'" "sys_state s"]
  show ?thesis by simp
qed

interpretation mem_files: file_backend "mem_vtable al" mem_ok mem_path mem_cur mem_contents mem_names for al
proof (unfold_locales, goal_cases names rd trunc app upd oth rdl rdo wrl wro seek stat fstat close)
  case (names m p fd)
  then show ?case
    by (auto simp: mem_names_def mem_cur_def mem_contents_def mem_file_def split: option.splits
        elim: lookup_live [OF names(1)])
next
  case (rd s p m fd s')
  then show ?case using mem_open_law [of s p al OPFTP_O_RDONLY m fd s'] by (simp add: mem_vtable_def)
next
  case (trunc s p m fd s')
  then show ?case using mem_open_law [of s p al _ m fd s'] by (simp add: mem_vtable_def)
next
  case (app s p m fd s')
  then show ?case using mem_open_law [of s p al _ m fd s'] by (simp add: mem_vtable_def Let_def)
next
  case (upd s p m fd s')
  then show ?case using mem_open_law [of s p al _ m fd s'] by (simp add: mem_vtable_def)
next
  case (oth s p q fd' flags m fd s')
  then show ?case by (intro mem_open_other [of s p q fd' al flags m fd s']) (simp_all add: mem_vtable_def)
next
  case (rdl s fd d pos n bs s')
  then show ?case using mem_read_law [of s fd d pos n bs s'] by (simp add: mem_vtable_def)
next
  case (rdo s fd n bs s')
  then show ?case using mem_read_other [of s fd n bs s'] by (simp add: mem_vtable_def)
next
  case (wrl s fd d pos p bs n s')
  then show ?case using mem_write_law [of s fd d pos p bs al n s'] by (simp add: mem_vtable_def)
next
  case (wro s p q fd fd' bs n s')
  then show ?case using mem_write_other [of s p q fd fd' bs al n s'] by (simp add: mem_vtable_def)
next
  case (seek s fd d pos off k s')
  then show ?case using mem_seek_law [of s fd d pos off k s'] by (simp add: mem_vtable_def)
next
  case (stat s p)
  then show ?case by (auto simp: mem_vtable_def mem_stat_def split: option.split elim: lookup_live [OF stat])
next
  case (fstat s fd c)
  then show ?case by (cases c) (auto simp: mem_vtable_def mem_fstat_def mem_cur_Some)
next
  case (close s fd r s')
  then show ?case using mem_close_law [of s fd r s'] by (simp add: mem_vtable_def)
qed

end
