(* ===== verification/Fs_Mem_Spec.thy ===== *)
theory Fs_Mem_Spec
  imports Fs_Mem_Correct "HOL-Library.Sublist"
begin

text \<open>
  An abstract file system, a map from component lists to files, and the proof that the
  in-memory backend's operations on names implement it, results and error codes included.
\<close>

unbundle bit_operations_syntax

section \<open>The abstract file system\<close>

text \<open>Mode, modification time and contents.\<close>

type_synonym afile = "16 word \<times> int \<times> string"
type_synonym afs = "string list \<rightharpoonup> afile"

definition is_adir :: "afs \<Rightarrow> string list \<Rightarrow> bool" where
  "is_adir a p \<longleftrightarrow> (case a p of Some (mode, rest) \<Rightarrow> mode_is_dir mode | None \<Rightarrow> False)"

text \<open>The proper ancestors of a path below the root, from the top.\<close>

fun steps_below :: "string list \<Rightarrow> string list \<Rightarrow> string list list" where
  "steps_below ds [] = []"
| "steps_below ds (c # cs) = (ds @ [c]) # steps_below (ds @ [c]) cs"

text \<open>Why nothing can be created at a path.\<close>

definition spec_parent :: "afs \<Rightarrow> string list \<Rightarrow> errno option" where
  "spec_parent a p =
     (if p = [] then Some EEXIST
      else map_option (\<lambda>q. if a q = None then ENOENT else ENOTDIR)
             (List.find (\<lambda>q. \<not> is_adir a q) (steps_below [] (butlast p))))"

definition spec_mkdir :: "bool \<Rightarrow> int \<Rightarrow> string list \<Rightarrow> 16 word \<Rightarrow> afs \<Rightarrow> errno + afs" where
  "spec_mkdir mem_left now p mode a =
     (case spec_parent a p of
        Some err \<Rightarrow> Inl err
      | None \<Rightarrow>
          if a p \<noteq> None then Inl EEXIST
          else if \<not> mem_left then Inl ENOMEM
          else Inr (a(p \<mapsto> (S_IFDIR OR (if mode \<noteq> 0 then mode else 0x1ED), now, []))))"

definition spec_rmdir :: "string list \<Rightarrow> afs \<Rightarrow> errno + afs" where
  "spec_rmdir p a =
     (if a p = None then Inl ENOENT
      else if \<not> is_adir a p then Inl ENOTDIR
      else if \<exists>c. a (p @ [c]) \<noteq> None then Inl ENOTEMPTY
      else if p = [] then Inl EBUSY
      else Inr (a(p := None)))"

definition spec_unlink :: "string list \<Rightarrow> afs \<Rightarrow> errno + afs" where
  "spec_unlink p a =
     (if a p = None then Inl ENOENT else if is_adir a p then Inl EISDIR else Inr (a(p := None)))"

text \<open>Everything below \<open>p\<close> moves below \<open>q\<close>.\<close>

definition spec_move :: "string list \<Rightarrow> string list \<Rightarrow> (string list \<rightharpoonup> 'a) \<Rightarrow> (string list \<rightharpoonup> 'a)" where
  "spec_move p q a cs =
     (if prefix q cs then a (p @ drop (length q) cs) else if prefix p cs then None else a cs)"

definition spec_rename :: "string list \<Rightarrow> string list \<Rightarrow> afs \<Rightarrow> errno + afs" where
  "spec_rename p q a =
     (if a p = None then Inl ENOENT
      else if p = [] then Inl EBUSY
      else
        case spec_parent a q of
          Some err \<Rightarrow> Inl err
        | None \<Rightarrow>
            if prefix p (butlast q) then Inl EINVAL
            else if p = q then Inr a
            else if a q \<noteq> None \<and> (is_adir a q \<or> is_adir a p) then Inl EISDIR
            else Inr (spec_move p q a))"

definition spec_chmod :: "string list \<Rightarrow> 16 word \<Rightarrow> afs \<Rightarrow> errno + afs" where
  "spec_chmod p mode a =
     (case a p of
        None \<Rightarrow> Inl ENOENT
      | Some (old, t, d) \<Rightarrow> Inr (a(p \<mapsto> ((old AND S_IFMT) OR (mode AND 0xFFF), t, d))))"

definition spec_utimes :: "string list \<Rightarrow> int \<Rightarrow> afs \<Rightarrow> errno + afs" where
  "spec_utimes p t a =
     (case a p of None \<Rightarrow> Inl ENOENT | Some (mode, t', d) \<Rightarrow> Inr (a(p \<mapsto> (mode, t, d))))"

section \<open>The abstraction\<close>

definition node_abs :: "mnode \<Rightarrow> afile" where
  "node_abs d = (n_mode d, n_mtime d, n_data d)"

definition mem_abs :: "mem \<Rightarrow> afs" where
  "mem_abs m cs = Option.bind (walk m (m_root m) cs) (\<lambda>n. map_option node_abs (m_nodes m n))"

text \<open>The operation's outcome is the one specified.\<close>

definition op_refines :: "mem sys \<Rightarrow> unit option \<times> mem sys \<Rightarrow> errno + afs \<Rightarrow> bool" where
  "op_refines s r x \<longleftrightarrow>
     (case x of
        Inl err \<Rightarrow> r = (None, set_errno err s)
      | Inr a \<Rightarrow> fst r = Some () \<and> mem_ok (sys_state (snd r)) \<and> mem_abs (sys_state (snd r)) = a)"

lemma walk_node:
  assumes "mem_ok m" "walk m (m_root m) cs = Some n"
  obtains d where "m_nodes m n = Some d"
proof -
  have t: "tree_ok m" by (rule mem_okD [OF assms(1)])
  have "m_nodes m (m_root m) \<noteq> None" using root_live [OF t] by auto
  from walk_live [OF t this assms(2)] that show thesis by blast
qed

lemma mem_abs_None: "mem_ok m \<Longrightarrow> mem_abs m cs = None \<longleftrightarrow> walk m (m_root m) cs = None"
  by (cases "walk m (m_root m) cs") (auto simp: mem_abs_def elim: walk_node)

lemma mem_abs_dir: "is_adir (mem_abs m) cs \<longleftrightarrow> (\<exists>n. walk m (m_root m) cs = Some n \<and> node_is_dir m n)"
  by (auto simp: is_adir_def mem_abs_def node_is_dir_def node_abs_def bind_eq_Some_conv split: option.splits)

text \<open>Walks of a well-formed store are determined by where they find each node.\<close>

lemma walk_eqI:
  assumes "mem_ok m" "\<And>x. m_nodes m x \<noteq> None \<Longrightarrow> \<exists>ds. R ds = Some x"
    "\<And>cs x. R cs = Some x \<Longrightarrow> walk m (m_root m) cs = Some x"
  shows "walk m (m_root m) = R"
proof (rule ext, rule option_eqI)
  fix cs x
  show "walk m (m_root m) cs = Some x \<longleftrightarrow> R cs = Some x"
  proof
    assume w: "walk m (m_root m) cs = Some x"
    obtain d where "m_nodes m x = Some d" by (rule walk_node [OF assms(1) w])
    then obtain ds where ds: "R ds = Some x" using assms(2) by blast
    with walk_unique [OF mem_okD(1) [OF assms(1)] w] assms(3) have "cs = ds" by blast
    with ds show "R cs = Some x" by simp
  qed (rule assms(3))
qed

lemma add_child_walk:
  assumes "mem_ok m" "m_nodes m p = Some pd" "mode_is_dir (n_mode pd)" "n_children node = []"
    "node_find_child m p (n_name node) = None" "walk m (m_root m) ps = Some p"
  shows "walk (snd (add_child p node m)) (m_root m) = (walk m (m_root m))(ps @ [n_name node] \<mapsto> m_next m)"
proof -
  let ?m = "snd (add_child p node m)"
  note ad = add_child_ok [OF assms(1-5)]
  have none: "walk m (m_root m) (ps @ [n_name node]) = None" using assms(5,6) by (simp add: walk_snoc)
  have "walk ?m (m_root ?m) = (walk m (m_root m))(ps @ [n_name node] \<mapsto> m_next m)"
  proof (rule walk_eqI [OF ad(1)])
    fix x assume x: "m_nodes ?m x \<noteq> None"
    show "\<exists>ds. ((walk m (m_root m))(ps @ [n_name node] \<mapsto> m_next m)) ds = Some x"
    proof (cases "x = m_next m")
      case False
      then have "m_nodes m x \<noteq> None"
        using x assms(2) by (auto simp: add_child_nodes [OF mem_okD(1) [OF assms(1)] assms(2)] split: if_splits)
      then obtain ds where "walk m (m_root m) ds = Some x" using mem_okD(2) [OF assms(1)] by blast
      with none show ?thesis by (intro exI [of _ ds]) auto
    qed (auto intro: exI [of _ "ps @ [n_name node]"])
  next
    fix cs x assume "((walk m (m_root m))(ps @ [n_name node] \<mapsto> m_next m)) cs = Some x"
    then show "walk ?m (m_root ?m) cs = Some x"
      using ad(2) [OF assms(6)] ad(2,3) by (auto simp: walk_snoc split: if_splits)
  qed
  then show ?thesis by simp
qed

lemma remove_walk:
  assumes "mem_ok m" "m_nodes m n = Some nd" "n_children nd = []" "n_parent nd = Some p"
    "walk m (m_root m) ps = Some n"
  shows "walk (free_node n (unlink_child p n m)) (m_root m) = (walk m (m_root m))(ps := None)"
proof -
  let ?m = "free_node n (unlink_child p n m)"
  note rm = remove_ok [OF assms(1-4)]
  obtain pd where pd: "m_nodes m p = Some pd" using parent_live [OF mem_okD(1) [OF assms(1)] assms(2,4)] by blast
  have np: "n \<noteq> p" using own_parent [OF mem_okD(1) [OF assms(1)] assms(2,3)] assms(4) by auto
  have "walk ?m (m_root ?m) = (walk m (m_root m))(ps := None)"
  proof (rule walk_eqI [OF rm(1)])
    fix x assume "m_nodes ?m x \<noteq> None"
    then have x: "m_nodes m x \<noteq> None" "x \<noteq> n" using pd by (auto simp: remove_nodes [OF pd np] split: if_splits)
    then obtain ds where ds: "walk m (m_root m) ds = Some x" using mem_okD(2) [OF assms(1)] by blast
    with x(2) assms(5) show "\<exists>ds. ((walk m (m_root m))(ps := None)) ds = Some x" by (intro exI [of _ ds]) auto
  next
    fix cs x assume "((walk m (m_root m))(ps := None)) cs = Some x"
    then have w: "cs \<noteq> ps" "walk m (m_root m) cs = Some x" by (auto split: if_splits)
    then have "x \<noteq> n" using walk_unique [OF mem_okD(1) [OF assms(1)] _ assms(5)] by blast
    with rm(2) w(2) show "walk ?m (m_root ?m) cs = Some x" by simp
  qed
  then show ?thesis by simp
qed

lemma sub_prefix:
  assumes "mem_ok m" "walk m (m_root m) ps = Some n" "walk m (m_root m) cs = Some x"
  shows "sub m n x \<longleftrightarrow> prefix ps cs"
proof
  assume "sub m n x"
  then obtain es where "walk m n es = Some x" by (auto simp: sub_def)
  with assms(2) have "walk m (m_root m) (ps @ es) = Some x" by (simp add: walk_append)
  from walk_unique [OF mem_okD(1) [OF assms(1)] assms(3) this] show "prefix ps cs" by simp
next
  assume "prefix ps cs"
  with assms(2,3) show "sub m n x" by (auto simp: sub_def prefix_def walk_append)
qed

lemma move_walk:
  assumes "mem_ok m" "m_nodes m n = Some nd" "n_parent nd = Some p"
    "m_nodes m np = Some npd" "mode_is_dir (n_mode npd)" "node_find_child m np nn = None" "length nn < 256"
    "walk m (m_root m) ps = Some n" "walk m (m_root m) qs = Some np" "\<not> prefix ps qs"
  shows "walk (move_node n p np nn m) (m_root m) = spec_move ps (qs @ [nn]) (walk m (m_root m))"
proof -
  let ?m = "move_node n p np nn m" and ?q = "qs @ [nn]"
  have ns: "\<not> sub m n np" using sub_prefix [OF assms(1,8,9)] assms(10) by simp
  note mv = move_ok [OF assms(1-7) ns]
  have none: "walk m (m_root m) (?q @ es) = None" for es using assms(6,9) by (simp add: walk_append)
  have q: "walk ?m (m_root m) ?q = Some n" using mv(2) [OF ns assms(9)] mv(4) by (simp add: walk_append)
  have "walk ?m (m_root ?m) = spec_move ps ?q (walk m (m_root m))"
  proof (rule walk_eqI [OF mv(1)])
    fix x assume "m_nodes ?m x \<noteq> None"
    then have "m_nodes m x \<noteq> None"
      using assms(2) by (auto simp: move_node_def unlink_child_def split: if_splits)
    then obtain ds where ds: "walk m (m_root m) ds = Some x" using mem_okD(2) [OF assms(1)] by blast
    show "\<exists>ds. spec_move ps ?q (walk m (m_root m)) ds = Some x"
    proof (cases "prefix ps ds")
      case True
      then obtain es where "ds = ps @ es" by (auto simp: prefix_def)
      with ds show ?thesis by (intro exI [of _ "?q @ es"]) (simp add: spec_move_def)
    next
      case False
      moreover have "\<not> prefix ?q ds" using ds none by (auto simp: prefix_def)
      ultimately show ?thesis using ds by (intro exI [of _ ds]) (simp add: spec_move_def)
    qed
  next
    fix cs x assume x: "spec_move ps ?q (walk m (m_root m)) cs = Some x"
    show "walk ?m (m_root ?m) cs = Some x"
    proof (cases "prefix ?q cs")
      case True
      then obtain es where es: "cs = ?q @ es" by (auto simp: prefix_def)
      with x assms(8) have "walk m n es = Some x" by (simp add: spec_move_def walk_append)
      from mv(3) [OF sub_refl this] q show ?thesis by (simp add: es walk_append [of _ _ ?q] del: append_assoc)
    next
      case False
      with x have w: "\<not> prefix ps cs" "walk m (m_root m) cs = Some x" by (auto simp: spec_move_def split: if_splits)
      with sub_prefix [OF assms(1,8) w(2)] mv(2) show ?thesis by simp
    qed
  qed
  then show ?thesis by simp
qed

section \<open>What the changes do to the abstraction\<close>

lemma add_child_abs:
  assumes "mem_ok m" "m_nodes m p = Some pd" "mode_is_dir (n_mode pd)" "n_children node = []"
    "node_find_child m p (n_name node) = None" "walk m (m_root m) ps = Some p"
  shows "mem_abs (snd (add_child p node m)) = (mem_abs m)(ps @ [n_name node] \<mapsto> node_abs node)"
proof
  fix cs
  note fresh = fresh_address [OF mem_okD(1) [OF assms(1)]]
  have old: "map_option node_abs (m_nodes (snd (add_child p node m)) x) = map_option node_abs (m_nodes m x)" if "x \<noteq> m_next m" for x
    using that assms(2) by (simp add: add_child_nodes [OF mem_okD(1) [OF assms(1)] assms(2)] node_abs_def)
  show "mem_abs (snd (add_child p node m)) cs = ((mem_abs m)(ps @ [n_name node] \<mapsto> node_abs node)) cs"
  proof (cases "cs = ps @ [n_name node]")
    case True
    then show ?thesis
      by (simp add: mem_abs_def add_child_walk [OF assms] add_child_nodes [OF mem_okD(1) [OF assms(1)] assms(2)] node_abs_def)
  next
    case False
    have "x \<noteq> m_next m" if w: "walk m (m_root m) cs = Some x" for x
      using fresh by (rule_tac walk_node [OF assms(1) w]) auto
    with False show ?thesis
      by (cases "walk m (m_root m) cs") (simp_all add: mem_abs_def add_child_walk [OF assms] old)
  qed
qed

lemma remove_abs:
  assumes "mem_ok m" "m_nodes m n = Some nd" "n_children nd = []" "n_parent nd = Some p"
    "walk m (m_root m) ps = Some n"
  shows "mem_abs (free_node n (unlink_child p n m)) = (mem_abs m)(ps := None)"
proof
  fix cs
  obtain pd where pd: "m_nodes m p = Some pd" using parent_live [OF mem_okD(1) [OF assms(1)] assms(2,4)] by blast
  have np: "n \<noteq> p" using own_parent [OF mem_okD(1) [OF assms(1)] assms(2,3)] assms(4) by auto
  have "x \<noteq> n" if "cs \<noteq> ps" "walk m (m_root m) cs = Some x" for x
    using walk_unique [OF mem_okD(1) [OF assms(1)] _ assms(5)] that by blast
  then show "mem_abs (free_node n (unlink_child p n m)) cs = ((mem_abs m)(ps := None)) cs"
    using pd by (cases "walk m (m_root m) cs") (auto simp: mem_abs_def remove_walk [OF assms] remove_nodes [OF pd np] node_abs_def)
qed

lemma move_abs:
  assumes "mem_ok m" "m_nodes m n = Some nd" "n_parent nd = Some p"
    "m_nodes m np = Some npd" "mode_is_dir (n_mode npd)" "node_find_child m np nn = None" "length nn < 256"
    "walk m (m_root m) ps = Some n" "walk m (m_root m) qs = Some np" "\<not> prefix ps qs"
  shows "mem_abs (move_node n p np nn m) = spec_move ps (qs @ [nn]) (mem_abs m)"
proof
  fix cs
  have "map_option node_abs (m_nodes (move_node n p np nn m) x) = map_option node_abs (m_nodes m x)" for x
    by (cases "m_nodes m x") (auto simp: move_node_def unlink_child_def node_abs_def)
  then show "mem_abs (move_node n p np nn m) cs = spec_move ps (qs @ [nn]) (mem_abs m) cs"
    by (simp add: mem_abs_def move_walk [OF assms] spec_move_def)
qed

lemma upd_abs:
  assumes "mem_ok m" "walk m (m_root m) ps = Some n" "m_nodes m n = Some d" "\<And>e. same_node e (f e)"
  shows "mem_ok (upd_node n f m)" "mem_abs (upd_node n f m) = (mem_abs m)(ps \<mapsto> node_abs (f d))"
proof -
  have sh: "same_shape m (upd_node n f m)" by (rule same_shape_upd [OF assms(4)])
  show "mem_ok (upd_node n f m)" by (rule same_shape_ok [OF sh assms(1)])
  show "mem_abs (upd_node n f m) = (mem_abs m)(ps \<mapsto> node_abs (f d))"
  proof
    fix cs
    have "x \<noteq> n" if "cs \<noteq> ps" "walk m (m_root m) cs = Some x" for x
      using walk_unique [OF mem_okD(1) [OF assms(1)] _ assms(2)] that by blast
    then show "mem_abs (upd_node n f m) cs = ((mem_abs m)(ps \<mapsto> node_abs (f d))) cs"
      using assms(2,3) by (cases "walk m (m_root m) cs") (auto simp: mem_abs_def same_shape_find(2) [OF sh])
  qed
qed

section \<open>Refinement\<close>

lemma walk_dirs_spec:
  assumes "mem_ok m" "walk m (m_root m) ds = Some n"
  shows "walk_dirs m n cs =
    (case List.find (\<lambda>q. \<not> is_adir (mem_abs m) q) (steps_below ds cs) of
       Some q \<Rightarrow> Inl (if mem_abs m q = None then ENOENT else ENOTDIR)
     | None \<Rightarrow> Inr (the (walk m n cs)))"
  using assms(2)
proof (induction cs arbitrary: ds n)
  case (Cons c cs)
  have w: "walk m (m_root m) (ds @ [c]) = node_find_child m n c" using Cons(2) by (simp add: walk_snoc)
  show ?case
  proof (cases "node_find_child m n c")
    case None
    with w show ?thesis by (simp add: mem_abs_dir mem_abs_None [OF assms(1)])
  next
    case (Some x)
    with w have wx: "walk m (m_root m) (ds @ [c]) = Some x" by simp
    with Some Cons(1) [OF wx] show ?thesis by (auto simp: mem_abs_dir mem_abs_None [OF assms(1)] split: option.splits)
  qed
qed simp

lemma parent_spec:
  assumes "mem_ok m" "mem_path p"
  shows "case spec_parent (mem_abs m) (split_path p) of
      Some err \<Rightarrow> node_lookup_parent m p = Inl err
    | None \<Rightarrow> \<exists>par name. node_lookup_parent m p = Inr (par, name) \<and> split_path p = butlast (split_path p) @ [name]"
proof (cases "p = [slash]")
  case True
  then show ?thesis by (simp add: spec_parent_def node_lookup_parent_def split_path_def)
next
  case False
  note pt = path_tail_last [OF assms(2) False]
  have "walk_dirs m (m_root m) (butlast (split_path p)) =
    (case List.find (\<lambda>q. \<not> is_adir (mem_abs m) q) (steps_below [] (butlast (split_path p))) of
       Some q \<Rightarrow> Inl (if mem_abs m q = None then ENOENT else ENOTDIR)
     | None \<Rightarrow> Inr (the (walk m (m_root m) (butlast (split_path p)))))"
    by (rule walk_dirs_spec [OF assms(1)]) simp
  with False pt show ?thesis
    by (auto simp: spec_parent_def node_lookup_parent_def split: option.splits)
qed

lemma mkdir_refines:
  assumes "mem_ok (sys_state s)" "mem_path p"
  shows "op_refines s (mem_mkdir al p mode s)
    (spec_mkdir (al MNODE_SIZE) (m_clock (sys_state s)) (split_path p) mode (mem_abs (sys_state s)))"
proof (cases "spec_parent (mem_abs (sys_state s)) (split_path p)")
  case (Some err)
  with parent_spec [OF assms] show ?thesis by (simp add: op_refines_def spec_mkdir_def mem_mkdir_def)
next
  case None
  let ?m = "sys_state s"
  obtain par name where pn: "node_lookup_parent ?m p = Inr (par, name)" "split_path p = butlast (split_path p) @ [name]"
    using parent_spec [OF assms] None by auto
  obtain pd where pd: "m_nodes ?m par = Some pd" "mode_is_dir (n_mode pd)" "length name < 256"
    "node_lookup ?m p = node_find_child ?m par name" "walk ?m (m_root ?m) (butlast (split_path p)) = Some par"
    using lookup_parent [OF assms pn(1)] by metis
  have ex: "mem_abs ?m (split_path p) = None \<longleftrightarrow> node_find_child ?m par name = None"
    using pd(4) by (simp add: mem_abs_None [OF assms(1)] node_lookup_walk)
  show ?thesis
  proof (cases "node_find_child ?m par name = None \<and> al MNODE_SIZE")
    case False
    with None ex pn show ?thesis by (auto simp: op_refines_def spec_mkdir_def mem_mkdir_def node_create_def)
  next
    case True
    then obtain node where node: "node_create al name (S_IFDIR OR (if mode \<noteq> 0 then mode else 0x1ED)) ?m = Some node"
      by (simp add: node_create_def)
    note nc = node_create_Some [OF node pd(3)]
    have kids: "n_children node = []" and find: "node_find_child ?m par (n_name node) = None" using nc True by simp_all
    have ab: "node_abs node = (S_IFDIR OR (if mode \<noteq> 0 then mode else 0x1ED), m_clock ?m, [])"
      using node nc by (auto simp: node_abs_def node_create_def split: if_splits)
    show ?thesis
      using None ex True pn node nc add_child_ok(1) [OF assms(1) pd(1,2) kids find]
        add_child_abs [OF assms(1) pd(1,2) kids find pd(5)]
      by (simp add: op_refines_def spec_mkdir_def mem_mkdir_def ab [simplified])
  qed
qed

text \<open>The node at a path, its parent and its children, seen from the abstraction.\<close>

lemma node_view:
  assumes "mem_ok m" "walk m (m_root m) cs = Some n" "m_nodes m n = Some d"
  shows "mem_abs m cs = Some (node_abs d)" "is_adir (mem_abs m) cs \<longleftrightarrow> mode_is_dir (n_mode d)"
    "n_parent d = None \<longleftrightarrow> cs = []" "n_children d = [] \<longleftrightarrow> (\<forall>c. mem_abs m (cs @ [c]) = None)"
proof -
  have t: "tree_ok m" by (rule mem_okD [OF assms(1)])
  note no = tree_okD [OF t assms(3)]
  show "mem_abs m cs = Some (node_abs d)" using assms(2,3) by (simp add: mem_abs_def)
  show "is_adir (mem_abs m) cs \<longleftrightarrow> mode_is_dir (n_mode d)" using assms(2,3) by (simp add: mem_abs_dir node_is_dir_def)
  have "n_parent d = None \<longleftrightarrow> n = m_root m" using no by (simp add: node_ok_def)
  also have "\<dots> \<longleftrightarrow> cs = []" using walk_unique [OF t assms(2), of "[]"] assms(2) by auto
  finally show "n_parent d = None \<longleftrightarrow> cs = []" .
  have "(\<forall>c. mem_abs m (cs @ [c]) = None) \<longleftrightarrow> (\<forall>c. node_find_child m n c = None)"
    using assms(2) by (simp add: mem_abs_None [OF assms(1)] walk_snoc)
  also have "\<dots> \<longleftrightarrow> (\<forall>c. c \<notin> set (n_children d))"
  proof -
    have "(\<exists>c. c \<in> set (n_children d)) \<longleftrightarrow> (\<exists>c cd. m_nodes m c = Some cd \<and> n_parent cd = Some n)"
      using no unfolding node_ok_def by blast
    also have "\<dots> \<longleftrightarrow> (\<exists>c. node_find_child m n c \<noteq> None)" unfolding find_child_None [OF t] by blast
    finally show ?thesis by (metis (no_types))
  qed
  finally show "n_children d = [] \<longleftrightarrow> (\<forall>c. mem_abs m (cs @ [c]) = None)" by (simp add: ex_in_conv [symmetric] last_in_set)
qed

lemma leaf_file: "tree_ok m \<Longrightarrow> m_nodes m n = Some d \<Longrightarrow> \<not> mode_is_dir (n_mode d) \<Longrightarrow> n_children d = []"
  using tree_okD by (auto simp: node_ok_def)

lemma rmdir_refines:
  assumes "mem_ok (sys_state s)"
  shows "op_refines s (mem_rmdir p s) (spec_rmdir (split_path p) (mem_abs (sys_state s)))"
proof (cases "node_lookup (sys_state s) p")
  case None
  then show ?thesis
    by (simp add: op_refines_def spec_rmdir_def mem_rmdir_def mem_abs_None [OF assms] node_lookup_walk)
next
  case (Some n)
  let ?m = "sys_state s"
  obtain d where d: "m_nodes ?m n = Some d" using Some by (rule lookup_live [OF assms])
  note v = node_view [OF assms Some [unfolded node_lookup_walk] d]
  show ?thesis
  proof (cases "mode_is_dir (n_mode d) \<and> n_children d = [] \<and> n_parent d \<noteq> None")
    case True
    then obtain par where par: "n_parent d = Some par" "n_children d = []" by auto
    have "mem_rmdir p s = (Some (), sys_mem (\<lambda>m. free_node n (unlink_child par n m)) s)"
      using Some d True par(1) by (simp add: mem_rmdir_def)
    moreover have "spec_rmdir (split_path p) (mem_abs ?m) = Inr ((mem_abs ?m)(split_path p := None))"
      using True v by (auto simp: spec_rmdir_def)
    ultimately show ?thesis
      using remove_ok(1) [OF assms d par(2,1)] remove_abs [OF assms d par(2,1) Some [unfolded node_lookup_walk]]
      by (simp add: op_refines_def)
  next
    case False
    with Some d v show ?thesis by (auto simp: op_refines_def spec_rmdir_def mem_rmdir_def)
  qed
qed

lemma unlink_refines:
  assumes "mem_ok (sys_state s)"
  shows "op_refines s (mem_unlink p s) (spec_unlink (split_path p) (mem_abs (sys_state s)))"
proof (cases "node_lookup (sys_state s) p")
  case None
  then show ?thesis
    by (simp add: op_refines_def spec_unlink_def mem_unlink_def mem_abs_None [OF assms] node_lookup_walk)
next
  case (Some n)
  let ?m = "sys_state s"
  obtain d where d: "m_nodes ?m n = Some d" using Some by (rule lookup_live [OF assms])
  note v = node_view [OF assms Some [unfolded node_lookup_walk] d]
  show ?thesis
  proof (cases "mode_is_dir (n_mode d)")
    case True
    with Some d v show ?thesis by (simp add: op_refines_def spec_unlink_def mem_unlink_def)
  next
    case False
    have kids: "n_children d = []" by (rule leaf_file [OF mem_okD(1) [OF assms] d False])
    have "n \<noteq> m_root ?m" using root_live [OF mem_okD(1) [OF assms]] d False by auto
    then obtain par where par: "n_parent d = Some par"
      using tree_okD [OF mem_okD(1) [OF assms] d] by (auto simp: node_ok_def)
    show ?thesis
      using Some d False v par remove_ok(1) [OF assms d kids par]
        remove_abs [OF assms d kids par Some [unfolded node_lookup_walk]]
      by (simp add: op_refines_def spec_unlink_def mem_unlink_def)
  qed
qed

lemma chmod_is_dir: "mode_is_dir ((old AND S_IFMT) OR (mode AND 0xFFF)) = mode_is_dir old"
proof -
  have "((old AND S_IFMT) OR (mode AND 0xFFF)) AND S_IFMT = old AND S_IFMT"
    by (simp add: bit.conj_disj_distrib2 and.assoc)
  then show ?thesis by (simp add: mode_is_dir_def)
qed

lemma chmod_refines:
  assumes "mem_ok (sys_state s)"
  shows "op_refines s (mem_chmod p mode s) (spec_chmod (split_path p) mode (mem_abs (sys_state s)))"
proof (cases "node_lookup (sys_state s) p")
  case None
  then have "mem_abs (sys_state s) (split_path p) = None" by (simp add: mem_abs_None [OF assms] node_lookup_walk)
  with None show ?thesis by (simp add: op_refines_def spec_chmod_def mem_chmod_def)
next
  case (Some n)
  obtain d where d: "m_nodes (sys_state s) n = Some d" using Some by (rule lookup_live [OF assms])
  note v = node_view(1) [OF assms Some [unfolded node_lookup_walk] d]
  note u = upd_abs [OF assms Some [unfolded node_lookup_walk] d,
    of "\<lambda>d. d\<lparr> n_mode := (n_mode d AND S_IFMT) OR (mode AND 0xFFF) \<rparr>"]
  from Some v u show ?thesis
    by (simp add: op_refines_def spec_chmod_def mem_chmod_def node_abs_def same_node_def chmod_is_dir)
qed

lemma utimes_refines:
  assumes "mem_ok (sys_state s)"
  shows "op_refines s (mem_utimes p t s) (spec_utimes (split_path p) t (mem_abs (sys_state s)))"
proof (cases "node_lookup (sys_state s) p")
  case None
  then have "mem_abs (sys_state s) (split_path p) = None" by (simp add: mem_abs_None [OF assms] node_lookup_walk)
  with None show ?thesis by (simp add: op_refines_def spec_utimes_def mem_utimes_def)
next
  case (Some n)
  obtain d where d: "m_nodes (sys_state s) n = Some d" using Some by (rule lookup_live [OF assms])
  note v = node_view(1) [OF assms Some [unfolded node_lookup_walk] d]
  note u = upd_abs [OF assms Some [unfolded node_lookup_walk] d, of "\<lambda>d. d\<lparr> n_mtime := t \<rparr>"]
  from Some v u show ?thesis
    by (simp add: op_refines_def spec_utimes_def mem_utimes_def node_abs_def same_node_def)
qed

text \<open>The last part of a rename, from the check against moving a directory below itself on.\<close>

lemma rename_cases:
  fixes s :: "mem sys" and bs :: "string list" and nn :: string
  defines "m \<equiv> sys_state s" and "qs \<equiv> bs @ [nn]"
  assumes "mem_ok (sys_state s)" "m_nodes (sys_state s) n = Some d" "n_parent d = Some par"
    "m_nodes (sys_state s) np = Some npd" "mode_is_dir (n_mode npd)" "length nn < 256"
    "walk (sys_state s) (m_root (sys_state s)) ps = Some n"
    "walk (sys_state s) (m_root (sys_state s)) bs = Some np"
  shows "op_refines s
    (if prefix ps bs then (None, set_errno EINVAL s) else
      (case node_find_child (sys_state s) np nn of
         None \<Rightarrow> (Some (), sys_mem (move_node n par np nn) s)
       | Some ex \<Rightarrow>
           if ex = n then (Some (), s)
           else if node_is_dir (sys_state s) ex \<or> node_is_dir (sys_state s) n then (None, set_errno EISDIR s)
           else (Some (), sys_mem (\<lambda>m. move_node n par np nn (free_node ex (unlink_child np ex m))) s)))
    (if prefix ps bs then Inl EINVAL
     else if ps = qs then Inr (mem_abs (sys_state s))
     else if mem_abs (sys_state s) qs \<noteq> None \<and> (is_adir (mem_abs (sys_state s)) qs \<or> is_adir (mem_abs (sys_state s)) ps)
       then Inl EISDIR
     else Inr (spec_move ps qs (mem_abs (sys_state s))))"
proof (cases "prefix ps bs")
  case True
  then show ?thesis by (simp add: op_refines_def)
next
  case False
  note hyps = assms(3-) [folded m_def]
  have t: "tree_ok m" by (rule mem_okD [OF hyps(1)])
  have ns: "\<not> sub m n np" using sub_prefix [OF hyps(1,7,8)] False by simp
  have wq: "walk m (m_root m) qs = node_find_child m np nn" using hyps(8) by (simp add: qs_def walk_snoc)
  show ?thesis
  proof (cases "node_find_child m np nn")
    case None
    then have "ps \<noteq> qs" "mem_abs m qs = None" using hyps(7) wq by (auto simp: mem_abs_None [OF hyps(1)])
    with None False move_ok(1) [OF hyps(1-5) None hyps(6) ns] move_abs [OF hyps(1-5) None hyps(6-8) False]
    show ?thesis by (simp add: op_refines_def m_def [symmetric] qs_def)
  next
    case (Some ex)
    then have wex: "walk m (m_root m) qs = Some ex" using wq by simp
    have ex: "ex = n \<longleftrightarrow> ps = qs"
    proof
      assume "ex = n"
      with wex have "walk m (m_root m) qs = Some n" by simp
      then show "ps = qs" by (rule walk_unique [OF t hyps(7)])
    next
      assume "ps = qs"
      with wex hyps(7) show "ex = n" by simp
    qed
    obtain e where e: "m_nodes m ex = Some e" by (rule walk_node [OF hyps(1) wex])
    note v = node_view [OF hyps(1) wex e] and vn = node_view [OF hyps(1,7,2)]
    show ?thesis
    proof (cases "ps = qs \<or> mode_is_dir (n_mode e) \<or> mode_is_dir (n_mode d)")
      case True
      with False Some ex v vn hyps(1,2) e show ?thesis
        by (auto simp: op_refines_def m_def [symmetric] node_is_dir_def)
    next
      case fls: False
      let ?m2 = "free_node ex (unlink_child np ex m)"
      have exn: "ex \<noteq> n" using fls ex by simp
      have kids: "n_children e = []" using leaf_file [OF t e] fls by simp
      have pe: "n_parent e = Some np" using Some e by (auto simp: find_child_iff [OF t])
      note rm = remove_ok [OF hyps(1) e kids pe] and w2 = remove_walk [OF hyps(1) e kids pe wex]
      have exnp: "ex \<noteq> np" using own_parent [OF t e kids] pe by auto
      note nodes = remove_nodes [OF hyps(4) exnp]
      let ?npd = "npd\<lparr> n_children := remove1 ex (n_children npd) \<rparr>"
      have d2: "m_nodes ?m2 n = Some d" "n_parent d = Some par" "m_nodes ?m2 np = Some ?npd" "mode_is_dir (n_mode ?npd)"
        using hyps(2-5) exn exnp ns by (auto simp: nodes)
      have ps: "walk ?m2 (m_root ?m2) ps = Some n" using w2 hyps(7) fls by simp
      have qs: "walk ?m2 (m_root ?m2) bs = Some np" using w2 hyps(8) by (simp add: qs_def)
      have find: "node_find_child ?m2 np nn = None" using rm(3) Some by simp
      have ns2: "\<not> sub ?m2 n np" using sub_prefix [OF rm(1) ps qs] False by simp
      have "mem_abs (move_node n par np nn ?m2) = spec_move ps qs (mem_abs m)"
      proof -
        have "mem_abs (move_node n par np nn ?m2) = spec_move ps qs ((mem_abs m)(qs := None))"
          using move_abs [OF rm(1) d2 find hyps(6) ps qs False] remove_abs [OF hyps(1) e kids pe wex] by (simp add: qs_def)
        also have "\<dots> = spec_move ps qs (mem_abs m)"
        proof
          fix cs
          have "ps @ r \<noteq> qs" for r
          proof
            assume "ps @ r = qs"
            with fls have "r \<noteq> []" by auto
            with \<open>ps @ r = qs\<close> have "bs = ps @ butlast r" by (metis butlast_append butlast_snoc qs_def)
            with False show False by simp
          qed
          then show "spec_move ps qs ((mem_abs m)(qs := None)) cs = spec_move ps qs (mem_abs m) cs"
            by (auto simp: spec_move_def)
        qed
        finally show ?thesis .
      qed
      with False Some exn fls v vn e hyps(2) move_ok(1) [OF rm(1) d2 find hyps(6) ns2] show ?thesis
        by (simp add: op_refines_def m_def [symmetric] node_is_dir_def)
    qed
  qed
qed

lemma rename_refines:
  assumes "mem_ok (sys_state s)" "mem_path q"
  shows "op_refines s (mem_rename p q s) (spec_rename (split_path p) (split_path q) (mem_abs (sys_state s)))"
proof (cases "node_lookup (sys_state s) p")
  case None
  then show ?thesis
    by (simp add: op_refines_def spec_rename_def mem_rename_def mem_abs_None [OF assms(1)] node_lookup_walk)
next
  case (Some n)
  let ?m = "sys_state s" and ?ps = "split_path p" and ?qs = "split_path q"
  note wn = Some [unfolded node_lookup_walk]
  obtain d where d: "m_nodes ?m n = Some d" using Some by (rule lookup_live [OF assms(1)])
  note v = node_view [OF assms(1) wn d]
  show ?thesis
  proof (cases "?ps = [] \<or> spec_parent (mem_abs ?m) ?qs \<noteq> None")
    case True
    with parent_spec [OF assms] Some d v show ?thesis
      by (cases "n_parent d") (auto simp: op_refines_def spec_rename_def mem_rename_def)
  next
    case False
    with v(3) obtain par where par: "n_parent d = Some par" by auto
    obtain np nn where pn: "node_lookup_parent ?m q = Inr (np, nn)" "?qs = butlast ?qs @ [nn]"
      using parent_spec [OF assms] False by auto
    obtain npd where npd: "m_nodes ?m np = Some npd" "mode_is_dir (n_mode npd)" "length nn < 256"
      "node_lookup ?m q = node_find_child ?m np nn" "walk ?m (m_root ?m) (butlast ?qs) = Some np"
      using lookup_parent [OF assms pn(1)] by metis
    note st = in_subtree_iff [OF assms(1), of n np] and sp = sub_prefix [OF assms(1) wn npd(5)]
    have code: "mem_rename p q s = (if prefix ?ps (butlast ?qs) then (None, set_errno EINVAL s) else
        (case node_find_child ?m np nn of
           None \<Rightarrow> (Some (), sys_mem (move_node n par np nn) s)
         | Some ex \<Rightarrow>
             if ex = n then (Some (), s)
             else if node_is_dir ?m ex \<or> node_is_dir ?m n then (None, set_errno EISDIR s)
             else (Some (), sys_mem (\<lambda>m. move_node n par np nn (free_node ex (unlink_child np ex m))) s)))"
      using Some d par pn(1) st sp by (simp add: mem_rename_def Let_def)
    have spec: "spec_rename ?ps ?qs (mem_abs ?m) = (if prefix ?ps (butlast ?qs) then Inl EINVAL
        else if ?ps = ?qs then Inr (mem_abs ?m)
        else if mem_abs ?m ?qs \<noteq> None \<and> (is_adir (mem_abs ?m) ?qs \<or> is_adir (mem_abs ?m) ?ps) then Inl EISDIR
        else Inr (spec_move ?ps ?qs (mem_abs ?m)))"
      using v(1) False by (simp add: spec_rename_def)
    show ?thesis unfolding code spec
      using rename_cases [OF assms(1) d par npd(1-3) wn npd(5)] unfolding pn(2) [symmetric] .
  qed
qed

section \<open>Every call keeps the invariant\<close>

lemma mem_create_ok [simp]: "mem_ok (mem_create now)"
proof -
  have "mode_is_dir (S_IFDIR OR 0x1ED)" by (simp add: mode_is_dir_def)
  then have "tree_ok (mem_create now)" by (auto simp: tree_ok_def node_ok_def mem_create_def)
  moreover have "\<exists>cs. walk (mem_create now) (m_root (mem_create now)) cs = Some n" if "m_nodes (mem_create now) n \<noteq> None" for n
    using that by (intro exI [of _ "[]"]) (auto simp: mem_create_def split: if_splits)
  ultimately show ?thesis by (simp add: mem_ok_def)
qed

lemma op_refines_ok: "mem_ok (sys_state s) \<Longrightarrow> op_refines s r x \<Longrightarrow> mem_ok (sys_state (snd r))"
  by (auto simp: op_refines_def split: sum.splits)

lemma open_node_shape: "same_shape (sys_state s) (sys_state (snd (open_node flags n s)))"
proof -
  have "same_shape (sys_state s) (upd_node n (\<lambda>d. d\<lparr> n_data := [] \<rparr>) (sys_state s))"
    by (rule same_shape_upd) (simp add: same_node_def)
  then show ?thesis by (simp add: open_node_def Let_def split: option.split)
qed

lemma mem_open_ok:
  assumes "mem_ok (sys_state s)" "mem_path p"
  shows "mem_ok (sys_state (snd (mem_open al p flags mode s)))"
proof (cases "\<exists>n. node_lookup (sys_state s) p = Some n")
  case True
  then obtain n where "node_lookup (sys_state s) p = Some n" by blast
  then show ?thesis using same_shape_ok [OF open_node_shape assms(1)] by (simp add: mem_open_def)
next
  case False
  then have none: "node_lookup (sys_state s) p = None" by simp
  show ?thesis
  proof (cases "node_lookup_parent (sys_state s) p")
    case (Inl err)
    with none assms(1) show ?thesis by (simp add: mem_open_def Let_def)
  next
    case (Inr pn)
    obtain par name where pn: "pn = (par, name)" by fastforce
    obtain pd where pd: "m_nodes (sys_state s) par = Some pd" "mode_is_dir (n_mode pd)" "length name < 256"
      "node_lookup (sys_state s) p = node_find_child (sys_state s) par name"
      using lookup_parent [OF assms Inr [unfolded pn]] by metis
    let ?mode = "S_IFREG OR (if mode \<noteq> 0 then mode else 0x1A4)"
    show ?thesis
    proof (cases "node_create al name ?mode (sys_state s)")
      case None
      with none Inr pn assms(1) show ?thesis by (simp add: mem_open_def Let_def)
    next
      case (Some node)
      note nc = node_create_Some [OF Some pd(3)]
      have kids: "n_children node = []" and find: "node_find_child (sys_state s) par (n_name node) = None"
        using nc pd(4) none by simp_all
      let ?s = "sys_mem (\<lambda>m. snd (add_child par node m)) s"
      have "mem_ok (sys_state ?s)" using add_child_ok(1) [OF assms(1) pd(1,2) kids find] by simp
      from same_shape_ok [OF open_node_shape this] show ?thesis
        using none Inr pn Some assms(1) by (simp add: mem_open_def Let_def)
    qed
  qed
qed

lemma same_shape_state [simp]:
  "same_shape m (m'\<lparr> m_dirs := ds \<rparr>) = same_shape m m'" "same_shape m (m'\<lparr> m_next_dir := k \<rparr>) = same_shape m m'"
  "same_shape m (dangling m') = same_shape m m'"
  by (simp_all add: same_shape_def dangling_def)

text \<open>The calls that leave every name in place.\<close>

lemma mem_quiet:
  "same_shape (sys_state s) (sys_state (snd (mem_close fd s)))"
  "same_shape (sys_state s) (sys_state (snd (mem_read fd n s)))"
  "same_shape (sys_state s) (sys_state (snd (mem_write al fd bs s)))"
  "same_shape (sys_state s) (sys_state (snd (mem_seek fd off wh s)))"
  "same_shape (sys_state s) (sys_state (snd (mem_fstat fd s)))"
  "same_shape (sys_state s) (sys_state (snd (mem_stat p s)))"
  "same_shape (sys_state s) (sys_state (snd (mem_opendir al p s)))"
  "same_shape (sys_state s) (sys_state (snd (mem_readdir d s)))"
  "same_shape (sys_state s) (sys_state (snd (mem_closedir d s)))"
  by (simp_all add: mem_close_def mem_read_def mem_write_def mem_seek_def mem_fstat_def mem_stat_def
      mem_opendir_def mem_readdir_def mem_closedir_def Let_def write_shape split: option.split)

lemma mem_apply_ok:
  assumes "mem_ok (sys_state s)" "list_all mem_path (req_targets r)"
  shows "mem_ok (sys_state (fs_apply (mem_vtable al) r s))"
  using assms(2) mem_quiet [THEN same_shape_ok, OF assms(1)] mem_open_ok [OF assms(1)]
    op_refines_ok [OF assms(1) mkdir_refines [OF assms(1)]] op_refines_ok [OF assms(1) rmdir_refines [OF assms(1)]]
    op_refines_ok [OF assms(1) unlink_refines [OF assms(1)]] op_refines_ok [OF assms(1) rename_refines [OF assms(1)]]
    op_refines_ok [OF assms(1) chmod_refines [OF assms(1)]] op_refines_ok [OF assms(1) utimes_refines [OF assms(1)]]
  by (cases r) (simp_all add: mem_vtable_def)

lemma mem_run_ok:
  "list_all (\<lambda>r. list_all mem_path (req_targets r)) rs \<Longrightarrow> mem_ok (sys_state s) \<Longrightarrow>
   mem_ok (sys_state (fold (fs_apply (mem_vtable al)) rs s))"
  by (induction rs arbitrary: s) (simp_all add: mem_apply_ok)

text \<open>Once a call has used freed memory, the record of it stays.\<close>

lemma mem_dangling_stays: "m_dangling (sys_state s) \<Longrightarrow> m_dangling (sys_state (fs_apply (mem_vtable al) r s))"
  by (cases r)
    (auto simp: mem_vtable_def mem_open_def open_node_def mem_close_def mem_read_def mem_write_def mem_seek_def
      mem_fstat_def mem_stat_def mem_opendir_def mem_readdir_def mem_closedir_def mem_mkdir_def mem_rmdir_def
      mem_unlink_def mem_rename_def mem_chmod_def mem_utimes_def sys_mem_def dangling_def upd_fd_def
      free_node_def unlink_child_def move_node_def Let_def split: option.split sum.split prod.split)

lemma mem_run_dangling:
  "m_dangling (sys_state s) \<Longrightarrow> m_dangling (sys_state (fold (fs_apply (mem_vtable al)) rs s))"
  by (induction rs arbitrary: s) (simp_all add: mem_dangling_stays)

section \<open>Properties\<close>

text \<open>C23: Whatever calls are made on a fresh in-memory file system, with canonical paths where
  something may be created and paths of at most the 256 components the code has room for, its nodes
  stay a tree: parent pointers and child lists agree, siblings have different names, only
  directories have children, and every node is reached from the root by exactly one path. This is
  for runs in which no call goes through a descriptor or directory handle to a node that an unlink,
  a removal or a rename has freed; a run with such a call is undefined in the code, and
  \<open>m_dangling\<close> records it for good.\<close>

theorem mem_tree_invariant:
  assumes "list_all (\<lambda>r. list_all mem_path (req_targets r) \<and> list_all (\<lambda>p. length (split_path p) \<le> 256) (req_paths r)) rs"
    and "\<not> m_dangling (sys_state (fold (fs_apply (mem_vtable al)) rs \<lparr> sys_errno = err, sys_state = mem_create now \<rparr>))"
  shows "let m = sys_state (fold (fs_apply (mem_vtable al)) rs \<lparr> sys_errno = err, sys_state = mem_create now \<rparr>) in
    tree_ok m \<and> (\<forall>n. m_nodes m n \<noteq> None \<longleftrightarrow> (\<exists>!cs. walk m (m_root m) cs = Some n)) \<and>
    (\<forall>k. \<not> m_dangling (sys_state (fold (fs_apply (mem_vtable al)) (take k rs)
       \<lparr> sys_errno = err, sys_state = mem_create now \<rparr>)))"
proof -
  let ?s = "\<lparr> sys_errno = err, sys_state = mem_create now \<rparr>"
  let ?m = "sys_state (fold (fs_apply (mem_vtable al)) rs ?s)"
  have "list_all (\<lambda>r. list_all mem_path (req_targets r)) rs" using assms(1) by (auto simp: list_all_iff)
  then have ok: "mem_ok ?m" by (rule mem_run_ok) simp
  have t: "tree_ok ?m" by (rule mem_okD [OF ok])
  have "m_nodes ?m n \<noteq> None \<longleftrightarrow> (\<exists>!cs. walk ?m (m_root ?m) cs = Some n)" for n
  proof
    assume "m_nodes ?m n \<noteq> None"
    with mem_okD(2) [OF ok] walk_unique [OF t] show "\<exists>!cs. walk ?m (m_root ?m) cs = Some n" by blast
  next
    assume "\<exists>!cs. walk ?m (m_root ?m) cs = Some n"
    then obtain cs where w: "walk ?m (m_root ?m) cs = Some n" by blast
    obtain d where "m_nodes ?m n = Some d" by (rule walk_node [OF ok w])
    then show "m_nodes ?m n \<noteq> None" by simp
  qed
  moreover have "\<not> m_dangling (sys_state (fold (fs_apply (mem_vtable al)) (take k rs) ?s))" for k
    using assms(2) mem_run_dangling [of "fold (fs_apply (mem_vtable al)) (take k rs) ?s" al "drop k rs"]
    by (metis append_take_drop_id comp_apply fold_append)
  ultimately show ?thesis using t unfolding Let_def by blast
qed

definition demo_reqs :: "fs_req list" where
  "demo_reqs = [Req_mkdir ''/d'' 0, Req_open ''/d/f'' 0x42 0, Req_rename ''/d'' ''/e'', Req_unlink ''/e/f'']"

lemma demo_reqs_ok:
  "list_all (\<lambda>r. list_all mem_path (req_targets r) \<and> list_all (\<lambda>p. length (split_path p) \<le> 256) (req_paths r)) demo_reqs"
  "\<not> m_dangling (sys_state (fold (fs_apply (mem_vtable (\<lambda>n. True))) demo_reqs \<lparr> sys_errno = EIO, sys_state = mem_create 0 \<rparr>))"
  by code_simp+

theorem mem_tree_invariant_witness:
  "tree_ok (sys_state (fold (fs_apply (mem_vtable (\<lambda>n. True))) demo_reqs \<lparr> sys_errno = EIO, sys_state = mem_create 0 \<rparr>))"
  using mem_tree_invariant [OF demo_reqs_ok] unfolding Let_def by blast

text \<open>C22: The operations on names of the in-memory backend implement the abstract file system, a map from
  paths to files: with the same error where the abstract operation fails, leaving everything
  unchanged, and with the abstract result seen through every path otherwise. In particular a rename moves everything
  below the old path to below the new one and changes nothing else.\<close>

theorem mem_refines_spec:
  assumes "mem_ok (sys_state s)" "mem_path p" "mem_path q"
  shows "op_refines s (mem_mkdir al p mode s)
      (spec_mkdir (al MNODE_SIZE) (m_clock (sys_state s)) (split_path p) mode (mem_abs (sys_state s))) \<and>
    op_refines s (mem_rmdir p s) (spec_rmdir (split_path p) (mem_abs (sys_state s))) \<and>
    op_refines s (mem_unlink p s) (spec_unlink (split_path p) (mem_abs (sys_state s))) \<and>
    op_refines s (mem_rename p q s) (spec_rename (split_path p) (split_path q) (mem_abs (sys_state s))) \<and>
    op_refines s (mem_chmod p mode s) (spec_chmod (split_path p) mode (mem_abs (sys_state s))) \<and>
    op_refines s (mem_utimes p t s) (spec_utimes (split_path p) t (mem_abs (sys_state s)))"
  by (intro conjI mkdir_refines rmdir_refines unlink_refines rename_refines chmod_refines utimes_refines assms)

theorem mem_refines_spec_witness:
  "mem_abs (sys_state (snd (mem_mkdir (\<lambda>n. True) ''/d'' 0 \<lparr> sys_errno = EIO, sys_state = mem_create 5 \<rparr>))) [''d''] =
     Some (0x41ED, 5, [])"
proof -
  let ?s = "\<lparr> sys_errno = EIO, sys_state = mem_create 5 \<rparr>"
  have p: "mem_path ''/d''" and q: "mem_path ''/e''" by code_simp+
  have sp: "spec_mkdir True (m_clock (mem_create 5)) (split_path ''/d'') 0 (mem_abs (mem_create 5)) =
      Inr ((mem_abs (mem_create 5))([''d''] \<mapsto> (0x41ED, 5, [])))"
  proof -
    have s: "split_path ''/d'' = [''d'']" by code_simp
    have a: "mem_abs (mem_create 5) [''d''] = None" by code_simp
    show ?thesis unfolding s by (simp add: spec_mkdir_def spec_parent_def a, simp add: mem_create_def)
  qed
  have "op_refines ?s (mem_mkdir (\<lambda>n. True) ''/d'' 0 ?s)
      (spec_mkdir True (m_clock (mem_create 5)) (split_path ''/d'') 0 (mem_abs (mem_create 5)))"
    using mem_refines_spec [of ?s "''/d''" "''/e''" "\<lambda>n. True" 0] p q by simp
  then show ?thesis unfolding sp by (simp add: op_refines_def)
qed

end
