(* ===== verification/Transfer_Run.thy ===== *)
theory Transfer_Run
  imports Transfer_Correct Fs_Mem_Spec
begin

text \<open>
  Whole transfers: what a run of the worker that reports success has done, from connecting the data
  channel to the final byte count. The statements are proved over the contract \<open>file_backend\<close> and
  instantiated with the in-memory backend.
\<close>

section \<open>A successful run\<close>

text \<open>The parts of a job that name its task; connecting and progress leave them alone.\<close>

definition same_task :: "job \<Rightarrow> job \<Rightarrow> bool" where
  "same_task j j' \<longleftrightarrow> j_op j' = j_op j \<and> j_path j' = j_path j \<and> j_dst j' = j_dst j \<and> j_rest j' = j_rest j"

lemma same_task_refl [simp]: "same_task j j"
  by (simp add: same_task_def)

lemma connect_task: "same_task j (snd (opftp_datachan_connect_job ce a j))"
  by (auto simp: opftp_datachan_connect_job_def same_task_def Let_def split: prod.split option.split sum.split)

text \<open>Only the connection and the TLS session have changed.\<close>

definition net_only :: "('x, 'n) wst \<Rightarrow> ('x, 'n) wst \<Rightarrow> bool" where
  "net_only w w' \<longleftrightarrow> w_job w' = w_job w \<and> w_bytes w' = w_bytes w \<and> w_sys w' = w_sys w \<and> w_sent w' = w_sent w \<and>
     w_rcvd w' = w_rcvd w"

lemma tls_setup_frame:
  assumes "data_tls_setup e w = Some (rc, w')"
  shows "net_only w w'"
proof (cases "we_has_tls e")
  case False
  with assms show ?thesis by (auto simp: data_tls_setup_def net_only_def)
next
  case True
  obtain r n where r: "net_call (we_tls_create e (j_data_fd (w_job w))) w = (r, w\<lparr> w_net := n \<rparr>)" by (simp add: net_call_def)
  show ?thesis
  proof (cases r)
    case None
    with assms True r show ?thesis by (auto simp: data_tls_setup_def net_only_def)
  next
    case (Some t)
    from assms True r Some have l: "iterate (\<lambda>w. Some (tls_setup_step e t w)) (w\<lparr> w_net := n, w_tls := Some t \<rparr>) = Some (rc, w')"
      by (simp add: data_tls_setup_def)
    have "(\<lambda>(rc :: rc, w1). net_only w w1) (rc, w')"
      by (rule iterate_rule [where I = "net_only w", OF l])
        (auto simp: tls_setup_step_def net_only_def split: prod.splits bool.splits handshake_result.splits if_splits
          dest!: call_upds)
    then show ?thesis by simp
  qed
qed

lemma close_notify_frame: "net_only w (close_notify_loop k e t w)"
proof (induction k arbitrary: w)
  case (Suc k)
  obtain r n where r: "net_call (we_close_notify e t) w = (r, w\<lparr> w_net := n \<rparr>)" by (simp add: net_call_def)
  let ?ev = "if r = Hs_want_write then POLLOUT else POLLIN"
  obtain b n' where b: "net_call (we_poll_one e (j_data_fd (w_job w)) ?ev) (w\<lparr> w_net := n \<rparr>) = (b, w\<lparr> w_net := n' \<rparr>)"
    by (simp add: net_call_def)
  show ?case using Suc [of "w\<lparr> w_net := n' \<rparr>"] r b by (simp add: net_only_def)
qed (simp add: net_only_def)

lemma finish_frame:
  "w_sent (transfer_finish e rc w) = w_sent w" "w_rcvd (transfer_finish e rc w) = w_rcvd w"
  "w_sys (transfer_finish e rc w) = w_sys w" "j_result (w_job (transfer_finish e rc w)) = rc"
  "j_bytes (w_job (transfer_finish e rc w)) = w_bytes w"
  using close_notify_frame [of w 50 e "the (w_tls w)"]
  by (auto simp: transfer_finish_def Let_def net_only_def split: option.split)

text \<open>A run that reports success has been through the transfer loop with the task it was given.\<close>

lemma run_result:
  assumes "opftp_transfer_run e j s n = Some w'" "j_result (w_job w') = None"
  obtains w0 w1 where "transfer_switch e w0 = Some (None, w1)" "w_sys w0 = s" "w_bytes w0 = 0" "w_sent w0 = []"
    "w_rcvd w0 = []" "same_task j (w_job w0)"
    "w_sent w' = w_sent w1" "w_rcvd w' = w_rcvd w1" "w_sys w' = w_sys w1" "j_bytes (w_job w') = w_bytes w1"
proof -
  define c where "c = (if j_op j \<noteq> OPFTP_JOB_COPY then opftp_datachan_connect_job (we_conn e) (we_allow_foreign_port e) j
    else (None, j))"
  obtain rc0 j0 where c0: "c = (rc0, j0)" by fastforce
  have task: "same_task j j0"
    using c0 connect_task [of j "we_conn e" "we_allow_foreign_port e"] by (auto simp: c_def split: if_splits)
  let ?w = "(worker_start j s n)\<lparr> w_job := j0 \<rparr>"
  have run: "opftp_transfer_run e j s n = (if rc0 \<noteq> None then Some (transfer_finish e rc0 ?w)
      else Option.bind (if j_need_tls j then data_tls_setup e ?w else Some (None, ?w))
             (\<lambda>(rc, w). if rc \<noteq> None then Some (transfer_finish e rc w)
                else Option.bind (transfer_switch e w) (\<lambda>(rc, w). Some (transfer_finish e rc w))))"
    using c0 by (auto simp: opftp_transfer_run_def c_def worker_start_def Let_def split: prod.split if_splits)
  with assms have rc0: "rc0 = None" by (cases rc0) (auto simp: finish_frame)
  define x where "x = (if j_need_tls j then data_tls_setup e ?w else Some (None, ?w))"
  let ?F = "\<lambda>(rc, w). if rc \<noteq> None then Some (transfer_finish e rc w)
    else Option.bind (transfer_switch e w) (\<lambda>(rc, w). Some (transfer_finish e rc w))"
  have x: "Option.bind x ?F = Some w'" using run assms(1) rc0 by (simp add: x_def)
  then obtain rc1 w1 where t: "x = Some (rc1, w1)" by (cases x) auto
  have n: "net_only ?w w1"
    using t tls_setup_frame [of e ?w rc1 w1] by (auto simp: x_def net_only_def split: if_splits)
  from x t assms(2) have rc1: "rc1 = None" by (cases rc1) (auto simp: finish_frame)
  with x t obtain rc2 w2 where w2: "transfer_switch e w1 = Some (rc2, w2)" "w' = transfer_finish e rc2 w2"
    by (auto simp: bind_eq_Some_conv)
  with assms(2) have "rc2 = None" by (simp add: finish_frame)
  with that [of w1 w2] w2 n task show thesis by (simp add: finish_frame net_only_def worker_start_def)
qed

section \<open>Downloads, uploads and copies\<close>

context file_backend
begin

lemma run_download:
  assumes "opftp_transfer_run e j s n = Some w'" "j_result (w_job w') = None" "we_fs e = fs" "ok (sys_state s)"
    "path_ok (j_path j)" "j_op j = OPFTP_JOB_RETR"
  shows "\<exists>d. contents (sys_state s) (j_path j) = Some d \<and> w_sent w' = drop (unat (j_rest j)) d \<and>
    j_bytes (w_job w') = of_nat (length d - unat (j_rest j))"
proof -
  obtain w0 w1 where r: "transfer_switch e w0 = Some (None, w1)" "w_sys w0 = s" "w_bytes w0 = 0" "w_sent w0 = []"
    "w_rcvd w0 = []" "same_task j (w_job w0)"
    "w_sent w' = w_sent w1" "w_rcvd w' = w_rcvd w1" "w_sys w' = w_sys w1" "j_bytes (w_job w') = w_bytes w1"
    by (rule run_result [OF assms(1,2)])
  from r(1,6) assms(6) have "transfer_retr e w0 = Some (None, w1)" by (simp add: transfer_switch_def same_task_def)
  from transfer_retr_result [OF assms(3) _ _ this] r assms(4,5) show ?thesis by (auto simp: same_task_def)
qed

lemma run_upload:
  assumes "opftp_transfer_run e j s n = Some w'" "j_result (w_job w') = None" "we_fs e = fs" "ok (sys_state s)"
    "path_ok (j_path j)" "j_op j \<in> {OPFTP_JOB_STOR, OPFTP_JOB_APPE}"
  shows "ok (fsx w') \<and>
    contents (fsx w') (j_path j) =
      Some (stored j (case contents (sys_state s) (j_path j) of Some d \<Rightarrow> d | None \<Rightarrow> []) (w_rcvd w')) \<and>
    j_bytes (w_job w') = of_nat (length (w_rcvd w'))"
proof -
  obtain w0 w1 where r: "transfer_switch e w0 = Some (None, w1)" "w_sys w0 = s" "w_bytes w0 = 0" "w_sent w0 = []"
    "w_rcvd w0 = []" "same_task j (w_job w0)"
    "w_sent w' = w_sent w1" "w_rcvd w' = w_rcvd w1" "w_sys w' = w_sys w1" "j_bytes (w_job w') = w_bytes w1"
    by (rule run_result [OF assms(1,2)])
  from r(1,6) assms(6) have t: "transfer_stor e w0 = Some (None, w1)" by (auto simp: transfer_switch_def same_task_def)
  have "stored (w_job w0) = stored j" using r(6) by (intro ext) (simp add: stored_def same_task_def)
  with transfer_stor_result [OF assms(3) _ _ _ t] r assms(4-6) show ?thesis by (auto simp: same_task_def)
qed

lemma run_copy:
  assumes "opftp_transfer_run e j s n = Some w'" "j_result (w_job w') = None" "we_fs e = fs" "ok (sys_state s)"
    "path_ok (j_path j)" "path_ok (j_dst j)" "j_op j = OPFTP_JOB_COPY"
    "\<And>st s1. fs_stat fs (j_path j) s = (Some st, s1) \<Longrightarrow> \<not> mode_is_dir (st_mode st)"
  shows "\<exists>d. contents (sys_state s) (j_path j) = Some d \<and> contents (fsx w') (j_path j) = Some d \<and>
    contents (fsx w') (j_dst j) = Some d \<and> ok (fsx w') \<and> j_bytes (w_job w') = of_nat (length d)"
proof -
  obtain w0 w1 where r: "transfer_switch e w0 = Some (None, w1)" "w_sys w0 = s" "w_bytes w0 = 0" "w_sent w0 = []"
    "w_rcvd w0 = []" "same_task j (w_job w0)"
    "w_sent w' = w_sent w1" "w_rcvd w' = w_rcvd w1" "w_sys w' = w_sys w1" "j_bytes (w_job w') = w_bytes w1"
    by (rule run_result [OF assms(1,2)])
  from r(1,6) assms(7) have t: "transfer_copy e w0 = Some (None, w1)" by (simp add: transfer_switch_def same_task_def)
  have task: "j_path (w_job w0) = j_path j" "j_dst (w_job w0) = j_dst j" using r(6) by (simp_all add: same_task_def)
  from t have ne: "j_path j \<noteq> j_dst j" by (auto simp: transfer_copy_def task split: if_splits)
  obtain st s1 where st: "fs_stat fs (j_path j) s = (st, s1)" by fastforce
  then have f: "fs_call (fs_stat (we_fs e) (j_path j)) w0 = (st, w0\<lparr> w_sys := s1 \<rparr>)" using r(2) assms(3) by (simp add: fs_call_def)
  from t f ne obtain st' where st': "st = Some st'" by (cases st) (auto simp: transfer_copy_def task)
  let ?w = "w0\<lparr> w_sys := s1, w_job := (w_job w0)\<lparr> j_total := st_size st' \<rparr> \<rparr>"
  have cf: "copy_file e (j_path j) (j_dst j) ?w = Some (None, w1)"
    using t f ne st' assms(8) [OF st [unfolded st']] by (simp add: transfer_copy_def task)
  have s1: "sys_state s1 = sys_state s" using stat_law [OF assms(4), of "j_path j"] st by simp
  from copy_file_result [OF assms(3) _ assms(5,6) ne cf] assms(4) s1 r show ?thesis by simp
qed

end

end
