(* ===== verification/Transfer_Live.thy ===== *)
theory Transfer_Live
  imports Transfer_Run
begin

text \<open>
  When transfers end. A connection is live when only finitely many waits on it end without its
  becoming ready, only finitely many ready calls would block after all, and the peer sends finitely
  many chunks: a measure of the outside decreases with each of these and never grows. On a live
  connection downloads and uploads end. A cancelled worker ends at the next check, whatever the
  connection does.
\<close>

unbundle bit_operations_syntax

section \<open>Live connections\<close>

definition poll_ready :: "poll_events \<Rightarrow> errno + (poll_events \<times> poll_events) option \<Rightarrow> bool" where
  "poll_ready ev r \<longleftrightarrow>
     (case r of
        Inr (Some (r0, r1)) \<Rightarrow> r0 AND ev \<noteq> 0 \<and> r1 AND (POLLIN OR POLLERR OR POLLHUP) = 0
      | _ \<Rightarrow> False)"

definition send_stalls :: "errno + nat \<Rightarrow> bool" where
  "send_stalls r \<longleftrightarrow> (case r of Inl err \<Rightarrow> would_block err | Inr k \<Rightarrow> False)"

definition recv_moves :: "errno + string \<Rightarrow> bool" where
  "recv_moves r \<longleftrightarrow> (case r of Inl err \<Rightarrow> would_block err | Inr bs \<Rightarrow> bs \<noteq> [])"

text \<open>The measure does not grow, and shrinks when \<open>b\<close> holds.\<close>

definition spends :: "('n \<Rightarrow> nat) \<Rightarrow> bool \<Rightarrow> 'n \<Rightarrow> 'n \<Rightarrow> bool" where
  "spends \<mu> b n n' \<longleftrightarrow> (if b then \<mu> n' < \<mu> n else \<mu> n' \<le> \<mu> n)"

definition live_net :: "('n \<Rightarrow> nat) \<Rightarrow> ('x, 'n) wenv \<Rightarrow> bool" where
  "live_net \<mu> e \<longleftrightarrow>
     (\<forall>n. spends \<mu> False n (snd (we_cancelled e n))) \<and> (\<forall>n. spends \<mu> False n (snd (we_malloc e n))) \<and>
     (\<forall>fd ev n. ev \<noteq> 0 \<longrightarrow> spends \<mu> (\<not> poll_ready ev (fst (we_poll e fd ev n))) n (snd (we_poll e fd ev n))) \<and>
     (\<forall>fd bs n. spends \<mu> (send_stalls (fst (we_send e fd bs n))) n (snd (we_send e fd bs n))) \<and>
     (\<forall>fd k n. spends \<mu> (recv_moves (fst (we_recv e fd k n))) n (snd (we_recv e fd k n)))"

lemma live_netD:
  assumes "live_net \<mu> e"
  shows "job_cancelled e w = (c, w') \<Longrightarrow> spends \<mu> False (w_net w) (w_net w')"
    "net_call (we_malloc e) w = (m, w') \<Longrightarrow> spends \<mu> False (w_net w) (w_net w')"
    "net_call (we_poll e fd ev) w = (p, w') \<Longrightarrow> ev \<noteq> 0 \<Longrightarrow> spends \<mu> (\<not> poll_ready ev p) (w_net w) (w_net w')"
    "net_call (we_send e fd bs) w = (r, w') \<Longrightarrow> spends \<mu> (send_stalls r) (w_net w) (w_net w')"
    "net_call (we_recv e fd k) w = (x, w') \<Longrightarrow> spends \<mu> (recv_moves x) (w_net w) (w_net w')"
  using assms by (auto simp: live_net_def job_cancelled_def net_call_def)

lemma spends_le: "spends \<mu> b n n' \<Longrightarrow> \<mu> n' \<le> \<mu> n"
  by (auto simp: spends_def split: if_splits)

lemma spends_trans: "spends \<mu> b n n' \<Longrightarrow> spends \<mu> c n' n'' \<Longrightarrow> spends \<mu> (b \<or> c) n n''"
  by (auto simp: spends_def split: if_splits)

lemma spends_weaken: "spends \<mu> b n n' \<Longrightarrow> (c \<Longrightarrow> b) \<Longrightarrow> spends \<mu> c n n'"
  by (auto simp: spends_def split: if_splits)

lemma spends_refl [simp]: "spends \<mu> False n n"
  by (simp add: spends_def)

lemma live_wait:
  assumes "live_net \<mu> e" "wait_fd e ev w = (x, w')" "ev \<noteq> 0"
  shows "spends \<mu> (x = Some EAGAIN) (w_net w) (w_net w')"
proof -
  obtain r w1 where r: "net_call (we_poll e (j_data_fd (w_job w)) ev) w = (r, w1)" by fastforce
  have "spends \<mu> False (w_net w1) (w_net w')"
    using assms(2) r by (auto simp: wait_fd_def split: sum.splits option.splits prod.splits if_splits
        dest: live_netD(1) [OF assms(1)])
  moreover have "x = Some EAGAIN \<Longrightarrow> \<not> poll_ready ev r"
    using assms(2) r by (auto simp: wait_fd_def poll_ready_def split: sum.splits option.splits prod.splits if_splits)
  ultimately show ?thesis
    using spends_trans [OF live_netD(3) [OF assms(1) r assms(3)]] by (blast intro: spends_weaken)
qed

lemma live_send:
  assumes "live_net \<mu> e" "data_send e bs w = (r, w')"
  shows "spends \<mu> (send_stalls r) (w_net w) (w_net w')"
proof -
  obtain r1 w1 where r1: "net_call (we_send e (j_data_fd (w_job w)) bs) w = (r1, w1)" by fastforce
  then have "r = r1" "w_net w' = w_net w1" using assms(2) by (auto simp: data_send_def split: sum.splits)
  with live_netD(4) [OF assms(1) r1] show ?thesis by simp
qed

text \<open>A pass of \<open>send_all\<close> that goes on has sent something or used up some of the measure.\<close>

lemma live_send_step:
  assumes "live_net \<mu> e" "w_tls w = None" "send_step e (rest, w) = x"
  shows "case x of Return (rc, w') \<Rightarrow> \<mu> (w_net w') \<le> \<mu> (w_net w)
    | Continue (rest', w') \<Rightarrow> \<mu> (w_net w') \<le> \<mu> (w_net w) \<and> w_tls w' = None \<and>
        length rest' + \<mu> (w_net w') < length rest + \<mu> (w_net w)"
proof -
  obtain c w1 where c: "job_cancelled e w = (c, w1)" by fastforce
  obtain y w2 where y: "wait_fd e POLLOUT w1 = (y, w2)" by fastforce
  obtain r w3 where r: "data_send e rest w2 = (r, w3)" by fastforce
  have tls: "w_tls w1 = None" "w_tls w2 = None" "w_tls w3 = None"
    using assms(2) c y r by (auto dest!: call_upds)
  note l = live_netD(1) [OF assms(1) c] live_wait [OF assms(1) y, simplified] live_send [OF assms(1) r]
  note le = l [THEN spends_le]
  show ?thesis
  proof (cases "rest = [] \<or> c \<or> y \<noteq> None")
    case True
    with assms(3) c y tls l le show ?thesis by (auto simp: send_step_def spends_def split: bool.splits if_splits)
  next
    case False
    then have f: "rest \<noteq> []" "\<not> c" "y = None" by auto
    show ?thesis
    proof (cases r)
      case (Inl err)
      with assms(3) c y r f tls l le show ?thesis
        by (auto simp: send_step_def spends_def send_stalls_def split: if_splits)
    next
      case (Inr k)
      show ?thesis
      proof (cases "k > 0")
        case True
        with f(1) have "length (drop k rest) < length rest" by (cases rest) auto
        then have "length (drop k rest) + \<mu> (w_net w3) < length rest + \<mu> (w_net w)" using le by linarith
        with True Inr assms(3) c y r f tls le show ?thesis by (auto simp: send_step_def)
      next
        case False
        with Inr assms(3) c y r f tls le show ?thesis by (auto simp: send_step_def)
      qed
    qed
  qed
qed

lemma send_all_live:
  assumes "live_net \<mu> e" "w_tls w = None"
  shows "\<exists>rc w'. send_all e bs w = Some (rc, w') \<and> \<mu> (w_net w') \<le> \<mu> (w_net w)"
proof -
  let ?I = "\<lambda>(r, w1). w_tls w1 = None \<and> \<mu> (w_net w1) \<le> \<mu> (w_net w)"
  have ex: "\<exists>r. iterate (\<lambda>s. Some (send_step e s)) (bs, w) = Some r"
  proof (rule iterate_total [where I = ?I and \<mu> = "\<lambda>(r, w1). length r + \<mu> (w_net w1)"])
    fix s s' assume s: "?I s" "Some (send_step e s) = Some (Continue s')"
    obtain r1 w1 r2 w2 where p: "s = (r1, w1)" "s' = (r2, w2)" by fastforce
    show "?I s' \<and> (case s' of (r, w1) \<Rightarrow> length r + \<mu> (w_net w1)) < (case s of (r, w1) \<Rightarrow> length r + \<mu> (w_net w1))"
      using live_send_step [OF assms(1), of w1 r1] s by (auto simp: p)
  qed (use assms(2) in auto)
  then obtain rc w' where r: "iterate (\<lambda>s. Some (send_step e s)) (bs, w) = Some (rc, w')" by auto
  have "(\<lambda>(rc :: rc, w'). \<mu> (w_net w') \<le> \<mu> (w_net w)) (rc, w')"
  proof (rule iterate_rule [where I = ?I, OF r])
    fix s s' assume s: "?I s" "Some (send_step e s) = Some (Continue s')"
    obtain r1 w1 r2 w2 where p: "s = (r1, w1)" "s' = (r2, w2)" by fastforce
    show "?I s'" using live_send_step [OF assms(1), of w1 r1] s by (auto simp: p)
  next
    fix s x assume s: "?I s" "Some (send_step e s) = Some (Return x)"
    obtain r1 w1 rc w2 where p: "s = (r1, w1)" "x = (rc, w2)" by fastforce
    show "case x of (rc, w') \<Rightarrow> \<mu> (w_net w') \<le> \<mu> (w_net w)"
      using live_send_step [OF assms(1), of w1 r1] s by (auto simp: p)
  qed (use assms(2) in simp)
  with r show ?thesis by (auto simp: send_all_def)
qed

section \<open>Downloads end\<close>

lemma retr_step_tls: "retr_step e fd w = Some (Continue w') \<Longrightarrow> w_tls w' = w_tls w"
  by (auto simp: retr_step_def sent_more_def split: prod.splits bool.splits option.splits if_splits
      dest!: cancelled_upd fs_call_upd send_all_result)

lemma retr_step_live:
  assumes "live_net \<mu> e" "w_tls w = None"
  shows "\<exists>x. retr_step e fd w = Some x"
proof -
  obtain c w1 where c: "job_cancelled e w = (c, w1)" by fastforce
  obtain r w2 where r: "fs_call (fs_read (we_fs e) fd TRANSFER_BUF) w1 = (r, w2)" by fastforce
  have "w_tls w2 = None" using assms(2) c r by (auto dest!: call_upds)
  from send_all_live [OF assms(1) this] show ?thesis
    using c r by (cases c; cases r) (fastforce simp: retr_step_def)+
qed

context file_backend
begin

lemma retr_loop_live:
  fixes w :: "('x, 'n) wst"
  assumes "live_net \<mu> e" "we_fs e = fs" "ok (fsx w)" "cur (fsx w) fd = Some (d, pos)" "w_tls w = None"
  shows "\<exists>r. iterate (retr_step e fd) w = Some r"
proof (rule iterate_total [where I = "\<lambda>w1 :: ('x, 'n) wst. ok (fsx w1) \<and> w_tls w1 = None \<and> (\<exists>pos. cur (fsx w1) fd = Some (d, pos))"
      and \<mu> = "\<lambda>w1 :: ('x, 'n) wst. length d - snd (the (cur (fsx w1) fd))"])
  show "ok (fsx w) \<and> w_tls w = None \<and> (\<exists>pos. cur (fsx w) fd = Some (d, pos))" using assms(3-5) by simp
next
  fix w1 :: "('x, 'n) wst" assume "ok (fsx w1) \<and> w_tls w1 = None \<and> (\<exists>pos. cur (fsx w1) fd = Some (d, pos))"
  then show "\<exists>x. retr_step e fd w1 = Some x" using retr_step_live [OF assms(1)] by blast
next
  fix w1 w2 :: "('x, 'n) wst" assume i: "ok (fsx w1) \<and> w_tls w1 = None \<and> (\<exists>pos. cur (fsx w1) fd = Some (d, pos))"
    and s: "retr_step e fd w1 = Some (Continue w2)"
  from i obtain pos where p: "ok (fsx w1)" "cur (fsx w1) fd = Some (d, pos)" by blast
  from assms(2) p s show "(ok (fsx w2) \<and> w_tls w2 = None \<and> (\<exists>pos. cur (fsx w2) fd = Some (d, pos))) \<and>
      length d - snd (the (cur (fsx w2) fd)) < length d - snd (the (cur (fsx w1) fd))"
    using retr_step_tls [OF s] i by (cases rule: retr_step_cases) (auto simp: p(2))
qed

lemma transfer_retr_live:
  assumes "live_net \<mu> e" "we_fs e = fs" "ok (fsx w)" "path_ok (j_path (w_job w))" "w_tls w = None"
  shows "\<exists>r. transfer_retr e w = Some r"
proof -
  let ?p = "j_path (w_job w)"
  obtain r s1 where r: "fs_open fs ?p OPFTP_O_RDONLY 0 (w_sys w) = (r, s1)" by fastforce
  have f: "fs_call (fs_open (we_fs e) ?p OPFTP_O_RDONLY 0) w = (r, w\<lparr> w_sys := s1 \<rparr>)"
    using r assms(2) by (simp add: fs_call_def)
  show ?thesis
  proof (cases r)
    case None
    with f show ?thesis by (simp add: transfer_retr_def)
  next
    case (Some fd)
    with r open_read [OF assms(3,4), of 0 fd s1] obtain d where
      o: "ok (sys_state s1)" "cur (sys_state s1) fd = Some (d, 0)" by auto
    obtain s2 j where t: "retr_total e fd (w\<lparr> w_sys := s1 \<rparr>) = w\<lparr> w_sys := s2, w_job := j \<rparr>" and
      s2: "sys_state s2 = sys_state s1"
      by (rule retr_total_result [OF assms(2), of "w\<lparr> w_sys := s1 \<rparr>" fd "(d, 0)"]) (auto simp: o)
    let ?w2 = "w\<lparr> w_sys := s2, w_job := j \<rparr>"
    obtain b w3 where b: "(if j_rest j > 0 then seek_rest e fd ?w2 else (True, ?w2)) = (b, w3)" by fastforce
    obtain m w4 where m: "net_call (we_malloc e) w3 = (m, w4)" by fastforce
    show ?thesis
    proof (cases "b \<and> m")
      case False
      with f Some t b m show ?thesis by (cases b; cases m) (simp_all add: transfer_retr_def)
    next
      case True
      have "ok (fsx w3) \<and> (\<exists>p. cur (fsx w3) fd = Some (d, p)) \<and> w_tls w3 = None"
      proof (cases "j_rest j > 0")
        case True
        with b \<open>b \<and> m\<close> have "seek_rest e fd ?w2 = (True, w3)" by simp
        then show ?thesis
          using o s2 assms(5) by (elim seek_rest_result [OF assms(2), of ?w2 fd d 0, rotated 2]) auto
      next
        case False
        with b o s2 assms(5) show ?thesis by auto
      qed
      then obtain p where "ok (fsx w4)" "cur (fsx w4) fd = Some (d, p)" "w_tls w4 = None"
        using m by (auto simp: net_call_def)
      from retr_loop_live [OF assms(1,2) this] obtain x where "iterate (retr_step e fd) w4 = Some x" by blast
      with f Some t b m True show ?thesis by (cases x) (simp add: transfer_retr_def)
    qed
  qed
qed

end

section \<open>Uploads end\<close>

lemma live_recv:
  assumes "live_net \<mu> e" "w_tls w = None" "recv_some e k w = (r, w')"
  shows "spends \<mu> (r = Inl EAGAIN \<or> (\<exists>bs. r = Inr bs \<and> bs \<noteq> [])) (w_net w) (w_net w')"
proof -
  obtain c w1 where c: "job_cancelled e w = (c, w1)" by fastforce
  obtain x w2 where x: "wait_fd e POLLIN w1 = (x, w2)" by fastforce
  obtain y w3 where y: "net_call (we_recv e (j_data_fd (w_job w2)) k) w2 = (y, w3)" by fastforce
  have tls: "w_tls w1 = None" using assms(2) c by (auto dest!: call_upds)
  note l = live_netD(1) [OF assms(1) c] live_wait [OF assms(1) x, simplified] live_netD(5) [OF assms(1) y]
  note le = l [THEN spends_le]
  show ?thesis
  proof (cases "c \<or> x \<noteq> None")
    case True
    with assms(3) c x tls l le show ?thesis by (auto simp: recv_some_def spends_def split: if_splits)
  next
    case False
    with assms(3) c x y tls l le show ?thesis
      by (cases y) (auto simp: recv_some_def spends_def recv_moves_def rcvd_def would_block_def split: if_splits)
  qed
qed

lemma stor_step_live:
  assumes "live_net \<mu> e" "w_tls w = None" "stor_step e fd w = Continue w'"
  shows "w_tls w' = None \<and> \<mu> (w_net w') < \<mu> (w_net w)"
proof -
  obtain c w1 where c: "job_cancelled e w = (c, w1)" by fastforce
  obtain r w2 where r: "recv_some e TRANSFER_BUF w1 = (r, w2)" by fastforce
  have tls: "w_tls w1 = None" "w_tls w2 = None" using assms(2) c r by (auto dest!: call_upds)
  have le: "\<mu> (w_net w1) \<le> \<mu> (w_net w)" by (rule spends_le [OF live_netD(1) [OF assms(1) c]])
  have lt: "\<mu> (w_net w2) < \<mu> (w_net w1)" if "r = Inl EAGAIN \<or> (\<exists>bs. r = Inr bs \<and> bs \<noteq> [])"
    using live_recv [OF assms(1) tls(1) r] that by (simp add: spends_def)
  from assms(3) c have "\<not> c" by (auto simp: stor_step_def)
  show ?thesis
  proof (cases r)
    case (Inl err)
    with assms(3) c r \<open>\<not> c\<close> le lt tls show ?thesis by (auto simp: stor_step_def split: if_splits)
  next
    case (Inr bs)
    obtain rc w3 where w3: "fs_write_all e fd bs w2 = (rc, w3)" by fastforce
    obtain s where s: "w3 = w2\<lparr> w_sys := s \<rparr>" using fs_write_all_frame [OF w3] by blast
    from Inr assms(3) c r \<open>\<not> c\<close> w3 have "bs \<noteq> []" "w' = count_bytes (length bs) w3"
      by (auto simp: stor_step_def split: if_splits)
    with Inr lt le tls s show ?thesis by simp
  qed
qed

lemma stor_loop_live:
  assumes "live_net \<mu> e" "w_tls w = None"
  shows "\<exists>r. iterate (\<lambda>w. Some (stor_step e fd w)) w = Some r"
  by (rule iterate_total [where I = "\<lambda>w. w_tls w = None" and \<mu> = "\<lambda>w. \<mu> (w_net w)"])
    (use assms(2) stor_step_live [OF assms(1)] in auto)

lemma transfer_stor_live:
  assumes "live_net \<mu> e" "w_tls w = None"
  shows "\<exists>r. transfer_stor e w = Some r"
proof -
  let ?j = "w_job w"
  obtain r w1 where r: "fs_call (fs_open (we_fs e) (j_path ?j) (stor_flags ?j) 0x1A4) w = (r, w1)" by fastforce
  show ?thesis
  proof (cases r)
    case None
    with r show ?thesis by (simp add: transfer_stor_def Let_def)
  next
    case (Some fd)
    obtain b w2 where b: "(if j_rest ?j > 0 \<and> j_op ?j = OPFTP_JOB_STOR then seek_rest e fd w1 else (True, w1)) = (b, w2)"
      by fastforce
    obtain m w3 where m: "net_call (we_malloc e) w2 = (m, w3)" by fastforce
    have "w_tls w3 = None"
      using assms(2) r b m by (auto simp: seek_rest_def split: if_splits prod.splits dest!: call_upds)
    from stor_loop_live [OF assms(1) this, of fd] obtain x where "iterate (\<lambda>w. Some (stor_step e fd w)) w3 = Some x"
      by blast
    with r Some b m show ?thesis by (cases b; cases m; cases x) (simp_all add: transfer_stor_def Let_def)
  qed
qed

section \<open>Cancelled workers end\<close>

text \<open>The transfer fails, and nothing crosses the data connection.\<close>

definition gives_up :: "('x, 'n) wst \<Rightarrow> (rc \<times> ('x, 'n) wst) option \<Rightarrow> bool" where
  "gives_up w r \<longleftrightarrow> (\<exists>err w'. r = Some (Some err, w') \<and> w_sent w' = w_sent w \<and> w_rcvd w' = w_rcvd w)"

lemma fs_call_quiet:
  "fs_call f w = (r, w') \<Longrightarrow> w_sent w' = w_sent w \<and> w_rcvd w' = w_rcvd w \<and> w_job w' = w_job w"
  "net_call g w = (q, w') \<Longrightarrow> w_sent w' = w_sent w \<and> w_rcvd w' = w_rcvd w \<and> w_job w' = w_job w"
  by (auto simp: fs_call_def net_call_def)

lemma seek_rest_quiet: "seek_rest e fd w = (b, w') \<Longrightarrow> w_sent w' = w_sent w \<and> w_rcvd w' = w_rcvd w"
  by (auto simp: seek_rest_def dest!: fs_call_quiet split: prod.splits)

lemma quiet_simps [simp]:
  "w_sent (fs_close_w e fd w) = w_sent w" "w_rcvd (fs_close_w e fd w) = w_rcvd w"
  "w_sent (unlink_new e ex p w) = w_sent w" "w_rcvd (unlink_new e ex p w) = w_rcvd w"
  "w_sent (snd (fs_call f w)) = w_sent w" "w_rcvd (snd (fs_call f w)) = w_rcvd w"
  by (simp_all add: fs_close_w_def unlink_new_def fs_call_def)

lemma retr_total_quiet [simp]:
  "w_sent (retr_total e fd w) = w_sent w" "w_rcvd (retr_total e fd w) = w_rcvd w"
  by (auto simp: retr_total_def fs_call_def split: option.split)

lemma cancelled_always:
  assumes "\<And>n. fst (we_cancelled e n)"
  obtains n where "job_cancelled e w = (True, w\<lparr> w_net := n \<rparr>)"
  using assms by (simp add: job_cancelled_def net_call_def)

lemma flush_cancelled:
  assumes "\<And>n. fst (we_cancelled e n)" "batch \<noteq> [] \<or> rc \<noteq> None"
  shows "gives_up w (list_flush e batch rc w)"
proof (cases "batch = []")
  case True
  with assms(2) show ?thesis by (auto simp: list_flush_def gives_up_def)
next
  case False
  obtain n where "job_cancelled e w = (True, w\<lparr> w_net := n \<rparr>)" by (rule cancelled_always [OF assms(1)])
  with False have "send_all e batch w = Some (Some ECANCELED, w\<lparr> w_net := n \<rparr>)"
    unfolding send_all_def by (intro iterate_return) (simp add: send_step_def)
  with False show ?thesis by (auto simp: list_flush_def gives_up_def)
qed

lemma list_line_nonempty: "list_line e j de = (n, line) \<Longrightarrow> take n line \<noteq> []"
  by (auto simp: list_line_def Let_def opftp_listing_format_mlsd_def opftp_listing_format_def mlsd_line_def listing_line_def
      c_snprintf_def split: if_splits)

lemma list_cancelled:
  assumes "\<And>n. fst (we_cancelled e n)"
  shows "gives_up w (transfer_list e w)"
proof -
  let ?p = "j_path (w_job w)"
  obtain r w1 where r: "fs_call (fs_stat (we_fs e) ?p) w = (r, w1)" by fastforce
  note q1 = fs_call_quiet(1) [OF r]
  obtain d w2 where d: "fs_call (fs_opendir (we_fs e) ?p) w1 = (d, w2)" by fastforce
  note q2 = fs_call_quiet(1) [OF d]
  show ?thesis
  proof (cases r)
    case None
    with r q1 show ?thesis by (auto simp: transfer_list_def gives_up_def)
  next
    case (Some st)
    show ?thesis
    proof (cases "mode_is_dir (st_mode st)")
      case False
      obtain n line where l: "list_line e ((w_job w1)\<lparr> j_nlst := False \<rparr>) (file_entry ?p st) = (n, line)" by fastforce
      have "gives_up w1 (list_flush e (take n line) None w1)"
        using flush_cancelled [OF assms] list_line_nonempty [OF l] by blast
      with r Some False l q1 show ?thesis by (auto simp: transfer_list_def gives_up_def)
    next
      case True
      show ?thesis
      proof (cases d)
        case None
        with r Some True d q1 q2 show ?thesis by (auto simp: transfer_list_def gives_up_def)
      next
        case (Some dir)
        obtain n where "job_cancelled e w2 = (True, w2\<lparr> w_net := n \<rparr>)" by (rule cancelled_always [OF assms])
        then have "iterate (list_step e dir) ([], w2) = Some (Some ECANCELED, [], w2\<lparr> w_net := n \<rparr>)"
          by (intro iterate_return) (simp add: list_step_def)
        with r \<open>r = Some st\<close> True d Some q1 q2 show ?thesis
          by (auto simp: transfer_list_def list_flush_def gives_up_def)
      qed
    qed
  qed
qed

lemma retr_cancelled:
  assumes "\<And>n. fst (we_cancelled e n)"
  shows "gives_up w (transfer_retr e w)"
proof -
  obtain r w1 where r: "fs_call (fs_open (we_fs e) (j_path (w_job w)) OPFTP_O_RDONLY 0) w = (r, w1)" by fastforce
  note q1 = fs_call_quiet(1) [OF r]
  show ?thesis
  proof (cases r)
    case None
    with r q1 show ?thesis by (auto simp: transfer_retr_def gives_up_def)
  next
    case (Some fd)
    let ?w2 = "retr_total e fd w1"
    obtain b w3 where b: "(if j_rest (w_job ?w2) > 0 then seek_rest e fd ?w2 else (True, ?w2)) = (b, w3)" by fastforce
    have q3: "w_sent w3 = w_sent w \<and> w_rcvd w3 = w_rcvd w" using b q1 by (auto split: if_splits dest!: seek_rest_quiet)
    obtain m w4 where m: "net_call (we_malloc e) w3 = (m, w4)" by fastforce
    note q4 = fs_call_quiet(2) [OF m]
    obtain n where "job_cancelled e w4 = (True, w4\<lparr> w_net := n \<rparr>)" by (rule cancelled_always [OF assms])
    then have "iterate (retr_step e fd) w4 = Some (Some ECANCELED, w4\<lparr> w_net := n \<rparr>)"
      by (intro iterate_return) (simp add: retr_step_def)
    with r Some b m q3 q4 show ?thesis
      by (cases b; cases m) (auto simp: transfer_retr_def Let_def gives_up_def)
  qed
qed

lemma stor_cancelled:
  assumes "\<And>n. fst (we_cancelled e n)"
  shows "gives_up w (transfer_stor e w)"
proof -
  let ?j = "w_job w"
  obtain r w1 where r: "fs_call (fs_open (we_fs e) (j_path ?j) (stor_flags ?j) 0x1A4) w = (r, w1)" by fastforce
  note q1 = fs_call_quiet(1) [OF r]
  show ?thesis
  proof (cases r)
    case None
    with r q1 show ?thesis by (auto simp: transfer_stor_def gives_up_def)
  next
    case (Some fd)
    obtain b w3 where b: "(if j_rest ?j > 0 \<and> j_op ?j = OPFTP_JOB_STOR then seek_rest e fd w1 else (True, w1)) = (b, w3)" by fastforce
    have q3: "w_sent w3 = w_sent w \<and> w_rcvd w3 = w_rcvd w" using b q1 by (auto split: if_splits dest!: seek_rest_quiet)
    obtain m w4 where m: "net_call (we_malloc e) w3 = (m, w4)" by fastforce
    note q4 = fs_call_quiet(2) [OF m]
    obtain n where "job_cancelled e w4 = (True, w4\<lparr> w_net := n \<rparr>)" by (rule cancelled_always [OF assms])
    then have "iterate (\<lambda>w. Some (stor_step e fd w)) w4 = Some (Some ECANCELED, w4\<lparr> w_net := n \<rparr>)"
      by (intro iterate_return) (simp add: stor_step_def)
    with r Some b m q3 q4 show ?thesis
      by (cases b; cases m) (auto simp: transfer_stor_def Let_def gives_up_def)
  qed
qed

lemma copy_file_cancelled:
  assumes "\<And>n. fst (we_cancelled e n)"
  shows "gives_up w (copy_file e p q w)"
proof -
  obtain r w1 where r: "fs_call (fs_open (we_fs e) p OPFTP_O_RDONLY 0) w = (r, w1)" by fastforce
  obtain st w2 where st: "fs_call (fs_stat (we_fs e) q) w1 = (st, w2)" by fastforce
  obtain r3 w3 where r3: "fs_call (fs_open (we_fs e) q (OPFTP_O_WRONLY OR OPFTP_O_CREAT OR OPFTP_O_TRUNC) 0x1A4) w2 = (r3, w3)" by fastforce
  obtain m w4 where m: "net_call (we_malloc e) w3 = (m, w4)" by fastforce
  note q = fs_call_quiet(1) [OF r] fs_call_quiet(1) [OF st] fs_call_quiet(1) [OF r3] fs_call_quiet(2) [OF m]
  obtain n where "job_cancelled e w4 = (True, w4\<lparr> w_net := n \<rparr>)" by (rule cancelled_always [OF assms])
  then have "iterate (\<lambda>w. Some (copy_step e inp out w)) w4 = Some (Some ECANCELED, w4\<lparr> w_net := n \<rparr>)" for inp out
    by (intro iterate_return) (simp add: copy_step_def)
  with r st r3 m q show ?thesis
    by (cases r; cases r3; cases m) (auto simp: copy_file_def Let_def gives_up_def)
qed

lemma copy_cancelled:
  assumes "\<And>n. fst (we_cancelled e n)"
  shows "gives_up w (transfer_copy e w)"
proof -
  let ?p = "j_path (w_job w)"
  obtain r w1 where r: "fs_call (fs_stat (we_fs e) ?p) w = (r, w1)" by fastforce
  obtain m w2 where m: "net_call (we_malloc e) w1 = (m, w2)" by fastforce
  note q = fs_call_quiet(1) [OF r] fs_call_quiet(2) [OF m]
  obtain n where "job_cancelled e w2 = (True, w2\<lparr> w_net := n \<rparr>)" by (rule cancelled_always [OF assms])
  then have "iterate (copy_dir e) ([([], 0)], w2) = Some (Some ECANCELED, w2\<lparr> w_net := n \<rparr>)"
    by (intro iterate_return) (simp add: copy_dir_def)
  then have "gives_up w (copy_tree e w1)" using m q by (cases m) (auto simp: copy_tree_def gives_up_def)
  moreover have "gives_up w (copy_file e ?p (j_dst (w_job w)) (w1\<lparr> w_job := (w_job w1)\<lparr> j_total := st_size st \<rparr> \<rparr>))" for st
    using copy_file_cancelled [OF assms, where w = "w1\<lparr> w_job := (w_job w1)\<lparr> j_total := st_size st \<rparr> \<rparr>"] q by (simp add: gives_up_def)
  ultimately show ?thesis
    using r q by (cases r) (auto simp: transfer_copy_def Let_def gives_up_def)
qed

lemma switch_cancelled: "(\<And>n. fst (we_cancelled e n)) \<Longrightarrow> gives_up w (transfer_switch e w)"
  by (cases "j_op (w_job w)")
    (simp_all add: transfer_switch_def list_cancelled retr_cancelled stor_cancelled copy_cancelled)

end
