(* ===== verification/Transfer_Claims.thy ===== *)
theory Transfer_Claims
  imports Transfer_Live "HOL-Library.Code_Target_Nat"
begin

text \<open>
  The properties of whole transfers over the in-memory backend: what a successful download, upload
  and copy have done, that an upload followed by a download returns the bytes, that transfers over a
  live connection end, and that a cancelled transfer ends without touching the connection.
\<close>

section \<open>Runs that end\<close>

text \<open>A run without TLS ends when the transfer loop does.\<close>

lemma run_ends:
  assumes "\<And>j0. same_task j j0 \<Longrightarrow> \<exists>r. transfer_switch e ((worker_start j s n)\<lparr> w_job := j0 \<rparr>) = Some r" "\<not> j_need_tls j"
  shows "\<exists>w'. opftp_transfer_run e j s n = Some w'"
proof -
  define c where "c = (if j_op j \<noteq> OPFTP_JOB_COPY then opftp_datachan_connect_job (we_conn e) (we_allow_foreign_port e) j
    else (None, j))"
  obtain rc0 j0 where c0: "c = (rc0, j0)" by fastforce
  have "same_task j j0"
    using c0 connect_task [of j "we_conn e" "we_allow_foreign_port e"] by (auto simp: c_def split: if_splits)
  from assms(1) [OF this] obtain r where r: "transfer_switch e ((worker_start j s n)\<lparr> w_job := j0 \<rparr>) = Some r" by blast
  have w: "(worker_start j s n)\<lparr> w_job := j \<rparr> = worker_start j s n" by (simp add: worker_start_def)
  show ?thesis
    using c0 r assms(2) w by (cases r; cases rc0) (auto simp: opftp_transfer_run_def c_def Let_def split: if_splits)
qed

lemma tls_setup_cancelled: "(\<And>n. fst (we_cancelled e n)) \<Longrightarrow> gives_up w (data_tls_setup e w)"
proof -
  assume c: "\<And>n. fst (we_cancelled e n)"
  obtain r n where r: "net_call (we_tls_create e (j_data_fd (w_job w))) w = (r, w\<lparr> w_net := n \<rparr>)" by (simp add: net_call_def)
  show ?thesis
  proof (cases r)
    case None
    with r show ?thesis by (auto simp: data_tls_setup_def gives_up_def)
  next
    case (Some t)
    let ?w = "w\<lparr> w_net := n, w_tls := Some t \<rparr>"
    obtain n' where "job_cancelled e ?w = (True, ?w\<lparr> w_net := n' \<rparr>)" by (rule cancelled_always [OF c])
    then have "iterate (\<lambda>w. Some (tls_setup_step e t w)) ?w = Some (Some ECANCELED, ?w\<lparr> w_net := n' \<rparr>)"
      by (intro iterate_return) (simp add: tls_setup_step_def)
    with r Some show ?thesis by (auto simp: data_tls_setup_def gives_up_def)
  qed
qed

section \<open>Examples\<close>

text \<open>A store with the file \<open>/f\<close>, and a connection on which the peer sends the given chunks and
  accepts everything.\<close>

definition demo_sys :: "mem sys" where
  "demo_sys =
     \<lparr> sys_errno = ENOENT,
       sys_state =
         \<lparr> m_root = 0,
           m_nodes =
             [0 \<mapsto> \<lparr> n_name = ''/'', n_mode = 0x41ED, n_mtime = 0, n_uid = 0, n_gid = 0, n_data = [],
                    n_children = [1], n_parent = None \<rparr>,
              1 \<mapsto> \<lparr> n_name = ''f'', n_mode = 0x81A4, n_mtime = 0, n_uid = 0, n_gid = 0, n_data = ''hi'',
                    n_children = [], n_parent = Some 0 \<rparr>],
           m_next = 2, m_fds = Map.empty, m_dirs = Map.empty, m_next_dir = 0, m_clock = 0, m_dangling = False \<rparr> \<rparr>"

definition demo_wenv :: "bool \<Rightarrow> (mem, string list) wenv" where
  "demo_wenv cancelled =
     \<lparr> we_fs = mem_vtable (\<lambda>n. True), we_localtime = (\<lambda>t. None), we_allow_foreign_port = False, we_has_tls = False,
       we_conn = example_conn, we_malloc = Pair True, we_cancelled = Pair cancelled,
       we_poll = (\<lambda>fd ev. Pair (Inr (Some (ev, 0)))), we_send = (\<lambda>fd bs. Pair (Inr (length bs))),
       we_recv = (\<lambda>fd k cs. case cs of [] \<Rightarrow> (Inr [], []) | c # cs \<Rightarrow> (Inr c, cs)),
       we_tls_create = (\<lambda>fd. Pair None), we_tls_handshake = (\<lambda>t. Pair Hs_error),
       we_tls_write = (\<lambda>t bs. Pair Tls_error), we_tls_read = (\<lambda>t k. Pair Tls_error),
       we_close_notify = (\<lambda>t. Pair Hs_error), we_poll_one = (\<lambda>fd ev. Pair False) \<rparr>"

definition demo_task :: "job_op \<Rightarrow> string \<Rightarrow> string \<Rightarrow> 64 word \<Rightarrow> job" where
  "demo_task op p q rest = example_job\<lparr> j_op := op, j_path := p, j_dst := q, j_rest := rest \<rparr>"

lemma demo_sys_ok: "mem_ok (sys_state demo_sys)"
proof -
  let ?m = "sys_state demo_sys"
  have "tree_ok ?m" by (auto simp: tree_ok_def node_ok_def demo_sys_def mode_is_dir_def split: if_splits)
  moreover have "\<exists>cs. walk ?m (m_root ?m) cs = Some n" if "m_nodes ?m n \<noteq> None" for n
  proof -
    from that have "n = 0 \<or> n = 1" by (auto simp: demo_sys_def split: if_splits)
    moreover have "walk ?m (m_root ?m) [] = Some 0" "walk ?m (m_root ?m) [''f''] = Some 1"
      by (simp_all add: demo_sys_def node_find_child_def)
    ultimately show ?thesis by blast
  qed
  ultimately show ?thesis by (simp add: mem_ok_def)
qed

lemma demo_paths: "mem_path ''/f''" "mem_path ''/g''"
  by code_simp+

lemma demo_task_simps [simp]:
  "j_op (demo_task op p q rest) = op" "j_path (demo_task op p q rest) = p" "j_dst (demo_task op p q rest) = q"
  "j_rest (demo_task op p q rest) = rest" "we_fs (demo_wenv c) = mem_vtable (\<lambda>n. True)"
  by (simp_all add: demo_task_def demo_wenv_def)

section \<open>Properties\<close>

text \<open>C7: A \<open>RETR\<close> job that reports success has sent exactly the contents of the file from the restart
  offset on, and reports their number as its byte count.\<close>

theorem download_correct:
  assumes "we_fs e = mem_vtable al" "mem_ok (sys_state s)" "mem_path (j_path j)" "j_op j = OPFTP_JOB_RETR"
    "opftp_transfer_run e j s n = Some w'" "j_result (w_job w') = None"
  shows "\<exists>d. mem_contents (sys_state s) (j_path j) = Some d \<and> w_sent w' = drop (unat (j_rest j)) d \<and>
    j_bytes (w_job w') = of_nat (length d - unat (j_rest j))"
  by (rule mem_files.run_download [OF assms(5,6,1-4)])

theorem download_correct_witness:
  "\<exists>w'. opftp_transfer_run (demo_wenv False) (demo_task OPFTP_JOB_RETR ''/f'' [] 1) demo_sys [] = Some w' \<and>
     w_sent w' = ''i'' \<and> (\<exists>d. mem_contents (sys_state demo_sys) ''/f'' = Some d \<and> w_sent w' = drop 1 d)"
proof -
  have "map_option (\<lambda>w. (j_result (w_job w), w_sent w))
      (opftp_transfer_run (demo_wenv False) (demo_task OPFTP_JOB_RETR ''/f'' [] 1) demo_sys []) = Some (None, ''i'')"
    by code_simp
  then obtain w' where w': "opftp_transfer_run (demo_wenv False) (demo_task OPFTP_JOB_RETR ''/f'' [] 1) demo_sys [] = Some w'"
    "j_result (w_job w') = None" "w_sent w' = ''i''" by auto
  show ?thesis using download_correct [OF _ demo_sys_ok _ _ w'(1,2)] demo_paths w' by auto
qed

text \<open>C8: A \<open>STOR\<close> or \<open>APPE\<close> job that reports success has left in the file what the client sent: in
  place of the old contents, appended to them, or written over them from the restart offset on. Its byte
  count is the number of bytes received.\<close>

theorem upload_correct:
  assumes "we_fs e = mem_vtable al" "mem_ok (sys_state s)" "mem_path (j_path j)"
    "j_op j \<in> {OPFTP_JOB_STOR, OPFTP_JOB_APPE}" "opftp_transfer_run e j s n = Some w'" "j_result (w_job w') = None"
  shows "mem_contents (sys_state (w_sys w')) (j_path j) =
      Some (stored j (case mem_contents (sys_state s) (j_path j) of Some d \<Rightarrow> d | None \<Rightarrow> []) (w_rcvd w')) \<and>
    j_bytes (w_job w') = of_nat (length (w_rcvd w'))"
  using mem_files.run_upload [OF assms(5,6,1-4)] by simp

theorem upload_correct_witness:
  "\<exists>w'. opftp_transfer_run (demo_wenv False) (demo_task OPFTP_JOB_APPE ''/f'' [] 0) demo_sys [''yo''] = Some w' \<and>
     mem_contents (sys_state (w_sys w')) ''/f'' = Some ''hiyo''"
proof -
  let ?run = "opftp_transfer_run (demo_wenv False) (demo_task OPFTP_JOB_APPE ''/f'' [] 0) demo_sys [''yo'']"
  have "map_option (\<lambda>w. (j_result (w_job w), w_rcvd w)) ?run = Some (None, ''yo'')" by code_simp
  then obtain w' where w': "?run = Some w'" "j_result (w_job w') = None" "w_rcvd w' = ''yo''" by auto
  have "mem_contents (sys_state demo_sys) ''/f'' = Some ''hi''" by code_simp
  with upload_correct [OF _ demo_sys_ok _ _ w'(1,2)] demo_paths w' show ?thesis by (simp add: stored_def)
qed

text \<open>C9: What one client stores another one retrieves: after a successful \<open>STOR\<close> without restart, a
  successful \<open>RETR\<close> of the same path sends exactly the bytes that were received.\<close>

theorem upload_download_round_trip:
  assumes "we_fs e = mem_vtable al" "mem_ok (sys_state s)" "mem_path (j_path j)"
    "j_op j = OPFTP_JOB_STOR" "j_rest j = 0" "opftp_transfer_run e j s n = Some w" "j_result (w_job w) = None"
    and "we_fs e' = mem_vtable al'" "j_path j' = j_path j" "j_op j' = OPFTP_JOB_RETR" "j_rest j' = 0"
    "opftp_transfer_run e' j' (w_sys w) n' = Some w'" "j_result (w_job w') = None"
  shows "w_sent w' = w_rcvd w"
proof -
  have up: "mem_ok (sys_state (w_sys w))" "mem_contents (sys_state (w_sys w)) (j_path j) = Some (w_rcvd w)"
    using mem_files.run_upload [OF assms(6,7,1-3)] assms(4,5) by (simp_all add: stored_def)
  have "mem_path (j_path j')" using assms(3,9) by simp
  from mem_files.run_download [OF assms(12,13,8) up(1) this assms(10)] show ?thesis
    using up(2) assms(9,11) by auto
qed

theorem upload_download_round_trip_witness:
  "\<exists>w w'. opftp_transfer_run (demo_wenv False) (demo_task OPFTP_JOB_STOR ''/g'' [] 0) demo_sys [''yo''] = Some w \<and>
     opftp_transfer_run (demo_wenv False) (demo_task OPFTP_JOB_RETR ''/g'' [] 0) (w_sys w) [] = Some w' \<and>
     w_sent w' = ''yo''"
proof -
  let ?up = "opftp_transfer_run (demo_wenv False) (demo_task OPFTP_JOB_STOR ''/g'' [] 0) demo_sys [''yo'']"
  let ?down = "\<lambda>w. opftp_transfer_run (demo_wenv False) (demo_task OPFTP_JOB_RETR ''/g'' [] 0) (w_sys w) []"
  have "Option.bind ?up (\<lambda>w. map_option (\<lambda>w'. (j_result (w_job w), w_rcvd w, j_result (w_job w'))) (?down w)) =
      Some (None, ''yo'', None)" by code_simp
  then obtain w w' where w: "?up = Some w" "?down w = Some w'" "j_result (w_job w) = None" "w_rcvd w = ''yo''"
    "j_result (w_job w') = None" by (auto simp: bind_eq_Some_conv)
  from upload_download_round_trip [OF _ demo_sys_ok _ _ _ w(1,3) _ _ _ _ w(2,5)] demo_paths w show ?thesis by simp
qed

text \<open>C19: A server-side copy of a regular file that reports success has made the destination equal to
  the source and left the source as it was; the byte count is the size of the file.\<close>

theorem copy_correct:
  assumes "we_fs e = mem_vtable al" "mem_ok (sys_state s)" "mem_path (j_path j)" "mem_path (j_dst j)"
    "j_op j = OPFTP_JOB_COPY" "mem_contents (sys_state s) (j_path j) = Some d"
    "opftp_transfer_run e j s n = Some w'" "j_result (w_job w') = None"
  shows "mem_contents (sys_state (w_sys w')) (j_dst j) = Some d \<and>
    mem_contents (sys_state (w_sys w')) (j_path j) = Some d \<and> j_bytes (w_job w') = of_nat (length d)"
proof -
  have "\<not> mode_is_dir (st_mode st)" if "fs_stat (mem_vtable al) (j_path j) s = (Some st, s1)" for st s1
    using that assms(6)
    by (auto simp: mem_vtable_def mem_stat_def mem_contents_def mem_file_def node_is_dir_def node_to_stat_def
        split: option.splits if_splits)
  from mem_files.run_copy [OF assms(7,8,1-5) this] assms(6) show ?thesis by auto
qed

theorem copy_correct_witness:
  "\<exists>w'. opftp_transfer_run (demo_wenv False) (demo_task OPFTP_JOB_COPY ''/f'' ''/g'' 0) demo_sys [] = Some w' \<and>
     mem_contents (sys_state (w_sys w')) ''/g'' = Some ''hi''"
proof -
  let ?run = "opftp_transfer_run (demo_wenv False) (demo_task OPFTP_JOB_COPY ''/f'' ''/g'' 0) demo_sys []"
  have "map_option (\<lambda>w. j_result (w_job w)) ?run = Some None" by code_simp
  then obtain w' where w': "?run = Some w'" "j_result (w_job w') = None" by auto
  have "mem_contents (sys_state demo_sys) ''/f'' = Some ''hi''" by code_simp
  with copy_correct [OF _ demo_sys_ok _ _ _ _ w', of _ "''hi''"] demo_paths w' show ?thesis by simp
qed

text \<open>C20: Downloads and uploads over a live connection without TLS end: the worker comes back with a
  result whatever the files are and however the peer splits the data.\<close>

theorem transfers_end:
  assumes "live_net \<mu> e" "we_fs e = mem_vtable al" "mem_ok (sys_state s)" "mem_path (j_path j)" "\<not> j_need_tls j"
    "j_op j \<in> {OPFTP_JOB_RETR, OPFTP_JOB_STOR, OPFTP_JOB_APPE}"
  shows "\<exists>w'. opftp_transfer_run e j s n = Some w'"
proof (rule run_ends [OF _ assms(5)])
  fix j0 assume t: "same_task j j0"
  let ?w = "(worker_start j s n)\<lparr> w_job := j0 \<rparr>"
  have w: "w_tls ?w = None" "mem_ok (sys_state (w_sys ?w))" "mem_path (j_path (w_job ?w))"
    using assms(3,4) t by (simp_all add: worker_start_def same_task_def)
  from mem_files.transfer_retr_live [OF assms(1,2) w(2,3,1)] transfer_stor_live [OF assms(1) w(1)] assms(6) t
  show "\<exists>r. transfer_switch e ?w = Some r" by (auto simp: transfer_switch_def same_task_def)
qed

theorem transfers_end_witness:
  "live_net length (demo_wenv False) \<and>
   (\<exists>w'. opftp_transfer_run (demo_wenv False) (demo_task OPFTP_JOB_STOR ''/g'' [] 0) demo_sys [''yo''] = Some w')"
proof -
  have l: "live_net length (demo_wenv False)"
    by (auto simp: live_net_def demo_wenv_def spends_def poll_ready_def send_stalls_def recv_moves_def split: list.split)
  have "\<not> j_need_tls (demo_task OPFTP_JOB_STOR ''/g'' [] 0)" by code_simp
  with l transfers_end [OF l _ demo_sys_ok] demo_paths show ?thesis by simp
qed

text \<open>C21: A worker whose job is cancelled ends with an error, having sent and received nothing,
  whatever the operation, the backend and the connection.\<close>

theorem cancelled_run:
  assumes "\<And>n. fst (we_cancelled e n)"
  shows "\<exists>w' err. opftp_transfer_run e j s n = Some w' \<and> j_result (w_job w') = Some err \<and> w_sent w' = [] \<and> w_rcvd w' = []"
proof -
  define c where "c = (if j_op j \<noteq> OPFTP_JOB_COPY then opftp_datachan_connect_job (we_conn e) (we_allow_foreign_port e) j
    else (None, j))"
  obtain rc0 j0 where c0: "c = (rc0, j0)" by fastforce
  let ?w = "(worker_start j s n)\<lparr> w_job := j0 \<rparr>"
  have quiet: "w_sent ?w = []" "w_rcvd ?w = []" by (simp_all add: worker_start_def)
  have w: "(worker_start j s n)\<lparr> w_job := j \<rparr> = worker_start j s n" by (simp add: worker_start_def)
  obtain e1 w1 where t: "data_tls_setup e ?w = Some (Some e1, w1)" "w_sent w1 = []" "w_rcvd w1 = []"
    using tls_setup_cancelled [OF assms, of ?w] quiet by (auto simp: gives_up_def)
  obtain e2 w2 where sw: "transfer_switch e ?w = Some (Some e2, w2)" "w_sent w2 = []" "w_rcvd w2 = []"
    using switch_cancelled [OF assms, of ?w] quiet by (auto simp: gives_up_def)
  show ?thesis
    using c0 t sw quiet w
    by (cases rc0; cases "j_need_tls j") (auto simp: opftp_transfer_run_def c_def Let_def finish_frame split: if_splits)
qed

theorem cancelled_run_witness:
  "\<exists>w' err. opftp_transfer_run (demo_wenv True) (demo_task OPFTP_JOB_RETR ''/f'' [] 0) demo_sys [] = Some w' \<and>
     j_result (w_job w') = Some err \<and> w_sent w' = []"
  using cancelled_run [of "demo_wenv True" "demo_task OPFTP_JOB_RETR ''/f'' [] 0" demo_sys "[]"]
  by (auto simp: demo_wenv_def)

end
