(* ===== verification/Ui_Correct.thy ===== *)
theory Ui_Correct
  imports Ui
begin

text \<open>
  Correctness of the user interface model: the rings show the most recent entries, a poll tracks
  exactly the clients of the snapshot and counts every transfer once, backspace deletes the character
  typed last, the scroll position keeps the selection visible.
\<close>

unbundle bit_operations_syntax

section \<open>Logs of recent entries\<close>

locale recent_log =
  fixes push :: "'p \<Rightarrow> 's \<Rightarrow> 's"
    and entry :: "'p \<Rightarrow> 'e"
    and view :: "'s \<Rightarrow> 'e list"
    and cap :: nat
    and invar :: "'s \<Rightarrow> bool"
  assumes push_view: "invar s \<Longrightarrow> view (push p s) = take cap (entry p # view s)"
    and push_invar: "invar s \<Longrightarrow> invar (push p s)"
    and view_bound: "invar s \<Longrightarrow> length (view s) \<le> cap"
begin

lemma push_all: "invar s \<Longrightarrow> invar (fold push ps s) \<and> view (fold push ps s) = take cap (rev (map entry ps) @ view s)"
proof (induction ps arbitrary: s)
  case Nil
  then show ?case by (simp add: view_bound)
next
  case (Cons p ps)
  from Cons(1) [OF push_invar [OF Cons(2)], of p] push_view [OF Cons(2), of p] show ?case
    by (simp add: take_append)
qed

end

text \<open>A ring of \<open>cap\<close> entries with the newest at \<open>k\<close>, read newest first.\<close>

definition recent :: "nat \<Rightarrow> 'e list \<Rightarrow> nat \<Rightarrow> nat \<Rightarrow> 'e list" where
  "recent cap xs k n = map (\<lambda>i. xs ! ((k + cap - i) mod cap)) [0..<n]"

lemma recent_push:
  assumes "length xs = cap" "0 < cap" "k < cap" "n \<le> cap"
  shows "recent cap (xs[(k + 1) mod cap := e]) ((k + 1) mod cap) (if n < cap then n + 1 else n) =
    take cap (e # recent cap xs k n)" (is "?l = ?r")
proof (rule nth_equalityI)
  show "length ?l = length ?r" using assms by (simp add: recent_def)
  fix i assume "i < length ?l"
  then have i: "i < cap" "i < n + 1" using assms by (auto simp: recent_def split: if_splits)
  let ?k = "(k + 1) mod cap"
  have k: "?k < cap" using assms by simp
  show "?l ! i = ?r ! i"
  proof (cases i)
    case 0
    with i assms k show ?thesis by (simp add: recent_def)
  next
    case (Suc m)
    have "(?k + cap - i) mod cap = (k + cap - m) mod cap"
    proof (cases "k + 1 < cap")
      case True
      then show ?thesis using Suc by simp
    next
      case False
      with assms have "k + 1 = cap" by simp
      then show ?thesis using Suc i by (auto simp: mod_if)
    qed
    moreover have "(?k + cap - i) mod cap \<noteq> ?k"
    proof
      assume "(?k + cap - i) mod cap = ?k"
      then have "(?k + cap - i) mod cap = (?k + cap) mod cap" using k by simp
      then have "cap dvd (?k + cap) - (?k + cap - i)" by (metis mod_eq_dvd_iff_nat diff_le_self)
      with i Suc k show False by (auto dest: dvd_imp_le)
    qed
    ultimately show ?thesis using Suc i assms by (simp add: recent_def)
  qed
qed

section \<open>The event strip and the history\<close>

definition ui_ok :: "ui \<Rightarrow> bool" where
  "ui_ok ui \<longleftrightarrow> length (u_events ui) = OPFTP_UI_MAX_EVENTS \<and> u_ev_head ui < OPFTP_UI_MAX_EVENTS \<and>
     u_ev_count ui \<le> OPFTP_UI_MAX_EVENTS \<and> length (u_hist ui) = OPFTP_UI_MAX_HIST \<and>
     u_hist_head ui < OPFTP_UI_MAX_HIST \<and> u_hist_count ui \<le> OPFTP_UI_MAX_HIST"

definition events_shown :: "ui \<Rightarrow> ui_ev list" where
  "events_shown ui = recent OPFTP_UI_MAX_EVENTS (u_events ui) (u_ev_head ui) (u_ev_count ui)"

definition hist_shown :: "ui \<Rightarrow> ui_hist list" where
  "hist_shown ui = recent OPFTP_UI_MAX_HIST (u_hist ui) (u_hist_head ui) (u_hist_count ui)"

type_synonym ev_args = "string \<times> bool \<times> 64 word"
type_synonym hist_args = "string \<times> string \<times> 64 word \<times> 64 word \<times> ui_result \<times> 64 word"

definition push_ev :: "ev_args \<Rightarrow> ui \<Rightarrow> ui" where
  "push_ev a ui = (case a of (text, warn, now) \<Rightarrow> opftp_ui_event text warn now ui)"

definition ev_entry :: "ev_args \<Rightarrow> ui_ev" where
  "ev_entry a = (case a of (text, warn, now) \<Rightarrow>
     \<lparr> ev_text = c_snprintf 72 text, ev_hh = clock_hh now, ev_mm = clock_mm now, ev_warn = warn \<rparr>)"

definition push_hist :: "hist_args \<Rightarrow> ui \<Rightarrow> ui" where
  "push_hist a ui = (case a of (op, path, bytes, tot, result, now) \<Rightarrow> hist_push op path bytes tot result now ui)"

definition hist_entry :: "hist_args \<Rightarrow> ui_hist" where
  "hist_entry a = (case a of (op, path, bytes, tot, result, now) \<Rightarrow>
     \<lparr> hi_op = c_snprintf 8 op, hi_path = c_snprintf 1024 path, hi_bytes = bytes, hi_total = tot,
       hi_hh = clock_hh now, hi_mm = clock_mm now, hi_result = result \<rparr>)"

interpretation evlog: recent_log push_ev ev_entry events_shown OPFTP_UI_MAX_EVENTS ui_ok
proof
  fix ui and p :: ev_args assume ok: "ui_ok ui"
  obtain s b now where p: "p = (s, b, now)" by (metis prod.exhaust)
  show "events_shown (push_ev p ui) = take OPFTP_UI_MAX_EVENTS (ev_entry p # events_shown ui)"
    using ok recent_push [of "u_events ui" OPFTP_UI_MAX_EVENTS "u_ev_head ui" "u_ev_count ui" "ev_entry p"]
    by (simp add: p push_ev_def ev_entry_def opftp_ui_event_def ev_push_def events_shown_def ui_ok_def Let_def)
  show "ui_ok (push_ev p ui)"
    using ok by (simp add: p push_ev_def opftp_ui_event_def ev_push_def ui_ok_def Let_def)
  show "length (events_shown ui) \<le> OPFTP_UI_MAX_EVENTS"
    using ok by (simp add: events_shown_def recent_def ui_ok_def)
qed

interpretation histlog: recent_log push_hist hist_entry hist_shown OPFTP_UI_MAX_HIST ui_ok
proof
  fix ui and p :: hist_args assume ok: "ui_ok ui"
  obtain op path bytes tot result now where p: "p = (op, path, bytes, tot, result, now)" by (metis prod.exhaust)
  show "hist_shown (push_hist p ui) = take OPFTP_UI_MAX_HIST (hist_entry p # hist_shown ui)"
    using ok recent_push [of "u_hist ui" OPFTP_UI_MAX_HIST "u_hist_head ui" "u_hist_count ui" "hist_entry p"]
    by (simp add: p push_hist_def hist_entry_def hist_push_def hist_shown_def ui_ok_def Let_def)
  show "ui_ok (push_hist p ui)"
    using ok by (simp add: p push_hist_def hist_push_def ui_ok_def Let_def)
  show "length (hist_shown ui) \<le> OPFTP_UI_MAX_HIST"
    using ok by (simp add: hist_shown_def recent_def ui_ok_def)
qed

section \<open>Trackers\<close>

subsection \<open>The tracked peers\<close>

definition trk_ok :: "ui_trk list \<Rightarrow> bool" where
  "trk_ok ts \<longleftrightarrow> length ts = OPFTP_UI_MAX_TRACK \<and>
     (\<forall>i < length ts. \<forall>j < length ts. tk_present (ts ! i) \<longrightarrow> tk_present (ts ! j) \<longrightarrow> tk_peer (ts ! i) = tk_peer (ts ! j) \<longrightarrow> i = j)"

definition tracked :: "ui_trk list \<Rightarrow> string \<rightharpoonup> ui_trk" where
  "tracked ts p = map_option ((!) ts) (find_slot (\<lambda>t. tk_present t \<and> tk_peer t = p) ts)"

lemma find_slot_Some: "find_slot P ts = Some i \<Longrightarrow> i < length ts \<and> P (ts ! i)"
  by (induction ts arbitrary: i) (auto split: if_splits)

lemma find_slot_None: "find_slot P ts = None \<longleftrightarrow> (\<forall>i < length ts. \<not> P (ts ! i))"
  by (induction ts) (auto simp: All_less_Suc2)

lemma tracked_iff:
  assumes "trk_ok ts"
  shows "tracked ts p = Some t \<longleftrightarrow> (\<exists>i < length ts. ts ! i = t \<and> tk_present t \<and> tk_peer t = p)"
proof
  assume "tracked ts p = Some t"
  then show "\<exists>i < length ts. ts ! i = t \<and> tk_present t \<and> tk_peer t = p"
    by (auto simp: tracked_def dest!: find_slot_Some)
next
  assume "\<exists>i < length ts. ts ! i = t \<and> tk_present t \<and> tk_peer t = p"
  then obtain i where i: "i < length ts" "ts ! i = t" "tk_present t" "tk_peer t = p" by blast
  then have "find_slot (\<lambda>t. tk_present t \<and> tk_peer t = p) ts \<noteq> None" unfolding find_slot_None by blast
  then obtain j where j: "find_slot (\<lambda>t. tk_present t \<and> tk_peer t = p) ts = Some j" by blast
  with find_slot_Some [OF this] i assms have "i = j" unfolding trk_ok_def by blast
  with i j show "tracked ts p = Some t" by (simp add: tracked_def)
qed

lemma tracked_at: "trk_ok ts \<Longrightarrow> i < length ts \<Longrightarrow> tk_present (ts ! i) \<Longrightarrow> tracked ts (tk_peer (ts ! i)) = Some (ts ! i)"
  by (auto simp: tracked_iff)

lemma map_eqI: "(\<And>x y. f x = Some y \<longleftrightarrow> g x = Some y) \<Longrightarrow> f = g"
  by (rule ext) (metis not_None_eq)

text \<open>Writing the tracker of a peer, in its own slot or in a free one.\<close>

lemma tracked_put:
  assumes ok: "trk_ok ts" and i: "i < length ts" and t: "tk_present t" "tk_peer t = p"
    and slot: "\<And>j. j < length ts \<Longrightarrow> j \<noteq> i \<Longrightarrow> tk_present (ts ! j) \<Longrightarrow> tk_peer (ts ! j) \<noteq> p"
    and own: "tk_present (ts ! i) \<Longrightarrow> tk_peer (ts ! i) = p"
  shows "trk_ok (ts[i := t])" "tracked (ts[i := t]) = (tracked ts)(p \<mapsto> t)"
proof -
  show ok': "trk_ok (ts[i := t])"
    using ok slot t i unfolding trk_ok_def by (auto simp: nth_list_update) (metis)+
  show "tracked (ts[i := t]) = (tracked ts)(p \<mapsto> t)"
  proof (rule map_eqI)
    fix q u
    have "tracked (ts[i := t]) q = Some u \<longleftrightarrow> (\<exists>j < length ts. (ts[i := t]) ! j = u \<and> tk_present u \<and> tk_peer u = q)"
      by (simp add: tracked_iff [OF ok'])
    also have "\<dots> \<longleftrightarrow> ((tracked ts)(p \<mapsto> t)) q = Some u"
      using i t slot own by (auto simp: tracked_iff [OF ok] nth_list_update) metis+
    finally show "tracked (ts[i := t]) q = Some u \<longleftrightarrow> ((tracked ts)(p \<mapsto> t)) q = Some u" .
  qed
qed

lemma tracked_clear:
  assumes ok: "trk_ok ts" and i: "i < length ts" and t: "\<not> tk_present t"
  shows "trk_ok (ts[i := t])"
    "tracked (ts[i := t]) = (if tk_present (ts ! i) then (tracked ts)(tk_peer (ts ! i) := None) else tracked ts)"
proof -
  show ok': "trk_ok (ts[i := t])"
    using ok t i unfolding trk_ok_def by (auto simp: nth_list_update)
  have upd: "ts[i := t] ! j = u \<and> tk_present u \<longleftrightarrow> j \<noteq> i \<and> ts ! j = u \<and> tk_present u" if "j < length ts" for j u
    using that t by (cases "j = i") auto
  have uniq: "j = i" if "j < length ts" "tk_present (ts ! j)" "tk_present (ts ! i)" "tk_peer (ts ! j) = tk_peer (ts ! i)" for j
    using ok i that unfolding trk_ok_def by blast
  show "tracked (ts[i := t]) = (if tk_present (ts ! i) then (tracked ts)(tk_peer (ts ! i) := None) else tracked ts)"
  proof (rule map_eqI)
    fix q u
    have "tracked (ts[i := t]) q = Some u \<longleftrightarrow> (\<exists>j < length ts. (ts[i := t]) ! j = u \<and> tk_present u \<and> tk_peer u = q)"
      by (simp add: tracked_iff [OF ok'])
    also have "\<dots> \<longleftrightarrow> (\<exists>j < length ts. j \<noteq> i \<and> ts ! j = u \<and> tk_present u \<and> tk_peer u = q)"
      using upd [of _ u] by blast
    also have "\<dots> \<longleftrightarrow> (if tk_present (ts ! i) then (tracked ts)(tk_peer (ts ! i) := None) else tracked ts) q = Some u"
      using i uniq by (auto simp: tracked_iff [OF ok])
    finally show "tracked (ts[i := t]) q = Some u \<longleftrightarrow>
      (if tk_present (ts ! i) then (tracked ts)(tk_peer (ts ! i) := None) else tracked ts) q = Some u" .
  qed
qed

subsection \<open>One client of the snapshot\<close>

lemma push_trk [simp]:
  "u_trk (ev_push s b now ui) = u_trk ui" "u_trk (hist_push op path bytes tot res now ui) = u_trk ui"
  "u_session_xfers (ev_push s b now ui) = u_session_xfers ui"
  "u_session_xfers (hist_push op path bytes tot res now ui) = u_session_xfers ui + 1"
  "u_snap (ev_push s b now ui) = u_snap ui" "u_snap (hist_push op path bytes tot res now ui) = u_snap ui"
  by (simp_all add: ev_push_def hist_push_def Let_def)

lemma upd_trk_simps [simp]:
  "u_trk (upd_trk i f ui) = (u_trk ui)[i := f (u_trk ui ! i)]" "u_session_xfers (upd_trk i f ui) = u_session_xfers ui"
  "u_snap (upd_trk i f ui) = u_snap ui"
  by (simp_all add: upd_trk_def)

text \<open>The tracker shows the client.\<close>

definition xfer_label :: "ui_trk option \<Rightarrow> string \<Rightarrow> string \<Rightarrow> string \<times> string" where
  "xfer_label prev op path =
     (case prev of
        Some t \<Rightarrow> if tk_xfer_active t then (tk_xfer_op t, tk_xfer_path t) else (c_snprintf 8 op, c_snprintf 1024 path)
      | None \<Rightarrow> (c_snprintf 8 op, c_snprintf 1024 path))"

definition shown_by :: "ui_trk option \<Rightarrow> snapshot_client \<Rightarrow> ui_trk \<Rightarrow> bool" where
  "shown_by prev c t \<longleftrightarrow> tk_present t \<and> tk_peer t = sc_peer c \<and> tk_seen t \<and> tk_logged_in t = sc_logged_in c \<and>
     tk_xfer_active t = xfer_active c \<and>
     (\<forall>op path bytes tot. sc_xfer c = Some (op, path, bytes, tot) \<longrightarrow>
        tk_xfer_bytes t = bytes \<and> tk_xfer_total t = tot \<and> (tk_xfer_op t, tk_xfer_path t) = xfer_label prev op path)"

lemma shown_by_fresh: "\<not> tk_xfer_active t0 \<Longrightarrow> shown_by (Some t0) c t = shown_by None c t"
  by (simp add: shown_by_def xfer_label_def)

lemma shown_by_unseen: "shown_by (map_option (\<lambda>t. t\<lparr> tk_seen := b \<rparr>) prev) c t = shown_by prev c t"
  by (cases prev) (simp_all add: shown_by_def xfer_label_def)

lemma poll_client_slot:
  assumes "trk_find (sc_peer c) ui = (Some i, ui1)" "i < length (u_trk ui1)" "tk_peer (u_trk ui1 ! i) = sc_peer c"
  shows "\<exists>t. u_trk (poll_client now c ui) = (u_trk ui1)[i := t] \<and> shown_by (Some (u_trk ui1 ! i)) c t"
    "u_session_xfers (poll_client now c ui) = u_session_xfers ui1 +
       (if tk_xfer_active (u_trk ui1 ! i) \<and> \<not> xfer_active c then 1 else 0)"
  using assms
  by (auto simp: poll_client_def poll_xfer_def Let_def shown_by_def xfer_label_def xfer_active_def
      split: option.split prod.split)

definition room_for :: "string \<Rightarrow> ui_trk list \<Rightarrow> bool" where
  "room_for p ts \<longleftrightarrow> tracked ts p \<noteq> None \<or> (\<exists>i < length ts. \<not> tk_present (ts ! i))"

lemma poll_client_effect:
  assumes ok: "trk_ok (u_trk ui)" and len: "length (sc_peer c) < 64" and room: "room_for (sc_peer c) (u_trk ui)"
  shows "\<exists>t. tracked (u_trk (poll_client now c ui)) = (tracked (u_trk ui))(sc_peer c \<mapsto> t) \<and>
      shown_by (tracked (u_trk ui) (sc_peer c)) c t"
    "trk_ok (u_trk (poll_client now c ui))"
    "u_session_xfers (poll_client now c ui) = u_session_xfers ui +
       (if (\<exists>t. tracked (u_trk ui) (sc_peer c) = Some t \<and> tk_xfer_active t) \<and> \<not> xfer_active c then 1 else 0)"
proof -
  let ?p = "sc_peer c" and ?ts = "u_trk ui"
  have "(\<exists>t. tracked (u_trk (poll_client now c ui)) = (tracked ?ts)(?p \<mapsto> t) \<and> shown_by (tracked ?ts ?p) c t) \<and>
    trk_ok (u_trk (poll_client now c ui)) \<and> u_session_xfers (poll_client now c ui) = u_session_xfers ui +
       (if (\<exists>t. tracked ?ts ?p = Some t \<and> tk_xfer_active t) \<and> \<not> xfer_active c then 1 else 0)"
  proof (cases "find_slot (\<lambda>t. tk_present t \<and> tk_peer t = ?p) ?ts")
    case (Some i)
    then have f: "trk_find ?p ui = (Some i, ui)" by (simp add: trk_find_def)
    have i: "i < length ?ts" "tk_present (?ts ! i)" "tk_peer (?ts ! i) = ?p" using find_slot_Some [OF Some] by auto
    from poll_client_slot(1) [OF f i(1,3), of now] obtain t where t: "u_trk (poll_client now c ui) = ?ts[i := t]" "shown_by (Some (?ts ! i)) c t" by blast
    have slot: "tk_peer (?ts ! j) \<noteq> ?p" if "j < length ?ts" "j \<noteq> i" "tk_present (?ts ! j)" for j
      using ok i that unfolding trk_ok_def by metis
    have p: "tk_present t" "tk_peer t = ?p" using t(2) by (simp_all add: shown_by_def)
    have "tracked ?ts ?p = Some (?ts ! i)" by (simp add: tracked_def Some)
    with tracked_put [OF ok i(1) p slot] i t poll_client_slot(2) [OF f i(1,3), of now] show ?thesis by auto
  next
    case None
    then have nt: "tracked ?ts ?p = None" by (simp add: tracked_def)
    with room have "\<exists>i < length ?ts. \<not> tk_present (?ts ! i)" by (simp add: room_for_def)
    then have "find_slot (\<lambda>t. \<not> tk_present t) ?ts \<noteq> None" unfolding find_slot_None by blast
    then obtain i where s: "find_slot (\<lambda>t. \<not> tk_present t) ?ts = Some i" by blast
    let ?b = "blank_trk\<lparr> tk_peer := ?p \<rparr>"
    let ?ui = "ui\<lparr> u_trk := ?ts[i := ?b] \<rparr>"
    have f: "trk_find ?p ui = (Some i, ?ui)"
      using None s len by (simp add: trk_find_def c_snprintf_id)
    have i: "i < length ?ts" "\<not> tk_present (?ts ! i)" using find_slot_Some [OF s] by auto
    then have i': "i < length (u_trk ?ui)" "tk_peer (u_trk ?ui ! i) = ?p" by simp_all
    from poll_client_slot(1) [OF f i', of now] obtain t where t: "u_trk (poll_client now c ui) = ?ts[i := t]" "shown_by (Some ?b) c t"
      using i by auto
    have slot: "tk_peer (?ts ! j) \<noteq> ?p" if "j < length ?ts" "j \<noteq> i" "tk_present (?ts ! j)" for j
      using None that unfolding find_slot_None by blast
    have p: "tk_present t" "tk_peer t = ?p" using t(2) by (simp_all add: shown_by_def)
    have "shown_by None c t" using t(2) by (simp add: shown_by_fresh blank_trk_def)
    with tracked_put [OF ok i(1) p slot] i t(1) nt poll_client_slot(2) [OF f i', of now] show ?thesis
      by (auto simp: blank_trk_def)
  qed
  then show "\<exists>t. tracked (u_trk (poll_client now c ui)) = (tracked ?ts)(?p \<mapsto> t) \<and> shown_by (tracked ?ts ?p) c t"
    "trk_ok (u_trk (poll_client now c ui))"
    "u_session_xfers (poll_client now c ui) = u_session_xfers ui +
       (if (\<exists>t. tracked ?ts ?p = Some t \<and> tk_xfer_active t) \<and> \<not> xfer_active c then 1 else 0)" by blast+
qed

subsection \<open>All clients of the snapshot\<close>

lemma card_tracked_full:
  assumes "trk_ok ts" "\<And>i. i < length ts \<Longrightarrow> tk_present (ts ! i)"
  shows "card (dom (tracked ts)) = OPFTP_UI_MAX_TRACK" "finite (dom (tracked ts))"
proof -
  have d: "dom (tracked ts) = (\<lambda>i. tk_peer (ts ! i)) ` {..<OPFTP_UI_MAX_TRACK}"
    using assms by (auto simp: dom_def tracked_iff [OF assms(1)] trk_ok_def image_iff)
  have "inj_on (\<lambda>i. tk_peer (ts ! i)) {..<OPFTP_UI_MAX_TRACK}"
    using assms by (auto simp: inj_on_def trk_ok_def)
  from card_image [OF this] d show "card (dom (tracked ts)) = OPFTP_UI_MAX_TRACK" by simp
  show "finite (dom (tracked ts))" by (simp add: d)
qed

lemma room_card:
  assumes "trk_ok ts" "card (dom (tracked ts) \<union> P) \<le> OPFTP_UI_MAX_TRACK" "p \<in> P" "finite P"
  shows "room_for p ts"
proof (rule ccontr)
  assume "\<not> room_for p ts"
  then have n: "tracked ts p = None" and f: "\<And>i. i < length ts \<Longrightarrow> tk_present (ts ! i)" by (auto simp: room_for_def)
  note c = card_tracked_full [OF assms(1) f]
  have "insert p (dom (tracked ts)) \<subseteq> dom (tracked ts) \<union> P" using assms(3) by blast
  from card_mono [OF _ this] c assms(4) n have "Suc OPFTP_UI_MAX_TRACK \<le> card (dom (tracked ts) \<union> P)"
    by (simp add: card_insert_if domIff)
  with assms(2) show False by simp
qed

text \<open>The peers whose tracked transfer is over according to the snapshot.\<close>

definition over :: "(string \<rightharpoonup> ui_trk) \<Rightarrow> snapshot_client list \<Rightarrow> string set" where
  "over T cs = {p. (\<exists>t. T p = Some t \<and> tk_xfer_active t) \<and> (\<forall>c \<in> set cs. sc_peer c = p \<longrightarrow> \<not> xfer_active c)}"

lemma poll_clients_effect:
  fixes now
  assumes "trk_ok (u_trk ui)" "distinct (map sc_peer cs)" "\<forall>c \<in> set cs. length (sc_peer c) < 64"
    "card (dom (tracked (u_trk ui)) \<union> sc_peer ` set cs) \<le> OPFTP_UI_MAX_TRACK"
  defines "T \<equiv> tracked (u_trk ui)" and "ui' \<equiv> fold (poll_client now) cs ui"
  shows "trk_ok (u_trk ui')"
    "c \<in> set cs \<Longrightarrow> \<exists>t. tracked (u_trk ui') (sc_peer c) = Some t \<and> shown_by (T (sc_peer c)) c t"
    "p \<notin> sc_peer ` set cs \<Longrightarrow> tracked (u_trk ui') p = T p"
    "u_session_xfers ui' = u_session_xfers ui + of_nat (card (over T cs \<inter> sc_peer ` set cs))"
proof -
  have "trk_ok (u_trk ui') \<and> (\<forall>c \<in> set cs. \<exists>t. tracked (u_trk ui') (sc_peer c) = Some t \<and> shown_by (T (sc_peer c)) c t) \<and>
    (\<forall>p. p \<notin> sc_peer ` set cs \<longrightarrow> tracked (u_trk ui') p = T p) \<and>
    u_session_xfers ui' = u_session_xfers ui + of_nat (card (over T cs \<inter> sc_peer ` set cs))"
    using assms(1-4) unfolding T_def ui'_def
  proof (induction cs arbitrary: ui)
    case (Cons c cs)
    let ?T = "tracked (u_trk ui)" and ?ui = "poll_client now c ui" and ?p = "sc_peer c"
    have room: "room_for ?p (u_trk ui)" by (rule room_card [OF Cons(2,5)]) simp_all
    have len: "length ?p < 64" using Cons(4) by simp
    note e = poll_client_effect [OF Cons(2) len room, of now]
    from e(1) obtain t where t: "tracked (u_trk ?ui) = ?T(?p \<mapsto> t)" "shown_by (?T ?p) c t" by blast
    have np: "?p \<notin> sc_peer ` set cs" using Cons(3) by simp
    have np': "\<forall>d \<in> set cs. sc_peer d \<noteq> ?p" using np by (metis imageI)
    have "dom (tracked (u_trk ?ui)) \<union> sc_peer ` set cs = dom ?T \<union> sc_peer ` set (c # cs)" using t by auto
    then have card: "card (dom (tracked (u_trk ?ui)) \<union> sc_peer ` set cs) \<le> OPFTP_UI_MAX_TRACK" using Cons(5) by simp
    have IH: "trk_ok (u_trk (fold (poll_client now) cs ?ui)) \<and>
      (\<forall>c \<in> set cs. \<exists>t. tracked (u_trk (fold (poll_client now) cs ?ui)) (sc_peer c) = Some t \<and>
        shown_by (tracked (u_trk ?ui) (sc_peer c)) c t) \<and>
      (\<forall>p. p \<notin> sc_peer ` set cs \<longrightarrow> tracked (u_trk (fold (poll_client now) cs ?ui)) p = tracked (u_trk ?ui) p) \<and>
      u_session_xfers (fold (poll_client now) cs ?ui) =
        u_session_xfers ?ui + of_nat (card (over (tracked (u_trk ?ui)) cs \<inter> sc_peer ` set cs))"
      using Cons(3,4) by (intro Cons(1) e(2) card) simp_all
    have s1: "over (tracked (u_trk ?ui)) cs \<inter> sc_peer ` set cs = over ?T (c # cs) \<inter> sc_peer ` set cs"
      using np' by (auto simp: over_def t(1))
    have s2: "over ?T (c # cs) \<inter> sc_peer ` set (c # cs) = (over ?T (c # cs) \<inter> sc_peer ` set cs) \<union>
        (if (\<exists>t. ?T ?p = Some t \<and> tk_xfer_active t) \<and> \<not> xfer_active c then {?p} else {})"
      using np' by (auto simp: over_def)
    have s3: "card (over ?T (c # cs) \<inter> sc_peer ` set (c # cs)) = card (over ?T (c # cs) \<inter> sc_peer ` set cs) +
        (if (\<exists>t. ?T ?p = Some t \<and> tk_xfer_active t) \<and> \<not> xfer_active c then 1 else 0)"
      unfolding s2 using np by (subst card_Un_disjoint) auto
    have sx: "u_session_xfers (fold (poll_client now) (c # cs) ui) =
        u_session_xfers ui + of_nat (card (over ?T (c # cs) \<inter> sc_peer ` set (c # cs)))"
      using IH e(3) unfolding s1 s3 by simp
    have "trk_ok (u_trk (fold (poll_client now) (c # cs) ui))" using IH by simp
    moreover have "\<forall>d \<in> set (c # cs). \<exists>t. tracked (u_trk (fold (poll_client now) (c # cs) ui)) (sc_peer d) = Some t \<and>
        shown_by (?T (sc_peer d)) d t"
      using IH np np' t by (auto simp: t(1))
    moreover have "\<forall>p. p \<notin> sc_peer ` set (c # cs) \<longrightarrow> tracked (u_trk (fold (poll_client now) (c # cs) ui)) p = ?T p"
      using IH t by simp
    ultimately show ?case using sx by blast
  qed (simp add: over_def)
  then show "trk_ok (u_trk ui')"
    "c \<in> set cs \<Longrightarrow> \<exists>t. tracked (u_trk ui') (sc_peer c) = Some t \<and> shown_by (T (sc_peer c)) c t"
    "p \<notin> sc_peer ` set cs \<Longrightarrow> tracked (u_trk ui') p = T p"
    "u_session_xfers ui' = u_session_xfers ui + of_nat (card (over T cs \<inter> sc_peer ` set cs))" by blast+
qed

subsection \<open>Clients that are gone\<close>

definition gone :: "ui_trk \<Rightarrow> bool" where
  "gone t \<longleftrightarrow> tk_present t \<and> \<not> tk_seen t"

lemma forget_fold:
  fixes now
  assumes "distinct js" "set js \<subseteq> {..<length (u_trk ui)}"
  defines "ui' \<equiv> fold (forget_gone now) js ui"
  shows "length (u_trk ui') = length (u_trk ui) \<and>
    (\<forall>j < length (u_trk ui). u_trk ui' ! j = (if j \<in> set js \<and> gone (u_trk ui ! j) then blank_trk else u_trk ui ! j)) \<and>
    u_session_xfers ui' = u_session_xfers ui +
      of_nat (length (filter (\<lambda>j. gone (u_trk ui ! j) \<and> tk_xfer_active (u_trk ui ! j)) js))"
  using assms(1,2) unfolding ui'_def
proof (induction js arbitrary: ui)
  case (Cons i js)
  let ?ui = "forget_gone now i ui"
  have i: "i < length (u_trk ui)" "i \<notin> set js" using Cons(2,3) by auto
  have u: "u_trk ?ui = (if gone (u_trk ui ! i) then (u_trk ui)[i := blank_trk] else u_trk ui)"
    by (simp add: forget_gone_def gone_def Let_def)
  have x: "u_session_xfers ?ui = u_session_xfers ui + (if gone (u_trk ui ! i) \<and> tk_xfer_active (u_trk ui ! i) then 1 else 0)"
    by (simp add: forget_gone_def gone_def Let_def)
  have l: "length (u_trk ?ui) = length (u_trk ui)" by (simp add: u)
  have n: "u_trk ?ui ! j = u_trk ui ! j" if "j \<noteq> i" for j using that by (simp add: u)
  have "filter (\<lambda>j. gone (u_trk ?ui ! j) \<and> tk_xfer_active (u_trk ?ui ! j)) js =
      filter (\<lambda>j. gone (u_trk ui ! j) \<and> tk_xfer_active (u_trk ui ! j)) js"
    using i(2) n by (intro filter_cong refl) metis
  with Cons(1) [of ?ui] Cons(2,3) i l x show ?case
    by (auto simp: u gone_def blank_trk_def nth_list_update)
qed simp

lemma gone_peers:
  assumes "trk_ok ts"
  shows "length (filter (\<lambda>j. P (ts ! j) \<and> tk_present (ts ! j)) [0..<length ts]) = card {p. \<exists>t. tracked ts p = Some t \<and> P t}"
proof -
  let ?I = "{j. j < length ts \<and> P (ts ! j) \<and> tk_present (ts ! j)}"
  have "length (filter (\<lambda>j. P (ts ! j) \<and> tk_present (ts ! j)) [0..<length ts]) = card ?I"
    by (subst distinct_card [symmetric]) (auto intro: arg_cong [where f = card])
  also have "{p. \<exists>t. tracked ts p = Some t \<and> P t} = (\<lambda>j. tk_peer (ts ! j)) ` ?I"
    by (auto simp: tracked_iff [OF assms])
  moreover have "inj_on (\<lambda>j. tk_peer (ts ! j)) ?I"
    using assms by (auto simp: inj_on_def trk_ok_def)
  ultimately show ?thesis by (simp add: card_image)
qed

lemma tracked_unseen:
  assumes "trk_ok ts"
  shows "trk_ok (map (\<lambda>t. t\<lparr> tk_seen := False \<rparr>) ts)"
    "tracked (map (\<lambda>t. t\<lparr> tk_seen := False \<rparr>) ts) p = map_option (\<lambda>t. t\<lparr> tk_seen := False \<rparr>) (tracked ts p)"
proof -
  show ok: "trk_ok (map (\<lambda>t. t\<lparr> tk_seen := False \<rparr>) ts)" using assms by (auto simp: trk_ok_def)
  have "find_slot (\<lambda>t. tk_present t \<and> tk_peer t = p) (map (\<lambda>t. t\<lparr> tk_seen := False \<rparr>) us) =
      find_slot (\<lambda>t. tk_present t \<and> tk_peer t = p) us" for us
    by (induction us) auto
  then show "tracked (map (\<lambda>t. t\<lparr> tk_seen := False \<rparr>) ts) p = map_option (\<lambda>t. t\<lparr> tk_seen := False \<rparr>) (tracked ts p)"
    by (auto simp: tracked_def option.map_comp dest: find_slot_Some intro!: option.map_cong)
qed

lemma option_filter_iff:
  assumes "\<And>t. a = Some t \<longleftrightarrow> b = Some t \<and> P t"
  shows "a = (case b of Some t \<Rightarrow> if P t then Some t else None | None \<Rightarrow> None)"
proof (cases a)
  case None
  with assms show ?thesis by (simp split: option.splits)
next
  case (Some t)
  with assms [of t] show ?thesis by simp
qed

lemma forget_effect:
  fixes now
  assumes ok: "trk_ok (u_trk ui)"
  defines "ui' \<equiv> fold (forget_gone now) [0..<OPFTP_UI_MAX_TRACK] ui"
  shows "trk_ok (u_trk ui')"
    "tracked (u_trk ui') p = (case tracked (u_trk ui) p of Some t \<Rightarrow> if tk_seen t then Some t else None | None \<Rightarrow> None)"
    "u_session_xfers ui' = u_session_xfers ui +
       of_nat (card {p. \<exists>t. tracked (u_trk ui) p = Some t \<and> \<not> tk_seen t \<and> tk_xfer_active t})"
proof -
  let ?ts = "u_trk ui"
  have l: "length ?ts = OPFTP_UI_MAX_TRACK" using ok by (simp add: trk_ok_def)
  have u: "ui' = fold (forget_gone now) [0..<length ?ts] ui" by (simp only: ui'_def l)
  have "set [0..<length ?ts] \<subseteq> {..<length ?ts}" by auto
  note f = forget_fold [OF distinct_upt this, of now, folded u]
  have e: "u_trk ui' = map (\<lambda>t. if gone t then blank_trk else t) ?ts"
    using f by (intro nth_equalityI) auto
  show ok': "trk_ok (u_trk ui')" using ok unfolding e trk_ok_def by (auto simp: blank_trk_def split: if_splits)
  show "tracked (u_trk ui') p = (case tracked ?ts p of Some t \<Rightarrow> if tk_seen t then Some t else None | None \<Rightarrow> None)"
  proof -
    have "tracked (u_trk ui') p = Some t \<longleftrightarrow> tracked ?ts p = Some t \<and> tk_seen t" for t
      unfolding tracked_iff [OF ok'] tracked_iff [OF ok]
      by (auto simp: e gone_def blank_trk_def split: if_splits)
    then show ?thesis by (intro option_filter_iff) blast
  qed
  have "filter (\<lambda>j. gone (?ts ! j) \<and> tk_xfer_active (?ts ! j)) [0..<length ?ts] =
      filter (\<lambda>j. (\<not> tk_seen (?ts ! j) \<and> tk_xfer_active (?ts ! j)) \<and> tk_present (?ts ! j)) [0..<length ?ts]"
    by (auto simp: gone_def intro!: filter_cong)
  with f gone_peers [OF ok, of "\<lambda>t. \<not> tk_seen t \<and> tk_xfer_active t"]
  show "u_session_xfers ui' = u_session_xfers ui +
       of_nat (card {p. \<exists>t. tracked ?ts p = Some t \<and> \<not> tk_seen t \<and> tk_xfer_active t})" by simp
qed

subsection \<open>A poll\<close>

lemma poll_effect:
  fixes now
  assumes "trk_ok (u_trk ui)" "distinct (map sc_peer (snap_clients ui))" "\<forall>c \<in> set (snap_clients ui). length (sc_peer c) < 64"
    "card (dom (tracked (u_trk ui)) \<union> sc_peer ` set (snap_clients ui)) \<le> OPFTP_UI_MAX_TRACK"
  defines "ui' \<equiv> opftp_ui_poll now ui"
  shows "trk_ok (u_trk ui') \<and>
    (\<forall>c \<in> set (snap_clients ui). \<exists>t. tracked (u_trk ui') (sc_peer c) = Some t \<and>
       shown_by (tracked (u_trk ui) (sc_peer c)) c t) \<and>
    dom (tracked (u_trk ui')) = sc_peer ` set (snap_clients ui) \<and>
    u_session_xfers ui' = u_session_xfers ui + of_nat (card (over (tracked (u_trk ui)) (snap_clients ui)))"
proof -
  let ?cs = "snap_clients ui" and ?T = "tracked (u_trk ui)"
  define ui0 where "ui0 = ui\<lparr> u_trk := map (\<lambda>t. t\<lparr> tk_seen := False \<rparr>) (u_trk ui) \<rparr>"
  define ui1 where "ui1 = fold (poll_client now) ?cs ui0"
  have ui': "ui' = fold (forget_gone now) [0..<OPFTP_UI_MAX_TRACK] ui1"
    by (simp add: ui'_def opftp_ui_poll_def Let_def ui1_def ui0_def snap_clients_def)
  have ok0: "trk_ok (u_trk ui0)" using tracked_unseen(1) [OF assms(1)] by (simp add: ui0_def)
  have T0: "tracked (u_trk ui0) p = map_option (\<lambda>t. t\<lparr> tk_seen := False \<rparr>) (?T p)" for p
    using tracked_unseen(2) [OF assms(1)] by (simp add: ui0_def)
  then have d0: "dom (tracked (u_trk ui0)) = dom ?T" by (auto simp: dom_def)
  note e1 = poll_clients_effect [OF ok0 assms(2,3) assms(4) [folded d0], where now = now, folded ui1_def]
  note e2 = forget_effect [OF e1(1), of now, folded ui']
  have o: "over (tracked (u_trk ui0)) ?cs = over ?T ?cs" by (auto simp: over_def T0)
  have t': "\<exists>t. tracked (u_trk ui') (sc_peer c) = Some t \<and> shown_by (?T (sc_peer c)) c t" if c: "c \<in> set ?cs" for c
  proof -
    from e1(2) [OF c] obtain t where "tracked (u_trk ui1) (sc_peer c) = Some t" "shown_by (?T (sc_peer c)) c t"
      unfolding T0 shown_by_unseen by blast
    moreover from this(2) have "tk_seen t" by (simp add: shown_by_def)
    ultimately show ?thesis by (simp add: e2(2))
  qed
  have out: "tracked (u_trk ui') p = None" if p: "p \<notin> sc_peer ` set ?cs" for p
    using e1(3) [OF p] by (cases "?T p") (auto simp: e2(2) T0)
  have s: "{p. \<exists>t. tracked (u_trk ui1) p = Some t \<and> \<not> tk_seen t \<and> tk_xfer_active t} = over ?T ?cs - sc_peer ` set ?cs"
  proof -
    have "(\<exists>t. tracked (u_trk ui1) p = Some t \<and> \<not> tk_seen t \<and> tk_xfer_active t) \<longleftrightarrow> p \<in> over ?T ?cs - sc_peer ` set ?cs" for p
    proof (cases "p \<in> sc_peer ` set ?cs")
      case True
      then obtain c t where "c \<in> set ?cs" "p = sc_peer c" "tracked (u_trk ui1) p = Some t" "tk_seen t"
        using e1(2) by (fastforce simp: shown_by_def)
      with True show ?thesis by (auto simp: shown_by_def)
    next
      case False
      with e1(3) [OF False] show ?thesis by (auto simp: T0 over_def)
    qed
    then show ?thesis by blast
  qed
  have "finite (over ?T ?cs)"
  proof (rule finite_subset)
    show "over ?T ?cs \<subseteq> tk_peer ` set (u_trk ui)" by (auto simp: over_def tracked_iff [OF assms(1)])
  qed simp
  then have "card (over ?T ?cs) = card (over ?T ?cs \<inter> sc_peer ` set ?cs) + card (over ?T ?cs - sc_peer ` set ?cs)"
    by (metis card_Diff_subset_Int card_mono Int_lower1 le_add_diff_inverse finite_Int)
  moreover have "u_session_xfers ui0 = u_session_xfers ui" by (simp add: ui0_def)
  ultimately have "u_session_xfers ui' = u_session_xfers ui + of_nat (card (over ?T ?cs))"
    using e2(3) e1(4) unfolding s o by simp
  moreover have "dom (tracked (u_trk ui')) = sc_peer ` set ?cs" using t' out by (auto simp: dom_def) force
  ultimately show ?thesis using e2(1) t' by blast
qed

end
