(* ===== verification/Ui_Claims.thy ===== *)
theory Ui_Claims
  imports Ui_Correct
begin

text \<open>
  What the user interface shows.  A poll brings the trackers in step with the snapshot when the
  clients come from different addresses; two connections from one address share a tracker, and then
  every poll counts a transfer that never ended.  The text field is a list of characters, the list
  cursor stays on a row, and a row that is selected is visible.
\<close>

section \<open>Two connections from one address\<close>

lemma upd_snap [simp]: "u_snap (upd_trk i f ui) = u_snap ui" "u_snap (hist_push op path n tot r now ui) = u_snap ui"
  "u_snap (ev_push text warn now ui) = u_snap ui"
  by (simp_all add: upd_trk_def hist_push_def ev_push_def Let_def)

lemma trk_find_snap: "trk_find p ui = (r, ui') \<Longrightarrow> u_snap ui' = u_snap ui"
  by (auto simp: trk_find_def split: option.splits)

lemma poll_xfer_snap [simp]: "u_snap (poll_xfer now i c ui) = u_snap ui"
  by (simp add: poll_xfer_def Let_def split: option.split)

lemma poll_snap [simp]: "u_snap (poll_client now c ui) = u_snap ui" "u_snap (forget_gone now i ui) = u_snap ui"
  by (auto simp: poll_client_def forget_gone_def Let_def dest: trk_find_snap split: option.split prod.split)

lemma fold_poll_snap [simp]: "u_snap (fold (poll_client now) cs ui) = u_snap ui" "u_snap (fold (forget_gone now) js ui) = u_snap ui"
  by (induction cs arbitrary: ui; simp) (induction js arbitrary: ui; simp)

lemma opftp_ui_poll_snap [simp]: "snap_clients (opftp_ui_poll now ui) = snap_clients ui"
  by (simp add: opftp_ui_poll_def snap_clients_def Let_def del: upt_rec_numeral)

definition idle_alone :: "string \<Rightarrow> ui \<Rightarrow> bool" where
  "idle_alone p ui \<longleftrightarrow> trk_ok (u_trk ui) \<and> dom (tracked (u_trk ui)) \<subseteq> {p} \<and>
     (\<forall>t. tracked (u_trk ui) p = Some t \<longrightarrow> \<not> tk_xfer_active t)"

lemma room_alone:
  assumes "trk_ok (u_trk ui)" "dom (tracked (u_trk ui)) \<subseteq> {p}"
  shows "room_for p (u_trk ui)"
proof -
  have u: "dom (tracked (u_trk ui)) \<union> {p} = {p}" using assms(2) by blast
  show ?thesis by (rule room_card [OF assms(1), where P = "{p}"]) (simp_all only: u, simp_all)
qed

lemma shared_tracker_poll:
  assumes "snap_clients ui = [a, b]" "sc_peer a = p" "sc_peer b = p" "length p < 64" "xfer_active a" "\<not> xfer_active b"
    "idle_alone p ui"
  shows "idle_alone p (opftp_ui_poll now ui) \<and> u_session_xfers (opftp_ui_poll now ui) = u_session_xfers ui + 1"
proof -
  define ui0 where "ui0 = ui\<lparr> u_trk := map (\<lambda>t. t\<lparr> tk_seen := False \<rparr>) (u_trk ui) \<rparr>"
  define ui1 where "ui1 = poll_client now a ui0"
  define ui2 where "ui2 = poll_client now b ui1"
  have e: "opftp_ui_poll now ui = fold (forget_gone now) [0..<OPFTP_UI_MAX_TRACK] ui2"
    using assms(1) by (simp add: opftp_ui_poll_def Let_def snap_clients_def ui0_def ui1_def ui2_def del: upt_rec_numeral)
  have ok: "trk_ok (u_trk ui)" and d: "dom (tracked (u_trk ui)) \<subseteq> {p}" using assms(7) by (auto simp: idle_alone_def)
  have ok0: "trk_ok (u_trk ui0)" using tracked_unseen(1) [OF ok] by (simp add: ui0_def)
  have T0: "tracked (u_trk ui0) q = map_option (\<lambda>t. t\<lparr> tk_seen := False \<rparr>) (tracked (u_trk ui) q)" for q
    using tracked_unseen(2) [OF ok] by (simp add: ui0_def)
  have d0: "dom (tracked (u_trk ui0)) \<subseteq> {p}" using d by (auto simp: T0 dom_def)
  have l: "length (sc_peer a) < 64" "length (sc_peer b) < 64" using assms by simp_all
  note p1 = poll_client_effect [OF ok0 l(1) room_alone [OF ok0 d0, folded assms(2)], of now, folded ui1_def, unfolded assms(2)]
  obtain t1 where t1: "tracked (u_trk ui1) = (tracked (u_trk ui0))(p \<mapsto> t1)" "shown_by (tracked (u_trk ui0) p) a t1" using p1(1) by blast
  have d1: "dom (tracked (u_trk ui1)) \<subseteq> {p}" using d0 by (auto simp: t1)
  note p2 = poll_client_effect [OF p1(2) l(2) room_alone [OF p1(2) d1, folded assms(3)], of now, folded ui2_def, unfolded assms(3)]
  obtain t2 where t2: "tracked (u_trk ui2) = (tracked (u_trk ui1))(p \<mapsto> t2)" "shown_by (tracked (u_trk ui1) p) b t2" using p2(1) by blast
  note f = forget_effect [OF p2(2), of now, folded e]
  have a: "tk_xfer_active t1" "\<not> tk_xfer_active t2" "tk_seen t2" using t1(2) t2(2) assms(5,6) by (auto simp: shown_by_def)
  have T2: "tracked (u_trk ui2) q = (if q = p then Some t2 else None)" for q using d1 by (auto simp: t2)
  have "u_session_xfers ui1 = u_session_xfers ui"
    using p1(3) assms(5) by (simp add: ui0_def)
  moreover have "u_session_xfers ui2 = u_session_xfers ui1 + 1" using p2(3) a assms(6) by (simp add: t1)
  moreover have "{q. \<exists>t. tracked (u_trk ui2) q = Some t \<and> \<not> tk_seen t \<and> tk_xfer_active t} = {}" by (auto simp: T2 a)
  ultimately show ?thesis
    using f a by (auto simp: idle_alone_def T2 dom_def split: if_splits)
qed

text \<open>Two connections from the same address, one transferring and one idle, share one tracker, and
  every poll of that unchanged situation records a finished transfer although none has ended.\<close>

lemma shared_address_counts_every_poll:
  assumes "snap_clients ui = [a, b]" "sc_peer a = p" "sc_peer b = p" "length p < 64" "xfer_active a" "\<not> xfer_active b"
    "idle_alone p ui"
  shows "u_session_xfers (fold opftp_ui_poll nows ui) = u_session_xfers ui + of_nat (length nows)"
  using assms
proof (induction nows arbitrary: ui)
  case (Cons now nows)
  note s = shared_tracker_poll [OF Cons(2-8), of now]
  with Cons(2) have "u_session_xfers (fold opftp_ui_poll nows (opftp_ui_poll now ui)) =
      u_session_xfers (opftp_ui_poll now ui) + of_nat (length nows)"
    by (intro Cons(1) [OF _ Cons(3-7)]) auto
  with s show ?case by simp
qed simp

section \<open>A concrete interface\<close>

lemma fresh_trackers: "trk_ok (u_trk (opftp_ui_init now))" "tracked (u_trk (opftp_ui_init now)) = Map.empty"
proof -
  have "find_slot (\<lambda>t. tk_present t \<and> tk_peer t = p) (replicate n blank_trk) = None" for p n
    by (auto simp: find_slot_None blank_trk_def)
  then show "tracked (u_trk (opftp_ui_init now)) = Map.empty"
    by (simp add: opftp_ui_init_def tracked_def fun_eq_iff)
  show "trk_ok (u_trk (opftp_ui_init now))" by (simp add: opftp_ui_init_def trk_ok_def blank_trk_def)
qed

definition demo_xfer_client :: "string \<Rightarrow> snapshot_client" where
  "demo_xfer_client p =
     \<lparr> sc_peer = p, sc_user = ''anonymous'', sc_cwd = ''/'', sc_logged_in = True, sc_xfer = Some (''RETR'', ''/a'', 10, 20) \<rparr>"

definition demo_idle_client :: "string \<Rightarrow> snapshot_client" where
  "demo_idle_client p =
     \<lparr> sc_peer = p, sc_user = ''anonymous'', sc_cwd = ''/'', sc_logged_in = True, sc_xfer = None \<rparr>"

definition demo_ui :: "snapshot_client list \<Rightarrow> ui" where
  "demo_ui cs = (opftp_ui_init 0)\<lparr> u_snap := \<lparr> sn_started = True, sn_port = 21, sn_root = ''/'', sn_workers = 2,
     sn_num_clients = length cs, sn_clients = cs \<rparr> \<rparr>"

lemma demo_ui_simps [simp]: "snap_clients (demo_ui cs) = cs" "u_trk (demo_ui cs) = u_trk (opftp_ui_init 0)"
  "u_session_xfers (demo_ui cs) = 0"
  by (simp_all add: demo_ui_def snap_clients_def opftp_ui_init_def)

text \<open>An instance of \<open>shared_address_counts_every_poll\<close>: three polls record three finished transfers.\<close>

lemma shared_address_example:
  "u_session_xfers (fold opftp_ui_poll [1, 2, 3] (demo_ui [demo_xfer_client ''10.0.0.2'', demo_idle_client ''10.0.0.2''])) = 3"
proof -
  let ?ui = "demo_ui [demo_xfer_client ''10.0.0.2'', demo_idle_client ''10.0.0.2'']"
  have "u_session_xfers (fold opftp_ui_poll [1, 2, 3] ?ui) = u_session_xfers ?ui + of_nat (length [1, 2, 3 :: 64 word])"
    by (rule shared_address_counts_every_poll [of _ "demo_xfer_client ''10.0.0.2''" "demo_idle_client ''10.0.0.2''" "''10.0.0.2''"])
      (simp_all add: demo_xfer_client_def demo_idle_client_def xfer_active_def idle_alone_def fresh_trackers)
  then show ?thesis by simp
qed

section \<open>Trackers and the snapshot\<close>

text \<open>C25: when the clients of the snapshot have different addresses, of fewer than 64 bytes, and these and the
  addresses tracked so far fit in the 24 trackers, a poll leaves one tracker per client and no other.  It shows
  the client's login, whether a transfer is running and its byte counts; the operation and path are those of the
  client's transfer if none was running at the last poll, and stay as they were if one was.  The counter of
  finished transfers grows by the number of addresses that had a transfer running at the last poll and have none
  now, because it ended or because the client is gone; a transfer that ended and was followed by another between
  two polls is not seen.\<close>

theorem poll_tracks_snapshot:
  assumes "trk_ok (u_trk ui)" "distinct (map sc_peer (snap_clients ui))" "\<forall>c \<in> set (snap_clients ui). length (sc_peer c) < 64"
    "card (dom (tracked (u_trk ui)) \<union> sc_peer ` set (snap_clients ui)) \<le> OPFTP_UI_MAX_TRACK"
  shows "trk_ok (u_trk (opftp_ui_poll now ui)) \<and>
    (\<forall>c \<in> set (snap_clients ui). \<exists>t. tracked (u_trk (opftp_ui_poll now ui)) (sc_peer c) = Some t \<and>
       shown_by (tracked (u_trk ui) (sc_peer c)) c t) \<and>
    dom (tracked (u_trk (opftp_ui_poll now ui))) = sc_peer ` set (snap_clients ui) \<and>
    u_session_xfers (opftp_ui_poll now ui) = u_session_xfers ui + of_nat (card (over (tracked (u_trk ui)) (snap_clients ui)))"
  using poll_effect [OF assms] .

text \<open>Witness of \<open>poll_tracks_snapshot\<close>: two clients of different addresses.\<close>

theorem poll_tracks_snapshot_witness:
  "dom (tracked (u_trk (opftp_ui_poll 1 (demo_ui [demo_xfer_client ''10.0.0.2'', demo_idle_client ''10.0.0.3''])))) =
     {''10.0.0.2'', ''10.0.0.3''} \<and>
   (\<exists>t. tracked (u_trk (opftp_ui_poll 1 (demo_ui [demo_xfer_client ''10.0.0.2'', demo_idle_client ''10.0.0.3'']))) ''10.0.0.2'' = Some t \<and>
      tk_xfer_op t = ''RETR'' \<and> tk_xfer_path t = ''/a'')"
proof -
  let ?cs = "[demo_xfer_client ''10.0.0.2'', demo_idle_client ''10.0.0.3'']"
  have p: "sc_peer (demo_xfer_client ''10.0.0.2'') = ''10.0.0.2''" "sc_peer (demo_idle_client ''10.0.0.3'') = ''10.0.0.3''"
    "sc_xfer (demo_xfer_client ''10.0.0.2'') = Some (''RETR'', ''/a'', 10, 20)"
    by (simp_all add: demo_xfer_client_def demo_idle_client_def)
  note c = poll_tracks_snapshot [of "demo_ui ?cs" 1]
  have d: "dom (tracked (u_trk (opftp_ui_poll 1 (demo_ui ?cs)))) = {''10.0.0.2'', ''10.0.0.3''}"
    using c by (simp add: fresh_trackers p)
  have "\<exists>t. tracked (u_trk (opftp_ui_poll 1 (demo_ui ?cs))) ''10.0.0.2'' = Some t \<and>
      shown_by None (demo_xfer_client ''10.0.0.2'') t"
    using c by (simp add: fresh_trackers p)
  with d show ?thesis by (auto simp: shown_by_def p xfer_label_def c_snprintf_def)
qed

section \<open>The text field\<close>

abbreviation cont_char :: "char \<Rightarrow> bool" where
  "cont_char c \<equiv> byte c AND 0xC0 = 0x80"

lemma encode_chars:
  assumes "scalar_value u"
  shows "\<exists>c cs. utf8_encode u = c # cs \<and> \<not> cont_char c \<and> (\<forall>d \<in> set cs. cont_char d)"
proof (cases "u < 0x80")
  case True
  then show ?thesis by (simp add: utf8_encode_def byte_masks c_code_char_of)
next
  case False
  then obtain need a ds where s: "seq_ok need a ds" "shift_all a ds = u" "utf8_range_ok need (of_nat u)"
    using scalar_seq [OF assms] by auto
  then have "utf8_encode u = utf8_seq need a ds" using encode_seq by blast
  moreover have "\<not> cont_char (char_of (lead_base need + a))"
    using s(1) by (auto simp: seq_ok_def lead_base_def lead_size_def byte_masks c_code_char_of)
  moreover have "cont_char (cont_byte d)" if "d \<in> set ds" for d
    using that s(1) by (auto simp: seq_ok_def list_all_iff byte_masks c_code_cont)
  ultimately show ?thesis by (auto simp: utf8_seq_def)
qed

lemma lead_index_run:
  "(\<And>i. k < i \<Longrightarrow> i \<le> k + j \<Longrightarrow> cont_char (b ! i)) \<Longrightarrow> \<not> cont_char (b ! k) \<Longrightarrow> lead_index b (k + j) = k"
proof (induction j)
  case 0
  then show ?case by (cases k) simp_all
qed simp

lemma lead_index_char:
  assumes "\<not> cont_char c" "\<forall>d \<in> set cs. cont_char d"
  shows "lead_index (b @ c # cs) (length b + length cs) = length b"
proof (rule lead_index_run)
  show "\<not> cont_char ((b @ c # cs) ! length b)" using assms(1) by simp
  show "cont_char ((b @ c # cs) ! i)" if "length b < i" "i \<le> length b + length cs" for i
    using that assms(2) by (auto simp: nth_append nth_Cons' intro!: nth_mem)
qed

definition edit_shows :: "nat list \<Rightarrow> ui_edit \<Rightarrow> bool" where
  "edit_shows us ed \<longleftrightarrow> ed_field ed \<noteq> OPFTP_UI_EDIT_NONE \<and> (\<forall>u \<in> set us. scalar_value u) \<and>
     ed_buf ed = concat (map utf8_encode us) \<and> ed_len ed = length (ed_buf ed) \<and> ed_len ed < OPFTP_UI_EDIT_MAX"

datatype edit_op = Type_char nat | Backspace

definition edit_do :: "edit_op \<Rightarrow> ui_edit \<Rightarrow> ui_edit" where
  "edit_do a ed = (case a of Type_char u \<Rightarrow> snd (opftp_ui_edit_type (Some (utf8_encode u)) ed) | Backspace \<Rightarrow> opftp_ui_edit_backspace ed)"

fun edit_spec :: "edit_op \<Rightarrow> nat list \<Rightarrow> nat list" where
  "edit_spec (Type_char u) us =
     (if u \<noteq> 0 \<and> length (concat (map utf8_encode (us @ [u]))) < OPFTP_UI_EDIT_MAX then us @ [u] else us)"
| "edit_spec Backspace us = butlast us"

lemma edit_backspace_shows:
  assumes "edit_shows us ed"
  shows "edit_shows (butlast us) (opftp_ui_edit_backspace ed)"
proof (cases us rule: rev_cases)
  case Nil
  with assms show ?thesis by (simp add: edit_shows_def opftp_ui_edit_backspace_def)
next
  case (snoc us' u)
  let ?b = "concat (map utf8_encode us')"
  from snoc assms obtain c cs where c: "utf8_encode u = c # cs" "\<not> cont_char c" "\<forall>d \<in> set cs. cont_char d"
    using encode_chars [of u] by (auto simp: edit_shows_def)
  have "ed_buf ed = ?b @ c # cs" "ed_len ed = length ?b + Suc (length cs)"
    using assms snoc c(1) by (auto simp: edit_shows_def)
  with assms snoc lead_index_char [OF c(2,3), of ?b] show ?thesis
    by (auto simp: edit_shows_def opftp_ui_edit_backspace_def Let_def)
qed

lemma char_of_eq_nul: "char_of n = CHR 0x00 \<longleftrightarrow> n mod 256 = (0::nat)"
proof
  assume "char_of n = CHR 0x00"
  then have "of_char (char_of n :: char) = (of_char (CHR 0x00) :: nat)" by simp
  then show "n mod 256 = 0" by simp
next
  assume "n mod 256 = 0"
  then have "(char_of n :: char) = char_of (n mod 256)" by simp
  with \<open>n mod 256 = 0\<close> show "char_of n = CHR 0x00" by (simp add: char_of_def)
qed

lemma encode_c_str:
  assumes "scalar_value u"
  shows "c_str (utf8_encode u) = (if u = 0 then [] else utf8_encode u)"
proof (cases "u < 0x80")
  case True
  then have e: "utf8_encode u = [char_of u]" by (simp add: utf8_encode_def)
  have "char_of u = CHR 0x00 \<longleftrightarrow> u = 0" using True by (simp add: char_of_eq_nul)
  with e show ?thesis by (simp add: c_str_def)
next
  case False
  have nul: "CHR 0x00 \<noteq> char_of (128 + n)" if "n < 128" for n :: nat
    using that char_of_eq_nul [of "128 + n"] by auto
  have "u div 64 < 32" if "u < 0x800" using that by (simp add: div_less_iff_less_mult)
  then have "CHR 0x00 \<noteq> char_of (0xC0 + u div 64)" if "u < 0x800" using nul [of "64 + u div 64"] that by simp
  moreover have "u div 4096 < 16" if "u < 0x10000" using that by (simp add: div_less_iff_less_mult)
  then have "CHR 0x00 \<noteq> char_of (0xE0 + u div 4096)" if "u < 0x10000" using nul [of "96 + u div 4096"] that by simp
  moreover have "u div 262144 < 5" using assms by (simp add: div_less_iff_less_mult scalar_value_def)
  then have "CHR 0x00 \<noteq> char_of (0xF0 + u div 262144)" using nul [of "112 + u div 262144"] by simp
  moreover have "CHR 0x00 \<noteq> char_of (128 + d mod 64)" for d :: nat using nul [of "d mod 64"] by (simp add: less_trans [of _ 64])
  ultimately have "CHR 0x00 \<notin> set (utf8_encode u)" using False by (simp add: utf8_encode_def)
  then have "\<forall>c \<in> set (utf8_encode u). c \<noteq> CHR 0x00" by metis
  then show ?thesis using False by (simp add: c_str_def takeWhile_eq_all_conv)
qed

lemma edit_step:
  assumes "edit_shows us ed" "\<And>u. a = Type_char u \<Longrightarrow> scalar_value u"
  shows "edit_shows (edit_spec a us) (edit_do a ed)"
proof (cases a)
  case (Type_char u)
  with assms show ?thesis by (auto simp: edit_shows_def edit_do_def opftp_ui_edit_type_def encode_c_str)
next
  case Backspace
  with edit_backspace_shows [OF assms(1)] show ?thesis by (simp add: edit_do_def)
qed

text \<open>C26: the text field refines a list of Unicode characters: typing a character appends it unless the field
  would grow to 256 bytes (the character 0, which ends a C string, is never added), backspace removes the last
  character whole, however many bytes it has, and the buffer always holds the encoding of the list.\<close>

theorem edit_refines_characters:
  assumes "edit_shows us ed" "\<forall>u. Type_char u \<in> set as \<longrightarrow> scalar_value u"
  shows "edit_shows (fold edit_spec as us) (fold edit_do as ed)"
  using assms
proof (induction as arbitrary: us ed)
  case (Cons a as)
  from Cons(3) have "edit_shows (edit_spec a us) (edit_do a ed)" by (intro edit_step [OF Cons(2)]) auto
  with Cons(1,3) show ?case by simp
qed simp

text \<open>Witness of \<open>edit_refines_characters\<close>: after a two-byte character and a letter are typed and the letter
  and the character deleted, the field is empty.\<close>

theorem edit_refines_characters_witness:
  "edit_shows [] (fold edit_do [Type_char 233, Type_char 65, Backspace, Backspace] (opftp_ui_edit_begin 0 None \<lparr> ed_field = -1, ed_buf = [], ed_len = 0 \<rparr>))"
proof -
  let ?ed = "opftp_ui_edit_begin 0 None \<lparr> ed_field = -1, ed_buf = [], ed_len = 0 \<rparr>"
  have "edit_shows (fold edit_spec [Type_char 233, Type_char 65, Backspace, Backspace] []) (fold edit_do [Type_char 233, Type_char 65, Backspace, Backspace] ?ed)"
    by (rule edit_refines_characters) (simp_all add: edit_shows_def opftp_ui_edit_begin_def scalar_value_def)
  then show ?thesis by (simp add: utf8_encode_def)
qed

section \<open>Cursor and scrolling\<close>

lemma sel_get_set [simp]: "sel_get ui \<noteq> None \<Longrightarrow> sel_get (sel_set s ui) = Some s"
  and sel_count_set [simp]: "sel_count (sel_set s ui) = sel_count ui"
  by (auto simp: sel_get_def sel_set_def sel_count_def snap_clients_def split: if_splits)

text \<open>C36: moving the cursor puts it on a row of the current view, or on none when the view has no row; and the
  scroll position computed for a cursor keeps the selected row on the screen and never scrolls past the ends.\<close>

theorem cursor_stays_visible:
  assumes "sel_get ui = Some s" "sel_count ui = tot" "0 < tot" "0 < visible"
    "sel_get (opftp_ui_sel_move dir ui) = Some s'" "y = opftp_ui_clamp_scroll s' y0 visible tot"
  shows "0 \<le> s' \<and> s' < tot \<and> y \<le> s' \<and> s' < y + visible \<and> 0 \<le> y \<and> (visible \<le> tot \<longrightarrow> y + visible \<le> tot)"
proof -
  have "s' = (if s + dir < 0 then 0 else if s + dir \<ge> tot then tot - 1 else s + dir)"
    using assms(1-5) by (auto simp: opftp_ui_sel_move_def Let_def split: if_splits)
  then have "0 \<le> s'" "s' < tot" using assms(3) by auto
  with assms(4,6) show ?thesis by (auto simp: opftp_ui_clamp_scroll_def Let_def)
qed

text \<open>Witness of \<open>cursor_stays_visible\<close>: the settings view of five rows, three of them visible.\<close>

theorem cursor_stays_visible_witness:
  "opftp_ui_clamp_scroll 4 0 3 5 \<le> 4 \<and> 4 < opftp_ui_clamp_scroll 4 0 3 5 + 3"
proof -
  let ?ui = "(demo_ui [])\<lparr> u_view := OPFTP_UI_V_SETTINGS, u_sel_settings := 3 \<rparr>"
  have "sel_get ?ui = Some 3" "sel_count ?ui = 5" by (simp_all add: sel_get_def sel_count_def)
  moreover from this have "sel_get (opftp_ui_sel_move 1 ?ui) = Some 4" by (simp add: opftp_ui_sel_move_def Let_def)
  ultimately show ?thesis using cursor_stays_visible [of ?ui 3 5 3 1 4 "opftp_ui_clamp_scroll 4 0 3 5" 0] by simp
qed

end
