(* ===== verification/Spec2Isabelle.thy ===== *)
theory Spec2Isabelle
  imports Httpd_Claims Transfer_Claims Ui_Claims
begin

text \<open>
  A verification library for OpenPS3FTP, an FTP server for the PlayStation 3 and for POSIX hosts.

  \<^bold>\<open>The program.\<close>  One reactor thread owns the listener, the control connections, the command handlers and
  the list of clients (\<^verbatim>\<open>src/src/server.c\<close>, \<^verbatim>\<open>client.c\<close>, \<^verbatim>\<open>commands.c\<close>, \<^verbatim>\<open>dispatch.c\<close>, \<^verbatim>\<open>pollset.c\<close>).  A command that
  moves data makes a job and puts it into a ring buffer; a pool of worker threads takes jobs out, opens the data
  connection (\<^verbatim>\<open>datachan.c\<close>) and runs the transfer (\<^verbatim>\<open>transfer.c\<close>, \<^verbatim>\<open>listing.c\<close>); the finished job comes back to the
  reactor as a completion, and replies of workers as a queue.  Clients are counted references shared by the
  reactor's list, jobs and queued replies.  All file access goes through a vtable of sixteen operations; the wrapper
  \<^verbatim>\<open>fs_rooted.c\<close> confines it to the root, \<^verbatim>\<open>fs_mem.c\<close> is a backend in memory.  Paths are resolved by \<^verbatim>\<open>resolve.c\<close>, names
  checked by \<^verbatim>\<open>utf8.c\<close>.  Around the server are a model of its user interface (\<^verbatim>\<open>src/app/ui.c\<close>) and a web console
  (\<^verbatim>\<open>src/plugin/httpd.c\<close>, started by \<^verbatim>\<open>plugin/main.c\<close>), which both read its status snapshot.

  \<^bold>\<open>Conventions.\<close>  A C string is a \<open>string\<close> without the terminator, \<open>snprintf\<close> to \<open>n\<close> bytes is \<open>c_snprintf n\<close>; a
  result 0 or \<open>-errno\<close> is an \<open>errno option\<close>; integers whose width matters are words.  What is outside the sources
  (system calls, the TLS library, the allocator, callbacks of the application) is a field of an environment record
  (\<open>env\<close>, \<open>cio\<close>, \<open>wenv\<close>, \<open>renv\<close>, \<open>lenv\<close>, \<open>henv\<close>) that acts on an outside state \<open>'x sys\<close>.  Handlers are functions on the
  state \<open>hst\<close> of one client with the server, which records the lines sent and the descriptors closed.

  \<^bold>\<open>Theories.\<close>
  \<^item> \<open>Opftp_Prelude\<close>: error numbers, characters, the C library functions used, shared lemmas and collections.
    \<open>Loops\<close>: the loop combinator with its invariant and termination rules.
  \<^item> \<open>Path_Resolve\<close>: \<open>opftp_path_resolve\<close>, \<open>opftp_path_parent\<close>; results are canonical, below the root, and, for a working directory
    given with the root's prefix, equal to a specification on component lists.  \<open>Utf8\<close>: \<open>opftp_utf8_valid\<close> accepts exactly the encodings of scalar values.
    \<open>Ftp_Time\<close>, \<open>Listing\<close>: times and LIST and MLSD lines, with round trips.
  \<^item> \<open>Dispatch\<close> (locale \<open>command_registry\<close>), \<open>Pollset\<close> (locale \<open>handle_map\<close>), \<open>Job_Queue\<close> (locale \<open>bounded_queue\<close>): the tables,
    each interpreted on the code's arrays.  Growing the poll set takes two reallocations; when only one fails the code
    frees an array it goes on using, which the model records as \<open>ps_dangling\<close> and the hypothesis \<open>realloc_even\<close> excludes.
  \<^item> \<open>Fs_Vtable\<close>, \<open>Fs_Rooted\<close> (locale \<open>confined_fs\<close>), \<open>Fs_Contract\<close>: the file system interface, the wrapper, and what transfers
    rely on.  \<open>Fs_Mem\<close>, \<open>Fs_Mem_Tree\<close>, \<open>Fs_Mem_Correct\<close>, \<open>Fs_Mem_Spec\<close>: the backend in memory on a store of numbered nodes; it
    stays a tree, satisfies the contract, and refines a map from paths to files.  A call through a handle to a freed node
    is undefined in the code; \<open>m_dangling\<close> records it.
  \<^item> \<open>Server_State\<close>, \<open>Commands_Base\<close>, \<open>Commands_Session\<close>, \<open>Commands_Files\<close>, \<open>Commands_Data\<close>, \<open>Commands\<close>: all command handlers of
    \<^verbatim>\<open>commands.c\<close> and their table.  \<open>Command_Steps\<close>: every handler is a sequence of primitive steps, from which the rest
    follows by rule induction.  \<open>Command_Replies\<close>: one final reply per command.
  \<^item> \<open>Client_Io\<close>, \<open>Session\<close>: input, framing within the 4096 bytes of the read buffer, output and events of a control
    connection.  \<open>Session_Invariant\<close>, \<open>Session_Input\<close>, \<open>Session_Gate\<close>, \<open>Session_Steps\<close>: the invariant of a session, that no
    command adds to the input still to come, the login gate, termination.
  \<^item> \<open>Data_Channel\<close>: connecting, accepting, the checks of the other end's address, and completion; that data connections
    lead to the peer of the control connection is shown in \<open>Commands_Base\<close>, from the transfer command on.
    \<open>Transfer_Loops\<close>, \<open>Transfer_Run\<close>: the worker.  \<open>Transfer_Correct\<close>, \<open>Transfer_Live\<close>, \<open>Transfer_Claims\<close>: what was sent
    and stored, copies, cancellation, and that transfers end.
  \<^item> \<open>Reactor\<close>: the loop as functions.  \<open>Reactor_Steps\<close>: the loop as a machine whose steps interleave with those of workers and
    callers; the functions are runs of the machine.  \<open>Reactor_Refs\<close>, \<open>Reactor_Inv\<close>, \<open>Reactor_Machine\<close>: reference counts
    equal the number of holders in every reachable state.  \<open>Reactor_Claims\<close>: no use after free, jobs, shutdown,
    order of replies, snapshots.
  \<^item> \<open>Lifecycle\<close>, \<open>Lifecycle_Correct\<close>, \<open>Lifecycle_Claims\<close>: creation, configuration, start, stop and destruction around the
    reactor, what a stop releases, and three ways in which they go wrong.
  \<^item> \<open>Ui\<close>, \<open>Ui_Correct\<close> (locale \<open>recent_log\<close>, for both rings), \<open>Ui_Claims\<close>: the user interface model.
    \<open>Httpd\<close>, \<open>Httpd_Claims\<close>: the web console, the plugin, and the text the page (\<^verbatim>\<open>app/webui/app.js\<close>) posts to set the root.

  \<^bold>\<open>Loops and bounds.\<close>  Loops over data are structural recursion; loops that depend on the outside are \<open>iterate\<close>, whose
  value is \<open>None\<close> when they do not end, and for which termination is a theorem where it holds (events of a connection,
  teardown, transfers over a live connection), or functions with a termination proof (waits with a timeout, requests, accepted
  connections).  Reading a directory is bounded by \<open>e_dir_bound\<close>, the number of entries the backend gives out at most;
  copying a tree by the nesting depth of 32 that the code checks itself.

  \<^bold>\<open>Not modelled.\<close>  The POSIX and PS3 backends, the TLS glue and the thread layer (\<^verbatim>\<open>fs_posix.c\<close>, \<^verbatim>\<open>fs_ps3.c\<close>, \<^verbatim>\<open>tls.c\<close>,
  \<^verbatim>\<open>thread.c\<close>) are single calls into libraries that are not part of the sources; the models take their operations as
  parameters.  The renderers, mains and the web page (\<^verbatim>\<open>src/app\<close> but for \<^verbatim>\<open>ui.c\<close>) draw and read keys.  The legacy facade and the
  old command set (\<^verbatim>\<open>src/legacy\<close>, \<^verbatim>\<open>src/feat\<close>) convert between interfaces for old applications.  Log messages, floating point
  (the transfer rate is an exact rational, and the two functions that print sizes and rates are left out) and the
  PS3 variants of code that has a host variant are left out.  Threads interleave at the granularity of the critical
  sections; the memory model below that, and the races of the code on fields it reads without a lock, are not.
\<close>

end
